(* ===== verification/Prelude.thy ===== *)
theory Prelude
  imports Complex_Main
begin

text \<open>
  Shared vocabulary of the development: the result type of operations that may raise,
  sequencing of such operations, and tables as lists of rows with the lookups and
  in-place updates that the persistence components use. Nothing here is specific to one
  component; the generic lemmas are declared so that component proofs are short.
\<close>

named_theorems result_simps \<open>facts that open up a successful chain of raising operations\<close>
named_theorems table_simps \<open>facts on lookups and updates of tables\<close>
named_theorems inv_intros \<open>preservation facts of the components' invariants\<close>

section \<open>Operations that may raise\<close>

text \<open>
  A call either raises (\<open>Inl e\<close>) or returns (\<open>Inr x\<close>). Sequencing runs the second call
  on the value of the first and propagates an exception unchanged.
\<close>

fun and_then :: "'e + 'a \<Rightarrow> ('a \<Rightarrow> 'e + 'b) \<Rightarrow> 'e + 'b" where
  "and_then (Inl e) f = Inl e"
| "and_then (Inr x) f = f x"

text \<open>A guard: raise \<open>e\<close> unless the condition holds.\<close>

definition ensure :: "bool \<Rightarrow> 'e \<Rightarrow> 'e + unit" where
  "ensure b e = (if b then Inr () else Inl e)"

text \<open>A loop that applies a raising function to every element and collects the results.\<close>

fun traverse :: "('a \<Rightarrow> 'e + 'b) \<Rightarrow> 'a list \<Rightarrow> 'e + 'b list" where
  "traverse f [] = Inr []"
| "traverse f (x # xs) = and_then (f x) (\<lambda>y. and_then (traverse f xs) (\<lambda>ys. Inr (y # ys)))"

text \<open>Whether a call returns, and the value it returns.\<close>

definition returns :: "'e + 'a \<Rightarrow> bool" where
  "returns r = (case r of Inl _ \<Rightarrow> False | Inr _ \<Rightarrow> True)"

lemma and_then_Inr_iff [result_simps]:
  "and_then m f = Inr y \<longleftrightarrow> (\<exists>x. m = Inr x \<and> f x = Inr y)"
  by (cases m) auto

lemma and_then_Inl_iff:
  "and_then m f = Inl e \<longleftrightarrow> m = Inl e \<or> (\<exists>x. m = Inr x \<and> f x = Inl e)"
  by (cases m) auto

lemma and_then_Inr_right [simp]: "and_then m Inr = m"
  by (cases m) auto

lemma and_then_assoc: "and_then (and_then m f) g = and_then m (\<lambda>x. and_then (f x) g)"
  by (cases m) auto

lemma ensure_Inr_iff [result_simps]: "ensure b e = Inr u \<longleftrightarrow> b"
  by (simp add: ensure_def)

lemma ensure_Inl_iff: "ensure b e = Inl e' \<longleftrightarrow> \<not> b \<and> e' = e"
  by (auto simp: ensure_def)

lemma ensure_True [simp]: "ensure True e = Inr ()"
  by (simp add: ensure_def)

lemma ensure_False [simp]: "ensure False e = Inl e"
  by (simp add: ensure_def)

lemma if_Inl_Inr_iff [result_simps]: "(if b then Inl e else r) = Inr y \<longleftrightarrow> \<not> b \<and> r = Inr y"
  by simp

lemma returns_Inr [simp]: "returns (Inr x)"
  by (simp add: returns_def)

lemma returns_Inl [simp]: "\<not> returns (Inl e)"
  by (simp add: returns_def)

lemma returns_iff: "returns r \<longleftrightarrow> (\<exists>x. r = Inr x)"
  by (cases r) auto

lemma traverse_Inr_iff:
  "traverse f xs = Inr ys \<longleftrightarrow> list_all2 (\<lambda>x y. f x = Inr y) xs ys"
  by (induction xs arbitrary: ys) (auto simp: result_simps list_all2_Cons1)

lemma traverse_length: "traverse f xs = Inr ys \<Longrightarrow> length ys = length xs"
  by (simp add: traverse_Inr_iff list_all2_lengthD)

lemma traverse_total:
  "(\<And>x. x \<in> set xs \<Longrightarrow> f x = Inr (g x)) \<Longrightarrow> traverse f xs = Inr (map g xs)"
  by (induction xs) auto

section \<open>Tables\<close>

text \<open>
  A table is a list of rows. \<open>find\<close> selects at most one row, \<open>update_where\<close> writes the
  matching rows in place.
\<close>

definition update_where :: "('r \<Rightarrow> bool) \<Rightarrow> ('r \<Rightarrow> 'r) \<Rightarrow> 'r list \<Rightarrow> 'r list" where
  "update_where P f rows = map (\<lambda>r. if P r then f r else r) rows"

lemma update_where_Nil [simp]: "update_where P f [] = []"
  by (simp add: update_where_def)

lemma update_where_Cons [simp]:
  "update_where P f (r # rs) = (if P r then f r else r) # update_where P f rs"
  by (simp add: update_where_def)

lemma length_update_where [simp]: "length (update_where P f rows) = length rows"
  by (simp add: update_where_def)

lemma set_update_where [table_simps]:
  "r \<in> set (update_where P f rows) \<longleftrightarrow> (\<exists>r0\<in>set rows. r = (if P r0 then f r0 else r0))"
  by (auto simp: update_where_def)

lemma map_update_where_key [table_simps]:
  "(\<And>r. P r \<Longrightarrow> k (f r) = k r) \<Longrightarrow> map k (update_where P f rows) = map k rows"
  by (auto simp: update_where_def)

lemma update_where_none: "(\<And>r. r \<in> set rows \<Longrightarrow> \<not> P r) \<Longrightarrow> update_where P f rows = rows"
  by (induction rows) auto

lemma list_all_update_where:
  "list_all Q rows \<Longrightarrow> (\<And>r. r \<in> set rows \<Longrightarrow> P r \<Longrightarrow> Q r \<Longrightarrow> Q (f r)) \<Longrightarrow> list_all Q (update_where P f rows)"
  by (induction rows) auto

lemma find_SomeD: "List.find P rows = Some r \<Longrightarrow> r \<in> set rows \<and> P r"
  by (induction rows) (auto split: if_splits)

lemma find_None_iff': "List.find P rows = None \<longleftrightarrow> (\<forall>r\<in>set rows. \<not> P r)"
  by (induction rows) auto

lemma find_update_where_same:
  assumes "\<And>r. P (f r) = P r"
  shows "List.find P (update_where P f rows) = map_option f (List.find P rows)"
  by (induction rows) (auto simp: assms)

lemma find_update_where_other:
  assumes "\<And>r. P r \<Longrightarrow> \<not> Q r" and "\<And>r. P r \<Longrightarrow> \<not> Q (f r)"
  shows "List.find Q (update_where P f rows) = List.find Q rows"
  by (induction rows) (auto simp: assms)

lemma distinct_map_inj_on: "distinct (map k rows) \<Longrightarrow> r \<in> set rows \<Longrightarrow> r' \<in> set rows \<Longrightarrow> k r = k r' \<Longrightarrow> r = r'"
  by (induction rows) (auto simp: image_iff)

lemma find_unique_key:
  "distinct (map k rows) \<Longrightarrow> r \<in> set rows \<Longrightarrow> List.find (\<lambda>x. k x = k r) rows = Some r"
  by (induction rows) (auto simp: image_iff)

lemma count_filter_le_length: "length (filter P xs) \<le> length xs"
  by (rule length_filter_le)

section \<open>Insertion-ordered dictionaries\<close>

text \<open>
  A dict is an association list in insertion order with distinct keys; assigning an existing key
  keeps its position.
\<close>

fun dict_set :: "'k \<Rightarrow> 'v \<Rightarrow> ('k \<times> 'v) list \<Rightarrow> ('k \<times> 'v) list" where
  "dict_set k v [] = [(k, v)]"
| "dict_set k v ((k', v') # d) = (if k' = k then (k, v) # d else (k', v') # dict_set k v d)"

definition dict_merge :: "('k \<times> 'v) list \<Rightarrow> ('k \<times> 'v) list \<Rightarrow> ('k \<times> 'v) list" where
  "dict_merge d e = fold (\<lambda>(k, v) acc. dict_set k v acc) e d"

lemma map_of_dict_set [simp]: "map_of (dict_set k v d) = (map_of d)(k \<mapsto> v)"
  by (induction d) (auto simp: fun_eq_iff)

lemma keys_dict_set: "fst ` set (dict_set k v d) = insert k (fst ` set d)"
  by (simp flip: dom_map_of_conv_image_fst)

lemma distinct_dict_set: "distinct (map fst d) \<Longrightarrow> distinct (map fst (dict_set k v d))"
proof (induction d)
  case (Cons x d)
  have "fst x \<notin> set (map fst (dict_set k v d))" if "fst x \<noteq> k"
    using Cons.prems that by (simp add: keys_dict_set)
  with Cons show ?case by (cases x) auto
qed simp

lemma set_dict_set:
  "distinct (map fst d) \<Longrightarrow> set (dict_set k v d) = insert (k, v) {x \<in> set d. fst x \<noteq> k}"
proof (induction d)
  case (Cons y d)
  then show ?case by (cases y) (force simp: image_iff)
qed simp

lemma set_dict_setD: "x \<in> set (dict_set k v d) \<Longrightarrow> x = (k, v) \<or> x \<in> set d"
proof (induction d)
  case (Cons y d)
  then show ?case by (cases y) (auto split: if_splits)
qed simp

lemma dict_set_new: "k \<notin> fst ` set d \<Longrightarrow> dict_set k v d = d @ [(k, v)]"
  by (induction d) auto

lemma map_of_dict_merge: "distinct (map fst e) \<Longrightarrow> map_of (dict_merge d e) = map_of d ++ map_of e"
proof (induction e arbitrary: d)
  case (Cons x e)
  obtain k v where x: "x = (k, v)" by (cases x)
  then have "map_of (dict_merge d (x # e)) = map_of (dict_set k v d) ++ map_of e"
    using Cons by (simp add: dict_merge_def)
  moreover have "map_of e k = None" using Cons.prems x by (simp add: map_of_eq_None_iff)
  ultimately show ?case using x by (auto simp: fun_eq_iff map_add_def split: option.splits)
qed (simp add: dict_merge_def)

lemma set_dict_merge: "set (dict_merge d e) \<subseteq> set d \<union> set e"
proof (induction e arbitrary: d)
  case (Cons x e)
  obtain k v where x: "x = (k, v)" by (cases x)
  have "set (dict_merge d (x # e)) \<subseteq> set (dict_set k v d) \<union> set e"
    using Cons.IH [of "dict_set k v d"] x by (simp add: dict_merge_def)
  also have "\<dots> \<subseteq> set d \<union> set (x # e)" using x by (auto dest: set_dict_setD)
  finally show ?case .
qed (simp add: dict_merge_def)

lemma distinct_dict_merge: "distinct (map fst d) \<Longrightarrow> distinct (map fst (dict_merge d e))"
proof (induction e arbitrary: d)
  case (Cons x e)
  obtain k v where x: "x = (k, v)" by (cases x)
  show ?case using Cons.IH [OF distinct_dict_set [OF Cons.prems, of k v]] x
    by (simp add: dict_merge_def)
qed (simp add: dict_merge_def)

section \<open>Invariants of step relations\<close>

text \<open>
  The interface every stateful component is verified through: initial states, one step relation and
  an invariant that the initial states satisfy and every step keeps. Clients use the reachability
  facts; each component interprets the locale on its own operations.
\<close>

locale invariant_machine =
  fixes initial :: "'s \<Rightarrow> bool"
    and step :: "'s \<Rightarrow> 's \<Rightarrow> bool"
    and inv :: "'s \<Rightarrow> bool"
  assumes inv_initial: "initial s \<Longrightarrow> inv s"
    and inv_step: "inv s \<Longrightarrow> step s t \<Longrightarrow> inv t"
begin

lemma inv_steps: "step\<^sup>*\<^sup>* s t \<Longrightarrow> inv s \<Longrightarrow> inv t"
  by (induction rule: rtranclp_induct) (auto intro: inv_step)

lemma inv_reachable: "initial s \<Longrightarrow> step\<^sup>*\<^sup>* s t \<Longrightarrow> inv t"
  by (blast intro: inv_steps inv_initial)

lemma step_measure_le:
  assumes "\<And>s t. inv s \<Longrightarrow> step s t \<Longrightarrow> (f s :: 'a::preorder) \<le> f t"
  shows "step\<^sup>*\<^sup>* s t \<Longrightarrow> inv s \<Longrightarrow> f s \<le> f t"
proof (induction rule: rtranclp_induct)
  case (step y z)
  then have "inv y" by (blast intro: inv_steps)
  with step assms show ?case by (blast intro: order_trans)
qed simp

end

text \<open>A machine with a fact that, once true of a state, every step keeps.\<close>

locale stable_machine = invariant_machine +
  fixes stable :: "'s \<Rightarrow> bool"
  assumes stable_step: "inv s \<Longrightarrow> step s t \<Longrightarrow> stable s \<Longrightarrow> stable t"
begin

lemma stable_steps: "step\<^sup>*\<^sup>* s t \<Longrightarrow> inv s \<Longrightarrow> stable s \<Longrightarrow> inv t \<and> stable t"
  by (induction rule: rtranclp_induct) (auto intro: inv_step stable_step)

end

end
