(* ===== verification/Python_Base.thy ===== *)
theory Python_Base
  imports
    Prelude
    "HOL-Library.Word"
    "HOL-Library.Char_ord"
    "HOL-Library.List_Lexorder"
    "HOL-Library.Product_Lexorder"
begin

text \<open>
  The parts of Python and its standard library that the program's code rests on, as
  executable definitions: text, UUIDs, finite floats, instants and durations with their
  range checks, and JSON values.

  Text is \<^typ>\<open>string\<close>, a list of code points below 256 (Latin-1); the order on strings is
  Python's (lexicographic by code point). Byte strings use the same type. Time is counted
  in microseconds, the resolution of \<^verbatim>\<open>datetime\<close> and \<^verbatim>\<open>timedelta\<close>; an aware datetime is its
  UTC instant. A finite float is the rational number it denotes.
\<close>

section \<open>Identifiers and text\<close>

type_synonym uuid = "128 word"
type_synonym bytes = string

definition code :: "char \<Rightarrow> nat" where
  "code c = of_char c"

definition in_range :: "nat \<Rightarrow> nat \<Rightarrow> char \<Rightarrow> bool" where
  "in_range lo hi c \<longleftrightarrow> lo \<le> code c \<and> code c \<le> hi"

definition is_lower :: "char \<Rightarrow> bool" where "is_lower c = in_range 97 122 c"
definition is_upper :: "char \<Rightarrow> bool" where "is_upper c = in_range 65 90 c"
definition is_digit :: "char \<Rightarrow> bool" where "is_digit c = in_range 48 57 c"
definition is_alnum :: "char \<Rightarrow> bool" where
  "is_alnum c \<longleftrightarrow> is_lower c \<or> is_upper c \<or> is_digit c"
definition is_hex_lower :: "char \<Rightarrow> bool" where
  "is_hex_lower c \<longleftrightarrow> is_digit c \<or> in_range 97 102 c"

text \<open>
  Evaluation reads the bits of a character instead of counting up to its code; the right-hand sides
  below are what \<open>code_simp\<close> computes with.
\<close>

lemma is_lower_code [code]: "is_lower (Char b0 b1 b2 b3 b4 b5 b6 b7) \<longleftrightarrow>
    \<not> b7 \<and> b6 \<and> b5 \<and> (b4 \<or> b3 \<or> b2 \<or> b1 \<or> b0) \<and> \<not> (b4 \<and> b3 \<and> (b2 \<or> b1 \<and> b0))"
  by (cases b0; cases b1; cases b2; cases b3; cases b4; cases b5; cases b6; cases b7)
     (simp_all add: is_lower_def in_range_def code_def)

lemma is_upper_code [code]: "is_upper (Char b0 b1 b2 b3 b4 b5 b6 b7) \<longleftrightarrow>
    \<not> b7 \<and> b6 \<and> \<not> b5 \<and> (b4 \<or> b3 \<or> b2 \<or> b1 \<or> b0) \<and> \<not> (b4 \<and> b3 \<and> (b2 \<or> b1 \<and> b0))"
  by (cases b0; cases b1; cases b2; cases b3; cases b4; cases b5; cases b6; cases b7)
     (simp_all add: is_upper_def in_range_def code_def)

lemma is_digit_code [code]: "is_digit (Char b0 b1 b2 b3 b4 b5 b6 b7) \<longleftrightarrow>
    \<not> b7 \<and> \<not> b6 \<and> b5 \<and> b4 \<and> \<not> (b3 \<and> (b2 \<or> b1))"
  by (cases b0; cases b1; cases b2; cases b3; cases b4; cases b5; cases b6; cases b7)
     (simp_all add: is_digit_def in_range_def code_def)

lemma code_less_128 [code_unfold]: "code c < 128 \<longleftrightarrow> \<not> digit7 c"
  by (cases c) (auto simp: code_def of_char_def split: if_splits)

lemma code_less_32 [code_unfold]: "code c < 32 \<longleftrightarrow> \<not> digit7 c \<and> \<not> digit6 c \<and> \<not> digit5 c"
  by (cases c) (auto simp: code_def of_char_def split: if_splits)

text \<open>The class \<^verbatim>\<open>[\x00-\x1f\x7f]\<close> that several components reject.\<close>

definition is_control :: "char \<Rightarrow> bool" where
  "is_control c \<longleftrightarrow> code c < 32 \<or> code c = 127"

lemma is_control_code [code]:
  "is_control c \<longleftrightarrow> \<not> digit7 c \<and> \<not> digit6 c \<and> \<not> digit5 c \<or> c = CHR 0x7F"
  by (cases c) (auto simp: is_control_def code_def of_char_def split: if_splits)

definition has_control :: "string \<Rightarrow> bool" where
  "has_control s = list_ex is_control s"

text \<open>\<^verbatim>\<open>str.isspace\<close> on Latin-1, the characters \<^verbatim>\<open>str.strip\<close> and \<^verbatim>\<open>str.split\<close> remove.\<close>

definition is_space :: "char \<Rightarrow> bool" where
  "is_space c \<longleftrightarrow> in_range 9 13 c \<or> in_range 28 32 c \<or> code c = 133 \<or> code c = 160"

lemma is_space_code [code]:
  "is_space c \<longleftrightarrow> c \<in> set [CHR 9, CHR 10, CHR 11, CHR 12, CHR 13, CHR 28, CHR 29, CHR 30, CHR 31, CHR 32,
     CHR 133, CHR 160]"
proof (cases c)
  case (Char b0 b1 b2 b3 b4 b5 b6 b7)
  then show ?thesis
    by (cases b0; cases b1; cases b2; cases b3; cases b4; cases b5; cases b6; cases b7)
       (simp_all add: is_space_def in_range_def code_def)
qed

definition strip :: "string \<Rightarrow> string" where
  "strip s = rev (dropWhile is_space (rev (dropWhile is_space s)))"

text \<open>\<^verbatim>\<open>str.lower\<close> on Latin-1: A-Z, and the accented capitals apart from the product sign.\<close>

definition lower_char :: "char \<Rightarrow> char" where
  "lower_char c =
     (if is_upper c \<or> (in_range 192 222 c \<and> code c \<noteq> 215) then char_of (code c + 32) else c)"

definition lower :: "string \<Rightarrow> string" where
  "lower s = map lower_char s"

text \<open>
  \<^verbatim>\<open>str.upper\<close> on Latin-1: a-z, the accented lower-case letters apart from the division sign,
  and sharp s, which becomes two letters. The capitals of the micro sign and of y with
  diaeresis lie outside Latin-1; the two characters are left as they are.
\<close>

definition upper_char :: "char \<Rightarrow> string" where
  "upper_char c =
     (if is_lower c \<or> (in_range 224 254 c \<and> code c \<noteq> 247) then [char_of (code c - 32)]
      else if code c = 223 then ''SS'' else [c])"

definition upper :: "string \<Rightarrow> string" where
  "upper s = concat (map upper_char s)"

text \<open>UTF-8: one byte below 128, two bytes up to 255.\<close>

fun utf8 :: "string \<Rightarrow> bytes" where
  "utf8 [] = []"
| "utf8 (c # cs) =
     (if code c < 128 then c # utf8 cs
      else char_of (192 + code c div 64) # char_of (128 + code c mod 64) # utf8 cs)"

text \<open>
  The pattern shape \<^verbatim>\<open>^[A][B]{0,n}$\<close> under \<^verbatim>\<open>fullmatch\<close>: a first character of class \<open>A\<close> and
  at most \<open>n\<close> further characters of class \<open>B\<close>.
\<close>

definition head_tail_match :: "(char \<Rightarrow> bool) \<Rightarrow> (char \<Rightarrow> bool) \<Rightarrow> nat \<Rightarrow> string \<Rightarrow> bool" where
  "head_tail_match A B n s =
     (case s of [] \<Rightarrow> False | c # cs \<Rightarrow> A c \<and> list_all B cs \<and> length cs \<le> n)"

lemma head_tail_match_length: "head_tail_match A B n s \<Longrightarrow> 0 < length s \<and> length s \<le> Suc n"
  by (auto simp: head_tail_match_def split: list.splits)

lemma head_tail_match_chars:
  "head_tail_match A B n s \<Longrightarrow> c \<in> set s \<Longrightarrow> A c \<or> B c"
  by (auto simp: head_tail_match_def list_all_iff split: list.splits)

text \<open>\<^verbatim>\<open>str.split\<close> at a separator character and \<^verbatim>\<open>str.partition\<close>.\<close>

fun split_on :: "char \<Rightarrow> string \<Rightarrow> string list" where
  "split_on sep [] = [[]]"
| "split_on sep (c # cs) =
     (if c = sep then [] # split_on sep cs
      else (case split_on sep cs of [] \<Rightarrow> [[c]] | w # ws \<Rightarrow> (c # w) # ws))"

definition partition_at :: "char \<Rightarrow> string \<Rightarrow> string \<times> string \<times> string" where
  "partition_at sep s =
     (let pre = takeWhile (\<lambda>c. c \<noteq> sep) s; rest = dropWhile (\<lambda>c. c \<noteq> sep) s
      in if rest = [] then (s, [], []) else (pre, [sep], tl rest))"

lemma split_on_nonempty [simp]: "split_on sep s \<noteq> []"
  by (induction s) (auto split: list.splits)

text \<open>Decimal and hexadecimal rendering of integers and UUIDs.\<close>

definition digit_char :: "int \<Rightarrow> char" where
  "digit_char d = ''0123456789abcdef'' ! nat d"

function pos_str :: "int \<Rightarrow> string" where
  "pos_str n = (if n < 10 then [digit_char n] else pos_str (n div 10) @ [digit_char (n mod 10)])"
  by auto
termination by (relation "measure nat") auto

declare pos_str.simps [simp del]

definition int_str :: "int \<Rightarrow> string" where
  "int_str i = (if i < 0 then CHR ''-'' # pos_str (- i) else pos_str i)"

fun hex_digits :: "nat \<Rightarrow> int \<Rightarrow> string" where
  "hex_digits 0 n = []"
| "hex_digits (Suc w) n = hex_digits w (n div 16) @ [digit_char (n mod 16)]"

definition uuid_hex :: "uuid \<Rightarrow> string" where
  "uuid_hex u = hex_digits 32 (uint u)"

text \<open>\<^verbatim>\<open>str()\<close> of a UUID: groups of 8, 4, 4, 4 and 12 hexadecimal digits.\<close>

definition uuid_str :: "uuid \<Rightarrow> string" where
  "uuid_str u =
     (let h = uuid_hex u
      in take 8 h @ ''-'' @ take 4 (drop 8 h) @ ''-'' @ take 4 (drop 12 h) @ ''-'' @ take 4 (drop 16 h) @ ''-'' @ drop 20 h)"

lemma length_hex_digits [simp]: "length (hex_digits w n) = w"
  by (induction w arbitrary: n) auto

section \<open>Finite floats\<close>

text \<open>
  A Python float: a finite value, an infinity or a NaN. Integers converted by \<^verbatim>\<open>float()\<close> are
  exact up to \<open>2 ^ 53\<close>; the conversion raises from \<open>2 ^ 1024\<close> on.
\<close>

datatype pyfloat = Fin rat | PosInf | NegInf | NotANumber

fun is_finite :: "pyfloat \<Rightarrow> bool" where
  "is_finite (Fin q) = True"
| "is_finite _ = False"

fun the_fin :: "pyfloat \<Rightarrow> rat" where
  "the_fin (Fin q) = q"
| "the_fin _ = 0"

text \<open>\<^verbatim>\<open>round\<close> to the nearest integer, ties to even.\<close>

definition round_half_even :: "rat \<Rightarrow> int" where
  "round_half_even q =
     (let f = \<lfloor>q\<rfloor>; d = q - of_int f
      in if d < 1 / 2 then f else if 1 / 2 < d then f + 1 else if even f then f else f + 1)"

lemma round_half_even_of_int [simp]: "round_half_even (of_int n) = n"
  by (simp add: round_half_even_def Let_def)

lemma round_half_even_bounds:
  "of_int (round_half_even q) \<le> q + 1 / 2 \<and> q - 1 / 2 \<le> of_int (round_half_even q)"
  by (simp add: round_half_even_def Let_def) linarith

lemma round_half_even_mono:
  assumes "p \<le> q"
  shows "round_half_even p \<le> round_half_even q"
proof (cases "\<lfloor>p\<rfloor> = \<lfloor>q\<rfloor>")
  case True
  with assms show ?thesis by (auto simp: round_half_even_def Let_def)
next
  case False
  with floor_mono [OF assms] have "\<lfloor>p\<rfloor> + 1 \<le> \<lfloor>q\<rfloor>" by simp
  moreover have "round_half_even p \<le> \<lfloor>p\<rfloor> + 1" by (simp add: round_half_even_def Let_def)
  moreover have "\<lfloor>q\<rfloor> \<le> round_half_even q" by (simp add: round_half_even_def Let_def)
  ultimately show ?thesis by linarith
qed

lemma round_half_even_nonneg: "0 \<le> q \<Longrightarrow> 0 \<le> round_half_even q"
  using round_half_even_mono [of 0 q] round_half_even_of_int [of 0] by simp

end
