(* ===== verification/Errors.thy ===== *)
theory Errors
  imports Python_Base
begin

text \<open>
  The exception hierarchy of \<^verbatim>\<open>fastapi_effects/errors.py\<close>: the classified delivery failures
  with their validated fields, the exceptions the other components raise, and the
  classification of database failures of \<^verbatim>\<open>postgres/errors.py\<close>. Exceptions are values of
  \<open>exn\<close>; a call that may raise has a result in \<open>exn + 'a\<close>.
\<close>

section \<open>Exceptions as values\<close>

text \<open>A classified delivery failure; the optional Retry-After is in microseconds.\<close>

datatype delivery_error =
    RetryableDeliveryError (err_code: string) (err_summary: string) (err_retry_after: "int option")
  | PermanentDeliveryError (err_code: string) (err_summary: string)

text \<open>What a database driver error carries: its class, whether the pool invalidated the
  connection, and the \<^verbatim>\<open>sqlstate\<close> and \<^verbatim>\<open>pgcode\<close> attributes of the original error.\<close>

datatype dbapi_kind = OperationalError | InterfaceError | OtherDBAPIError

record dbapi_error =
  dbapi_class :: dbapi_kind
  connection_invalidated :: bool
  orig_sqlstate :: "string option"
  orig_pgcode :: "string option"

datatype os_error =
    ConnectionRefusedError | ConnectionResetError | ConnectionAbortedError
  | GaiError int | OSError int

datatype exn =
    ConfigurationError string
  | AuthorizationExpired
  | AuthorizationDenied
  | AuthenticationRequired
  | DeliveryFailure delivery_error
  | DedupeConflict string string
  | LeaseLost uuid
  | OptimisticConflict string
  | CommandConflict
  | CommandInProgress
  | SchemaRevisionMismatch string int int
  | DBAPIError dbapi_error
  | OSFailure os_error
  | TimeoutError
  | TypeError
  | ValueError
  | KeyError
  | OverflowError
  | OtherException

type_synonym 'a result = "exn + 'a"

abbreviation config_error :: "string \<Rightarrow> 'a result" where
  "config_error m \<equiv> Inl (ConfigurationError m)"

text \<open>The stable code each class carries.\<close>

fun error_code :: "exn \<Rightarrow> string option" where
  "error_code (ConfigurationError m) = Some ''fastapi_effects.configuration''"
| "error_code AuthorizationExpired = Some ''fastapi_effects.authorization_expired''"
| "error_code AuthorizationDenied = Some ''fastapi_effects.authorization_denied''"
| "error_code AuthenticationRequired = Some ''fastapi_effects.authentication_required''"
| "error_code (DeliveryFailure (RetryableDeliveryError c s r)) = Some ''fastapi_effects.delivery_retryable''"
| "error_code (DeliveryFailure (PermanentDeliveryError c s)) = Some ''fastapi_effects.delivery_permanent''"
| "error_code (DedupeConflict n k) = Some ''fastapi_effects.dedupe_conflict''"
| "error_code (LeaseLost d) = Some ''fastapi_effects.lease_lost''"
| "error_code (OptimisticConflict r) = Some ''fastapi_effects.optimistic_conflict''"
| "error_code CommandConflict = Some ''fastapi_effects.command_conflict''"
| "error_code CommandInProgress = Some ''fastapi_effects.command_in_progress''"
| "error_code (SchemaRevisionMismatch c e a) = Some ''fastapi_effects.schema_revision_mismatch''"
| "error_code _ = None"

section \<open>Field validation\<close>

text \<open>The pattern \<^verbatim>\<open>^[a-z0-9][a-z0-9._-]{0,127}$\<close> shared by codes, keys and names.\<close>

definition key_head :: "char \<Rightarrow> bool" where
  "key_head c \<longleftrightarrow> is_lower c \<or> is_digit c"

definition key_tail :: "char \<Rightarrow> bool" where
  "key_tail c \<longleftrightarrow> is_lower c \<or> is_digit c \<or> c = CHR ''.'' \<or> c = CHR ''_'' \<or> c = CHR ''-''"

definition stable_key :: "string \<Rightarrow> bool" where
  "stable_key s = head_tail_match key_head key_tail 127 s"

definition validate_stable_code :: "string \<Rightarrow> string \<Rightarrow> string result" where
  "validate_stable_code name v =
     (if \<not> stable_key v then config_error (''Invalid '' @ name @ ''.'') else Inr v)"

definition bounded_summary :: "string \<Rightarrow> string" where
  "bounded_summary v = take 512 (map (\<lambda>c. if is_control c then CHR '' '' else c) v)"

definition validate_safe_key :: "string \<Rightarrow> string result" where
  "validate_safe_key v =
     (if v = [] \<or> v \<noteq> strip v \<or> length v > 512 \<or> has_control v
      then config_error ''Invalid dedupe key.'' else Inr v)"

definition new_retryable :: "string \<Rightarrow> string \<Rightarrow> int option \<Rightarrow> delivery_error result" where
  "new_retryable c s retry_after =
     and_then (validate_stable_code ''delivery error code'' c) (\<lambda>c'.
       (case retry_after of
          Some d \<Rightarrow> if d < 0 then config_error ''Delivery Retry-After cannot be negative.''
                    else Inr (RetryableDeliveryError c' (bounded_summary s) retry_after)
        | None \<Rightarrow> Inr (RetryableDeliveryError c' (bounded_summary s) None)))"

definition new_permanent :: "string \<Rightarrow> string \<Rightarrow> delivery_error result" where
  "new_permanent c s =
     and_then (validate_stable_code ''delivery error code'' c) (\<lambda>c'.
       Inr (PermanentDeliveryError c' (bounded_summary s)))"

text \<open>Raising \<^verbatim>\<open>DedupeConflict\<close> builds the exception first, so a bad key raises instead.\<close>

definition new_dedupe_conflict :: "string \<Rightarrow> string \<Rightarrow> exn" where
  "new_dedupe_conflict ns k =
     (case and_then (validate_stable_code ''dedupe namespace'' ns) (\<lambda>_. validate_safe_key k) of
        Inl e \<Rightarrow> e | Inr _ \<Rightarrow> DedupeConflict ns k)"

definition new_optimistic_conflict :: "string \<Rightarrow> exn" where
  "new_optimistic_conflict resource =
     (case validate_stable_code ''conflicted resource'' resource of
        Inl e \<Rightarrow> e | Inr r \<Rightarrow> OptimisticConflict r)"

definition new_schema_mismatch :: "string \<Rightarrow> int \<Rightarrow> int \<Rightarrow> exn" where
  "new_schema_mismatch component expected actual =
     (case validate_stable_code ''schema component'' component of
        Inl e \<Rightarrow> e
      | Inr c \<Rightarrow>
          if expected < 0 \<or> actual < 0
          then ConfigurationError ''Schema revisions must be non-negative integers.''
          else SchemaRevisionMismatch c expected actual)"

lemma is_control_blank [simp]: "\<not> is_control (CHR '' '')"
  by (simp add: is_control_def code_def)

lemma bounded_summary_length: "length (bounded_summary s) \<le> 512"
  by (simp add: bounded_summary_def)

lemma bounded_summary_no_control: "\<not> has_control (bounded_summary s)"
  by (auto simp: bounded_summary_def has_control_def list_ex_iff dest!: in_set_takeD)

lemma bounded_summary_idem: "bounded_summary (bounded_summary s) = bounded_summary s"
proof -
  have "map (\<lambda>c. if is_control c then CHR '' '' else c) (bounded_summary s) = bounded_summary s"
    using bounded_summary_no_control [of s]
    by (intro map_idI) (auto simp: has_control_def list_ex_iff)
  then show ?thesis
    by (simp add: bounded_summary_def [of "bounded_summary s"] bounded_summary_length)
qed

lemma new_retryable_Inr [result_simps]:
  "new_retryable c s r = Inr e \<longleftrightarrow>
     stable_key c \<and> (\<forall>d. r = Some d \<longrightarrow> 0 \<le> d) \<and> e = RetryableDeliveryError c (bounded_summary s) r"
  by (auto simp: new_retryable_def validate_stable_code_def result_simps split: option.splits)

lemma new_permanent_Inr [result_simps]:
  "new_permanent c s = Inr e \<longleftrightarrow> stable_key c \<and> e = PermanentDeliveryError c (bounded_summary s)"
  by (auto simp: new_permanent_def validate_stable_code_def result_simps)

section \<open>Database failures\<close>

text \<open>\<^verbatim>\<open>_sqlstate\<close>: the first attribute that is a five-character string, upper-cased.\<close>

definition sqlstate_of :: "dbapi_error \<Rightarrow> string option" where
  "sqlstate_of e =
     (case orig_sqlstate e of
        Some v \<Rightarrow> if length v = 5 then Some (upper v)
                  else (case orig_pgcode e of
                          Some w \<Rightarrow> if length w = 5 then Some (upper w) else None | None \<Rightarrow> None)
      | None \<Rightarrow> (case orig_pgcode e of
                   Some w \<Rightarrow> if length w = 5 then Some (upper w) else None | None \<Rightarrow> None))"

definition transient_sqlstates :: "string list" where
  "transient_sqlstates =
     [''40001'', ''40P01'', ''55P03'', ''57014'', ''57P01'', ''57P02'', ''57P03'']"

fun is_transient_database_error :: "exn \<Rightarrow> bool" where
  "is_transient_database_error (DBAPIError e) =
     (if connection_invalidated e then True
      else (case sqlstate_of e of
              Some st \<Rightarrow> take 2 st = ''08'' \<or> st \<in> set transient_sqlstates
            | None \<Rightarrow> dbapi_class e = OperationalError \<or> dbapi_class e = InterfaceError))"
| "is_transient_database_error _ = False"

text \<open>The \<^verbatim>\<open>errno\<close> values of the list, with Linux's numbering.\<close>

definition connection_errnos :: "int list" where
  "connection_errnos = [103, 111, 104, 100, 101, 112, 113, 110]"

definition eai_again :: int where "eai_again = -3"

fun is_transient_database_connection_error :: "exn \<Rightarrow> bool" where
  "is_transient_database_connection_error (OSFailure ConnectionRefusedError) = True"
| "is_transient_database_connection_error (OSFailure ConnectionResetError) = True"
| "is_transient_database_connection_error (OSFailure ConnectionAbortedError) = True"
| "is_transient_database_connection_error (OSFailure (GaiError n)) = (n = eai_again)"
| "is_transient_database_connection_error (OSFailure (OSError n)) = (n \<in> set connection_errnos)"
| "is_transient_database_connection_error e = is_transient_database_error e"

text \<open>A failure the driver reports with a reviewed state never depends on its class.\<close>

lemma transient_with_sqlstate:
  assumes "sqlstate_of e = Some st" and "\<not> connection_invalidated e"
  shows "is_transient_database_error (DBAPIError e) \<longleftrightarrow>
           take 2 st = ''08'' \<or> st \<in> set transient_sqlstates"
  using assms by simp

lemma integrity_errors_visible:
  assumes "sqlstate_of e = Some (CHR ''2'' # CHR ''3'' # rest)" and "\<not> connection_invalidated e"
  shows "\<not> is_transient_database_connection_error (DBAPIError e)"
  using assms by (auto simp: transient_sqlstates_def)

end
