(* ===== verification/Python_Time.thy ===== *)
theory Python_Time
  imports Errors
begin

text \<open>
  Instants, durations and JSON values. Durations and instants are integers counting
  microseconds; the additions raise \<^verbatim>\<open>OverflowError\<close> outside the ranges of \<^verbatim>\<open>timedelta\<close> and
  \<^verbatim>\<open>datetime\<close>. A datetime that carries no zone is kept apart (\<open>Naive\<close>), because the program
  rejects it at its boundaries.
\<close>

section \<open>Datetimes and timedeltas\<close>

datatype py_datetime = Aware (instant: int) | Naive (instant: int)

definition is_aware :: "py_datetime \<Rightarrow> bool" where
  "is_aware t = (case t of Aware _ \<Rightarrow> True | Naive _ \<Rightarrow> False)"

lemma is_aware_simps [simp]: "is_aware (Aware u)" "\<not> is_aware (Naive u)"
  by (simp_all add: is_aware_def)

lemma is_aware_iff: "is_aware t \<longleftrightarrow> t = Aware (instant t)"
  by (cases t) auto

abbreviation second :: int where "second \<equiv> 1000000"

text \<open>\<^verbatim>\<open>timedelta.min\<close>, \<^verbatim>\<open>timedelta.max\<close>, \<^verbatim>\<open>datetime.min\<close> and \<^verbatim>\<open>datetime.max\<close> in microseconds.\<close>

definition td_min :: int where "td_min = - 86399999913600000000"
definition td_max :: int where "td_max = 86399999999999999999"
definition dt_min :: int where "dt_min = - 62135596800000000"
definition dt_max :: int where "dt_max = 253402300799999999"

definition td_check :: "int \<Rightarrow> int result" where
  "td_check us = (if td_min \<le> us \<and> us \<le> td_max then Inr us else Inl OverflowError)"

text \<open>\<^verbatim>\<open>timedelta(seconds=x)\<close> of an int and of a finite float (rounded to the nearest
  microsecond, ties to even).\<close>

definition timedelta_int :: "int \<Rightarrow> int result" where
  "timedelta_int s = td_check (s * second)"

definition timedelta_float :: "rat \<Rightarrow> int result" where
  "timedelta_float q = td_check (round_half_even (q * 1000000))"

definition dt_add :: "int \<Rightarrow> int \<Rightarrow> int result" where
  "dt_add t d = (if dt_min \<le> t + d \<and> t + d \<le> dt_max then Inr (t + d) else Inl OverflowError)"

definition total_seconds :: "int \<Rightarrow> rat" where
  "total_seconds us = of_int us / 1000000"

lemma dt_add_Inr [result_simps]:
  "dt_add t d = Inr u \<longleftrightarrow> u = t + d \<and> dt_min \<le> u \<and> u \<le> dt_max"
  by (auto simp: dt_add_def)

lemma td_check_Inr [result_simps]: "td_check us = Inr v \<longleftrightarrow> v = us \<and> td_min \<le> us \<and> us \<le> td_max"
  by (auto simp: td_check_def)

lemma timedelta_int_Inr [result_simps]:
  "timedelta_int s = Inr d \<longleftrightarrow> d = s * second \<and> td_min \<le> d \<and> d \<le> td_max"
  by (auto simp: timedelta_int_def result_simps)

lemma timedelta_float_Inr [result_simps]:
  "timedelta_float q = Inr d \<longleftrightarrow> d = round_half_even (q * 1000000) \<and> td_min \<le> d \<and> d \<le> td_max"
  by (auto simp: timedelta_float_def result_simps)

lemma timedelta_float_mono:
  "timedelta_float p = Inr d \<Longrightarrow> timedelta_float q = Inr e \<Longrightarrow> p \<le> q \<Longrightarrow> d \<le> e"
  by (simp add: timedelta_float_Inr round_half_even_mono)

lemma timedelta_float_nonneg: "timedelta_float q = Inr d \<Longrightarrow> 0 \<le> q \<Longrightarrow> 0 \<le> d"
  by (simp add: timedelta_float_Inr round_half_even_nonneg)

lemma timedelta_float_le_int:
  assumes "timedelta_float q = Inr d" and "q \<le> of_int s"
  shows "d \<le> s * second"
proof -
  have "q * 1000000 \<le> of_int (s * second)" using assms(2) by simp
  then have "round_half_even (q * 1000000) \<le> s * second"
    using round_half_even_mono round_half_even_of_int by metis
  with assms(1) show ?thesis by (simp add: timedelta_float_Inr)
qed

lemma total_seconds_less_iff: "total_seconds us < of_int s \<longleftrightarrow> us < s * second"
proof -
  have "total_seconds us < of_int s \<longleftrightarrow> (of_int us :: rat) < of_int (s * second)"
    by (simp add: total_seconds_def field_simps)
  then show ?thesis by (simp only: of_int_less_iff)
qed

lemma total_seconds_nonneg_iff: "0 \<le> total_seconds us \<longleftrightarrow> 0 \<le> us"
  by (simp add: total_seconds_def zero_le_divide_iff)

lemma total_seconds_mono: "us \<le> vs \<Longrightarrow> total_seconds us \<le> total_seconds vs"
  by (simp add: total_seconds_def divide_right_mono)

section \<open>JSON values\<close>

datatype json =
    JNull | JBool bool | JInt int | JFloat pyfloat | JStr string
  | JList "json list" | JObj "(string \<times> json) list"

text \<open>\<^verbatim>\<open>float()\<close> of an int.\<close>

definition float_of_int :: "int \<Rightarrow> pyfloat result" where
  "float_of_int n = (if \<bar>n\<bar> < 2 ^ 1024 then Inr (Fin (of_int n)) else Inl OverflowError)"

fun json_str :: "json \<Rightarrow> string result" where
  "json_str (JStr s) = Inr s"
| "json_str _ = Inl TypeError"

fun json_int :: "json \<Rightarrow> int result" where
  "json_int (JInt n) = Inr n"
| "json_int _ = Inl TypeError"

fun json_float :: "json \<Rightarrow> pyfloat result" where
  "json_float (JInt n) = float_of_int n"
| "json_float (JFloat f) = Inr f"
| "json_float _ = Inl TypeError"

text \<open>Subscripting a dict; the association list of an object has distinct keys.\<close>

definition dict_item :: "(string \<times> json) list \<Rightarrow> string \<Rightarrow> json result" where
  "dict_item d k = (case map_of d k of None \<Rightarrow> Inl KeyError | Some v \<Rightarrow> Inr v)"

end
