(* ===== verification/Retry.thy ===== *)
theory Retry
  imports Python_Time
begin

text \<open>
  Retry policies, \<^verbatim>\<open>core/retry.py\<close>: the validated policy value, its JSON snapshot, full-jitter
  backoff, the retry permission, and the deadlines of a delivery and of an attempt.
\<close>

section \<open>The policy value\<close>

record retry_policy =
  rp_name :: string
  rp_version :: int
  max_attempts :: int
  maximum_elapsed_seconds :: int
  base_delay_seconds :: pyfloat
  maximum_delay_seconds :: pyfloat
  handler_timeout_seconds :: pyfloat
  lease_duration_seconds :: pyfloat
  jitter :: string

text \<open>The dataclass defaults.\<close>

definition default_policy :: "string \<Rightarrow> retry_policy" where
  "default_policy name =
     \<lparr>rp_name = name, rp_version = 1, max_attempts = 8, maximum_elapsed_seconds = 86400,
      base_delay_seconds = Fin 2, maximum_delay_seconds = Fin 900,
      handler_timeout_seconds = Fin 60, lease_duration_seconds = Fin 120, jitter = ''full''\<rparr>"

definition finite_number :: "string \<Rightarrow> pyfloat \<Rightarrow> rat result" where
  "finite_number name v =
     (if \<not> is_finite v then config_error (''Retry '' @ name @ '' must be finite.'')
      else Inr (the_fin v))"

text \<open>\<^verbatim>\<open>RetryPolicy.__post_init__\<close>: the checks in source order.\<close>

definition policy_post_init :: "retry_policy \<Rightarrow> retry_policy result" where
  "policy_post_init p =
     (if \<not> stable_key (rp_name p)
      then config_error ''Retry policy name must be a lower-case stable key.''
      else if \<not> 0 < rp_version p \<or> \<not> 0 < max_attempts p
      then config_error ''Retry policy version and max_attempts must be positive integers.''
      else if \<not> 0 < maximum_elapsed_seconds p
      then config_error ''Retry maximum elapsed time must be a positive integer.''
      else
        and_then (finite_number ''base delay'' (base_delay_seconds p)) (\<lambda>base_delay.
        and_then (finite_number ''maximum delay'' (maximum_delay_seconds p)) (\<lambda>maximum_delay.
        and_then (finite_number ''handler timeout'' (handler_timeout_seconds p)) (\<lambda>handler_timeout.
        and_then (finite_number ''lease duration'' (lease_duration_seconds p)) (\<lambda>lease_duration.
          if base_delay < 0 \<or> maximum_delay < base_delay
          then config_error ''Retry delay bounds are invalid.''
          else if handler_timeout \<le> 0 \<or> lease_duration \<le> 0
          then config_error ''Timeout and lease duration must be positive.''
          else if lease_duration \<le> handler_timeout
          then config_error ''Lease duration must exceed the handler timeout.''
          else if of_int (maximum_elapsed_seconds p) < maximum_delay
          then config_error ''Retry maximum delay must not exceed maximum elapsed time.''
          else if of_int (maximum_elapsed_seconds p) < handler_timeout
          then config_error ''Handler timeout must not exceed maximum elapsed time.''
          else if jitter p \<noteq> ''full''
          then config_error ''The runtime supports only full-jitter retry policy.''
          else Inr p)))))"

text \<open>What a constructed policy satisfies.\<close>

definition valid_policy :: "retry_policy \<Rightarrow> bool" where
  "valid_policy p \<longleftrightarrow>
     stable_key (rp_name p) \<and> 0 < rp_version p \<and> 0 < max_attempts p \<and>
     0 < maximum_elapsed_seconds p \<and>
     is_finite (base_delay_seconds p) \<and> is_finite (maximum_delay_seconds p) \<and>
     is_finite (handler_timeout_seconds p) \<and> is_finite (lease_duration_seconds p) \<and>
     0 \<le> the_fin (base_delay_seconds p) \<and>
     the_fin (base_delay_seconds p) \<le> the_fin (maximum_delay_seconds p) \<and>
     0 < the_fin (handler_timeout_seconds p) \<and>
     the_fin (handler_timeout_seconds p) < the_fin (lease_duration_seconds p) \<and>
     the_fin (maximum_delay_seconds p) \<le> of_int (maximum_elapsed_seconds p) \<and>
     the_fin (handler_timeout_seconds p) \<le> of_int (maximum_elapsed_seconds p) \<and>
     jitter p = ''full''"

lemma finite_number_Inr [result_simps]:
  "finite_number name v = Inr q \<longleftrightarrow> is_finite v \<and> q = the_fin v"
  by (auto simp: finite_number_def)

lemma policy_post_init_Inr [result_simps]:
  "policy_post_init p = Inr q \<longleftrightarrow> q = p \<and> valid_policy p"
  by (auto simp: policy_post_init_def valid_policy_def result_simps not_less not_le)

section \<open>Snapshots\<close>

definition policy_to_dict :: "retry_policy \<Rightarrow> (string \<times> json) list" where
  "policy_to_dict p =
     [(''name'', JStr (rp_name p)),
      (''version'', JInt (rp_version p)),
      (''max_attempts'', JInt (max_attempts p)),
      (''maximum_elapsed_seconds'', JInt (maximum_elapsed_seconds p)),
      (''base_delay_seconds'', JFloat (base_delay_seconds p)),
      (''maximum_delay_seconds'', JFloat (maximum_delay_seconds p)),
      (''handler_timeout_seconds'', JFloat (handler_timeout_seconds p)),
      (''lease_duration_seconds'', JFloat (lease_duration_seconds p)),
      (''jitter'', JStr (jitter p))]"

text \<open>The \<^verbatim>\<open>except (KeyError, TypeError, ValueError)\<close> clause around the constructor.\<close>

definition snapshot_guard :: "string \<Rightarrow> 'a result \<Rightarrow> 'a result" where
  "snapshot_guard m r =
     (case r of
        Inl KeyError \<Rightarrow> config_error m | Inl TypeError \<Rightarrow> config_error m
      | Inl ValueError \<Rightarrow> config_error m | _ \<Rightarrow> r)"

definition policy_from_dict :: "(string \<times> json) list \<Rightarrow> retry_policy result" where
  "policy_from_dict d = snapshot_guard ''Retry policy snapshot is invalid.''
     (and_then (and_then (dict_item d ''name'') json_str) (\<lambda>name.
      and_then (and_then (dict_item d ''version'') json_int) (\<lambda>version.
      and_then (and_then (dict_item d ''max_attempts'') json_int) (\<lambda>attempts.
      and_then (and_then (dict_item d ''maximum_elapsed_seconds'') json_int) (\<lambda>elapsed.
      and_then (and_then (dict_item d ''base_delay_seconds'') json_float) (\<lambda>base_delay.
      and_then (and_then (dict_item d ''maximum_delay_seconds'') json_float) (\<lambda>max_delay.
      and_then (and_then (dict_item d ''handler_timeout_seconds'') json_float) (\<lambda>handler_timeout.
      and_then (and_then (dict_item d ''lease_duration_seconds'') json_float) (\<lambda>lease_duration.
      and_then (and_then (dict_item d ''jitter'') json_str) (\<lambda>jit.
        policy_post_init
          \<lparr>rp_name = name, rp_version = version, max_attempts = attempts,
           maximum_elapsed_seconds = elapsed, base_delay_seconds = base_delay,
           maximum_delay_seconds = max_delay, handler_timeout_seconds = handler_timeout,
           lease_duration_seconds = lease_duration, jitter = jit\<rparr>))))))))))"

lemma snapshot_guard_Inr [result_simps]: "snapshot_guard m r = Inr x \<longleftrightarrow> r = Inr x"
  by (auto simp: snapshot_guard_def split: sum.splits exn.splits)

lemma policy_from_dict_valid: "policy_from_dict d = Inr p \<Longrightarrow> valid_policy p"
  by (auto simp: policy_from_dict_def result_simps)

section \<open>Backoff and retry permission\<close>

text \<open>
  \<^verbatim>\<open>retry_delay\<close>. The random source is a function of the two bounds. \<^verbatim>\<open>2 ** n\<close> is an int that
  is converted to a float by the multiplication, which raises from \<open>2 ^ 1024\<close> on.
\<close>

definition retry_delay :: "retry_policy \<Rightarrow> int \<Rightarrow> (rat \<Rightarrow> rat \<Rightarrow> pyfloat) \<Rightarrow> int result" where
  "retry_delay p attempt_number uniform =
     (if \<not> 0 < attempt_number then config_error ''Retry attempt number must be positive.''
      else if 1024 \<le> max 0 (attempt_number - 1) then Inl OverflowError
      else
        let upper = min (the_fin (maximum_delay_seconds p))
                        (the_fin (base_delay_seconds p) * 2 ^ nat (max 0 (attempt_number - 1)));
            delay = uniform 0 upper
        in if \<not> is_finite delay \<or> the_fin delay < 0 \<or> upper < the_fin delay
           then config_error ''Random source returned an invalid retry delay.''
           else timedelta_float (the_fin delay))"

definition permits_retry :: "retry_policy \<Rightarrow> int \<Rightarrow> py_datetime \<Rightarrow> py_datetime \<Rightarrow> bool result" where
  "permits_retry p attempt_number first_attempt_at now =
     (if \<not> 0 < attempt_number then config_error ''Retry attempt number must be positive.''
      else if \<not> is_aware first_attempt_at \<or> \<not> is_aware now
      then config_error ''Retry times must be timezone-aware.''
      else
        let elapsed = total_seconds (instant now - instant first_attempt_at)
        in Inr (attempt_number < max_attempts p \<and> elapsed < of_int (maximum_elapsed_seconds p)))"

section \<open>Deadlines\<close>

definition aware_time :: "string \<Rightarrow> py_datetime \<Rightarrow> int result" where
  "aware_time name t =
     (if \<not> is_aware t then config_error (''Retry '' @ name @ '' time must be timezone-aware.'')
      else Inr (instant t))"

definition delivery_deadline :: "retry_policy \<Rightarrow> py_datetime \<Rightarrow> int result" where
  "delivery_deadline p created_at =
     and_then (aware_time ''delivery creation'' created_at) (\<lambda>t.
     and_then (timedelta_int (maximum_elapsed_seconds p)) (\<lambda>d. dt_add t d))"

definition attempt_deadline ::
  "retry_policy \<Rightarrow> py_datetime \<Rightarrow> py_datetime \<Rightarrow> py_datetime \<Rightarrow> int result" where
  "attempt_deadline p delivery_created_at attempt_started_at lease_expires_at =
     and_then (aware_time ''delivery creation'' delivery_created_at) (\<lambda>_.
     and_then (aware_time ''attempt start'' attempt_started_at) (\<lambda>started.
     and_then (aware_time ''lease expiry'' lease_expires_at) (\<lambda>lease.
     and_then (delivery_deadline p delivery_created_at) (\<lambda>deadline.
     and_then (timedelta_float (the_fin (handler_timeout_seconds p))) (\<lambda>timeout.
     and_then (dt_add started timeout) (\<lambda>handler_end.
       Inr (min deadline (min handler_end lease))))))))"

definition remaining_attempt_seconds ::
  "retry_policy \<Rightarrow> py_datetime \<Rightarrow> py_datetime \<Rightarrow> py_datetime \<Rightarrow> py_datetime \<Rightarrow> pyfloat option
     \<Rightarrow> rat result" where
  "remaining_attempt_seconds p delivery_created_at attempt_started_at lease_expires_at now
       configured_limit_seconds =
     and_then (aware_time ''current'' now) (\<lambda>now_us.
     and_then (attempt_deadline p delivery_created_at attempt_started_at lease_expires_at) (\<lambda>deadline.
       let remaining = total_seconds (deadline - now_us)
       in case configured_limit_seconds of
            None \<Rightarrow> Inr (max 0 remaining)
          | Some limit \<Rightarrow>
              and_then (finite_number ''configured attempt limit'' limit) (\<lambda>configured.
                if configured \<le> 0
                then config_error ''Configured attempt limit must be positive.''
                else Inr (max 0 (min remaining configured)))))"

lemma aware_time_Inr [result_simps]: "aware_time name t = Inr u \<longleftrightarrow> t = Aware u"
  by (cases t) (auto simp: aware_time_def)

lemma aware_time_Aware [simp]: "aware_time name (Aware u) = Inr u"
  by (simp add: aware_time_def)

lemma delivery_deadline_Inr [result_simps]:
  "delivery_deadline p t = Inr d \<longleftrightarrow>
     (\<exists>u. t = Aware u \<and> d = u + maximum_elapsed_seconds p * second \<and> d \<le> dt_max \<and> dt_min \<le> d \<and>
          td_min \<le> maximum_elapsed_seconds p * second \<and>
          maximum_elapsed_seconds p * second \<le> td_max)"
  by (auto simp: delivery_deadline_def result_simps)

lemma attempt_deadline_Inr:
  "attempt_deadline p c s l = Inr d \<Longrightarrow>
     \<exists>dd h. delivery_deadline p c = Inr dd \<and> timedelta_float (the_fin (handler_timeout_seconds p)) = Inr h \<and>
            d = min dd (min (instant s + h) (instant l))"
  by (auto simp: attempt_deadline_def and_then_Inr_iff dt_add_Inr aware_time_Inr)

section \<open>Properties\<close>

text \<open>A random source that answers within the bounds it is given.\<close>

definition within_bounds :: "(rat \<Rightarrow> rat \<Rightarrow> pyfloat) \<Rightarrow> bool" where
  "within_bounds uniform \<longleftrightarrow> (\<forall>hi. 0 \<le> hi \<longrightarrow> (\<exists>q. uniform 0 hi = Fin q \<and> 0 \<le> q \<and> q \<le> hi))"

text \<open>The upper bound of the jitter interval after attempt \<open>n\<close>.\<close>

definition backoff_upper :: "retry_policy \<Rightarrow> int \<Rightarrow> rat" where
  "backoff_upper p n =
     min (the_fin (maximum_delay_seconds p)) (the_fin (base_delay_seconds p) * 2 ^ nat (n - 1))"

lemma valid_policyD:
  assumes "valid_policy p"
  shows "0 \<le> the_fin (base_delay_seconds p)"
    and "the_fin (base_delay_seconds p) \<le> the_fin (maximum_delay_seconds p)"
    and "the_fin (maximum_delay_seconds p) \<le> of_int (maximum_elapsed_seconds p)"
    and "0 < the_fin (handler_timeout_seconds p)"
    and "the_fin (handler_timeout_seconds p) < the_fin (lease_duration_seconds p)"
    and "the_fin (handler_timeout_seconds p) \<le> of_int (maximum_elapsed_seconds p)"
    and "0 < maximum_elapsed_seconds p" and "0 < max_attempts p"
  using assms by (auto simp: valid_policy_def)

lemma default_policy_valid: "stable_key name \<Longrightarrow> valid_policy (default_policy name)"
  by (simp add: default_policy_def valid_policy_def)

lemma backoff_upper_nonneg: "valid_policy p \<Longrightarrow> 0 \<le> backoff_upper p n"
  by (auto simp: backoff_upper_def valid_policy_def)

lemma retry_delay_Inr [result_simps]:
  "retry_delay p n uniform = Inr d \<longleftrightarrow>
     0 < n \<and> n \<le> 1024 \<and>
     (\<exists>q. uniform 0 (backoff_upper p n) = Fin q \<and> 0 \<le> q \<and> q \<le> backoff_upper p n \<and>
          timedelta_float q = Inr d)"
  by (cases "uniform 0 (backoff_upper p n)")
     (auto simp: retry_delay_def backoff_upper_def Let_def max_def not_less result_simps split: if_splits)

lemma retry_delay_bounds:
  assumes "valid_policy p" and "retry_delay p n uniform = Inr d"
  shows "0 \<le> d" and "d \<le> maximum_elapsed_seconds p * second"
proof -
  from assms(2) obtain q where q: "0 \<le> q" "q \<le> backoff_upper p n" "timedelta_float q = Inr d"
    by (auto simp: retry_delay_Inr)
  show "0 \<le> d" using q by (auto intro: timedelta_float_nonneg)
  have "q \<le> of_int (maximum_elapsed_seconds p)"
    using q(2) valid_policyD(3) [OF assms(1)] by (simp add: backoff_upper_def)
  with q(3) show "d \<le> maximum_elapsed_seconds p * second" by (rule timedelta_float_le_int)
qed

text \<open>
  Backoff stays inside the policy: a delay that \<^verbatim>\<open>retry_delay\<close> returns is never negative,
  never longer than the maximum delay, and never longer than the exponential bound
  \<^verbatim>\<open>base * 2 ** (n - 1)\<close> of the attempt (all in rounded microseconds).
\<close>

lemma retry_delay_bounded:
  assumes "valid_policy p" and "retry_delay p n uniform = Inr d"
  shows "0 \<le> d \<and>
         d \<le> round_half_even (the_fin (maximum_delay_seconds p) * 1000000) \<and>
         d \<le> round_half_even (the_fin (base_delay_seconds p) * 2 ^ nat (n - 1) * 1000000)"
proof -
  from assms(2) obtain q where q: "q \<le> backoff_upper p n" "d = round_half_even (q * 1000000)"
    by (auto simp: result_simps)
  then have "q * 1000000 \<le> the_fin (maximum_delay_seconds p) * 1000000"
    and "q * 1000000 \<le> the_fin (base_delay_seconds p) * 2 ^ nat (n - 1) * 1000000"
    by (simp_all add: backoff_upper_def)
  with q(2) retry_delay_bounds(1) [OF assms] show ?thesis
    by (simp add: round_half_even_mono)
qed

text \<open>
  When \<^verbatim>\<open>retry_delay\<close> returns at all: for a constructed policy whose elapsed bound fits a
  \<^verbatim>\<open>timedelta\<close> and a random source that respects its bounds, exactly the attempts 1 to 1024
  get a delay. From attempt 1025 on the conversion of \<^verbatim>\<open>2 ** (n - 1)\<close> to a float raises
  \<^verbatim>\<open>OverflowError\<close>, although \<^verbatim>\<open>max_attempts\<close> has no upper limit.
\<close>

lemma retry_delay_returns_iff:
  assumes "valid_policy p" and "within_bounds uniform"
    and "maximum_elapsed_seconds p * second \<le> td_max"
  shows "returns (retry_delay p n uniform) \<longleftrightarrow> 1 \<le> n \<and> n \<le> 1024"
proof -
  obtain q where q: "uniform 0 (backoff_upper p n) = Fin q" "0 \<le> q" "q \<le> backoff_upper p n"
    using assms(2) backoff_upper_nonneg [OF assms(1)] by (auto simp: within_bounds_def)
  have "q * 1000000 \<le> of_int (maximum_elapsed_seconds p * second)"
    using q(3) valid_policyD(3) [OF assms(1)] by (simp add: backoff_upper_def)
  then have "round_half_even (q * 1000000) \<le> maximum_elapsed_seconds p * second"
    using round_half_even_mono round_half_even_of_int by metis
  moreover have "0 \<le> round_half_even (q * 1000000)"
    using q(2) by (simp add: round_half_even_nonneg)
  ultimately have "timedelta_float q = Inr (round_half_even (q * 1000000))"
    using assms(3) by (simp add: timedelta_float_Inr td_min_def)
  with q show ?thesis by (auto simp: returns_iff retry_delay_Inr)
qed

text \<open>
  A policy survives its snapshot: reading back the dict that \<^verbatim>\<open>to_dict\<close> writes gives the same
  policy, so the relay executes under the policy that was registered.
\<close>

lemma policy_snapshot_roundtrip:
  assumes "valid_policy p"
  shows "policy_from_dict (policy_to_dict p) = Inr p"
  using assms
  by (cases p) (simp add: policy_from_dict_def policy_to_dict_def dict_item_def policy_post_init_Inr snapshot_guard_Inr)

text \<open>
  The attempt deadline: whenever it is defined it lies no later than the delivery's elapsed
  deadline, no later than the lease expiry, and no later than start plus handler timeout; so for
  a lease granted at the attempt's start for the policy's lease duration, a handler that keeps
  its deadline finishes no later than its lease.
\<close>

lemma attempt_deadline_is_earliest:
  assumes "attempt_deadline p (Aware created) (Aware started) (Aware lease) = Inr d"
  shows "d = min (created + maximum_elapsed_seconds p * second)
               (min (started + round_half_even (the_fin (handler_timeout_seconds p) * 1000000)) lease)"
  using attempt_deadline_Inr [OF assms] by (auto simp: delivery_deadline_Inr timedelta_float_Inr)

text \<open>
  The timeout handed to an executor is never negative and never reaches past the attempt
  deadline: from an instant before the deadline, waiting the returned number of seconds ends at
  the deadline at the latest, and at most the configured limit is waited.
\<close>

lemma remaining_seconds_bounded:
  assumes "remaining_attempt_seconds p c s l (Aware now) limit = Inr r"
    and "attempt_deadline p c s l = Inr d"
  shows "0 \<le> r \<and> (r = 0 \<or> of_int now + r * 1000000 \<le> of_int d) \<and>
         (\<forall>v. limit = Some v \<longrightarrow> r \<le> the_fin v) \<and> (r = 0 \<longleftrightarrow> d \<le> now)"
proof -
  have "total_seconds (d - now) * 1000000 = of_int (d - now)" by (simp add: total_seconds_def)
  moreover have "0 < total_seconds (d - now) \<longleftrightarrow> now < d"
    by (simp add: total_seconds_def zero_less_divide_iff)
  ultimately show ?thesis using assms
    by (auto simp: remaining_attempt_seconds_def Let_def result_simps min_def max_def split: option.splits if_splits)
qed

end
