(* ===== verification/Principal.thy ===== *)
theory Principal
  imports Python_Time
begin

text \<open>
  Principals and identities: \<^verbatim>\<open>core/principal.py\<close> (the validated principal and its durable
  envelope), \<^verbatim>\<open>core/policy.py\<close> (authorization modes), \<^verbatim>\<open>core/context.py\<close> (the bound principal of
  a task) and \<^verbatim>\<open>core/identity.py\<close> (dedupe identities).

  A \<^verbatim>\<open>frozenset[str]\<close> is the strictly sorted list of its members, so that equal sets are
  equal values and iteration in sorted order is the value itself.
\<close>

section \<open>Frozen sets\<close>

definition frozenset :: "'a::linorder list \<Rightarrow> 'a list" where
  "frozenset xs = sort (remdups xs)"

definition is_frozenset :: "'a::linorder list \<Rightarrow> bool" where
  "is_frozenset xs \<longleftrightarrow> sorted xs \<and> distinct xs"

definition fs_inter :: "'a list \<Rightarrow> 'a list \<Rightarrow> 'a list" where
  "fs_inter xs ys = filter (\<lambda>x. x \<in> set ys) xs"

definition fs_subset :: "'a list \<Rightarrow> 'a list \<Rightarrow> bool" where
  "fs_subset xs ys = list_all (\<lambda>x. x \<in> set ys) xs"

lemma set_frozenset [simp]: "set (frozenset xs) = set xs"
  by (simp add: frozenset_def)

lemma is_frozenset_frozenset [simp]: "is_frozenset (frozenset xs)"
  by (simp add: frozenset_def is_frozenset_def)

lemma is_frozenset_eqI: "is_frozenset xs \<Longrightarrow> is_frozenset ys \<Longrightarrow> set xs = set ys \<Longrightarrow> xs = ys"
  by (simp add: is_frozenset_def sorted_distinct_set_unique)

lemma frozenset_id [simp]: "is_frozenset xs \<Longrightarrow> frozenset xs = xs"
  by (rule is_frozenset_eqI) simp_all

lemma frozenset_eq_iff: "frozenset xs = frozenset ys \<longleftrightarrow> set xs = set ys"
  using is_frozenset_eqI [of "frozenset xs" "frozenset ys"] by (metis is_frozenset_frozenset set_frozenset)

lemma set_fs_inter [simp]: "set (fs_inter xs ys) = set xs \<inter> set ys"
  by (auto simp: fs_inter_def)

lemma is_frozenset_fs_inter [simp]: "is_frozenset xs \<Longrightarrow> is_frozenset (fs_inter xs ys)"
  by (simp add: is_frozenset_def fs_inter_def sorted_wrt_filter)

lemma fs_subset_iff [simp]: "fs_subset xs ys \<longleftrightarrow> set xs \<subseteq> set ys"
  by (auto simp: fs_subset_def list_all_iff)

lemma length_fs_inter: "length (fs_inter xs ys) \<le> length xs"
  by (simp add: fs_inter_def)

section \<open>Principals\<close>

record principal =
  p_tenant_id :: uuid
  subject_id :: string
  scopes :: "string list"
  actor_id :: "string option"
  client_id :: "string option"
  issued_at :: py_datetime
  authentication_time :: "py_datetime option"
  expires_at :: "py_datetime option"
  credential_ref :: "string option"

text \<open>The pattern \<^verbatim>\<open>^[A-Za-z0-9][A-Za-z0-9._:-]{0,127}$\<close> of scope names.\<close>

definition scope_tail :: "char \<Rightarrow> bool" where
  "scope_tail c \<longleftrightarrow>
     is_alnum c \<or> c = CHR ''.'' \<or> c = CHR ''_'' \<or> c = CHR '':'' \<or> c = CHR ''-''"

definition scope_name :: "string \<Rightarrow> bool" where
  "scope_name s = head_tail_match is_alnum scope_tail 127 s"

definition identifier_ok :: "string option \<Rightarrow> bool" where
  "identifier_ok v =
     (case v of None \<Rightarrow> True
      | Some s \<Rightarrow> s \<noteq> [] \<and> s = strip s \<and> length s \<le> 512 \<and> \<not> has_control s)"

definition validate_identifier :: "string \<Rightarrow> string option \<Rightarrow> unit result" where
  "validate_identifier name v =
     ensure (identifier_ok v)
       (ConfigurationError (''Principal '' @ name @
          '' must be a safe, trimmed string of at most 512 characters.''))"

definition require_aware :: "string \<Rightarrow> py_datetime \<Rightarrow> unit result" where
  "require_aware name v =
     ensure (is_aware v) (ConfigurationError (''Principal '' @ name @ '' must be timezone-aware.''))"

definition require_aware_optional :: "string \<Rightarrow> py_datetime option \<Rightarrow> unit result" where
  "require_aware_optional name v = (case v of None \<Rightarrow> Inr () | Some t \<Rightarrow> require_aware name t)"

text \<open>\<^verbatim>\<open>Principal.__post_init__\<close>; the scopes are given in any order, with or without repeats.\<close>

definition principal_post_init :: "principal \<Rightarrow> principal result" where
  "principal_post_init p =
     and_then (validate_identifier ''subject_id'' (Some (subject_id p))) (\<lambda>_.
     and_then (validate_identifier ''actor_id'' (actor_id p)) (\<lambda>_.
     and_then (validate_identifier ''client_id'' (client_id p)) (\<lambda>_.
     and_then (validate_identifier ''credential_ref'' (credential_ref p)) (\<lambda>_.
     and_then (require_aware ''issued_at'' (issued_at p)) (\<lambda>_.
     and_then (require_aware_optional ''authentication_time'' (authentication_time p)) (\<lambda>_.
     and_then (require_aware_optional ''expires_at'' (expires_at p)) (\<lambda>_.
       let normalized = frozenset (scopes p) in
       if 256 < length normalized
       then config_error ''Principal scopes may contain at most 256 items.''
       else if list_ex (\<lambda>s. \<not> scope_name s) normalized
       then config_error ''Principal contains an invalid scope name.''
       else if (case authentication_time p of None \<Rightarrow> False
                | Some t \<Rightarrow> instant (issued_at p) < instant t)
       then config_error ''Principal authentication_time must not be after issued_at.''
       else if (case expires_at p of None \<Rightarrow> False | Some t \<Rightarrow> instant t \<le> instant (issued_at p))
       then config_error ''Principal expires_at must be after issued_at.''
       else Inr (p\<lparr>scopes := normalized\<rparr>))))))))"

definition valid_principal :: "principal \<Rightarrow> bool" where
  "valid_principal p \<longleftrightarrow>
     identifier_ok (Some (subject_id p)) \<and> identifier_ok (actor_id p) \<and>
     identifier_ok (client_id p) \<and> identifier_ok (credential_ref p) \<and>
     is_aware (issued_at p) \<and>
     (\<forall>t. authentication_time p = Some t \<longrightarrow> is_aware t \<and> instant t \<le> instant (issued_at p)) \<and>
     (\<forall>t. expires_at p = Some t \<longrightarrow> is_aware t \<and> instant (issued_at p) < instant t) \<and>
     is_frozenset (scopes p) \<and> length (scopes p) \<le> 256 \<and> list_all scope_name (scopes p)"

lemmas principal_checks =
  validate_identifier_def require_aware_def require_aware_optional_def

lemma principal_post_init_Inr [result_simps]:
  "principal_post_init p = Inr q \<longleftrightarrow>
     q = p\<lparr>scopes := frozenset (scopes p)\<rparr> \<and> valid_principal q"
  by (auto simp: principal_post_init_def principal_checks valid_principal_def result_simps Let_def
      list_ex_iff list_all_iff not_less not_le split: option.splits)

lemma valid_principal_frozen: "valid_principal p \<Longrightarrow> is_frozenset (scopes p)"
  by (simp add: valid_principal_def)

lemma principal_post_init_valid: "valid_principal p \<Longrightarrow> principal_post_init p = Inr p"
  using valid_principal_frozen [of p] by (simp add: principal_post_init_Inr)

section \<open>Envelopes\<close>

text \<open>
  The durable envelope has the same fields; its scopes are a tuple. Its \<^verbatim>\<open>__post_init__\<close>
  validates through a principal and stores the sorted scopes.
\<close>

record envelope =
  en_tenant_id :: uuid
  en_subject_id :: string
  en_scopes :: "string list"
  en_actor_id :: "string option"
  en_client_id :: "string option"
  en_issued_at :: py_datetime
  en_authentication_time :: "py_datetime option"
  en_expires_at :: "py_datetime option"
  en_credential_ref :: "string option"

definition principal_of_envelope :: "envelope \<Rightarrow> principal" where
  "principal_of_envelope e =
     \<lparr>p_tenant_id = en_tenant_id e, subject_id = en_subject_id e,
      scopes = frozenset (en_scopes e), actor_id = en_actor_id e, client_id = en_client_id e,
      issued_at = en_issued_at e, authentication_time = en_authentication_time e,
      expires_at = en_expires_at e, credential_ref = en_credential_ref e\<rparr>"

definition envelope_post_init :: "envelope \<Rightarrow> envelope result" where
  "envelope_post_init e =
     and_then (principal_post_init (principal_of_envelope e)) (\<lambda>p.
       Inr (e\<lparr>en_scopes := sort (scopes p)\<rparr>))"

definition to_envelope :: "principal \<Rightarrow> envelope result" where
  "to_envelope p = envelope_post_init
     \<lparr>en_tenant_id = p_tenant_id p, en_subject_id = subject_id p, en_scopes = sort (scopes p),
      en_actor_id = actor_id p, en_client_id = client_id p, en_issued_at = issued_at p,
      en_authentication_time = authentication_time p, en_expires_at = expires_at p,
      en_credential_ref = credential_ref p\<rparr>"

definition from_envelope :: "envelope \<Rightarrow> principal result" where
  "from_envelope e = principal_post_init (principal_of_envelope e)"

lemma sort_frozenset [simp]: "is_frozenset xs \<Longrightarrow> sort xs = xs"
  by (simp add: is_frozenset_def sorted_sort_id)

lemma to_envelope_Inr [result_simps]:
  assumes "valid_principal p"
  shows "to_envelope p = Inr
     \<lparr>en_tenant_id = p_tenant_id p, en_subject_id = subject_id p, en_scopes = scopes p,
      en_actor_id = actor_id p, en_client_id = client_id p, en_issued_at = issued_at p,
      en_authentication_time = authentication_time p, en_expires_at = expires_at p,
      en_credential_ref = credential_ref p\<rparr>"
  using assms valid_principal_frozen [OF assms]
  by (cases p) (simp add: to_envelope_def envelope_post_init_def principal_of_envelope_def
      principal_post_init_valid)

section \<open>Authorization modes\<close>

datatype authorization_mode = Snapshot | Revalidate | ServicePolicy

fun mode_value :: "authorization_mode \<Rightarrow> string" where
  "mode_value Snapshot = ''snapshot''"
| "mode_value Revalidate = ''revalidate''"
| "mode_value ServicePolicy = ''service_policy''"

definition parse_mode :: "string \<Rightarrow> authorization_mode result" where
  "parse_mode s =
     (if s = ''snapshot'' then Inr Snapshot
      else if s = ''revalidate'' then Inr Revalidate
      else if s = ''service_policy'' then Inr ServicePolicy
      else config_error ''Unsupported authorization mode.'')"

lemma parse_mode_value [simp]: "parse_mode (mode_value m) = Inr m"
  by (cases m) (auto simp: parse_mode_def)

lemma parse_mode_Inr: "parse_mode s = Inr m \<longleftrightarrow> s = mode_value m"
  by (cases m) (auto simp: parse_mode_def)

section \<open>The bound principal\<close>

text \<open>
  The context variable of a task holds the bound principal; \<^verbatim>\<open>set\<close> returns a token with the
  previous value and \<^verbatim>\<open>reset\<close> restores it. \<open>principal_context\<close> runs a body that may rebind the
  variable and may raise; the \<^verbatim>\<open>finally\<close> clause restores it either way.
\<close>

type_synonym context_var = "principal option"

definition bind_principal :: "principal \<Rightarrow> context_var \<Rightarrow> context_var \<times> context_var" where
  "bind_principal p ctx = (Some p, ctx)"

definition reset_principal :: "context_var \<Rightarrow> context_var \<Rightarrow> context_var" where
  "reset_principal token ctx = token"

definition current_principal :: "bool \<Rightarrow> context_var \<Rightarrow> principal option result" where
  "current_principal required ctx =
     (if ctx = None \<and> required
      then config_error ''No FastAPIEffects principal is bound to this context.'' else Inr ctx)"

definition principal_context ::
  "principal \<Rightarrow> (context_var \<Rightarrow> 'a result \<times> context_var) \<Rightarrow> context_var \<Rightarrow> 'a result \<times> context_var" where
  "principal_context p body ctx =
     (let (bound, token) = bind_principal p ctx;
          (r, after) = body bound
      in (r, reset_principal token after))"

section \<open>Dedupe identities\<close>

record dedupe_identity =
  namespace :: string
  dedupe_key_text :: string

definition dedupe_ok :: "dedupe_identity \<Rightarrow> bool" where
  "dedupe_ok d \<longleftrightarrow>
     stable_key (namespace d) \<and> dedupe_key_text d \<noteq> [] \<and> dedupe_key_text d = strip (dedupe_key_text d) \<and>
     \<not> has_control (dedupe_key_text d) \<and> length (utf8 (dedupe_key_text d)) \<le> 512"

definition dedupe_post_init :: "dedupe_identity \<Rightarrow> dedupe_identity result" where
  "dedupe_post_init d =
     (if \<not> stable_key (namespace d) then config_error ''Dedupe namespace is invalid.''
      else if dedupe_key_text d = [] \<or> dedupe_key_text d \<noteq> strip (dedupe_key_text d) \<or>
              has_control (dedupe_key_text d)
      then config_error ''Dedupe key is invalid.''
      else if 512 < length (utf8 (dedupe_key_text d)) then config_error ''Dedupe key is invalid.''
      else Inr d)"

lemma dedupe_post_init_Inr [result_simps]: "dedupe_post_init d = Inr x \<longleftrightarrow> x = d \<and> dedupe_ok d"
  by (auto simp: dedupe_post_init_def dedupe_ok_def)

lemma length_le_utf8: "length s \<le> length (utf8 s)"
  by (induction s) auto

text \<open>A valid identity never fails to report its conflict: the exception's own checks pass.\<close>

lemma new_dedupe_conflict_ok:
  "dedupe_ok d \<Longrightarrow> new_dedupe_conflict (namespace d) (dedupe_key_text d) =
     DedupeConflict (namespace d) (dedupe_key_text d)"
  using length_le_utf8 [of "dedupe_key_text d"]
  by (simp add: dedupe_ok_def new_dedupe_conflict_def validate_stable_code_def validate_safe_key_def)

section \<open>Properties\<close>

definition sample_principal :: "uuid \<Rightarrow> string list \<Rightarrow> principal" where
  "sample_principal t ss =
     \<lparr>p_tenant_id = t, subject_id = ''alice'', scopes = ss, actor_id = None, client_id = None,
      issued_at = Aware 0, authentication_time = None, expires_at = None, credential_ref = None\<rparr>"

text \<open>
  Authority provenance survives storage: the principal restored from the envelope of a valid
  principal is that principal, field by field, including its credential reference.
\<close>

lemma principal_envelope_roundtrip:
  assumes "valid_principal p"
  shows "and_then (to_envelope p) from_envelope = Inr p"
proof -
  have "is_frozenset (scopes p)" using assms by (simp add: valid_principal_def)
  with assms show ?thesis
    by (simp add: to_envelope_Inr from_envelope_def principal_of_envelope_def principal_post_init_Inr)
qed

text \<open>
  Principal binding does not leak: whatever the body does to the context variable and whether
  it returns or raises, after \<^verbatim>\<open>principal_context\<close> the variable holds what it held before, and
  the body itself starts with exactly the given principal bound.
\<close>

lemma principal_context_restores:
  "snd (principal_context p body ctx) = ctx \<and>
   fst (principal_context p body ctx) = fst (body (Some p))"
  by (simp add: principal_context_def bind_principal_def reset_principal_def split: prod.splits)

end
