(* ===== verification/Records.thy ===== *)
theory Records
  imports Principal
begin

text \<open>
  The detached domain records with their validation: events and event records
  (\<^verbatim>\<open>core/event.py\<close>, including the W3C trace headers), delivery and attempt records
  (\<^verbatim>\<open>core/delivery.py\<close>).
\<close>

section \<open>Events\<close>

record event =
  ev_type :: string
  ev_version :: int
  ev_data :: json
  ev_occurred_at :: py_datetime
  ev_correlation_id :: "uuid option"
  ev_causation_id :: "uuid option"
  ev_traceparent :: "string option"
  ev_tracestate :: "string option"

text \<open>
  \<^verbatim>\<open>_TRACEPARENT\<close>: version, trace, parent and flags in lower-case hexadecimal, separated by
  hyphens, 55 characters in all.
\<close>

definition slice :: "nat \<Rightarrow> nat \<Rightarrow> string \<Rightarrow> string" where
  "slice from len s = take len (drop from s)"

definition traceparent_ok :: "string \<Rightarrow> bool" where
  "traceparent_ok v \<longleftrightarrow>
     length v = 55 \<and>
     list_all is_hex_lower (slice 0 2 v) \<and> slice 2 1 v = ''-'' \<and>
     list_all is_hex_lower (slice 3 32 v) \<and> slice 35 1 v = ''-'' \<and>
     list_all is_hex_lower (slice 36 16 v) \<and> slice 52 1 v = ''-'' \<and>
     list_all is_hex_lower (slice 53 2 v) \<and>
     slice 0 2 v \<noteq> ''ff'' \<and>
     set (slice 3 32 v) \<noteq> {CHR ''0''} \<and> set (slice 36 16 v) \<noteq> {CHR ''0''}"

definition validate_traceparent :: "string option \<Rightarrow> unit result" where
  "validate_traceparent v =
     (case v of None \<Rightarrow> Inr ()
      | Some t \<Rightarrow> ensure (traceparent_ok t) (ConfigurationError ''Event traceparent is invalid.''))"

text \<open>\<^verbatim>\<open>_TRACESTATE_KEY\<close>: a simple key, or a tenant and a system joined by an at sign.\<close>

definition tracestate_char :: "char \<Rightarrow> bool" where
  "tracestate_char c \<longleftrightarrow>
     is_lower c \<or> is_digit c \<or> c = CHR ''_'' \<or> c = CHR ''*'' \<or> c = CHR ''/'' \<or> c = CHR ''-''"

definition tracestate_key :: "string \<Rightarrow> bool" where
  "tracestate_key k =
     (let (tenant, at_sign, system) = partition_at (CHR ''@'') k
      in head_tail_match key_head tracestate_char 255 tenant \<and>
         (at_sign = [] \<or> head_tail_match key_head tracestate_char 13 system))"

fun tracestate_members :: "string list \<Rightarrow> string list \<Rightarrow> unit result" where
  "tracestate_members seen [] = Inr ()"
| "tracestate_members seen (member # rest) =
     (let (key, separator, value) = partition_at (CHR ''='') member
      in if separator = [] \<or> \<not> tracestate_key key \<or> key \<in> set seen \<or> value = [] \<or>
            value \<noteq> strip value \<or> CHR '','' \<in> set value \<or>
            list_ex (\<lambda>c. \<not> in_range 32 126 c) value
         then config_error ''Event tracestate is invalid.''
         else tracestate_members (key # seen) rest)"

definition validate_tracestate :: "string option \<Rightarrow> unit result" where
  "validate_tracestate v =
     (case v of None \<Rightarrow> Inr ()
      | Some t \<Rightarrow>
          if t = [] \<or> 512 < length t \<or> has_control t
          then config_error ''Event tracestate is invalid.''
          else let members = split_on (CHR '','') t in
               if 32 < length members then config_error ''Event tracestate is invalid.''
               else tracestate_members [] members)"

definition event_post_init :: "event \<Rightarrow> event result" where
  "event_post_init e =
     (if \<not> stable_key (ev_type e)
      then config_error ''Event type must use lower-case letters, digits, dots, underscores, or hyphens.''
      else if \<not> 0 < ev_version e then config_error ''Event version must be a positive integer.''
      else if \<not> is_aware (ev_occurred_at e)
      then config_error ''Event occurred_at must be timezone-aware.''
      else and_then (validate_traceparent (ev_traceparent e)) (\<lambda>_.
           and_then (validate_tracestate (ev_tracestate e)) (\<lambda>_. Inr e)))"

definition valid_event :: "event \<Rightarrow> bool" where
  "valid_event e \<longleftrightarrow>
     stable_key (ev_type e) \<and> 0 < ev_version e \<and> is_aware (ev_occurred_at e) \<and>
     validate_traceparent (ev_traceparent e) = Inr () \<and> validate_tracestate (ev_tracestate e) = Inr ()"

lemma event_post_init_Inr [result_simps]: "event_post_init e = Inr x \<longleftrightarrow> x = e \<and> valid_event e"
  by (auto simp: event_post_init_def valid_event_def result_simps)

section \<open>Event records\<close>

record event_record =
  er_event_id :: uuid
  er_tenant_id :: uuid
  er_event_type :: string
  er_event_version :: int
  er_canonical_version :: int
  er_payload_canonical :: bytes
  er_payload_sha256 :: bytes
  er_principal :: envelope
  er_occurred_at :: py_datetime
  er_created_at :: py_datetime
  er_correlation_id :: "uuid option"
  er_causation_id :: "uuid option"
  er_traceparent :: "string option"
  er_tracestate :: "string option"
  er_dedupe_namespace :: "string option"
  er_dedupe_key :: "string option"

definition event_of_record :: "event_record \<Rightarrow> event" where
  "event_of_record r =
     \<lparr>ev_type = er_event_type r, ev_version = er_event_version r, ev_data = JNull,
      ev_occurred_at = er_occurred_at r, ev_correlation_id = er_correlation_id r,
      ev_causation_id = er_causation_id r, ev_traceparent = er_traceparent r,
      ev_tracestate = er_tracestate r\<rparr>"

definition event_record_post_init :: "event_record \<Rightarrow> event_record result" where
  "event_record_post_init r =
     and_then (event_post_init (event_of_record r)) (\<lambda>_.
       if \<not> 0 < er_canonical_version r
       then config_error ''Event canonical version must be positive.''
       else if er_payload_canonical r = []
       then config_error ''Event canonical payload must be non-empty bytes.''
       else if length (er_payload_sha256 r) \<noteq> 32
       then config_error ''Event payload digest must be SHA-256 bytes.''
       else if en_tenant_id (er_principal r) \<noteq> er_tenant_id r
       then config_error ''Event tenant and principal tenant must match.''
       else if \<not> is_aware (er_created_at r)
       then config_error ''Event created_at must be timezone-aware.''
       else (case (er_dedupe_namespace r, er_dedupe_key r) of
               (None, None) \<Rightarrow> Inr r
             | (Some ns, Some k) \<Rightarrow>
                 and_then (dedupe_post_init \<lparr>namespace = ns, dedupe_key_text = k\<rparr>) (\<lambda>_. Inr r)
             | _ \<Rightarrow> config_error ''Event dedupe fields must be provided together.''))"

definition valid_event_record :: "event_record \<Rightarrow> bool" where
  "valid_event_record r \<longleftrightarrow>
     valid_event (event_of_record r) \<and> 0 < er_canonical_version r \<and> er_payload_canonical r \<noteq> [] \<and>
     length (er_payload_sha256 r) = 32 \<and> en_tenant_id (er_principal r) = er_tenant_id r \<and>
     is_aware (er_created_at r) \<and>
     (er_dedupe_namespace r = None) = (er_dedupe_key r = None) \<and>
     (\<forall>ns k. er_dedupe_namespace r = Some ns \<and> er_dedupe_key r = Some k \<longrightarrow>
        dedupe_ok \<lparr>namespace = ns, dedupe_key_text = k\<rparr>)"

lemma event_record_post_init_Inr [result_simps]:
  "event_record_post_init r = Inr x \<longleftrightarrow> x = r \<and> valid_event_record r"
  by (auto simp: event_record_post_init_def valid_event_record_def result_simps split: option.splits)

section \<open>Delivery records\<close>

datatype delivery_state = Pending | Leased | RetryWait | Succeeded | Dead

datatype attempt_outcome =
    Started | AttemptSucceeded | AttemptRetryable | Terminal | Abandoned | AttemptLeaseLost

record delivery_record =
  dr_delivery_id :: uuid
  dr_tenant_id :: uuid
  dr_event_id :: uuid
  dr_route_key :: string
  dr_route_version :: int
  dr_destination_kind :: string
  dr_destination_key :: string
  dr_route_snapshot :: bytes
  dr_state :: delivery_state
  dr_attempts_started :: int
  dr_created_at :: py_datetime
  dr_updated_at :: py_datetime
  dr_next_attempt_at :: py_datetime
  dr_lease_token :: "uuid option"
  dr_lease_expires_at :: "py_datetime option"
  dr_replay_of :: "uuid option"
  dr_replay_actor :: "string option"
  dr_replay_reason :: "string option"

definition delivery_aware :: "string \<Rightarrow> py_datetime \<Rightarrow> unit result" where
  "delivery_aware name v =
     ensure (is_aware v) (ConfigurationError (''Delivery '' @ name @ '' must be timezone-aware.''))"

text \<open>The replay audit fields: absent on an original, bounded on a replay.\<close>

definition replay_audit_ok :: "uuid \<Rightarrow> uuid option \<Rightarrow> string option \<Rightarrow> string option \<Rightarrow> bool" where
  "replay_audit_ok delivery_id replay_of actor reason =
     (case replay_of of
        None \<Rightarrow> actor = None \<and> reason = None
      | Some orig \<Rightarrow>
          orig \<noteq> delivery_id \<and>
          (case actor of None \<Rightarrow> False | Some a \<Rightarrow> a \<noteq> [] \<and> length a \<le> 512) \<and>
          (case reason of None \<Rightarrow> False | Some r \<Rightarrow> stable_key r))"

definition delivery_record_post_init :: "delivery_record \<Rightarrow> delivery_record result" where
  "delivery_record_post_init d =
     (if \<not> stable_key (dr_route_key d) then config_error ''Delivery route key is invalid.''
      else if \<not> stable_key (dr_destination_kind d)
      then config_error ''Delivery destination kind is invalid.''
      else if \<not> stable_key (dr_destination_key d)
      then config_error ''Delivery destination key is invalid.''
      else if \<not> 0 < dr_route_version d
      then config_error ''Delivery route version must be positive.''
      else if dr_attempts_started d < 0
      then config_error ''Delivery attempts_started cannot be negative.''
      else if dr_route_snapshot d = []
      then config_error ''Delivery route snapshot must be immutable bytes.''
      else
        and_then (delivery_aware ''created_at'' (dr_created_at d)) (\<lambda>_.
        and_then (delivery_aware ''updated_at'' (dr_updated_at d)) (\<lambda>_.
        and_then (delivery_aware ''next_attempt_at'' (dr_next_attempt_at d)) (\<lambda>_.
          if (dr_lease_token d = None) \<noteq> (dr_lease_expires_at d = None)
          then config_error ''Delivery lease token and expiry must be paired.''
          else if dr_state d = Leased \<and> dr_lease_token d = None
          then config_error ''A leased delivery requires a lease token.''
          else if dr_state d \<noteq> Leased \<and> dr_lease_token d \<noteq> None
          then config_error ''Only a leased delivery may retain a lease token.''
          else if dr_replay_of d = None \<and> (dr_replay_actor d \<noteq> None \<or> dr_replay_reason d \<noteq> None)
          then config_error ''Original delivery cannot contain replay audit data.''
          else if dr_replay_of d \<noteq> None \<and>
                  \<not> replay_audit_ok (dr_delivery_id d) (dr_replay_of d) (dr_replay_actor d) (dr_replay_reason d)
          then config_error ''Replay requires a bounded actor and reason.''
          else if instant (dr_updated_at d) < instant (dr_created_at d)
          then config_error ''Delivery updated before it was created.''
          else Inr d))))"

definition valid_delivery_record :: "delivery_record \<Rightarrow> bool" where
  "valid_delivery_record d \<longleftrightarrow>
     stable_key (dr_route_key d) \<and> stable_key (dr_destination_kind d) \<and>
     stable_key (dr_destination_key d) \<and> 0 < dr_route_version d \<and> 0 \<le> dr_attempts_started d \<and>
     dr_route_snapshot d \<noteq> [] \<and> is_aware (dr_created_at d) \<and> is_aware (dr_updated_at d) \<and>
     is_aware (dr_next_attempt_at d) \<and>
     (dr_lease_token d = None) = (dr_lease_expires_at d = None) \<and>
     (dr_state d = Leased) = (dr_lease_token d \<noteq> None) \<and>
     replay_audit_ok (dr_delivery_id d) (dr_replay_of d) (dr_replay_actor d) (dr_replay_reason d) \<and>
     instant (dr_created_at d) \<le> instant (dr_updated_at d)"

lemma delivery_record_post_init_Inr [result_simps]:
  "delivery_record_post_init d = Inr x \<longleftrightarrow> x = d \<and> valid_delivery_record d"
  by (cases "dr_replay_of d")
     (auto simp: delivery_record_post_init_def valid_delivery_record_def delivery_aware_def
        replay_audit_ok_def result_simps)

section \<open>Attempt records\<close>

record attempt_record =
  ar_attempt_id :: uuid
  ar_tenant_id :: uuid
  ar_delivery_id :: uuid
  ar_attempt_number :: int
  ar_lease_token :: uuid
  ar_outcome :: attempt_outcome
  ar_started_at :: py_datetime
  ar_finished_at :: "py_datetime option"
  ar_failure_code :: "string option"
  ar_failure_summary :: "string option"

definition attempt_record_post_init :: "attempt_record \<Rightarrow> attempt_record result" where
  "attempt_record_post_init a =
     (if \<not> 0 < ar_attempt_number a then config_error ''Attempt number must be positive.''
      else and_then (delivery_aware ''started_at'' (ar_started_at a)) (\<lambda>_.
        if ar_outcome a = Started \<and>
           (ar_finished_at a \<noteq> None \<or> ar_failure_code a \<noteq> None \<or> ar_failure_summary a \<noteq> None)
        then config_error ''A started attempt cannot contain an outcome.''
        else if ar_outcome a \<noteq> Started \<and> ar_finished_at a = None
        then config_error ''A completed attempt requires finished_at.''
        else if ar_outcome a = AttemptSucceeded \<and>
                (ar_failure_code a \<noteq> None \<or> ar_failure_summary a \<noteq> None)
        then config_error ''A successful attempt cannot contain a failure.''
        else if ar_outcome a \<noteq> Started \<and> ar_outcome a \<noteq> AttemptSucceeded \<and>
                (ar_failure_code a = None \<or> ar_failure_summary a = None)
        then config_error ''A failed attempt requires bounded failure metadata.''
        else
          and_then
            (case ar_finished_at a of
               None \<Rightarrow> Inr ()
             | Some f \<Rightarrow> and_then (delivery_aware ''finished_at'' f) (\<lambda>_.
                 if instant f < instant (ar_started_at a)
                 then config_error ''Attempt finished before it started.'' else Inr ())) (\<lambda>_.
            if (case ar_failure_code a of None \<Rightarrow> False | Some c \<Rightarrow> \<not> stable_key c)
            then config_error ''Attempt failure code is invalid.''
            else if (case ar_failure_summary a of None \<Rightarrow> False | Some s \<Rightarrow> 512 < length s)
            then config_error ''Attempt failure summary is invalid.''
            else Inr a)))"

definition valid_attempt_record :: "attempt_record \<Rightarrow> bool" where
  "valid_attempt_record a \<longleftrightarrow>
     0 < ar_attempt_number a \<and> is_aware (ar_started_at a) \<and>
     (ar_outcome a = Started) = (ar_finished_at a = None) \<and>
     (ar_failure_code a = None) = (ar_failure_summary a = None) \<and>
     (ar_outcome a = Started \<or> ar_outcome a = AttemptSucceeded) = (ar_failure_code a = None) \<and>
     (\<forall>f. ar_finished_at a = Some f \<longrightarrow> is_aware f \<and> instant (ar_started_at a) \<le> instant f) \<and>
     (\<forall>c. ar_failure_code a = Some c \<longrightarrow> stable_key c) \<and>
     (\<forall>s. ar_failure_summary a = Some s \<longrightarrow> length s \<le> 512)"

lemma attempt_record_post_init_Inr [result_simps]:
  "attempt_record_post_init a = Inr x \<longleftrightarrow> x = a \<and> valid_attempt_record a"
proof -
  have "attempt_record_post_init a = Inr x \<longleftrightarrow> x = a \<and> attempt_record_post_init a = Inr a"
    by (auto simp: attempt_record_post_init_def result_simps delivery_aware_def split: option.splits)
  moreover have "attempt_record_post_init a = Inr a \<longleftrightarrow> valid_attempt_record a"
    by (cases "ar_finished_at a"; cases "ar_failure_code a"; cases "ar_failure_summary a";
        cases "ar_outcome a")
       (auto simp: attempt_record_post_init_def valid_attempt_record_def delivery_aware_def
          result_simps not_less)
  ultimately show ?thesis by simp
qed

end
