(* ===== verification/Canonical.thy ===== *)
theory Canonical
  imports Python_Time "HOL-Library.Multiset"
begin

text \<open>
  Canonical JSON, \<^verbatim>\<open>sqlalchemy/canonical.py\<close>: the strict normalisation walk, the deterministic
  rendering (\<^verbatim>\<open>json.dumps\<close> with sorted keys and no blanks, encoded as UTF-8), the byte limit and
  the format tag in front of every hashed representation.

  JSON values are finite trees, so the reference-cycle check never fires; on Latin-1 text NFC
  normalisation is the identity and encoding never fails. The rendering of a finite float
  (\<^verbatim>\<open>float.__repr__\<close>) and SHA-256 are arguments.
\<close>

section \<open>Normalisation\<close>

abbreviation too_deep :: "'a result" where
  "too_deep \<equiv> config_error ''Canonical JSON exceeds the nesting limit.''"

definition max_depth :: int where "max_depth = 64"
definition max_container_items :: int where "max_container_items = 10000"

fun normalize :: "int \<Rightarrow> json \<Rightarrow> json result"
  and normalize_items :: "int \<Rightarrow> json list \<Rightarrow> json list result"
  and normalize_members :: "int \<Rightarrow> string list \<Rightarrow> (string \<times> json) list \<Rightarrow> (string \<times> json) list result"
where
  "normalize depth (JObj ms) =
     (if max_depth < depth then too_deep
      else if max_container_items < int (length ms)
      then config_error ''Canonical JSON object has too many members.''
      else and_then (normalize_members depth [] ms) (\<lambda>ms'. Inr (JObj ms')))"
| "normalize depth (JList vs) =
     (if max_depth < depth then too_deep
      else if max_container_items < int (length vs)
      then config_error ''Canonical JSON array has too many items.''
      else and_then (normalize_items depth vs) (\<lambda>vs'. Inr (JList vs')))"
| "normalize depth (JFloat f) =
     (if max_depth < depth then too_deep
      else if \<not> is_finite f then config_error ''Canonical JSON contains a non-finite number.''
      else Inr (JFloat f))"
| "normalize depth v = (if max_depth < depth then too_deep else Inr v)"
| "normalize_items depth [] = Inr []"
| "normalize_items depth (v # vs) =
     and_then (normalize (depth + 1) v) (\<lambda>v'.
     and_then (normalize_items depth vs) (\<lambda>vs'. Inr (v' # vs')))"
| "normalize_members depth semantic_keys [] = Inr []"
| "normalize_members depth semantic_keys ((k, v) # ms) =
     (if k \<in> set semantic_keys
      then config_error ''Canonical JSON object contains duplicate semantic keys.''
      else and_then (normalize (depth + 1) v) (\<lambda>v'.
           and_then (normalize_members depth (k # semantic_keys) ms) (\<lambda>ms'. Inr ((k, v') # ms'))))"

text \<open>When the walk accepts a value: the predicate it decides.\<close>

fun accepted :: "int \<Rightarrow> json \<Rightarrow> bool" where
  "accepted depth (JObj ms) \<longleftrightarrow>
     depth \<le> max_depth \<and> int (length ms) \<le> max_container_items \<and> distinct (map fst ms) \<and>
     list_all (\<lambda>m. accepted (depth + 1) (snd m)) ms"
| "accepted depth (JList vs) \<longleftrightarrow>
     depth \<le> max_depth \<and> int (length vs) \<le> max_container_items \<and> list_all (accepted (depth + 1)) vs"
| "accepted depth (JFloat f) \<longleftrightarrow> depth \<le> max_depth \<and> is_finite f"
| "accepted depth v \<longleftrightarrow> depth \<le> max_depth"

lemma normalize_accepted:
  "accepted d v \<Longrightarrow> normalize d v = Inr v"
  "list_all (accepted (d + 1)) vs \<Longrightarrow> normalize_items d vs = Inr vs"
  "distinct (map fst ms) \<Longrightarrow> set (map fst ms) \<inter> set ks = {} \<Longrightarrow>
     list_all (\<lambda>m. accepted (d + 1) (snd m)) ms \<Longrightarrow> normalize_members d ks ms = Inr ms"
  by (induction d v and d vs and d ks ms rule: normalize_normalize_items_normalize_members.induct) auto

lemma normalize_InrD:
  "normalize d v = Inr u \<Longrightarrow> u = v \<and> accepted d v"
  "normalize_items d vs = Inr us \<Longrightarrow> us = vs \<and> list_all (accepted (d + 1)) vs"
  "normalize_members d ks ms = Inr ns \<Longrightarrow>
     ns = ms \<and> distinct (map fst ms) \<and> set (map fst ms) \<inter> set ks = {} \<and>
     list_all (\<lambda>m. accepted (d + 1) (snd m)) ms"
  by (induction d v and d vs and d ks ms arbitrary: u and us and ns
      rule: normalize_normalize_items_normalize_members.induct)
     (auto simp: and_then_Inr_iff split: if_splits)

lemma normalize_Inr_iff [result_simps]: "normalize d v = Inr u \<longleftrightarrow> u = v \<and> accepted d v"
  using normalize_accepted(1) normalize_InrD(1) by blast

section \<open>Rendering\<close>

text \<open>The escapes of \<^verbatim>\<open>ensure_ascii=False\<close>.\<close>

definition escape_char :: "char \<Rightarrow> string" where
  "escape_char c =
     (if c = CHR 0x22 then [CHR 0x5C, CHR 0x22]
      else if c = CHR 0x5C then [CHR 0x5C, CHR 0x5C]
      else if c = CHR 0x0A then [CHR 0x5C, CHR ''n'']
      else if c = CHR 0x0D then [CHR 0x5C, CHR ''r'']
      else if c = CHR 0x09 then [CHR 0x5C, CHR ''t'']
      else if c = CHR 0x0C then [CHR 0x5C, CHR ''f'']
      else if c = CHR 0x08 then [CHR 0x5C, CHR ''b'']
      else if code c < 32 then [CHR 0x5C, CHR ''u''] @ hex_digits 4 (int (code c))
      else [c])"

definition json_string :: "string \<Rightarrow> string" where
  "json_string s = CHR 0x22 # concat (map escape_char s) @ [CHR 0x22]"

fun join :: "string \<Rightarrow> string list \<Rightarrow> string" where
  "join sep [] = []"
| "join sep [w] = w"
| "join sep (w # ws) = w @ sep @ join sep ws"

text \<open>\<^verbatim>\<open>int.__repr__\<close> raises \<^verbatim>\<open>ValueError\<close> beyond 4300 digits.\<close>

definition int_repr :: "int \<Rightarrow> string result" where
  "int_repr n = (if int (length (pos_str \<bar>n\<bar>)) \<le> 4300 then Inr (int_str n) else Inl ValueError)"

fun dumps :: "(rat \<Rightarrow> string) \<Rightarrow> json \<Rightarrow> string result"
  and dumps_items :: "(rat \<Rightarrow> string) \<Rightarrow> json list \<Rightarrow> string list result"
  and dumps_members :: "(rat \<Rightarrow> string) \<Rightarrow> (string \<times> json) list \<Rightarrow> (string \<times> string) list result"
where
  "dumps frepr JNull = Inr ''null''"
| "dumps frepr (JBool b) = Inr (if b then ''true'' else ''false'')"
| "dumps frepr (JInt n) = int_repr n"
| "dumps frepr (JFloat f) = (if is_finite f then Inr (frepr (the_fin f)) else Inl ValueError)"
| "dumps frepr (JStr s) = Inr (json_string s)"
| "dumps frepr (JList vs) =
     and_then (dumps_items frepr vs) (\<lambda>ws. Inr (''['' @ join '','' ws @ '']''))"
| "dumps frepr (JObj ms) =
     and_then (dumps_members frepr ms) (\<lambda>ps.
       Inr (''{'' @ join '','' (map (\<lambda>(k, w). json_string k @ '':'' @ w) (sort_key fst ps)) @ ''}''))"
| "dumps_items frepr [] = Inr []"
| "dumps_items frepr (v # vs) =
     and_then (dumps frepr v) (\<lambda>w. and_then (dumps_items frepr vs) (\<lambda>ws. Inr (w # ws)))"
| "dumps_members frepr [] = Inr []"
| "dumps_members frepr ((k, v) # ms) =
     and_then (dumps frepr v) (\<lambda>w. and_then (dumps_members frepr ms) (\<lambda>ps. Inr ((k, w) # ps)))"

section \<open>Canonical bytes\<close>

definition canonical_prefix :: bytes where
  "canonical_prefix = ''fastapi_effects:canonical-json:v1'' @ [CHR 0x0A]"

definition canonical_json_bytes :: "(rat \<Rightarrow> string) \<Rightarrow> int \<Rightarrow> json \<Rightarrow> bytes result" where
  "canonical_json_bytes frepr maximum_bytes v =
     (if maximum_bytes < 1 then config_error ''Canonical JSON maximum size must be positive.''
      else and_then (normalize 0 v) (\<lambda>normalized.
        case dumps frepr normalized of
          Inl _ \<Rightarrow> config_error ''Value cannot be represented as canonical JSON.''
        | Inr text \<Rightarrow>
            let encoded = utf8 text in
            if maximum_bytes < int (length encoded)
            then config_error ''Canonical JSON exceeds the configured byte limit.''
            else Inr encoded))"

definition default_max_payload_bytes :: int where "default_max_payload_bytes = 262144"

definition versioned_canonical_bytes :: "(rat \<Rightarrow> string) \<Rightarrow> int \<Rightarrow> json \<Rightarrow> bytes result" where
  "versioned_canonical_bytes frepr maximum_bytes v =
     (let body_limit = maximum_bytes - int (length canonical_prefix) in
      if body_limit < 1 then config_error ''Canonical JSON maximum size is too small.''
      else and_then (canonical_json_bytes frepr body_limit v) (\<lambda>b. Inr (canonical_prefix @ b)))"

definition canonical_sha256 ::
  "(bytes \<Rightarrow> bytes) \<Rightarrow> (rat \<Rightarrow> string) \<Rightarrow> int \<Rightarrow> json \<Rightarrow> bytes result" where
  "canonical_sha256 sha256 frepr maximum_bytes v =
     and_then (versioned_canonical_bytes frepr maximum_bytes v) (\<lambda>b. Inr (sha256 b))"

lemma canonical_json_bytes_Inr [result_simps]:
  "canonical_json_bytes frepr m v = Inr b \<longleftrightarrow>
     accepted 0 v \<and> (\<exists>t. dumps frepr v = Inr t \<and> b = utf8 t) \<and> 1 \<le> m \<and> int (length b) \<le> m"
  by (auto simp: canonical_json_bytes_def result_simps Let_def split: sum.splits)

lemma versioned_canonical_bytes_Inr [result_simps]:
  "versioned_canonical_bytes frepr m v = Inr b \<longleftrightarrow>
     (\<exists>b0. canonical_json_bytes frepr (m - int (length canonical_prefix)) v = Inr b0 \<and>
           b = canonical_prefix @ b0)"
  by (auto simp: versioned_canonical_bytes_def result_simps Let_def)

section \<open>Equality up to member order\<close>

text \<open>
  Equality of JSON values as Python compares dicts and lists, without conflating types:
  objects are equal when they have the same members in any order.
\<close>

fun json_same :: "json \<Rightarrow> json \<Rightarrow> bool" where
  "json_same (JObj ms) w =
     (case w of
        JObj ns \<Rightarrow>
          length ms = length ns \<and>
          list_all (\<lambda>m. case map_of ns (fst m) of None \<Rightarrow> False | Some u \<Rightarrow> json_same (snd m) u) ms
      | _ \<Rightarrow> False)"
| "json_same (JList vs) w = (case w of JList us \<Rightarrow> list_all2 json_same vs us | _ \<Rightarrow> False)"
| "json_same JNull w = (w = JNull)"
| "json_same (JBool b) w = (w = JBool b)"
| "json_same (JInt n) w = (w = JInt n)"
| "json_same (JFloat f) w = (w = JFloat f)"
| "json_same (JStr t) w = (w = JStr t)"

text \<open>Python dicts: keys are distinct at every level.\<close>

fun json_dicts :: "json \<Rightarrow> bool" where
  "json_dicts (JObj ms) \<longleftrightarrow> distinct (map fst ms) \<and> list_all (\<lambda>m. json_dicts (snd m)) ms"
| "json_dicts (JList vs) \<longleftrightarrow> list_all json_dicts vs"
| "json_dicts _ \<longleftrightarrow> True"

lemma dumps_items_Inr:
  "dumps_items frepr vs = Inr ws \<longleftrightarrow> list_all2 (\<lambda>v w. dumps frepr v = Inr w) vs ws"
  by (induction vs arbitrary: ws) (auto simp: and_then_Inr_iff list_all2_Cons1)

lemma dumps_members_Inr:
  "dumps_members frepr ms = Inr ps \<longleftrightarrow>
     list_all2 (\<lambda>m p. fst m = fst p \<and> dumps frepr (snd m) = Inr (snd p)) ms ps"
  by (induction ms arbitrary: ps) (auto simp: and_then_Inr_iff list_all2_Cons1)

lemma sort_key_fst_unique:
  assumes "distinct (map fst ps)" and "distinct (map fst qs)" and "set ps = set qs"
  shows "sort_key fst ps = sort_key fst qs"
proof -
  have "mset ps = mset qs"
    using assms by (metis distinct_map set_eq_iff_mset_eq_distinct)
  moreover have "inj_on fst (set ps)" using assms(1) by (simp add: distinct_map)
  ultimately show ?thesis by (intro sort_key_inj_key_eq) simp_all
qed

lemma dumps_members_keys:
  "dumps_members frepr ms = Inr ps \<Longrightarrow> map fst ps = map fst ms"
  by (induction ms arbitrary: ps) (auto simp: and_then_Inr_iff)

lemma dumps_members_total:
  "(\<And>m. m \<in> set ms \<Longrightarrow> dumps frepr (snd m) = Inr (g m)) \<Longrightarrow>
     dumps_members frepr ms = Inr (map (\<lambda>m. (fst m, g m)) ms)"
proof (induction ms)
  case (Cons m ms)
  then show ?case by (cases m) fastforce
qed simp

lemma dumps_members_at:
  "dumps_members frepr ms = Inr ps \<Longrightarrow> m \<in> set ms \<Longrightarrow> \<exists>w. dumps frepr (snd m) = Inr w \<and> (fst m, w) \<in> set ps"
  by (induction ms arbitrary: ps) (auto simp: and_then_Inr_iff)

lemma same_keys:
  assumes "distinct (map fst ms)" and "distinct (map fst ns)" and "length ms = length ns"
    and "\<And>m. m \<in> set ms \<Longrightarrow> \<exists>u. map_of ns (fst m) = Some u"
  shows "fst ` set ms = fst ` set ns"
proof (rule card_subset_eq)
  show "fst ` set ms \<subseteq> fst ` set ns" using assms(4) by (force dest!: map_of_SomeD)
  show "card (fst ` set ms) = card (fst ` set ns)"
    using assms(1-3) by (metis distinct_card length_map set_map)
qed simp

text \<open>Objects with the same keys and pairwise equally rendered members render alike.\<close>

lemma dumps_JObj_same:
  assumes "dumps_members frepr ms = Inr ps" and "distinct (map fst ms)" and "distinct (map fst ns)"
    and "length ms = length ns"
    and same: "\<And>m. m \<in> set ms \<Longrightarrow>
      \<exists>u. map_of ns (fst m) = Some u \<and> (\<forall>w. dumps frepr (snd m) = Inr w \<longrightarrow> dumps frepr u = Inr w)"
  shows "dumps frepr (JObj ns) = dumps frepr (JObj ms)"
proof -
  have keys: "fst ` set ms = fst ` set ns"
    using same by (intro same_keys [OF assms(2-4)]) blast
  have "\<exists>w. dumps frepr (snd n) = Inr w \<and> (fst n, w) \<in> set ps" if n: "n \<in> set ns" for n
  proof -
    obtain m where m: "m \<in> set ms" "fst m = fst n" using n keys by (metis imageE image_eqI)
    obtain w where w: "dumps frepr (snd m) = Inr w" "(fst m, w) \<in> set ps"
      using dumps_members_at [OF assms(1) m(1)] by blast
    have "map_of ns (fst m) = Some (snd n)"
      using n m assms(3) by (simp add: map_of_is_SomeI)
    with same [OF m(1)] w m show ?thesis by auto
  qed
  then obtain g where g: "\<And>n. n \<in> set ns \<Longrightarrow> dumps frepr (snd n) = Inr (g n) \<and> (fst n, g n) \<in> set ps"
    by metis
  define qs where "qs = map (\<lambda>n. (fst n, g n)) ns"
  have qs: "dumps_members frepr ns = Inr qs"
    unfolding qs_def using g by (intro dumps_members_total) blast
  have dps: "distinct (map fst ps)" using dumps_members_keys [OF assms(1)] assms(2) by simp
  have dqs: "distinct (map fst qs)" using dumps_members_keys [OF qs] assms(3) by simp
  have "set qs \<subseteq> set ps" using g by (auto simp: qs_def)
  moreover have "card (set qs) = card (set ps)"
    using dps dqs assms(4) dumps_members_keys [OF assms(1)] dumps_members_keys [OF qs]
    by (metis distinct_card distinct_map length_map)
  ultimately have "set qs = set ps" by (intro card_subset_eq) simp_all
  then have "sort_key fst qs = sort_key fst ps" using dps dqs by (intro sort_key_fst_unique)
  with qs assms(1) show ?thesis by simp
qed

lemma json_same_canonical:
  "json_same v w \<Longrightarrow> accepted d v \<Longrightarrow> json_dicts w \<Longrightarrow>
     accepted d w \<and> (\<forall>t. dumps frepr v = Inr t \<longrightarrow> dumps frepr w = Inr t)"
proof (induction v w arbitrary: d rule: json_same.induct)
  case (1 ms w)
  then obtain ns where w: "w = JObj ns" and len: "length ms = length ns"
    by (auto split: json.splits)
  have mem: "\<exists>u. map_of ns (fst m) = Some u \<and> json_same (snd m) u \<and> accepted (d + 1) u \<and>
      (\<forall>t. dumps frepr (snd m) = Inr t \<longrightarrow> dumps frepr u = Inr t)" if m: "m \<in> set ms" for m
  proof -
    from 1(2) w m obtain u where u: "map_of ns (fst m) = Some u" "json_same (snd m) u"
      by (fastforce simp: list_all_iff split: option.splits)
    have "json_dicts u" using 1(4) w map_of_SomeD [OF u(1)] by (auto simp: list_all_iff)
    moreover have "accepted (d + 1) (snd m)" using 1(3) m by (simp add: list_all_iff)
    ultimately show ?thesis using 1(1) [OF w m u(1) u(2)] u by blast
  qed
  have dm: "distinct (map fst ms)" and dn: "distinct (map fst ns)" using 1(3,4) w by simp_all
  have "\<forall>t. dumps frepr (JObj ms) = Inr t \<longrightarrow> dumps frepr w = Inr t"
  proof (intro allI impI)
    fix t assume t: "dumps frepr (JObj ms) = Inr t"
    then obtain ps where "dumps_members frepr ms = Inr ps" by (auto simp: and_then_Inr_iff)
    from dumps_JObj_same [OF this dm dn len] mem t w show "dumps frepr w = Inr t" by metis
  qed
  moreover have "accepted (d + 1) (snd n)" if n: "n \<in> set ns" for n
  proof -
    have "fst ` set ms = fst ` set ns"
      using mem by (intro same_keys [OF dm dn len]) blast
    then obtain m where m: "m \<in> set ms" "fst m = fst n" using n by (metis imageE image_eqI)
    have "map_of ns (fst m) = Some (snd n)" using n m dn by (simp add: map_of_is_SomeI)
    with mem [OF m(1)] show ?thesis by auto
  qed
  ultimately show ?case using 1(3) w len dn by (auto simp: list_all_iff)
next
  case (2 vs w)
  then obtain us where w: "w = JList us" and same: "list_all2 json_same vs us"
    by (auto split: json.splits)
  have "list_all2 (\<lambda>v u. accepted (d + 1) u \<and> (\<forall>t. dumps frepr v = Inr t \<longrightarrow> dumps frepr u = Inr t)) vs us"
  proof (rule list_all2_all_nthI)
    show "length vs = length us" using same by (rule list_all2_lengthD)
    fix i assume i: "i < length vs"
    then have "json_same (vs ! i) (us ! i)" "vs ! i \<in> set vs" "us ! i \<in> set us"
      using same by (auto simp: list_all2_conv_all_nth)
    moreover from this have "accepted (d + 1) (vs ! i)" "json_dicts (us ! i)"
      using 2(3,4) w by (auto simp: list_all_iff)
    ultimately show "accepted (d + 1) (us ! i) \<and>
        (\<forall>t. dumps frepr (vs ! i) = Inr t \<longrightarrow> dumps frepr (us ! i) = Inr t)"
      using 2(1) [OF w] by blast
  qed
  then show ?case using 2(3) w
    by (auto simp: list_all2_conv_all_nth list_all_length and_then_Inr_iff dumps_items_Inr)
qed auto

section \<open>Properties\<close>

text \<open>
  The representation is canonical: two values that are equal up to the order of object members,
  at any depth, have the same canonical bytes, hence the same durable digest. A re-emission with a
  reordered payload is recognised as the same payload.
\<close>

lemma canonical_bytes_order_independent:
  assumes "json_same v w" and "json_dicts w"
    and "versioned_canonical_bytes frepr m v = Inr b"
  shows "versioned_canonical_bytes frepr m w = Inr b"
  using assms json_same_canonical [OF assms(1) _ assms(2), of 0 frepr]
  by (auto simp: versioned_canonical_bytes_Inr canonical_json_bytes_Inr)

text \<open>
  Every accepted representation is bounded and tagged: canonical bytes are returned exactly for
  trees of at most 64 nested levels with bounded containers, distinct keys and finite numbers whose
  rendering fits; the result starts with the format tag and never exceeds the limit.
\<close>

lemma canonical_bytes_bounded:
  assumes "versioned_canonical_bytes frepr m v = Inr b"
  shows "accepted 0 v \<and> int (length b) \<le> m \<and> take (length canonical_prefix) b = canonical_prefix"
  using assms by (auto simp: versioned_canonical_bytes_Inr canonical_json_bytes_Inr)

end
