(* ===== verification/Routing.thy ===== *)
theory Routing
  imports Retry Records Canonical
begin

text \<open>
  Routes, \<^verbatim>\<open>core/routing.py\<close>: the validated route specification and its execution snapshot, the
  registry of routes and handlers with its freeze, the declaration builder, and route matching
  (also as the unit of work and the command context use it).
\<close>

section \<open>Route specifications\<close>

record route_spec =
  r_event_type :: string
  r_route_key :: string
  r_version :: int
  r_destination_kind :: string
  r_destination_key :: string
  r_required_scopes :: "string list"
  r_authorization :: authorization_mode
  r_service_policy :: "string option"
  r_service_capabilities :: "string list option"
  r_maximum_snapshot_age_seconds :: "int option"
  r_retry_policy :: retry_policy
  r_destination_metadata :: json

definition validate_key :: "string \<Rightarrow> string \<Rightarrow> unit result" where
  "validate_key name v = ensure (stable_key v) (ConfigurationError
     (name @ '' must use lower-case letters, digits, dots, underscores, or hyphens.''))"

definition validate_event_type :: "string \<Rightarrow> unit result" where
  "validate_event_type t = ensure (stable_key t) (ConfigurationError
     ''Event type must use lower-case letters, digits, dots, underscores, or hyphens.'')"

definition validate_route_declaration :: "string \<Rightarrow> string \<Rightarrow> int \<Rightarrow> unit result" where
  "validate_route_declaration event_type route_key version =
     and_then (validate_event_type event_type) (\<lambda>_.
     and_then (validate_key ''Route key'' route_key) (\<lambda>_.
     ensure (0 < version) (ConfigurationError ''Route version must be a positive integer.'')))"

definition normalize_scopes :: "string list \<Rightarrow> string list result" where
  "normalize_scopes ss =
     (let unique = frozenset ss in
      if 256 < length unique \<or> list_ex (\<lambda>s. \<not> scope_name s) unique
      then config_error ''Route contains invalid required scopes.'' else Inr unique)"

text \<open>
  The value that loading the canonical text of a value gives: members sorted by key.
\<close>

fun json_reload :: "json \<Rightarrow> json" where
  "json_reload (JObj ms) = JObj (sort_key fst (map (\<lambda>m. (fst m, json_reload (snd m))) ms))"
| "json_reload (JList vs) = JList (map json_reload vs)"
| "json_reload v = v"

definition load_metadata :: "(rat \<Rightarrow> string) \<Rightarrow> json \<Rightarrow> json result" where
  "load_metadata frepr v =
     and_then (canonical_json_bytes frepr 16384 v) (\<lambda>_.
       case json_reload v of
         JObj ms \<Rightarrow> Inr (JObj ms)
       | _ \<Rightarrow> config_error ''Destination metadata must be a JSON object.'')"

text \<open>\<^verbatim>\<open>RouteSpecification.__post_init__\<close>: validates and normalises.\<close>

definition route_post_init :: "(rat \<Rightarrow> string) \<Rightarrow> route_spec \<Rightarrow> route_spec result" where
  "route_post_init frepr r =
     and_then (validate_route_declaration (r_event_type r) (r_route_key r) (r_version r)) (\<lambda>_.
     and_then (validate_key ''Destination kind'' (r_destination_kind r)) (\<lambda>_.
     and_then (validate_key ''Destination key'' (r_destination_key r)) (\<lambda>_.
     and_then (normalize_scopes (r_required_scopes r)) (\<lambda>scopes'.
     and_then (case r_service_policy r of None \<Rightarrow> Inr () | Some sp \<Rightarrow> validate_key ''Service policy'' sp) (\<lambda>_.
     and_then (case r_service_capabilities r of None \<Rightarrow> Inr None
               | Some cs \<Rightarrow> and_then (normalize_scopes cs) (\<lambda>cs'. Inr (Some cs'))) (\<lambda>caps.
       if (case r_maximum_snapshot_age_seconds r of None \<Rightarrow> False | Some n \<Rightarrow> \<not> 0 < n)
       then config_error ''Route snapshot maximum age must be positive.''
       else and_then (load_metadata frepr (r_destination_metadata r)) (\<lambda>metadata.
         Inr (r\<lparr>r_required_scopes := scopes', r_service_capabilities := caps,
                r_destination_metadata := metadata\<rparr>))))))))"

section \<open>Execution snapshots\<close>

definition metadata_members :: "route_spec \<Rightarrow> (string \<times> json) list" where
  "metadata_members r = (case r_destination_metadata r of JObj ms \<Rightarrow> ms | _ \<Rightarrow> [])"

definition opt_str :: "string option \<Rightarrow> json" where
  "opt_str v = (case v of None \<Rightarrow> JNull | Some s \<Rightarrow> JStr s)"

definition opt_strs :: "string list option \<Rightarrow> json" where
  "opt_strs v = (case v of None \<Rightarrow> JNull | Some ss \<Rightarrow> JList (map JStr ss))"

definition opt_int :: "int option \<Rightarrow> json" where
  "opt_int v = (case v of None \<Rightarrow> JNull | Some n \<Rightarrow> JInt n)"

definition authority_snapshot :: "route_spec \<Rightarrow> (string \<times> json) list" where
  "authority_snapshot r =
     [(''mode'', JStr (mode_value (r_authorization r))),
      (''required_scopes'', JList (map JStr (r_required_scopes r))),
      (''service_policy'', opt_str (r_service_policy r)),
      (''service_capabilities'', opt_strs (r_service_capabilities r)),
      (''maximum_snapshot_age_seconds'', opt_int (r_maximum_snapshot_age_seconds r))]"

definition to_snapshot :: "route_spec \<Rightarrow> (string \<times> json) list" where
  "to_snapshot r =
     [(''snapshot_version'', JInt 1),
      (''event_type'', JStr (r_event_type r)),
      (''route_key'', JStr (r_route_key r)),
      (''route_version'', JInt (r_version r)),
      (''destination'', JObj (dict_merge
         [(''kind'', JStr (r_destination_kind r)), (''key'', JStr (r_destination_key r))]
         (metadata_members r))),
      (''authority'', JObj (authority_snapshot r)),
      (''retry'', JObj (policy_to_dict (r_retry_policy r)))]"

definition snapshot_bytes :: "(rat \<Rightarrow> string) \<Rightarrow> route_spec \<Rightarrow> bytes result" where
  "snapshot_bytes frepr r = canonical_json_bytes frepr 32768 (JObj (to_snapshot r))"

text \<open>\<^verbatim>\<open>leasing._snapshot_policy\<close>: the retry policy of a stored snapshot.\<close>

definition snapshot_policy :: "(string \<times> json) list \<Rightarrow> retry_policy result" where
  "snapshot_policy snapshot =
     (case map_of snapshot ''retry'' of
        Some (JObj d) \<Rightarrow> policy_from_dict d
      | _ \<Rightarrow> config_error ''Delivery retry snapshot is invalid.'')"

lemma snapshot_policy_to_snapshot:
  "valid_policy (r_retry_policy r) \<Longrightarrow> snapshot_policy (to_snapshot r) = Inr (r_retry_policy r)"
  by (cases "r_retry_policy r")
     (simp add: snapshot_policy_def to_snapshot_def policy_from_dict_def policy_to_dict_def dict_item_def
        policy_post_init_Inr snapshot_guard_Inr)

lemma snapshot_policy_valid: "snapshot_policy s = Inr p \<Longrightarrow> valid_policy p"
  by (auto simp: snapshot_policy_def policy_from_dict_valid split: option.splits json.splits)

section \<open>The registry\<close>

text \<open>A handler is an object identity together with whether it is an asynchronous callable.\<close>

datatype handler = Handler (handler_id: nat) (is_async_callable: bool)

type_synonym route_identity = "string \<times> int"

record registry =
  reg_routes :: "(route_identity \<times> route_spec) list"
  reg_handlers :: "(route_identity \<times> handler) list"
  reg_frozen :: bool

definition new_registry :: registry where
  "new_registry = \<lparr>reg_routes = [], reg_handlers = [], reg_frozen = False\<rparr>"

definition require_mutable :: "registry \<Rightarrow> unit result" where
  "require_mutable g = ensure (\<not> reg_frozen g)
     (ConfigurationError ''Route registry is frozen; registration is closed.'')"

definition identity_text :: "route_identity \<Rightarrow> string" where
  "identity_text i = fst i @ ''@'' @ int_str (snd i)"

definition register_handler :: "string \<Rightarrow> int \<Rightarrow> handler \<Rightarrow> registry \<Rightarrow> registry result" where
  "register_handler key version h g =
     and_then (require_mutable g) (\<lambda>_.
     and_then (validate_key ''Handler key'' key) (\<lambda>_.
       if \<not> is_async_callable h then config_error ''Handlers must be asynchronous callables.''
       else if \<not> 0 < version then config_error ''Handler version must be a positive integer.''
       else if (case map_of (reg_handlers g) (key, version) of None \<Rightarrow> False | Some h' \<Rightarrow> h' \<noteq> h)
       then config_error (''Duplicate handler registration: '' @ identity_text (key, version) @ ''.'')
       else Inr (g\<lparr>reg_handlers := dict_set (key, version) h (reg_handlers g)\<rparr>)))"

definition prior_specs :: "string \<Rightarrow> registry \<Rightarrow> route_spec list" where
  "prior_specs key g = map snd (filter (\<lambda>x. fst (fst x) = key) (reg_routes g))"

definition register_route :: "route_spec \<Rightarrow> handler \<Rightarrow> registry \<Rightarrow> registry result" where
  "register_route spec h g =
     and_then (require_mutable g) (\<lambda>_.
       let identity = (r_route_key spec, r_version spec); prior = prior_specs (r_route_key spec) g in
       if identity \<in> fst ` set (reg_routes g)
       then config_error (''Duplicate route registration: '' @ identity_text identity @ ''.'')
       else if list_ex (\<lambda>p. r_event_type p \<noteq> r_event_type spec) prior
       then config_error (''Route key '' @ r_route_key spec @ '' cannot change its event type.'')
       else if list_ex (\<lambda>p. r_version spec < r_version p) prior
       then config_error (''Route version downgrade is not allowed for '' @ r_route_key spec @ ''.'')
       else and_then (register_handler (r_destination_key spec) (r_version spec) h g) (\<lambda>g'.
         Inr (g'\<lparr>reg_routes := dict_set identity spec (reg_routes g')\<rparr>)))"

text \<open>
  \<^verbatim>\<open>snapshot_service_capabilities\<close>: every entry is checked before any route is replaced.
\<close>

fun stage_capabilities ::
  "(rat \<Rightarrow> string) \<Rightarrow> registry \<Rightarrow> (route_identity \<times> string list) list \<Rightarrow>
     (route_identity \<times> route_spec) list result" where
  "stage_capabilities frepr g [] = Inr []"
| "stage_capabilities frepr g ((identity, capabilities) # rest) =
     (case map_of (reg_routes g) identity of
        None \<Rightarrow> config_error ''Service capabilities target an unknown service-policy route.''
      | Some spec \<Rightarrow>
          if r_authorization spec \<noteq> ServicePolicy
          then config_error ''Service capabilities target an unknown service-policy route.''
          else and_then (normalize_scopes capabilities) (\<lambda>normalized.
            if \<not> fs_subset (r_required_scopes spec) normalized
            then config_error ''Named service policy lacks a required route capability.''
            else and_then (route_post_init frepr (spec\<lparr>r_service_capabilities := Some normalized\<rparr>)) (\<lambda>spec'.
                 and_then (stage_capabilities frepr g rest) (\<lambda>staged. Inr ((identity, spec') # staged)))))"

definition snapshot_service_capabilities ::
  "(rat \<Rightarrow> string) \<Rightarrow> (route_identity \<times> string list) list \<Rightarrow> registry \<Rightarrow> registry result" where
  "snapshot_service_capabilities frepr snapshots g =
     and_then (require_mutable g) (\<lambda>_.
     and_then (stage_capabilities frepr g snapshots) (\<lambda>staged.
       Inr (g\<lparr>reg_routes := dict_merge (reg_routes g) staged\<rparr>)))"

definition freeze_check :: "registry \<Rightarrow> route_spec \<Rightarrow> unit result" where
  "freeze_check g spec =
     (if (r_destination_key spec, r_version spec) \<notin> fst ` set (reg_handlers g)
      then config_error (''Route '' @ identity_text (r_route_key spec, r_version spec) @
                         '' has no registered handler.'')
      else if r_authorization spec = ServicePolicy \<and> r_service_capabilities spec = None
      then config_error ''Service-policy route has no resolved capability snapshot.''
      else Inr ())"

definition freeze :: "registry \<Rightarrow> registry result" where
  "freeze g =
     (if reg_frozen g then Inr g
      else and_then (traverse (\<lambda>x. freeze_check g (snd x)) (reg_routes g)) (\<lambda>_.
             Inr (g\<lparr>reg_frozen := True\<rparr>)))"

definition resolve_handler :: "string \<Rightarrow> int \<Rightarrow> registry \<Rightarrow> handler result" where
  "resolve_handler key version g =
     (if \<not> reg_frozen g then config_error ''Route registry must be frozen before execution.''
      else case map_of (reg_handlers g) (key, version) of
             None \<Rightarrow> config_error ''Delivery references an unknown handler identity.''
           | Some h \<Rightarrow> Inr h)"

section \<open>Matching\<close>

text \<open>The loop that keeps, per route key, the first route of the highest version.\<close>

fun latest_by_key :: "string \<Rightarrow> route_spec list \<Rightarrow> (string \<times> route_spec) list \<Rightarrow> (string \<times> route_spec) list" where
  "latest_by_key t [] latest = latest"
| "latest_by_key t (r # rs) latest =
     (if r_event_type r \<noteq> t then latest_by_key t rs latest
      else case map_of latest (r_route_key r) of
             None \<Rightarrow> latest_by_key t rs (dict_set (r_route_key r) r latest)
           | Some cur \<Rightarrow>
               if r_version cur < r_version r
               then latest_by_key t rs (dict_set (r_route_key r) r latest)
               else latest_by_key t rs latest)"

definition matching_routes :: "route_spec list \<Rightarrow> string \<Rightarrow> route_spec list" where
  "matching_routes rs t =
     sort_key (\<lambda>r. (r_route_key r, r_destination_key r)) (map snd (latest_by_key t rs []))"

definition matching :: "string \<Rightarrow> registry \<Rightarrow> route_spec list result" where
  "matching t g =
     and_then (validate_event_type t) (\<lambda>_. Inr (matching_routes (map snd (reg_routes g)) t))"

definition specifications :: "registry \<Rightarrow> route_spec list" where
  "specifications g =
     sort_key (\<lambda>r. (r_event_type r, r_route_key r, r_version r)) (map snd (reg_routes g))"

text \<open>\<^verbatim>\<open>_unique_routes\<close> of the unit of work: two routes with one identity are refused.\<close>

definition delivery_route_identity :: "route_spec \<Rightarrow> string \<times> int \<times> string \<times> string" where
  "delivery_route_identity r =
     (r_route_key r, r_version r, r_destination_kind r, r_destination_key r)"

fun collect_unique :: "route_spec list \<Rightarrow> ((string \<times> int \<times> string \<times> string) \<times> route_spec) list \<Rightarrow>
    ((string \<times> int \<times> string \<times> string) \<times> route_spec) list result" where
  "collect_unique [] unique = Inr unique"
| "collect_unique (r # rs) unique =
     (if delivery_route_identity r \<in> fst ` set unique
      then config_error ''Duplicate static and dynamic delivery route.''
      else collect_unique rs (dict_set (delivery_route_identity r) r unique))"

definition unique_routes :: "route_spec list \<Rightarrow> route_spec list result" where
  "unique_routes rs =
     and_then (collect_unique rs []) (\<lambda>unique.
       Inr (sort_key (\<lambda>r. (r_route_key r, r_destination_key r)) (map snd unique)))"

section \<open>Declarations\<close>

text \<open>\<^verbatim>\<open>HandlerRouteBuilder.to_handler\<close>: mode-specific options, then registration.\<close>

definition check_mode_options :: "authorization_mode \<Rightarrow> string option \<Rightarrow> int option \<Rightarrow> unit result" where
  "check_mode_options mode service_policy age =
     (case mode of
        Snapshot \<Rightarrow>
          if \<not> (case age of None \<Rightarrow> False | Some n \<Rightarrow> 0 < n)
          then config_error ''Snapshot authorization requires a positive maximum snapshot age.''
          else if service_policy \<noteq> None
          then config_error ''Snapshot authorization cannot name a service policy.'' else Inr ()
      | Revalidate \<Rightarrow>
          if age \<noteq> None \<or> service_policy \<noteq> None
          then config_error ''Revalidate authorization does not accept snapshot age or service policy.''
          else Inr ()
      | ServicePolicy \<Rightarrow>
          (case service_policy of
             None \<Rightarrow> config_error ''Service-policy authorization requires a named service policy.''
           | Some sp \<Rightarrow>
               and_then (validate_key ''Service policy'' sp) (\<lambda>_.
                 if age \<noteq> None
                 then config_error ''Service-policy authorization does not accept snapshot maximum age.''
                 else Inr ())))"

definition to_handler ::
  "(rat \<Rightarrow> string) \<Rightarrow> string \<Rightarrow> string \<Rightarrow> int \<Rightarrow> handler \<Rightarrow> string list \<Rightarrow> string \<Rightarrow> string option \<Rightarrow>
     int option \<Rightarrow> retry_policy option \<Rightarrow> registry \<Rightarrow> registry result" where
  "to_handler frepr event_type route_key version h required authorization service_policy age policy g =
     and_then (parse_mode authorization) (\<lambda>mode.
     and_then (normalize_scopes required) (\<lambda>scopes'.
     and_then (check_mode_options mode service_policy age) (\<lambda>_.
     and_then (route_post_init frepr
        \<lparr>r_event_type = event_type, r_route_key = route_key, r_version = version,
         r_destination_kind = ''handler'', r_destination_key = route_key,
         r_required_scopes = scopes', r_authorization = mode, r_service_policy = service_policy,
         r_service_capabilities = None, r_maximum_snapshot_age_seconds = age,
         r_retry_policy = (case policy of None \<Rightarrow> default_policy ''default-handler'' | Some p \<Rightarrow> p),
         r_destination_metadata = JObj []\<rparr>) (\<lambda>spec.
       register_route spec h g))))"

section \<open>The registry invariant\<close>

definition capabilities_cover :: "route_spec \<Rightarrow> bool" where
  "capabilities_cover r \<longleftrightarrow>
     (\<forall>cs. r_service_capabilities r = Some cs \<longrightarrow> set (r_required_scopes r) \<subseteq> set cs)"

text \<open>
  What registration maintains: identities are the key and version of their route, a key keeps one
  event type, every route has its handler, and pinned capabilities cover the required scopes.
\<close>

definition registry_inv :: "registry \<Rightarrow> bool" where
  "registry_inv g \<longleftrightarrow>
     distinct (map fst (reg_routes g)) \<and> distinct (map fst (reg_handlers g)) \<and>
     (\<forall>(i, r) \<in> set (reg_routes g).
        i = (r_route_key r, r_version r) \<and> is_frozenset (r_required_scopes r) \<and>
        (r_destination_key r, r_version r) \<in> fst ` set (reg_handlers g) \<and> capabilities_cover r) \<and>
     (\<forall>(i, r) \<in> set (reg_routes g). \<forall>(j, q) \<in> set (reg_routes g).
        r_route_key r = r_route_key q \<longrightarrow> r_event_type r = r_event_type q) \<and>
     (reg_frozen g \<longrightarrow> (\<forall>(i, r) \<in> set (reg_routes g).
        r_authorization r = ServicePolicy \<longrightarrow> r_service_capabilities r \<noteq> None))"

inductive registry_step :: "(rat \<Rightarrow> string) \<Rightarrow> registry \<Rightarrow> registry \<Rightarrow> bool" for frepr where
  declare_route: "to_handler frepr t k v h ss a sp age p g = Inr g' \<Longrightarrow> registry_step frepr g g'"
| declare_handler: "register_handler k v h g = Inr g' \<Longrightarrow> registry_step frepr g g'"
| pin_capabilities: "snapshot_service_capabilities frepr snaps g = Inr g' \<Longrightarrow> registry_step frepr g g'"
| close_registry: "freeze g = Inr g' \<Longrightarrow> registry_step frepr g g'"

lemma normalize_scopes_Inr [result_simps]:
  "normalize_scopes ss = Inr x \<longleftrightarrow> x = frozenset ss \<and> length x \<le> 256 \<and> list_all scope_name x"
  by (auto simp: normalize_scopes_def Let_def list_ex_iff list_all_iff)

lemma route_post_init_fields:
  assumes "route_post_init frepr r = Inr r'"
  shows "r_route_key r' = r_route_key r \<and> r_version r' = r_version r \<and>
         r_event_type r' = r_event_type r \<and> r_destination_key r' = r_destination_key r \<and>
         r_destination_kind r' = r_destination_kind r \<and> r_authorization r' = r_authorization r \<and>
         r_retry_policy r' = r_retry_policy r \<and>
         r_required_scopes r' = frozenset (r_required_scopes r) \<and>
         r_service_capabilities r' = map_option frozenset (r_service_capabilities r)"
  using assms
  by (auto simp: route_post_init_def result_simps split: option.splits if_splits)

lemma register_handler_Inr:
  assumes "register_handler k v h g = Inr g'"
  shows "g' = g\<lparr>reg_handlers := dict_set (k, v) h (reg_handlers g)\<rparr> \<and> \<not> reg_frozen g"
  using assms by (auto simp: register_handler_def require_mutable_def result_simps)

lemma register_handler_inv:
  assumes "registry_inv g" and "register_handler k v h g = Inr g'"
  shows "registry_inv g'"
  using assms(1) register_handler_Inr [OF assms(2)]
  by (fastforce simp: registry_inv_def distinct_dict_set keys_dict_set)

lemma register_route_inv:
  assumes inv: "registry_inv g" and reg: "register_route spec h g = Inr g'"
    and spec: "is_frozenset (r_required_scopes spec)" "capabilities_cover spec"
  shows "registry_inv g'"
proof -
  let ?i = "(r_route_key spec, r_version spec)"
  obtain g1 where g1: "register_handler (r_destination_key spec) (r_version spec) h g = Inr g1"
    and g': "g' = g1\<lparr>reg_routes := dict_set ?i spec (reg_routes g1)\<rparr>"
    and new: "?i \<notin> fst ` set (reg_routes g)"
    and same: "\<not> list_ex (\<lambda>p. r_event_type p \<noteq> r_event_type spec) (prior_specs (r_route_key spec) g)"
    using reg by (auto simp: register_route_def result_simps Let_def)
  have inv1: "registry_inv g1" using register_handler_inv [OF inv g1] .
  have eq1: "g1 = g\<lparr>reg_handlers := dict_set (r_destination_key spec, r_version spec) h (reg_handlers g)\<rparr>"
    and mut: "\<not> reg_frozen g" using register_handler_Inr [OF g1] by simp_all
  have routes: "reg_routes g' = reg_routes g @ [(?i, spec)]"
    using g' eq1 new by (simp add: dict_set_new)
  have types: "r_event_type q = r_event_type spec"
    if "(j, q) \<in> set (reg_routes g)" "r_route_key q = r_route_key spec" for j q
    using that same inv by (force simp: list_ex_iff prior_specs_def registry_inv_def)
  show ?thesis unfolding registry_inv_def
  proof (intro conjI)
    show "distinct (map fst (reg_routes g'))" using inv new routes by (simp add: registry_inv_def)
    show "distinct (map fst (reg_handlers g'))" using inv1 g' by (simp add: registry_inv_def)
    show "\<forall>(i, r)\<in>set (reg_routes g'). i = (r_route_key r, r_version r) \<and>
        is_frozenset (r_required_scopes r) \<and>
        (r_destination_key r, r_version r) \<in> fst ` set (reg_handlers g') \<and> capabilities_cover r"
      using inv1 routes g' eq1 spec by (auto simp: registry_inv_def keys_dict_set)
    show "\<forall>(i, r)\<in>set (reg_routes g'). \<forall>(j, q)\<in>set (reg_routes g').
        r_route_key r = r_route_key q \<longrightarrow> r_event_type r = r_event_type q"
      using inv routes types by (fastforce simp: registry_inv_def)
    show "reg_frozen g' \<longrightarrow> (\<forall>(i, r)\<in>set (reg_routes g').
        r_authorization r = ServicePolicy \<longrightarrow> r_service_capabilities r \<noteq> None)"
      using mut g' eq1 by simp
  qed
qed

lemma stage_capabilities_entry:
  assumes "stage_capabilities frepr g snaps = Inr staged" and "(i, r) \<in> set staged"
    and "registry_inv g"
  shows "\<exists>q. (i, q) \<in> set (reg_routes g) \<and> r_route_key r = r_route_key q \<and> r_version r = r_version q \<and>
     r_event_type r = r_event_type q \<and> r_destination_key r = r_destination_key q \<and>
     r_required_scopes r = r_required_scopes q \<and> capabilities_cover r"
  using assms(1,2)
proof (induction snaps arbitrary: staged)
  case (Cons s snaps)
  obtain j caps where s: "s = (j, caps)" by (cases s)
  from Cons.prems s obtain q q' staged' where q: "map_of (reg_routes g) j = Some q"
    and cover: "set (r_required_scopes q) \<subseteq> set (frozenset caps)"
    and q': "route_post_init frepr (q\<lparr>r_service_capabilities := Some (frozenset caps)\<rparr>) = Inr q'"
    and st: "stage_capabilities frepr g snaps = Inr staged'" "staged = (j, q') # staged'"
    by (auto simp: result_simps split: option.splits if_splits)
  have mem: "(j, q) \<in> set (reg_routes g)" using q by (rule map_of_SomeD)
  then have fr: "is_frozenset (r_required_scopes q)" using assms(3) by (auto simp: registry_inv_def)
  show ?case
  proof (cases "(i, r) = (j, q')")
    case True
    then show ?thesis using mem route_post_init_fields [OF q'] cover fr
      by (intro exI [of _ q]) (auto simp: capabilities_cover_def)
  next
    case False
    then show ?thesis using Cons st by auto
  qed
qed simp

lemma registry_inv_types:
  "registry_inv g \<Longrightarrow> (i, r) \<in> set (reg_routes g) \<Longrightarrow> (j, q) \<in> set (reg_routes g) \<Longrightarrow>
     r_route_key r = r_route_key q \<Longrightarrow> r_event_type r = r_event_type q"
  unfolding registry_inv_def by (elim conjE) (drule (1) bspec, simp, drule (1) bspec, simp)

lemma snapshot_capabilities_inv:
  assumes inv: "registry_inv g" and snap: "snapshot_service_capabilities frepr snaps g = Inr g'"
  shows "registry_inv g'"
proof -
  obtain staged where st: "stage_capabilities frepr g snaps = Inr staged"
    and g': "g' = g\<lparr>reg_routes := dict_merge (reg_routes g) staged\<rparr>" and mut: "\<not> reg_frozen g"
    using snap by (auto simp: snapshot_service_capabilities_def require_mutable_def result_simps)
  have from_old: "\<exists>q. (i, q) \<in> set (reg_routes g) \<and> r_route_key r = r_route_key q \<and>
      r_version r = r_version q \<and> r_event_type r = r_event_type q \<and>
      r_destination_key r = r_destination_key q \<and> r_required_scopes r = r_required_scopes q \<and>
      capabilities_cover r" if "(i, r) \<in> set (reg_routes g')" for i r
  proof (cases "(i, r) \<in> set (reg_routes g)")
    case True
    with inv show ?thesis by (fastforce simp: registry_inv_def)
  next
    case False
    with that g' set_dict_merge [of "reg_routes g" staged] have "(i, r) \<in> set staged" by auto
    then show ?thesis by (rule stage_capabilities_entry [OF st _ inv])
  qed
  show ?thesis unfolding registry_inv_def
  proof (intro conjI)
    show "distinct (map fst (reg_routes g'))"
      using inv g' by (simp add: registry_inv_def distinct_dict_merge)
    show "distinct (map fst (reg_handlers g'))" using inv g' by (simp add: registry_inv_def)
    show "\<forall>(i, r)\<in>set (reg_routes g'). i = (r_route_key r, r_version r) \<and>
        is_frozenset (r_required_scopes r) \<and>
        (r_destination_key r, r_version r) \<in> fst ` set (reg_handlers g') \<and> capabilities_cover r"
    proof (clarify, goal_cases)
      case (1 k v r)
      from from_old [OF this] obtain q where q: "((k, v), q) \<in> set (reg_routes g)"
        "r_route_key r = r_route_key q" "r_version r = r_version q" "r_destination_key r = r_destination_key q"
        "r_required_scopes r = r_required_scopes q" "capabilities_cover r" by blast
      then show ?case using inv g' by (auto simp: registry_inv_def)
    qed
    show "\<forall>(i, r)\<in>set (reg_routes g'). \<forall>(j, q)\<in>set (reg_routes g').
        r_route_key r = r_route_key q \<longrightarrow> r_event_type r = r_event_type q"
      using from_old registry_inv_types [OF inv] by clarify (metis (no_types, lifting))
    show "reg_frozen g' \<longrightarrow> (\<forall>(i, r)\<in>set (reg_routes g').
        r_authorization r = ServicePolicy \<longrightarrow> r_service_capabilities r \<noteq> None)"
      using mut g' by simp
  qed
qed

lemma freeze_Inr:
  "freeze g = Inr g' \<longleftrightarrow>
     (if reg_frozen g then g' = g
      else g' = g\<lparr>reg_frozen := True\<rparr> \<and> (\<forall>x\<in>set (reg_routes g). freeze_check g (snd x) = Inr ()))"
proof -
  have "(\<exists>us. traverse (\<lambda>x. freeze_check g (snd x)) xs = Inr us) \<longleftrightarrow>
      (\<forall>x\<in>set xs. freeze_check g (snd x) = Inr ())" for xs
    by (induction xs) (auto simp: and_then_Inr_iff)
  then show ?thesis by (auto simp: freeze_def result_simps)
qed

lemma freeze_inv:
  assumes "registry_inv g" and "freeze g = Inr g'"
  shows "registry_inv g'"
  using assms by (fastforce simp: freeze_Inr registry_inv_def freeze_check_def split: if_splits)

lemma to_handler_inv:
  assumes "registry_inv g" and "to_handler frepr t k v h ss a sp age p g = Inr g'"
  shows "registry_inv g'"
proof -
  obtain spec where "register_route spec h g = Inr g'"
    and "is_frozenset (r_required_scopes spec)" and "r_service_capabilities spec = None"
    using assms(2) by (auto simp: to_handler_def result_simps dest!: route_post_init_fields)
  then show ?thesis using register_route_inv [OF assms(1)] by (simp add: capabilities_cover_def)
qed

lemma registry_step_inv: "registry_inv g \<Longrightarrow> registry_step frepr g g' \<Longrightarrow> registry_inv g'"
  by (erule registry_step.cases)
     (auto intro: to_handler_inv register_handler_inv snapshot_capabilities_inv freeze_inv)

lemma new_registry_inv: "registry_inv new_registry"
  by (simp add: new_registry_def registry_inv_def)

interpretation reg: invariant_machine "\<lambda>g. g = new_registry" "registry_step frepr" registry_inv for frepr
  by unfold_locales (auto intro: new_registry_inv registry_step_inv)

lemma frozen_step:
  assumes "reg_frozen g" and "registry_step frepr g g'"
  shows "g' = g"
  using assms(2)
proof cases
  case (declare_route t k v h ss a sp age p)
  with assms(1) show ?thesis
    by (auto simp: to_handler_def register_route_def require_mutable_def result_simps)
next
  case (declare_handler k v h)
  with assms(1) show ?thesis using register_handler_Inr by blast
next
  case (pin_capabilities snaps)
  with assms(1) show ?thesis
    by (auto simp: snapshot_service_capabilities_def require_mutable_def result_simps)
next
  case close_registry
  with assms(1) show ?thesis by (simp add: freeze_def)
qed

lemma set_specifications [simp]: "set (specifications g) = snd ` set (reg_routes g)"
  by (simp add: specifications_def)

section \<open>Properties of the registry\<close>

definition sample_registry :: "registry result" where
  "sample_registry =
     and_then (to_handler (\<lambda>_. []) ''order.placed'' ''email'' 1 (Handler 7 True) [''orders.read'']
       ''service_policy'' (Some ''mailer'') None None new_registry) (\<lambda>g.
     and_then (snapshot_service_capabilities (\<lambda>_. []) [((''email'', 1), [''orders.read''])] g) freeze)"

lemma sample_registry_reachable:
  "sample_registry = Inr g \<Longrightarrow> (registry_step (\<lambda>_. []))\<^sup>*\<^sup>* new_registry g"
  unfolding sample_registry_def and_then_Inr_iff
  by (meson close_registry converse_rtranclp_into_rtranclp declare_route pin_capabilities r_into_rtranclp)

text \<open>
  A frozen registry built by any sequence of declarations is closed under dispatch: every
  declared route resolves to a handler, and a service-policy route carries pinned capabilities
  that cover the scopes it requires. No later operation changes the registry.
\<close>

lemma frozen_registry_dispatches:
  assumes "(registry_step frepr)\<^sup>*\<^sup>* new_registry g" and "reg_frozen g" and "r \<in> set (specifications g)"
  shows "(\<exists>h. resolve_handler (r_destination_key r) (r_version r) g = Inr h) \<and>
    (r_authorization r = ServicePolicy \<longrightarrow>
       (\<exists>cs. r_service_capabilities r = Some cs \<and> set (r_required_scopes r) \<subseteq> set cs)) \<and>
    (\<forall>g'. registry_step frepr g g' \<longrightarrow> g' = g)"
proof -
  have inv: "registry_inv g" using reg.inv_reachable assms(1) by blast
  from assms(3) obtain i where i: "(i, r) \<in> set (reg_routes g)" by auto
  have "(r_destination_key r, r_version r) \<in> fst ` set (reg_handlers g)"
    and cover: "capabilities_cover r"
    and pinned: "r_authorization r = ServicePolicy \<Longrightarrow> r_service_capabilities r \<noteq> None"
    using inv i assms(2) by (auto simp: registry_inv_def)
  then obtain h where "map_of (reg_handlers g) (r_destination_key r, r_version r) = Some h"
    by (metis map_of_eq_None_iff not_None_eq)
  then have "resolve_handler (r_destination_key r) (r_version r) g = Inr h"
    using assms(2) by (simp add: resolve_handler_def)
  moreover have "\<exists>cs. r_service_capabilities r = Some cs \<and> set (r_required_scopes r) \<subseteq> set cs"
    if "r_authorization r = ServicePolicy" using pinned [OF that] cover
    by (auto simp: capabilities_cover_def)
  ultimately show ?thesis using frozen_step [OF assms(2)] by blast
qed

section \<open>Properties of matching\<close>

definition best_route :: "string \<Rightarrow> route_spec list \<Rightarrow> route_spec \<Rightarrow> bool" where
  "best_route t rs r \<longleftrightarrow> r \<in> set rs \<and> r_event_type r = t \<and>
     (\<forall>q\<in>set rs. r_event_type q = t \<and> r_route_key q = r_route_key r \<longrightarrow> r_version q \<le> r_version r)"

text \<open>What the dictionary of the loop holds after the routes \<open>seen\<close>.\<close>

definition latest_inv :: "string \<Rightarrow> route_spec list \<Rightarrow> (string \<times> route_spec) list \<Rightarrow> bool" where
  "latest_inv t seen latest \<longleftrightarrow> distinct (map fst latest) \<and>
     (\<forall>k r. (k, r) \<in> set latest \<longrightarrow> k = r_route_key r \<and> r \<in> set seen \<and> r_event_type r = t) \<and>
     (\<forall>q\<in>set seen. r_event_type q = t \<longrightarrow>
        (\<exists>p. (r_route_key q, p) \<in> set latest \<and> r_version q \<le> r_version p))"

lemma latest_inv_replace:
  assumes inv: "latest_inv t seen latest" and ty: "r_event_type r = t"
    and newer: "\<And>q. (r_route_key r, q) \<in> set latest \<Longrightarrow> r_version q < r_version r"
  shows "latest_inv t (seen @ [r]) (dict_set (r_route_key r) r latest)"
proof -
  have d: "distinct (map fst latest)" using inv by (simp add: latest_inv_def)
  have "\<exists>p. (r_route_key q, p) \<in> set (dict_set (r_route_key r) r latest) \<and> r_version q \<le> r_version p"
    if q: "q \<in> set seen" "r_event_type q = t" for q
  proof -
    obtain p where p: "(r_route_key q, p) \<in> set latest" "r_version q \<le> r_version p"
      using inv q unfolding latest_inv_def by blast
    show ?thesis
    proof (cases "r_route_key q = r_route_key r")
      case True
      then have "r_version q \<le> r_version r" using newer [of p] p by simp
      then show ?thesis using True d by (intro exI [of _ r]) (simp add: set_dict_set)
    next
      case False
      then show ?thesis using p d by (intro exI [of _ p]) (simp add: set_dict_set)
    qed
  qed
  then show ?thesis using inv ty d unfolding latest_inv_def
    by (auto simp: distinct_dict_set set_dict_set)
qed

lemma latest_by_key_inv:
  "latest_inv t seen latest \<Longrightarrow> latest_inv t (seen @ rs) (latest_by_key t rs latest)"
proof (induction rs arbitrary: seen latest)
  case (Cons r rs)
  have skip: "latest_inv t (seen @ [r]) latest" if "r_event_type r \<noteq> t"
    using Cons.prems that by (auto simp: latest_inv_def)
  have keep: "latest_inv t (seen @ [r]) latest"
    if "map_of latest (r_route_key r) = Some c" "\<not> r_version c < r_version r" for c
  proof -
    have "(r_route_key r, c) \<in> set latest" using that(1) by (rule map_of_SomeD)
    moreover have "r_version r \<le> r_version c" using that(2) by simp
    ultimately show ?thesis using Cons.prems by (auto simp: latest_inv_def)
  qed
  have put: "latest_inv t (seen @ [r]) (dict_set (r_route_key r) r latest)"
    if "r_event_type r = t" "\<And>c. map_of latest (r_route_key r) = Some c \<Longrightarrow> r_version c < r_version r"
    using Cons.prems that by (intro latest_inv_replace) (auto simp: latest_inv_def)
  show ?case
  proof (cases "r_event_type r = t")
    case False
    then show ?thesis using Cons.IH [OF skip] by simp
  next
    case True
    show ?thesis
    proof (cases "map_of latest (r_route_key r)")
      case None
      then show ?thesis using True Cons.IH [OF put] by simp
    next
      case (Some c)
      then show ?thesis using True Cons.IH [OF put] Cons.IH [OF keep [OF Some]]
        by (cases "r_version c < r_version r") simp_all
    qed
  qed
qed simp

lemma latest_inv_best:
  assumes "latest_inv t rs latest" and "(k, r) \<in> set latest"
  shows "best_route t rs r"
proof -
  have k: "k = r_route_key r" "r \<in> set rs" "r_event_type r = t" "distinct (map fst latest)"
    using assms by (auto simp: latest_inv_def)
  have "r_version q \<le> r_version r" if q: "q \<in> set rs" "r_event_type q = t" "r_route_key q = r_route_key r" for q
  proof -
    obtain p where p: "(r_route_key r, p) \<in> set latest" "r_version q \<le> r_version p"
      using assms(1) q unfolding latest_inv_def by force
    then have "p = r" using k assms(2) by (auto dest: eq_key_imp_eq_value)
    then show ?thesis using p by simp
  qed
  then show ?thesis using k by (auto simp: best_route_def)
qed

text \<open>
  Matching selects, for every route key subscribed to the event type, a declaration of the
  highest version and nothing else, in the order of route key and destination, one per key.
\<close>

lemma matching_selects_highest_version:
  assumes "selected = matching_routes rs t"
  shows "(\<forall>r\<in>set selected. best_route t rs r) \<and>
   r_route_key ` set selected = r_route_key ` {r \<in> set rs. r_event_type r = t} \<and>
   distinct (map r_route_key selected) \<and>
   sorted (map (\<lambda>r. (r_route_key r, r_destination_key r)) selected)"
proof -
  define latest where "latest = latest_by_key t rs []"
  have inv: "latest_inv t rs latest"
    using latest_by_key_inv [of t "[]" "[]" rs] by (simp add: latest_inv_def latest_def)
  have set_eq: "set selected = snd ` set latest"
    by (simp add: assms matching_routes_def latest_def)
  have best: "\<forall>r\<in>set selected. best_route t rs r"
    using latest_inv_best [OF inv] set_eq by auto
  have keys: "map r_route_key (map snd latest) = map fst latest"
    using inv by (auto simp: latest_inv_def)
  have "r_route_key ` set selected = fst ` set latest"
    unfolding set_eq using arg_cong [OF keys, of set] by (simp add: image_image)
  also have "\<dots> = r_route_key ` {r \<in> set rs. r_event_type r = t}"
    using inv by (force simp: latest_inv_def)
  finally have cover: "r_route_key ` set selected = r_route_key ` {r \<in> set rs. r_event_type r = t}" .
  have "distinct (map r_route_key (map snd latest))" unfolding keys using inv by (simp add: latest_inv_def)
  moreover have "mset (map r_route_key selected) = mset (map r_route_key (map snd latest))"
    unfolding assms matching_routes_def latest_def by (simp del: map_map)
  ultimately have "distinct (map r_route_key selected)"
    by (metis mset_eq_imp_distinct_iff)
  then show ?thesis using best cover by (simp add: assms matching_routes_def)
qed

definition sample_versions :: "route_spec list" where
  "sample_versions = (case sample_registry of Inl _ \<Rightarrow> []
     | Inr g \<Rightarrow> [hd (specifications g), (hd (specifications g))\<lparr>r_version := 2\<rparr>])"

text \<open>
  The retry policy a delivery is executed under is the one its route declared: reading the
  policy of a route's snapshot gives back the declared policy, whatever the destination metadata
  says.
\<close>

lemma snapshot_preserves_retry_policy:
  assumes "valid_policy (r_retry_policy r)"
  shows "snapshot_policy (to_snapshot r) = Inr (r_retry_policy r)"
  using assms by (rule snapshot_policy_to_snapshot)

end
