(* ===== verification/Tables.thy ===== *)
theory Tables
  imports Routing
begin

text \<open>
  The authoritative tables of \<^verbatim>\<open>sqlalchemy/models.py\<close>: events, deliveries and attempts as rows, with
  the CHECK, UNIQUE and FOREIGN KEY constraints the schema declares, and the statements the
  components issue on them. Every write goes through a primitive that the database refuses when a
  constraint does not hold. Timestamps of rows are instants in microseconds.
\<close>

section \<open>Rows\<close>

record event_row =
  e_tenant_id :: uuid
  e_event_id :: uuid
  e_event_type :: string
  e_event_version :: int
  e_canonical_version :: int
  e_payload :: json
  e_payload_canonical :: bytes
  e_payload_sha256 :: bytes
  e_principal :: envelope
  e_occurred_at :: int
  e_created_at :: int
  e_correlation_id :: "uuid option"
  e_causation_id :: "uuid option"
  e_traceparent :: "string option"
  e_tracestate :: "string option"
  e_dedupe_namespace :: "string option"
  e_dedupe_key :: "string option"

record delivery_row =
  d_tenant_id :: uuid
  d_delivery_id :: uuid
  d_event_id :: uuid
  d_route_key :: string
  d_route_version :: int
  d_destination_kind :: string
  d_destination_key :: string
  d_route_snapshot :: "(string \<times> json) list"
  d_route_snapshot_bytes :: bytes
  d_state :: delivery_state
  d_attempts_started :: int
  d_next_attempt_at :: int
  d_lease_token :: "uuid option"
  d_lease_expires_at :: "int option"
  d_replay_of :: "uuid option"
  d_replay_actor :: "string option"
  d_replay_reason :: "string option"
  d_created_at :: int
  d_updated_at :: int

record attempt_row =
  a_tenant_id :: uuid
  a_attempt_id :: uuid
  a_delivery_id :: uuid
  a_attempt_number :: int
  a_lease_token :: uuid
  a_outcome :: attempt_outcome
  a_started_at :: int
  a_finished_at :: "int option"
  a_failure_code :: "string option"
  a_failure_summary :: "string option"

text \<open>The record is extended by the components that own further tables of the same schema.\<close>

record db =
  events :: "event_row list"
  deliveries :: "delivery_row list"
  attempts :: "attempt_row list"

definition empty_db :: db where
  "empty_db = \<lparr>events = [], deliveries = [], attempts = []\<rparr>"

definition no_rows :: "'x db_scheme \<Rightarrow> bool" where
  "no_rows db \<longleftrightarrow> events db = [] \<and> deliveries db = [] \<and> attempts db = []"

definition event_key :: "event_row \<Rightarrow> uuid \<times> uuid" where
  "event_key r = (e_tenant_id r, e_event_id r)"

definition delivery_key :: "delivery_row \<Rightarrow> uuid \<times> uuid" where
  "delivery_key r = (d_tenant_id r, d_delivery_id r)"

definition attempt_key :: "attempt_row \<Rightarrow> uuid \<times> uuid" where
  "attempt_key r = (a_tenant_id r, a_attempt_id r)"

section \<open>Constraints\<close>

definition int4 :: "int \<Rightarrow> bool" where
  "int4 n \<longleftrightarrow> - 2147483648 \<le> n \<and> n \<le> 2147483647"

definition varchar :: "nat \<Rightarrow> string option \<Rightarrow> bool" where
  "varchar n v = (case v of None \<Rightarrow> True | Some s \<Rightarrow> length s \<le> n)"

definition event_row_ok :: "event_row \<Rightarrow> bool" where
  "event_row_ok r \<longleftrightarrow>
     0 < e_event_version r \<and> int4 (e_event_version r) \<and>
     0 < e_canonical_version r \<and> int4 (e_canonical_version r) \<and>
     length (e_payload_sha256 r) = 32 \<and>
     (e_dedupe_namespace r = None) = (e_dedupe_key r = None) \<and>
     varchar 128 (Some (e_event_type r)) \<and> varchar 256 (e_traceparent r) \<and>
     varchar 512 (e_tracestate r) \<and> varchar 128 (e_dedupe_namespace r) \<and> varchar 512 (e_dedupe_key r)"

definition delivery_row_ok :: "delivery_row \<Rightarrow> bool" where
  "delivery_row_ok r \<longleftrightarrow>
     0 < d_route_version r \<and> int4 (d_route_version r) \<and>
     0 \<le> d_attempts_started r \<and> int4 (d_attempts_started r) \<and>
     (d_state r = Leased) = (d_lease_token r \<noteq> None \<and> d_lease_expires_at r \<noteq> None) \<and>
     (d_replay_of r = None \<and> d_replay_actor r = None \<and> d_replay_reason r = None \<or>
      d_replay_of r \<noteq> None \<and> d_replay_actor r \<noteq> None \<and> d_replay_reason r \<noteq> None) \<and>
     varchar 128 (Some (d_route_key r)) \<and> varchar 128 (Some (d_destination_kind r)) \<and>
     varchar 128 (Some (d_destination_key r)) \<and>
     varchar 512 (d_replay_actor r) \<and> varchar 128 (d_replay_reason r)"

definition attempt_row_ok :: "attempt_row \<Rightarrow> bool" where
  "attempt_row_ok r \<longleftrightarrow>
     0 < a_attempt_number r \<and> int4 (a_attempt_number r) \<and>
     (a_outcome r = Started) = (a_finished_at r = None) \<and>
     (if a_outcome r = Started \<or> a_outcome r = AttemptSucceeded
      then a_failure_code r = None \<and> a_failure_summary r = None
      else a_failure_code r \<noteq> None \<and> a_failure_summary r \<noteq> None) \<and>
     varchar 128 (a_failure_code r)"

text \<open>The partial unique index over deduplicated events, and the one over original deliveries.\<close>

definition event_dedupe :: "event_row \<Rightarrow> (uuid \<times> string \<times> string) option" where
  "event_dedupe r =
     (case (e_dedupe_namespace r, e_dedupe_key r) of
        (Some ns, Some k) \<Rightarrow> Some (e_tenant_id r, ns, k) | _ \<Rightarrow> None)"

definition original_route :: "delivery_row \<Rightarrow> (uuid \<times> uuid \<times> string \<times> int \<times> string \<times> string) option" where
  "original_route r =
     (if d_replay_of r = None
      then Some (d_tenant_id r, d_event_id r, d_route_key r, d_route_version r,
                 d_destination_kind r, d_destination_key r)
      else None)"

definition attempt_slot :: "attempt_row \<Rightarrow> uuid \<times> uuid \<times> int" where
  "attempt_slot r = (a_tenant_id r, a_delivery_id r, a_attempt_number r)"

definition integrity_error :: "string \<Rightarrow> exn" where
  "integrity_error st = DBAPIError \<lparr>dbapi_class = OtherDBAPIError, connection_invalidated = False,
     orig_sqlstate = Some st, orig_pgcode = None\<rparr>"

abbreviation "check_violation \<equiv> integrity_error ''23514''"
abbreviation "unique_violation \<equiv> integrity_error ''23505''"
abbreviation "foreign_key_violation \<equiv> integrity_error ''23503''"

section \<open>Statements\<close>

definition insert_event :: "event_row \<Rightarrow> 'x db_scheme \<Rightarrow> 'x db_scheme result" where
  "insert_event r db =
     (if \<not> event_row_ok r then Inl check_violation
      else if event_key r \<in> event_key ` set (events db) \<or>
              (event_dedupe r \<noteq> None \<and> event_dedupe r \<in> event_dedupe ` set (events db))
      then Inl unique_violation
      else Inr (db\<lparr>events := events db @ [r]\<rparr>))"

definition event_exists :: "uuid \<Rightarrow> uuid \<Rightarrow> 'x db_scheme \<Rightarrow> bool" where
  "event_exists tenant event_id db \<longleftrightarrow> (tenant, event_id) \<in> event_key ` set (events db)"

definition delivery_exists :: "uuid \<Rightarrow> uuid \<Rightarrow> 'x db_scheme \<Rightarrow> bool" where
  "delivery_exists tenant delivery_id db \<longleftrightarrow> (tenant, delivery_id) \<in> delivery_key ` set (deliveries db)"

definition insert_delivery :: "delivery_row \<Rightarrow> 'x db_scheme \<Rightarrow> 'x db_scheme result" where
  "insert_delivery r db =
     (if \<not> delivery_row_ok r then Inl check_violation
      else if delivery_key r \<in> delivery_key ` set (deliveries db) \<or>
              (original_route r \<noteq> None \<and> original_route r \<in> original_route ` set (deliveries db))
      then Inl unique_violation
      else if \<not> event_exists (d_tenant_id r) (d_event_id r) db \<or>
              (case d_replay_of r of None \<Rightarrow> False
               | Some orig \<Rightarrow> \<not> delivery_exists (d_tenant_id r) orig db \<and> orig \<noteq> d_delivery_id r)
      then Inl foreign_key_violation
      else Inr (db\<lparr>deliveries := deliveries db @ [r]\<rparr>))"

definition insert_attempt :: "attempt_row \<Rightarrow> 'x db_scheme \<Rightarrow> 'x db_scheme result" where
  "insert_attempt r db =
     (if \<not> attempt_row_ok r then Inl check_violation
      else if attempt_key r \<in> attempt_key ` set (attempts db) \<or>
              attempt_slot r \<in> attempt_slot ` set (attempts db)
      then Inl unique_violation
      else if \<not> delivery_exists (a_tenant_id r) (a_delivery_id r) db then Inl foreign_key_violation
      else Inr (db\<lparr>attempts := attempts db @ [r]\<rparr>))"

text \<open>
  An UPDATE of the mutable columns of one row, identified by its primary key. The immutable columns
  (identity, route, event, replay audit) are never assigned by the program.
\<close>

definition update_delivery :: "delivery_row \<Rightarrow> 'x db_scheme \<Rightarrow> 'x db_scheme result" where
  "update_delivery r db =
     (if \<not> delivery_row_ok r then Inl check_violation
      else Inr (db\<lparr>deliveries := update_where (\<lambda>x. delivery_key x = delivery_key r) (\<lambda>_. r) (deliveries db)\<rparr>))"

definition update_attempt :: "attempt_row \<Rightarrow> 'x db_scheme \<Rightarrow> 'x db_scheme result" where
  "update_attempt r db =
     (if \<not> attempt_row_ok r then Inl check_violation
      else Inr (db\<lparr>attempts := update_where (\<lambda>x. attempt_key x = attempt_key r) (\<lambda>_. r) (attempts db)\<rparr>))"

definition find_event :: "uuid \<Rightarrow> uuid \<Rightarrow> 'x db_scheme \<Rightarrow> event_row option" where
  "find_event tenant event_id db = List.find (\<lambda>r. event_key r = (tenant, event_id)) (events db)"

definition find_delivery :: "uuid \<Rightarrow> uuid \<Rightarrow> 'x db_scheme \<Rightarrow> delivery_row option" where
  "find_delivery tenant delivery_id db =
     List.find (\<lambda>r. delivery_key r = (tenant, delivery_id)) (deliveries db)"

definition find_attempt :: "uuid \<Rightarrow> uuid \<Rightarrow> 'x db_scheme \<Rightarrow> attempt_row option" where
  "find_attempt tenant attempt_id db = List.find (\<lambda>r. attempt_key r = (tenant, attempt_id)) (attempts db)"

section \<open>Transactions\<close>

text \<open>
  A transaction that raises leaves the database as it was; one that returns commits its writes.
\<close>

definition transaction :: "('d \<Rightarrow> ('d \<times> 'a) result) \<Rightarrow> 'd \<Rightarrow> 'd \<times> 'a result" where
  "transaction body db = (case body db of Inl e \<Rightarrow> (db, Inl e) | Inr (db', x) \<Rightarrow> (db', Inr x))"

lemma transaction_cases:
  "transaction body db = (db', r) \<longleftrightarrow>
     (\<exists>e. body db = Inl e \<and> db' = db \<and> r = Inl e) \<or> (\<exists>x. body db = Inr (db', x) \<and> r = Inr x)"
  by (auto simp: transaction_def split: sum.splits prod.splits)

section \<open>The schema invariant\<close>

definition distinct_some :: "('a \<Rightarrow> 'b option) \<Rightarrow> 'a list \<Rightarrow> bool" where
  "distinct_some f xs \<longleftrightarrow> distinct (filter (\<lambda>k. k \<noteq> None) (map f xs))"

definition schema_ok :: "'x db_scheme \<Rightarrow> bool" where
  "schema_ok db \<longleftrightarrow>
     list_all event_row_ok (events db) \<and> distinct (map event_key (events db)) \<and>
     distinct_some event_dedupe (events db) \<and>
     list_all delivery_row_ok (deliveries db) \<and> distinct (map delivery_key (deliveries db)) \<and>
     distinct_some original_route (deliveries db) \<and>
     list_all (\<lambda>r. event_exists (d_tenant_id r) (d_event_id r) db) (deliveries db) \<and>
     list_all attempt_row_ok (attempts db) \<and> distinct (map attempt_key (attempts db)) \<and>
     distinct (map attempt_slot (attempts db)) \<and>
     list_all (\<lambda>r. delivery_exists (a_tenant_id r) (a_delivery_id r) db) (attempts db)"

lemma no_rows_empty [simp]: "no_rows empty_db"
  by (simp add: no_rows_def empty_db_def)

lemma schema_ok_no_rows: "no_rows db \<Longrightarrow> schema_ok db"
  by (simp add: schema_ok_def no_rows_def distinct_some_def)

lemma schema_ok_empty: "schema_ok empty_db"
  by (simp add: schema_ok_no_rows)

lemma distinct_some_snoc:
  "distinct_some f (xs @ [x]) \<longleftrightarrow> distinct_some f xs \<and> (f x = None \<or> f x \<notin> f ` set xs)"
  by (auto simp: distinct_some_def)

lemma distinct_some_inj:
  "distinct_some f xs \<Longrightarrow> x \<in> set xs \<Longrightarrow> y \<in> set xs \<Longrightarrow> f x = f y \<Longrightarrow> f x \<noteq> None \<Longrightarrow> x = y"
proof (induction xs)
  case (Cons z zs)
  then have "distinct_some f zs" and "f z \<noteq> None \<Longrightarrow> f z \<notin> f ` set zs"
    by (auto simp: distinct_some_def split: if_splits)
  with Cons show ?case by (metis image_eqI set_ConsD)
qed simp

lemma event_exists_mono:
  "event_exists t e db \<Longrightarrow> set (events db) \<subseteq> set (events db') \<Longrightarrow> event_exists t e db'"
  by (auto simp: event_exists_def)

lemma delivery_exists_mono:
  "delivery_exists t d db \<Longrightarrow> delivery_key ` set (deliveries db) \<subseteq> delivery_key ` set (deliveries db') \<Longrightarrow>
     delivery_exists t d db'"
  by (auto simp: delivery_exists_def)

lemma insert_event_Inr [result_simps]:
  "insert_event r db = Inr db' \<longleftrightarrow>
     event_row_ok r \<and> event_key r \<notin> event_key ` set (events db) \<and>
     (event_dedupe r = None \<or> event_dedupe r \<notin> event_dedupe ` set (events db)) \<and>
     db' = db\<lparr>events := events db @ [r]\<rparr>"
  by (auto simp: insert_event_def)

lemma insert_delivery_Inr [result_simps]:
  "insert_delivery r db = Inr db' \<longleftrightarrow>
     delivery_row_ok r \<and> delivery_key r \<notin> delivery_key ` set (deliveries db) \<and>
     (original_route r = None \<or> original_route r \<notin> original_route ` set (deliveries db)) \<and>
     event_exists (d_tenant_id r) (d_event_id r) db \<and>
     (\<forall>orig. d_replay_of r = Some orig \<longrightarrow>
        delivery_exists (d_tenant_id r) orig db \<or> orig = d_delivery_id r) \<and>
     db' = db\<lparr>deliveries := deliveries db @ [r]\<rparr>"
  by (cases "d_replay_of r"; cases "original_route r \<in> original_route ` set (deliveries db)";
      cases "original_route r") (auto simp: insert_delivery_def)

lemma insert_attempt_Inr [result_simps]:
  "insert_attempt r db = Inr db' \<longleftrightarrow>
     attempt_row_ok r \<and> attempt_key r \<notin> attempt_key ` set (attempts db) \<and>
     attempt_slot r \<notin> attempt_slot ` set (attempts db) \<and>
     delivery_exists (a_tenant_id r) (a_delivery_id r) db \<and>
     db' = db\<lparr>attempts := attempts db @ [r]\<rparr>"
  by (auto simp: insert_attempt_def)

lemma update_delivery_Inr [result_simps]:
  "update_delivery r db = Inr db' \<longleftrightarrow> delivery_row_ok r \<and>
     db' = db\<lparr>deliveries := update_where (\<lambda>x. delivery_key x = delivery_key r) (\<lambda>_. r) (deliveries db)\<rparr>"
  by (auto simp: update_delivery_def)

lemma update_attempt_Inr [result_simps]:
  "update_attempt r db = Inr db' \<longleftrightarrow> attempt_row_ok r \<and>
     db' = db\<lparr>attempts := update_where (\<lambda>x. attempt_key x = attempt_key r) (\<lambda>_. r) (attempts db)\<rparr>"
  by (auto simp: update_attempt_def)

lemma insert_event_schema: "schema_ok db \<Longrightarrow> insert_event r db = Inr db' \<Longrightarrow> schema_ok db'"
  by (auto simp: schema_ok_def result_simps distinct_some_snoc list_all_iff event_exists_def delivery_exists_def)

lemma insert_delivery_schema: "schema_ok db \<Longrightarrow> insert_delivery r db = Inr db' \<Longrightarrow> schema_ok db'"
  by (auto simp: schema_ok_def result_simps distinct_some_snoc list_all_iff event_exists_def delivery_exists_def)

lemma insert_attempt_schema: "schema_ok db \<Longrightarrow> insert_attempt r db = Inr db' \<Longrightarrow> schema_ok db'"
  by (auto simp: schema_ok_def result_simps list_all_iff event_exists_def delivery_exists_def)

text \<open>The columns an update leaves alone.\<close>

definition same_delivery :: "delivery_row \<Rightarrow> delivery_row \<Rightarrow> bool" where
  "same_delivery r q \<longleftrightarrow> delivery_key r = delivery_key q \<and> d_event_id r = d_event_id q \<and>
     d_route_key r = d_route_key q \<and> d_route_version r = d_route_version q \<and>
     d_destination_kind r = d_destination_kind q \<and> d_destination_key r = d_destination_key q \<and>
     d_route_snapshot r = d_route_snapshot q \<and> d_route_snapshot_bytes r = d_route_snapshot_bytes q \<and>
     d_replay_of r = d_replay_of q \<and> d_replay_actor r = d_replay_actor q \<and>
     d_replay_reason r = d_replay_reason q \<and> d_created_at r = d_created_at q"

definition same_attempt :: "attempt_row \<Rightarrow> attempt_row \<Rightarrow> bool" where
  "same_attempt r q \<longleftrightarrow> attempt_key r = attempt_key q \<and> attempt_slot r = attempt_slot q \<and>
     a_lease_token r = a_lease_token q \<and> a_started_at r = a_started_at q"

lemma same_delivery_refl [simp]: "same_delivery r r"
  by (simp add: same_delivery_def)

lemma same_delivery_trans: "same_delivery r q \<Longrightarrow> same_delivery q p \<Longrightarrow> same_delivery r p"
  by (simp add: same_delivery_def)

lemma same_delivery_original: "same_delivery r q \<Longrightarrow> original_route r = original_route q"
  by (simp add: same_delivery_def original_route_def delivery_key_def)

lemma unique_row:
  "distinct (map k rows) \<Longrightarrow> q \<in> set rows \<Longrightarrow> x \<in> set rows \<Longrightarrow> k x = k q \<Longrightarrow> x = q"
  using distinct_map_inj_on [of k rows x q] by simp

text \<open>Replacing the row of a key by one with the same value of \<open>f\<close> keeps the list of values.\<close>

lemma map_replace_row:
  assumes "distinct (map k rows)" and "q \<in> set rows" and "k r = k q" and "f r = f q"
  shows "map f (update_where (\<lambda>x. k x = k r) (\<lambda>_. r) rows) = map f rows"
  using assms unique_row [OF assms(1,2)] by (auto simp: update_where_def)

lemma set_replace_row:
  assumes "distinct (map k rows)" and "q \<in> set rows" and "k r = k q"
  shows "set (update_where (\<lambda>x. k x = k r) (\<lambda>_. r) rows) = insert r (set rows - {q})"
proof -
  have "k x = k r \<longleftrightarrow> x = q" if "x \<in> set rows" for x
    using unique_row [OF assms(1,2) that] assms(3) by auto
  then show ?thesis using assms(2) by (auto simp: update_where_def)
qed

lemma find_replace_row:
  assumes "distinct (map k rows)" and "q \<in> set rows" and "k r = k q"
  shows "List.find (\<lambda>x. k x = i) (update_where (\<lambda>x. k x = k r) (\<lambda>_. r) rows) =
         (if i = k r then Some r else List.find (\<lambda>x. k x = i) rows)"
  using assms
proof (induction rows)
  case (Cons y rows)
  have "update_where (\<lambda>x. k x = k r) (\<lambda>_. r) rows = rows" if "k y = k r"
    using Cons.prems(1) that by (intro update_where_none) (metis distinct.simps(2) image_eqI list.set_map list.simps(9))
  with Cons show ?case by (cases "k y = k r") auto
qed simp

lemma update_delivery_schema:
  assumes ok: "schema_ok db" and up: "update_delivery r db = Inr db'"
    and q: "q \<in> set (deliveries db)" and same: "same_delivery r q"
  shows "schema_ok db'"
proof -
  have k: "delivery_key r = delivery_key q" and o: "original_route r = original_route q"
    using same same_delivery_original [OF same] by (simp_all add: same_delivery_def)
  have d: "distinct (map delivery_key (deliveries db))" using ok by (simp add: schema_ok_def)
  have rows: "deliveries db' = update_where (\<lambda>x. delivery_key x = delivery_key r) (\<lambda>_. r) (deliveries db)"
    and rest: "events db' = events db" "attempts db' = attempts db" and row: "delivery_row_ok r"
    using up by (auto simp: result_simps)
  have keys: "map delivery_key (deliveries db') = map delivery_key (deliveries db)"
    using map_replace_row [OF d q k, of delivery_key] k rows by simp
  have orig: "map original_route (deliveries db') = map original_route (deliveries db)"
    using map_replace_row [OF d q k, of original_route] o rows by simp
  have ex: "delivery_exists t i db' = delivery_exists t i db" for t i
    using arg_cong [OF keys, of set] by (simp add: delivery_exists_def)
  have "set (deliveries db') = insert r (set (deliveries db) - {q})"
    using set_replace_row [OF d q k] rows by simp
  moreover have "event_exists (d_tenant_id r) (d_event_id r) db"
    using ok q same by (auto simp: schema_ok_def list_all_iff same_delivery_def delivery_key_def)
  moreover have "event_exists t i db' = event_exists t i db" for t i
    using rest by (simp add: event_exists_def)
  ultimately show ?thesis
    using ok row unfolding schema_ok_def distinct_some_def list_all_iff by (simp add: rest keys orig ex)
qed

lemma update_attempt_schema:
  assumes ok: "schema_ok db" and up: "update_attempt r db = Inr db'"
    and q: "q \<in> set (attempts db)" and same: "same_attempt r q"
  shows "schema_ok db'"
proof -
  have k: "attempt_key r = attempt_key q" and s: "attempt_slot r = attempt_slot q"
    using same by (auto simp: same_attempt_def)
  have d: "distinct (map attempt_key (attempts db))" using ok by (simp add: schema_ok_def)
  have rows: "attempts db' = update_where (\<lambda>x. attempt_key x = attempt_key r) (\<lambda>_. r) (attempts db)"
    and rest: "events db' = events db" "deliveries db' = deliveries db" and row: "attempt_row_ok r"
    using up by (auto simp: result_simps)
  have keys: "map attempt_key (attempts db') = map attempt_key (attempts db)"
    using map_replace_row [OF d q k, of attempt_key] k rows by simp
  have slots: "map attempt_slot (attempts db') = map attempt_slot (attempts db)"
    using map_replace_row [OF d q k, of attempt_slot] s rows by simp
  have "set (attempts db') = insert r (set (attempts db) - {q})"
    using set_replace_row [OF d q k] rows by simp
  moreover have "delivery_exists (a_tenant_id r) (a_delivery_id r) db"
    using ok q s by (auto simp: schema_ok_def list_all_iff attempt_slot_def)
  moreover have "delivery_exists t i db' = delivery_exists t i db" "event_exists t i db' = event_exists t i db"
    for t i using rest by (simp_all add: event_exists_def delivery_exists_def)
  ultimately show ?thesis
    using ok row unfolding schema_ok_def list_all_iff by (simp add: rest keys slots)
qed

lemma find_delivery_Some:
  "find_delivery t i db = Some r \<Longrightarrow> r \<in> set (deliveries db) \<and> d_tenant_id r = t \<and> d_delivery_id r = i"
  by (auto simp: find_delivery_def delivery_key_def dest: find_SomeD)

lemma find_attempt_Some:
  "find_attempt t i db = Some r \<Longrightarrow> r \<in> set (attempts db) \<and> a_tenant_id r = t \<and> a_attempt_id r = i"
  by (auto simp: find_attempt_def attempt_key_def dest: find_SomeD)

lemma find_event_Some:
  "find_event t i db = Some r \<Longrightarrow> r \<in> set (events db) \<and> e_tenant_id r = t \<and> e_event_id r = i"
  by (auto simp: find_event_def event_key_def dest: find_SomeD)

lemma find_delivery_row:
  "schema_ok db \<Longrightarrow> r \<in> set (deliveries db) \<Longrightarrow> find_delivery (d_tenant_id r) (d_delivery_id r) db = Some r"
  unfolding find_delivery_def
  using find_unique_key [of delivery_key "deliveries db" r] by (simp add: schema_ok_def delivery_key_def)

lemma find_event_exists: "find_event t i db \<noteq> None \<longleftrightarrow> event_exists t i db"
  by (force simp: find_event_def event_exists_def find_None_iff')

lemma find_delivery_updated:
  assumes "schema_ok db" and "q \<in> set (deliveries db)" and "delivery_key r = delivery_key q"
    and "update_delivery r db = Inr db'"
  shows "find_delivery t i db' = (if (t, i) = delivery_key r then Some r else find_delivery t i db)"
  using assms find_replace_row [of delivery_key "deliveries db" q r "(t, i)"]
  by (simp add: find_delivery_def result_simps schema_ok_def)

lemma find_attempt_updated:
  assumes "schema_ok db" and "q \<in> set (attempts db)" and "attempt_key r = attempt_key q"
    and "update_attempt r db = Inr db'"
  shows "find_attempt t i db' = (if (t, i) = attempt_key r then Some r else find_attempt t i db)"
  using assms find_replace_row [of attempt_key "attempts db" q r "(t, i)"]
  by (simp add: find_attempt_def result_simps schema_ok_def)

end
