(* ===== verification/Repository.thy ===== *)
theory Repository
  imports Tables
begin

text \<open>
  Persistence of events with their original fan-out: \<^verbatim>\<open>sqlalchemy/repository.py\<close> and the store of
  \<^verbatim>\<open>postgres/store.py\<close>. The operations run inside a caller-owned transaction on the working state of
  the database. The digest, the float printer and the UUID source are parameters; \<open>fresh i\<close> is the
  identifier the source returns at its \<open>i\<close>-th call. The principal column holds the envelope itself, its
  dictionary form is not modelled.
\<close>

section \<open>Detached records\<close>

definition event_from_row :: "event_row \<Rightarrow> event_record result" where
  "event_from_row r =
     and_then (envelope_post_init (e_principal r)) (\<lambda>principal.
       event_record_post_init
         \<lparr>er_event_id = e_event_id r, er_tenant_id = e_tenant_id r, er_event_type = e_event_type r,
          er_event_version = e_event_version r, er_canonical_version = e_canonical_version r,
          er_payload_canonical = e_payload_canonical r, er_payload_sha256 = e_payload_sha256 r,
          er_principal = principal, er_occurred_at = Aware (e_occurred_at r),
          er_created_at = Aware (e_created_at r), er_correlation_id = e_correlation_id r,
          er_causation_id = e_causation_id r, er_traceparent = e_traceparent r,
          er_tracestate = e_tracestate r, er_dedupe_namespace = e_dedupe_namespace r,
          er_dedupe_key = e_dedupe_key r\<rparr>)"

definition delivery_from_row :: "delivery_row \<Rightarrow> delivery_record result" where
  "delivery_from_row r = delivery_record_post_init
     \<lparr>dr_delivery_id = d_delivery_id r, dr_tenant_id = d_tenant_id r, dr_event_id = d_event_id r,
      dr_route_key = d_route_key r, dr_route_version = d_route_version r,
      dr_destination_kind = d_destination_kind r, dr_destination_key = d_destination_key r,
      dr_route_snapshot = d_route_snapshot_bytes r, dr_state = d_state r,
      dr_attempts_started = d_attempts_started r, dr_created_at = Aware (d_created_at r),
      dr_updated_at = Aware (d_updated_at r), dr_next_attempt_at = Aware (d_next_attempt_at r),
      dr_lease_token = d_lease_token r,
      dr_lease_expires_at = map_option Aware (d_lease_expires_at r),
      dr_replay_of = d_replay_of r, dr_replay_actor = d_replay_actor r,
      dr_replay_reason = d_replay_reason r\<rparr>"

definition attempt_from_row :: "attempt_row \<Rightarrow> attempt_record result" where
  "attempt_from_row r = attempt_record_post_init
     \<lparr>ar_attempt_id = a_attempt_id r, ar_tenant_id = a_tenant_id r, ar_delivery_id = a_delivery_id r,
      ar_attempt_number = a_attempt_number r, ar_lease_token = a_lease_token r,
      ar_outcome = a_outcome r, ar_started_at = Aware (a_started_at r),
      ar_finished_at = map_option Aware (a_finished_at r), ar_failure_code = a_failure_code r,
      ar_failure_summary = a_failure_summary r\<rparr>"

definition event_for_id :: "uuid \<Rightarrow> uuid \<Rightarrow> 'x db_scheme \<Rightarrow> event_record option result" where
  "event_for_id tenant event_id db =
     (case find_event tenant event_id db of
        None \<Rightarrow> Inr None | Some r \<Rightarrow> and_then (event_from_row r) (\<lambda>x. Inr (Some x)))"

definition delivery_for_id :: "uuid \<Rightarrow> uuid \<Rightarrow> 'x db_scheme \<Rightarrow> delivery_record option result" where
  "delivery_for_id tenant delivery_id db =
     (case find_delivery tenant delivery_id db of
        None \<Rightarrow> Inr None | Some r \<Rightarrow> and_then (delivery_from_row r) (\<lambda>x. Inr (Some x)))"

definition event_for_dedupe :: "uuid \<Rightarrow> dedupe_identity \<Rightarrow> 'x db_scheme \<Rightarrow> event_row result" where
  "event_for_dedupe tenant identity db =
     (case List.find (\<lambda>r. e_tenant_id r = tenant \<and> e_dedupe_namespace r = Some (namespace identity) \<and>
                          e_dedupe_key r = Some (dedupe_key_text identity)) (events db) of
        None \<Rightarrow> config_error ''Concurrent dedupe resolution produced no event.''
      | Some r \<Rightarrow> Inr r)"

section \<open>Publishing\<close>

definition event_values ::
  "(rat \<Rightarrow> string) \<Rightarrow> (bytes \<Rightarrow> bytes) \<Rightarrow> principal \<Rightarrow> event \<Rightarrow> int \<Rightarrow> uuid \<Rightarrow>
     dedupe_identity option \<Rightarrow> event_row result" where
  "event_values frepr sha256 who event now event_id identity =
     and_then (canonical_json_bytes frepr default_max_payload_bytes (ev_data event)) (\<lambda>_.
     and_then (versioned_canonical_bytes frepr default_max_payload_bytes (ev_data event)) (\<lambda>canonical.
     and_then (to_envelope who) (\<lambda>envelope.
       Inr \<lparr>e_tenant_id = p_tenant_id who, e_event_id = event_id, e_event_type = ev_type event,
            e_event_version = ev_version event, e_canonical_version = 1,
            e_payload = json_reload (ev_data event), e_payload_canonical = canonical,
            e_payload_sha256 = sha256 canonical, e_principal = envelope,
            e_occurred_at = instant (ev_occurred_at event), e_created_at = now,
            e_correlation_id = ev_correlation_id event, e_causation_id = ev_causation_id event,
            e_traceparent = ev_traceparent event, e_tracestate = ev_tracestate event,
            e_dedupe_namespace = map_option namespace identity,
            e_dedupe_key = map_option dedupe_key_text identity\<rparr>)))"

text \<open>
  \<^verbatim>\<open>INSERT ... ON CONFLICT DO NOTHING RETURNING\<close>: the conflict target is the partial dedupe index, so
  any other violation is still raised. Without an identity there is no conflict clause.
\<close>

definition insert_event_returning ::
  "event_row \<Rightarrow> dedupe_identity option \<Rightarrow> 'x db_scheme \<Rightarrow> ('x db_scheme \<times> event_row option) result" where
  "insert_event_returning row identity db =
     (if identity \<noteq> None \<and> event_row_ok row \<and> event_dedupe row \<in> event_dedupe ` set (events db)
      then Inr (db, None)
      else and_then (insert_event row db) (\<lambda>db'. Inr (db', Some row)))"

definition new_delivery_row ::
  "(rat \<Rightarrow> string) \<Rightarrow> uuid \<Rightarrow> uuid \<Rightarrow> int \<Rightarrow> (nat \<Rightarrow> uuid) \<Rightarrow> nat \<times> route_spec \<Rightarrow> delivery_row result" where
  "new_delivery_row frepr tenant event_id now fresh indexed =
     (let route = snd indexed in
      and_then (snapshot_bytes frepr route) (\<lambda>body.
        Inr \<lparr>d_tenant_id = tenant, d_delivery_id = fresh (Suc (fst indexed)), d_event_id = event_id,
             d_route_key = r_route_key route, d_route_version = r_version route,
             d_destination_kind = r_destination_kind route, d_destination_key = r_destination_key route,
             d_route_snapshot = to_snapshot route, d_route_snapshot_bytes = body,
             d_state = Pending, d_attempts_started = 0, d_next_attempt_at = now,
             d_lease_token = None, d_lease_expires_at = None, d_replay_of = None,
             d_replay_actor = None, d_replay_reason = None, d_created_at = now, d_updated_at = now\<rparr>))"

fun insert_deliveries :: "delivery_row list \<Rightarrow> 'x db_scheme \<Rightarrow> 'x db_scheme result" where
  "insert_deliveries [] db = Inr db"
| "insert_deliveries (r # rs) db = and_then (insert_delivery r db) (insert_deliveries rs)"

definition publish ::
  "(rat \<Rightarrow> string) \<Rightarrow> (bytes \<Rightarrow> bytes) \<Rightarrow> principal \<Rightarrow> event \<Rightarrow> route_spec list \<Rightarrow> int \<Rightarrow> (nat \<Rightarrow> uuid) \<Rightarrow>
     dedupe_identity option \<Rightarrow> 'x db_scheme \<Rightarrow> ('x db_scheme \<times> event_record) result" where
  "publish frepr sha256 who event routes now fresh identity db =
     and_then (event_values frepr sha256 who event now (fresh 0) identity) (\<lambda>row.
     and_then (insert_event_returning row identity db) (\<lambda>(db1, inserted).
       case inserted of
         None \<Rightarrow>
           (case identity of
              None \<Rightarrow> config_error ''Event insertion returned no durable record.''
            | Some i \<Rightarrow>
                and_then (event_for_dedupe (p_tenant_id who) i db1) (\<lambda>existing.
                  if e_event_type existing \<noteq> ev_type event \<or> e_event_version existing \<noteq> ev_version event \<or>
                     e_payload_sha256 existing \<noteq> e_payload_sha256 row
                  then Inl (new_dedupe_conflict (namespace i) (dedupe_key_text i))
                  else and_then (event_from_row existing) (\<lambda>record. Inr (db1, record))))
       | Some row1 \<Rightarrow>
           and_then (traverse (new_delivery_row frepr (p_tenant_id who) (fresh 0) now fresh)
                       (enumerate 0 routes)) (\<lambda>rows.
           and_then (insert_deliveries rows db1) (\<lambda>db2.
           and_then (event_from_row row1) (\<lambda>record. Inr (db2, record))))))"

text \<open>\<^verbatim>\<open>PostgresStore.publish\<close>: pairs the dedupe fields and validates the identity first.\<close>

definition store_publish ::
  "(rat \<Rightarrow> string) \<Rightarrow> (bytes \<Rightarrow> bytes) \<Rightarrow> principal \<Rightarrow> event \<Rightarrow> route_spec list \<Rightarrow> int \<Rightarrow> (nat \<Rightarrow> uuid) \<Rightarrow>
     string option \<Rightarrow> string option \<Rightarrow> 'x db_scheme \<Rightarrow> ('x db_scheme \<times> event_record) result" where
  "store_publish frepr sha256 who event routes now fresh dedupe_namespace dedupe_key db =
     (case (dedupe_namespace, dedupe_key) of
        (None, None) \<Rightarrow> publish frepr sha256 who event routes now fresh None db
      | (Some ns, Some k) \<Rightarrow>
          and_then (dedupe_post_init \<lparr>namespace = ns, dedupe_key_text = k\<rparr>) (\<lambda>identity.
            publish frepr sha256 who event routes now fresh (Some identity) db)
      | _ \<Rightarrow> config_error ''Dedupe namespace and key must be paired.'')"

text \<open>\<^verbatim>\<open>PostgresStore.__post_init__\<close>.\<close>

definition schema_name_head :: "char \<Rightarrow> bool" where
  "schema_name_head c \<longleftrightarrow> is_lower c \<or> c = CHR ''_''"

definition schema_name_tail :: "char \<Rightarrow> bool" where
  "schema_name_tail c \<longleftrightarrow> is_lower c \<or> is_digit c \<or> c = CHR ''_''"

definition store_post_init :: "string \<Rightarrow> unit result" where
  "store_post_init schema =
     (if \<not> head_tail_match schema_name_head schema_name_tail 62 schema
      then config_error ''PostgreSQL schema name is invalid.''
      else if schema \<noteq> ''fastapi_effects''
      then config_error ''The supported PostgreSQL schema is exactly 'fastapi_effects'.''
      else Inr ())"

section \<open>Lemmas\<close>

lemma insert_deliveries_append:
  "insert_deliveries rs db = Inr db' \<Longrightarrow>
     db' = db\<lparr>deliveries := deliveries db @ rs\<rparr> \<and>
     (schema_ok db \<longrightarrow> schema_ok db')"
proof (induction rs arbitrary: db)
  case (Cons r rs)
  then obtain db1 where db1: "insert_delivery r db = Inr db1" "insert_deliveries rs db1 = Inr db'"
    by (auto simp: and_then_Inr_iff)
  have "db1 = db\<lparr>deliveries := deliveries db @ [r]\<rparr>" using db1(1) by (simp add: insert_delivery_Inr)
  then show ?case using Cons.IH [OF db1(2)] insert_delivery_schema [OF _ db1(1)] by auto
qed simp

lemma event_values_Inr:
  assumes "event_values frepr sha256 p e now i d = Inr row"
  shows "e_tenant_id row = p_tenant_id p \<and> e_event_id row = i \<and> e_event_type row = ev_type e \<and>
    e_event_version row = ev_version e \<and> e_created_at row = now \<and>
    e_dedupe_namespace row = map_option namespace d \<and> e_dedupe_key row = map_option dedupe_key_text d \<and>
    to_envelope p = Inr (e_principal row) \<and>
    versioned_canonical_bytes frepr default_max_payload_bytes (ev_data e) = Inr (e_payload_canonical row) \<and>
    e_payload_sha256 row = sha256 (e_payload_canonical row)"
  using assms by (auto simp: event_values_def and_then_Inr_iff)

lemma new_delivery_row_Inr:
  assumes "new_delivery_row frepr t i now fresh (n, route) = Inr row"
  shows "d_tenant_id row = t \<and> d_event_id row = i \<and> d_state row = Pending \<and> d_attempts_started row = 0 \<and>
    d_next_attempt_at row = now \<and> d_created_at row = now \<and> d_updated_at row = now \<and>
    d_replay_of row = None \<and> d_delivery_id row = fresh (Suc n) \<and>
    d_route_key row = r_route_key route \<and> d_route_version row = r_version route \<and>
    d_destination_kind row = r_destination_kind route \<and> d_destination_key row = r_destination_key route \<and>
    d_route_snapshot row = to_snapshot route \<and> snapshot_bytes frepr route = Inr (d_route_snapshot_bytes row)"
  using assms by (auto simp: new_delivery_row_def and_then_Inr_iff Let_def)

lemma new_delivery_rows_nth:
  assumes "traverse (new_delivery_row frepr t i now fresh) (enumerate 0 routes) = Inr rows"
  shows "length rows = length routes \<and>
    (\<forall>n < length routes. new_delivery_row frepr t i now fresh (n, routes ! n) = Inr (rows ! n))"
  using assms by (auto simp: traverse_Inr_iff list_all2_conv_all_nth nth_enumerate_eq)

lemma event_values_resample:
  "event_values frepr sha256 p e now i d = Inr row \<Longrightarrow>
     event_values frepr sha256 p e now' i' d = Inr (row\<lparr>e_event_id := i', e_created_at := now'\<rparr>)"
  by (auto simp: event_values_def and_then_Inr_iff)

text \<open>The two ways a publication returns: a new event with its fan-out, or the recorded one.\<close>

lemma publish_cases:
  assumes "publish frepr sha256 p e routes now fresh d db = Inr (db', record)"
  obtains (fresh_event) row rows where
      "event_values frepr sha256 p e now (fresh 0) d = Inr row"
      "insert_event row db = Inr (db\<lparr>events := events db @ [row]\<rparr>)"
      "traverse (new_delivery_row frepr (p_tenant_id p) (fresh 0) now fresh) (enumerate 0 routes) = Inr rows"
      "insert_deliveries rows (db\<lparr>events := events db @ [row]\<rparr>) = Inr db'"
      "event_from_row row = Inr record"
    | (recorded) i row existing where
      "d = Some i" "db' = db" "event_values frepr sha256 p e now (fresh 0) d = Inr row"
      "event_row_ok row" "event_dedupe row \<in> event_dedupe ` set (events db)"
      "event_for_dedupe (p_tenant_id p) i db = Inr existing"
      "e_event_type existing = ev_type e" "e_event_version existing = ev_version e"
      "e_payload_sha256 existing = e_payload_sha256 row" "event_from_row existing = Inr record"
proof -
  from assms obtain row db1 ins where row: "event_values frepr sha256 p e now (fresh 0) d = Inr row"
    and ins: "insert_event_returning row d db = Inr (db1, ins)"
    by (auto simp: publish_def and_then_Inr_iff)
  show thesis
  proof (cases "d \<noteq> None \<and> event_row_ok row \<and> event_dedupe row \<in> event_dedupe ` set (events db)")
    case True
    then obtain i where "d = Some i" by auto
    with True ins row assms show thesis
      by (auto simp: publish_def insert_event_returning_def and_then_Inr_iff split: if_splits intro: recorded)
  next
    case False
    then have "insert_event row db = Inr db1" "ins = Some row"
      using ins by (auto simp: insert_event_returning_def and_then_Inr_iff split: if_splits)
    moreover from this have "db1 = db\<lparr>events := events db @ [row]\<rparr>" by (simp add: insert_event_Inr)
    ultimately show thesis using assms row ins
      by (auto simp: publish_def and_then_Inr_iff intro: fresh_event)
  qed
qed

lemma publish_schema:
  assumes "schema_ok db" and "publish frepr sha256 p e routes now fresh d db = Inr (db', record)"
  shows "schema_ok db'"
  using assms(2)
proof (cases rule: publish_cases)
  case (fresh_event row rows)
  then show ?thesis using insert_event_schema [OF assms(1)] insert_deliveries_append by blast
qed (simp add: assms(1))

lemma event_for_dedupe_unique:
  assumes ok: "schema_ok db" and r: "r \<in> set (events db)"
    and k: "e_tenant_id r = t" "e_dedupe_namespace r = Some (namespace i)" "e_dedupe_key r = Some (dedupe_key_text i)"
  shows "event_for_dedupe t i db = Inr r"
proof -
  let ?P = "\<lambda>r. e_tenant_id r = t \<and> e_dedupe_namespace r = Some (namespace i) \<and> e_dedupe_key r = Some (dedupe_key_text i)"
  have inj: "x = r" if "x \<in> set (events db)" "?P x" for x
  proof -
    have "event_dedupe x = event_dedupe r" "event_dedupe x \<noteq> None"
      using that k by (simp_all add: event_dedupe_def)
    moreover have "distinct_some event_dedupe (events db)" using ok by (simp add: schema_ok_def)
    ultimately show ?thesis using that(1) r by (blast intro: distinct_some_inj)
  qed
  have "List.find ?P (events db) \<noteq> None" using r k by (auto simp: find_None_iff')
  then obtain x where "List.find ?P (events db) = Some x" by auto
  moreover from this have "x = r" using inj find_SomeD [of ?P "events db" x] by blast
  ultimately show ?thesis by (simp add: event_for_dedupe_def)
qed

text \<open>A repeated publication whose identity is recorded with the same content returns the record.\<close>

lemma publish_again:
  assumes v: "event_values frepr sha256 p e now i0 (Some i) = Inr row" and ok: "event_row_ok row"
    and mem: "event_dedupe row \<in> event_dedupe ` set (events db)"
    and find: "event_for_dedupe (p_tenant_id p) i db = Inr existing"
    and same: "e_event_type existing = ev_type e" "e_event_version existing = ev_version e"
      "e_payload_sha256 existing = e_payload_sha256 row"
  shows "publish frepr sha256 p e routes' now' fresh' (Some i) db =
    and_then (event_from_row existing) (\<lambda>record. Inr (db, record))"
proof -
  let ?row = "row\<lparr>e_event_id := fresh' 0, e_created_at := now'\<rparr>"
  have "event_row_ok ?row" "event_dedupe ?row = event_dedupe row"
    using ok by (simp_all add: event_row_ok_def event_dedupe_def split: option.splits)
  then show ?thesis
    using event_values_resample [OF v, of now' "fresh' 0"] mem find same
    by (simp add: publish_def insert_event_returning_def)
qed

section \<open>Properties\<close>

definition sample_event :: event where
  "sample_event = \<lparr>ev_type = ''order.placed'', ev_version = 1, ev_data = JObj [(''id'', JInt 7)],
     ev_occurred_at = Aware 5, ev_correlation_id = None, ev_causation_id = None,
     ev_traceparent = None, ev_tracestate = None\<rparr>"

definition sample_route :: route_spec where
  "sample_route = \<lparr>r_event_type = ''order.placed'', r_route_key = ''email'', r_version = 1,
     r_destination_kind = ''handler'', r_destination_key = ''email'', r_required_scopes = [],
     r_authorization = Revalidate, r_service_policy = None, r_service_capabilities = None,
     r_maximum_snapshot_age_seconds = None, r_retry_policy = default_policy ''std'',
     r_destination_metadata = JObj []\<rparr>"

definition sample_publish :: "nat \<Rightarrow> dedupe_identity option \<Rightarrow> db \<Rightarrow> (db \<times> event_record) result" where
  "sample_publish n d db = publish (\<lambda>_. ''1.0'') (\<lambda>_. replicate 32 (CHR ''x''))
     (sample_principal 9 [''orders.read'']) sample_event [sample_route] 10 (\<lambda>i. word_of_nat (n + i)) d db"

text \<open>
  C6. A publication that stores a new event is atomic in its fan-out: it adds exactly one event and
  exactly one delivery per route, in order, all of them pending, due at once, unattempted, carrying the
  route's own snapshot and pointing at the event; no other row changes and every constraint holds.
\<close>

theorem publish_fanout:
  assumes "schema_ok db"
    and "publish frepr sha256 p e routes now fresh d db = Inr (db', record)" and "events db' \<noteq> events db"
  shows "schema_ok db' \<and> attempts db' = attempts db \<and>
    (\<exists>row rows. events db' = events db @ [row] \<and> deliveries db' = deliveries db @ rows \<and>
       event_from_row row = Inr record \<and>
       map d_route_snapshot rows = map to_snapshot routes \<and>
       list_all (\<lambda>r. d_tenant_id r = p_tenant_id p \<and> d_event_id r = e_event_id row \<and> d_state r = Pending \<and>
                     d_attempts_started r = 0 \<and> d_next_attempt_at r = now \<and> d_replay_of r = None) rows)"
  using assms(2)
proof (cases rule: publish_cases)
  case (fresh_event row rows)
  have db': "db' = db\<lparr>events := events db @ [row], deliveries := deliveries db @ rows\<rparr>"
    using insert_deliveries_append [OF fresh_event(4)] by simp
  have n: "length rows = length routes"
    and row: "\<And>k. k < length routes \<Longrightarrow>
      new_delivery_row frepr (p_tenant_id p) (fresh 0) now fresh (k, routes ! k) = Inr (rows ! k)"
    using new_delivery_rows_nth [OF fresh_event(3)] by auto
  have "map d_route_snapshot rows = map to_snapshot routes"
    using n new_delivery_row_Inr [OF row] by (intro nth_equalityI) simp_all
  moreover have "list_all (\<lambda>r. d_tenant_id r = p_tenant_id p \<and> d_event_id r = e_event_id row \<and>
      d_state r = Pending \<and> d_attempts_started r = 0 \<and> d_next_attempt_at r = now \<and> d_replay_of r = None) rows"
    using n new_delivery_row_Inr [OF row] event_values_Inr [OF fresh_event(1)] by (simp add: list_all_length)
  ultimately show ?thesis
    using publish_schema [OF assms(1,2)] db' fresh_event(5) by auto
qed (use assms(3) in simp)

theorem publish_fanout_witness:
  "\<exists>db' record. sample_publish 100 None empty_db = Inr (db', record) \<and> schema_ok db' \<and>
     length (events db') = 1 \<and> map d_state (deliveries db') = [Pending]"
proof -
  have "(case sample_publish 100 None empty_db of Inl _ \<Rightarrow> False
      | Inr (db', _) \<Rightarrow> events db' \<noteq> [] \<and> length (events db') = 1 \<and> map d_state (deliveries db') = [Pending])"
    by code_simp
  then obtain db' rec where r: "sample_publish 100 None empty_db = Inr (db', rec)" "events db' \<noteq> events empty_db"
     "length (events db') = 1" "map d_state (deliveries db') = [Pending]"
    by (auto simp: empty_db_def split: sum.splits prod.splits)
  from publish_fanout [OF schema_ok_empty r(1) [unfolded sample_publish_def] r(2)] r show ?thesis by (intro exI [of _ db'] exI [of _ rec] conjI) simp_all
qed

text \<open>
  C5. Deduplicated publication is idempotent: repeating a publication with the same identity, event
  type, version and payload, at any later time and whatever identifiers the source offers, stores
  nothing and returns the record of the first one.
\<close>

theorem publish_idempotent:
  assumes "schema_ok db" and "publish frepr sha256 p e routes now fresh (Some i) db = Inr (db', record)"
  shows "publish frepr sha256 p e routes' now' fresh' (Some i) db' = Inr (db', record)"
  using assms(2)
proof (cases rule: publish_cases)
  case (fresh_event row rows)
  have ok: "schema_ok db'" using publish_schema [OF assms] .
  have mem: "row \<in> set (events db')" using insert_deliveries_append [OF fresh_event(4)] by simp
  have v: "e_tenant_id row = p_tenant_id p" "e_dedupe_namespace row = Some (namespace i)"
    "e_dedupe_key row = Some (dedupe_key_text i)" "e_event_type row = ev_type e" "e_event_version row = ev_version e"
    using event_values_Inr [OF fresh_event(1)] by simp_all
  have "event_row_ok row" using fresh_event(2) by (simp add: insert_event_Inr)
  from publish_again [OF fresh_event(1) this imageI [OF mem] event_for_dedupe_unique [OF ok mem v(1,2,3)] v(4,5) refl]
  show ?thesis using fresh_event(5) by simp
next
  case (recorded i' row existing)
  then show ?thesis using publish_again [of frepr sha256 p e now "fresh 0" i row db existing] by simp
qed

theorem publish_idempotent_witness:
  "\<exists>db' record. sample_publish 100 (Some \<lparr>namespace = ''orders'', dedupe_key_text = ''7''\<rparr>) empty_db = Inr (db', record) \<and>
     sample_publish 500 (Some \<lparr>namespace = ''orders'', dedupe_key_text = ''7''\<rparr>) db' = Inr (db', record)"
proof -
  have "returns (sample_publish 100 (Some \<lparr>namespace = ''orders'', dedupe_key_text = ''7''\<rparr>) empty_db)"
    by code_simp
  then obtain db' rec where r:
    "sample_publish 100 (Some \<lparr>namespace = ''orders'', dedupe_key_text = ''7''\<rparr>) empty_db = Inr (db', rec)"
    by (auto simp: returns_iff)
  from publish_idempotent [OF schema_ok_empty r [unfolded sample_publish_def]] r show ?thesis
    by (auto simp: sample_publish_def)
qed

end
