(* ===== verification/Leasing.thy ===== *)
theory Leasing
  imports Repository
begin

text \<open>
  \<^verbatim>\<open>postgres/leasing.py\<close> and \<^verbatim>\<open>postgres/time.py\<close>: claiming due deliveries under a fenced lease, finalising
  them, reconciling expired leases and replaying terminal deliveries. An operation takes the samples it
  draws as arguments: \<open>clock i\<close> is the database time of its \<open>i\<close>-th sample, \<open>fresh i\<close> the \<open>i\<close>-th new
  UUID, \<open>uniform\<close> the random source, \<open>locked\<close> the rows another transaction holds (which
  \<^verbatim>\<open>SKIP LOCKED\<close> passes over), and \<open>busy\<close> tells whether the session is already in a transaction.
  Telemetry is left out: \<^verbatim>\<open>record_safely\<close> cannot change a result.
\<close>

section \<open>Claims and time\<close>

record claimed =
  c_event :: event_record
  c_delivery :: delivery_record
  c_attempt :: attempt_record
  c_route_snapshot :: "(string \<times> json) list"

definition lease_token :: "claimed \<Rightarrow> uuid" where
  "lease_token c = ar_lease_token (c_attempt c)"

definition database_now :: "py_datetime \<Rightarrow> py_datetime \<Rightarrow> int result" where
  "database_now sample observed_at =
     (if \<not> is_aware sample \<or> \<not> is_aware observed_at
      then config_error ''PostgreSQL returned an invalid authoritative timestamp.''
      else Inr (instant sample))"

definition require_idle :: "bool \<Rightarrow> unit result" where
  "require_idle busy =
     ensure (\<not> busy) (ConfigurationError ''Lease operation requires an idle control session.'')"

definition lease_positive :: "string \<Rightarrow> int \<Rightarrow> unit result" where
  "lease_positive name v =
     ensure (1 \<le> v) (ConfigurationError (''Lease '' @ name @ '' must be positive.''))"

definition clear_lease :: "int \<Rightarrow> delivery_row \<Rightarrow> delivery_row" where
  "clear_lease now d = d\<lparr>d_lease_token := None, d_lease_expires_at := None, d_updated_at := now\<rparr>"

section \<open>Claiming\<close>

definition claimable :: "int \<Rightarrow> delivery_row \<Rightarrow> bool" where
  "claimable t d \<longleftrightarrow> (d_state d = Pending \<or> d_state d = RetryWait) \<and> d_next_attempt_at d \<le> t"

text \<open>
  \<^verbatim>\<open>row_number() OVER (PARTITION BY tenant ORDER BY next_attempt_at, created_at)\<close>; rows that tie are
  numbered in table order.
\<close>

fun with_rank :: "uuid list \<Rightarrow> delivery_row list \<Rightarrow> (delivery_row \<times> int) list" where
  "with_rank seen [] = []"
| "with_rank seen (d # ds) =
     (d, 1 + int (count_list seen (d_tenant_id d))) # with_rank (d_tenant_id d # seen) ds"

definition claim_candidates ::
  "int \<Rightarrow> int \<Rightarrow> int \<Rightarrow> (uuid \<times> uuid \<Rightarrow> bool) \<Rightarrow> 'x db_scheme \<Rightarrow> delivery_row list" where
  "claim_candidates selection_time batch_size per_tenant locked db =
     (let due = sort_key (\<lambda>d. (d_next_attempt_at d, d_created_at d))
                  (filter (claimable selection_time) (deliveries db));
          ranked = map fst (filter (\<lambda>x. snd x \<le> per_tenant) (with_rank [] due));
          ordered = sort_key (\<lambda>d. (d_next_attempt_at d, d_created_at d, d_tenant_id d)) ranked
      in take (nat batch_size) (filter (\<lambda>d. \<not> locked (delivery_key d)) ordered))"

definition expired_row :: "int \<Rightarrow> delivery_row \<Rightarrow> delivery_row" where
  "expired_row now d = d\<lparr>d_state := Dead, d_next_attempt_at := now, d_updated_at := now\<rparr>"

definition leased_row :: "int \<Rightarrow> int \<Rightarrow> uuid \<Rightarrow> delivery_row \<Rightarrow> delivery_row" where
  "leased_row now expires token d =
     d\<lparr>d_state := Leased, d_attempts_started := d_attempts_started d + 1, d_lease_token := Some token,
       d_lease_expires_at := Some expires, d_updated_at := now\<rparr>"

definition started_attempt :: "int \<Rightarrow> uuid \<Rightarrow> uuid \<Rightarrow> delivery_row \<Rightarrow> attempt_row" where
  "started_attempt now token attempt_id d =
     \<lparr>a_tenant_id = d_tenant_id d, a_attempt_id = attempt_id, a_delivery_id = d_delivery_id d,
      a_attempt_number = d_attempts_started d + 1, a_lease_token = token, a_outcome = Started,
      a_started_at = now, a_finished_at = None, a_failure_code = None, a_failure_summary = None\<rparr>"

text \<open>One claimed row: lease it, record the attempt, and detach the records.\<close>

definition claim_one ::
  "int \<Rightarrow> uuid \<Rightarrow> uuid \<Rightarrow> retry_policy \<Rightarrow> delivery_row \<Rightarrow> 'x db_scheme \<Rightarrow> ('x db_scheme \<times> claimed) result" where
  "claim_one now token attempt_id policy d db =
     and_then (timedelta_float (the_fin (lease_duration_seconds policy))) (\<lambda>duration.
     and_then (dt_add now duration) (\<lambda>expires.
       let d' = leased_row now expires token d; a = started_attempt now token attempt_id d in
       and_then (update_delivery d' db) (\<lambda>db1.
       and_then (insert_attempt a db1) (\<lambda>db2.
         case find_event (d_tenant_id d) (d_event_id d) db2 of
           None \<Rightarrow> config_error ''Delivery references a missing event.''
         | Some e \<Rightarrow>
             and_then (event_from_row e) (\<lambda>event.
             and_then (delivery_from_row d') (\<lambda>delivery.
             and_then (attempt_from_row a) (\<lambda>attempt.
               Inr (db2, \<lparr>c_event = event, c_delivery = delivery, c_attempt = attempt,
                          c_route_snapshot = d_route_snapshot d\<rparr>))))))))"

text \<open>The loop over the candidates: \<open>counts\<close> lists the tenant of every claim made so far.\<close>

fun claim_loop ::
  "int \<Rightarrow> int \<Rightarrow> int \<Rightarrow> (nat \<Rightarrow> uuid) \<Rightarrow> delivery_row list \<Rightarrow> nat \<Rightarrow> uuid list \<Rightarrow> claimed list \<Rightarrow>
     'x db_scheme \<Rightarrow> ('x db_scheme \<times> claimed list) result" where
  "claim_loop now batch_size per_tenant fresh [] n counts claims db = Inr (db, claims)"
| "claim_loop now batch_size per_tenant fresh (d # ds) n counts claims db =
     (if batch_size \<le> int (length claims) then Inr (db, claims)
      else if per_tenant \<le> int (count_list counts (d_tenant_id d))
      then claim_loop now batch_size per_tenant fresh ds n counts claims db
      else
        and_then (snapshot_policy (d_route_snapshot d)) (\<lambda>policy.
        and_then (delivery_deadline policy (Aware (d_created_at d))) (\<lambda>deadline.
          if deadline \<le> now
          then and_then (update_delivery (expired_row now d) db)
                 (claim_loop now batch_size per_tenant fresh ds n counts claims)
          else and_then (claim_one now (fresh n) (fresh (Suc n)) policy d db) (\<lambda>(db', c).
                 claim_loop now batch_size per_tenant fresh ds (Suc (Suc n)) (d_tenant_id d # counts)
                   (claims @ [c]) db'))))"

definition claim_body ::
  "int \<Rightarrow> int \<Rightarrow> py_datetime \<Rightarrow> (nat \<Rightarrow> py_datetime) \<Rightarrow> (nat \<Rightarrow> uuid) \<Rightarrow> (uuid \<times> uuid \<Rightarrow> bool) \<Rightarrow>
     'x db_scheme \<Rightarrow> ('x db_scheme \<times> claimed list) result" where
  "claim_body batch_size per_tenant now clock fresh locked db =
     and_then (database_now (clock 0) now) (\<lambda>selection_time.
     and_then (database_now (clock 1) now) (\<lambda>effective_now.
       claim_loop effective_now batch_size per_tenant fresh
         (claim_candidates selection_time batch_size per_tenant locked db) 0 [] [] db))"

definition claim ::
  "bool \<Rightarrow> int \<Rightarrow> int \<Rightarrow> py_datetime \<Rightarrow> (nat \<Rightarrow> py_datetime) \<Rightarrow> (nat \<Rightarrow> uuid) \<Rightarrow> (uuid \<times> uuid \<Rightarrow> bool) \<Rightarrow>
     'x db_scheme \<Rightarrow> 'x db_scheme \<times> claimed list result" where
  "claim busy batch_size per_tenant now clock fresh locked db =
     transaction (\<lambda>db.
       and_then (require_idle busy) (\<lambda>_.
       and_then (lease_positive ''batch_size'' batch_size) (\<lambda>_.
       and_then (lease_positive ''per_tenant'' per_tenant) (\<lambda>_.
         claim_body batch_size per_tenant now clock fresh locked db)))) db"

section \<open>Finalisation\<close>

definition locked_active_rows ::
  "claimed \<Rightarrow> py_datetime \<Rightarrow> py_datetime \<Rightarrow> 'x db_scheme \<Rightarrow> (delivery_row \<times> attempt_row \<times> int) result" where
  "locked_active_rows c now sample db =
     (let lost = Inl (LeaseLost (dr_delivery_id (c_delivery c))) in
      case find_delivery (dr_tenant_id (c_delivery c)) (dr_delivery_id (c_delivery c)) db of
        None \<Rightarrow> lost
      | Some d \<Rightarrow>
          if d_state d \<noteq> Leased \<or> d_lease_token d \<noteq> Some (lease_token c) then lost
          else (case d_lease_expires_at d of
            None \<Rightarrow> lost
          | Some expires \<Rightarrow>
              (case List.find (\<lambda>a. attempt_key a = (ar_tenant_id (c_attempt c), ar_attempt_id (c_attempt c)) \<and>
                                   a_lease_token a = lease_token c \<and> a_outcome a = Started) (attempts db) of
                 None \<Rightarrow> lost
               | Some a \<Rightarrow>
                   and_then (database_now sample now) (\<lambda>locked_at.
                     if expires \<le> locked_at then lost else Inr (d, a, locked_at)))))"

definition succeed_in_transaction ::
  "bool \<Rightarrow> claimed \<Rightarrow> py_datetime \<Rightarrow> py_datetime \<Rightarrow> 'x db_scheme \<Rightarrow> ('x db_scheme \<times> int) result" where
  "succeed_in_transaction busy c now sample db =
     and_then (ensure busy (ConfigurationError ''Transactional success requires an active transaction.'')) (\<lambda>_.
     and_then (locked_active_rows c now sample db) (\<lambda>(d, a, finished_at).
     and_then (snapshot_policy (d_route_snapshot d)) (\<lambda>policy.
       case d_lease_expires_at d of
         None \<Rightarrow> Inl (LeaseLost (dr_delivery_id (c_delivery c)))
       | Some expires \<Rightarrow>
           and_then (attempt_deadline policy (Aware (d_created_at d)) (Aware (a_started_at a)) (Aware expires)) (\<lambda>deadline.
             if deadline \<le> finished_at then Inl (LeaseLost (dr_delivery_id (c_delivery c)))
             else
               and_then (update_attempt (a\<lparr>a_outcome := AttemptSucceeded, a_finished_at := Some finished_at\<rparr>) db) (\<lambda>db1.
               and_then (update_delivery (clear_lease finished_at (d\<lparr>d_state := Succeeded\<rparr>)) db1) (\<lambda>db2.
                 Inr (db2, finished_at)))))))"

definition succeed :: "bool \<Rightarrow> claimed \<Rightarrow> py_datetime \<Rightarrow> py_datetime \<Rightarrow> 'x db_scheme \<Rightarrow> 'x db_scheme \<times> int result" where
  "succeed busy c now sample db =
     transaction (\<lambda>db. and_then (require_idle busy) (\<lambda>_. succeed_in_transaction True c now sample db)) db"

definition is_retryable :: "delivery_error \<Rightarrow> bool" where
  "is_retryable e = (case e of RetryableDeliveryError _ _ _ \<Rightarrow> True | PermanentDeliveryError _ _ \<Rightarrow> False)"

text \<open>The time of the next attempt: jittered backoff, raised to Retry-After, capped by the policy.\<close>

definition schedule_retry ::
  "retry_policy \<Rightarrow> int \<Rightarrow> (rat \<Rightarrow> rat \<Rightarrow> pyfloat) \<Rightarrow> int option \<Rightarrow> int \<Rightarrow> int result" where
  "schedule_retry policy attempt_number uniform retry_after finished_at =
     and_then (retry_delay policy attempt_number uniform) (\<lambda>delay.
     and_then (case retry_after of
                 None \<Rightarrow> Inr delay
               | Some r \<Rightarrow> if total_seconds r < 0 then config_error ''Retry-After cannot be negative.''
                           else Inr (max delay r)) (\<lambda>delay'.
     and_then (timedelta_float (the_fin (maximum_delay_seconds policy))) (\<lambda>cap.
       dt_add finished_at (min delay' cap))))"

definition failed_attempt :: "attempt_outcome \<Rightarrow> string \<Rightarrow> string \<Rightarrow> int \<Rightarrow> attempt_row \<Rightarrow> attempt_row" where
  "failed_attempt outcome c s finished_at a =
     a\<lparr>a_outcome := outcome, a_finished_at := Some finished_at, a_failure_code := Some c,
       a_failure_summary := Some s\<rparr>"

text \<open>The rows a classified failure leaves: the finished attempt, and the delivery before its lease is cleared.\<close>

definition failure_effect ::
  "retry_policy \<Rightarrow> delivery_error \<Rightarrow> int option \<Rightarrow> (rat \<Rightarrow> rat \<Rightarrow> pyfloat) \<Rightarrow> int \<Rightarrow> delivery_row \<Rightarrow> attempt_row \<Rightarrow>
     (attempt_row \<times> delivery_row) result" where
  "failure_effect policy err retry_after uniform finished_at d a =
     and_then (if is_retryable err
               then permits_retry policy (a_attempt_number a) (Aware (d_created_at d)) (Aware finished_at)
               else Inr False) (\<lambda>retry.
       if retry then
          and_then (schedule_retry policy (a_attempt_number a) uniform retry_after finished_at) (\<lambda>scheduled_at.
          and_then (delivery_deadline policy (Aware (d_created_at d))) (\<lambda>deadline.
            if scheduled_at < deadline
            then Inr (failed_attempt AttemptRetryable (err_code err) (err_summary err) finished_at a,
                      d\<lparr>d_state := RetryWait, d_next_attempt_at := scheduled_at\<rparr>)
            else Inr (failed_attempt AttemptRetryable ''delivery.deadline_exceeded''
                        ''Retry scheduling would exceed the delivery elapsed-time deadline.'' finished_at a,
                      d\<lparr>d_state := Dead, d_next_attempt_at := finished_at\<rparr>)))
       else Inr (failed_attempt (if is_retryable err then AttemptRetryable else Terminal)
                   (err_code err) (err_summary err) finished_at a,
                 d\<lparr>d_state := Dead\<rparr>))"

definition fail_in_transaction ::
  "bool \<Rightarrow> claimed \<Rightarrow> delivery_error \<Rightarrow> py_datetime \<Rightarrow> int option \<Rightarrow> py_datetime \<Rightarrow> (rat \<Rightarrow> rat \<Rightarrow> pyfloat) \<Rightarrow>
     'x db_scheme \<Rightarrow> ('x db_scheme \<times> delivery_state) result" where
  "fail_in_transaction busy c err now retry_after sample uniform db =
     and_then (ensure busy (ConfigurationError ''Transactional failure requires an active transaction.'')) (\<lambda>_.
     and_then (locked_active_rows c now sample db) (\<lambda>(d, a, finished_at).
     and_then (snapshot_policy (d_route_snapshot d)) (\<lambda>policy.
     and_then (failure_effect policy err retry_after uniform finished_at d a) (\<lambda>(a', d').
     and_then (update_attempt a' db) (\<lambda>db1.
     and_then (update_delivery (clear_lease finished_at d') db1) (\<lambda>db2.
       Inr (db2, d_state d')))))))"

definition fail ::
  "bool \<Rightarrow> claimed \<Rightarrow> delivery_error \<Rightarrow> py_datetime \<Rightarrow> int option \<Rightarrow> (nat \<Rightarrow> py_datetime) \<Rightarrow> (rat \<Rightarrow> rat \<Rightarrow> pyfloat) \<Rightarrow>
     'x db_scheme \<Rightarrow> 'x db_scheme \<times> delivery_state result" where
  "fail busy c err now retry_after clock uniform db =
     transaction (\<lambda>db.
       and_then (require_idle busy) (\<lambda>_.
       and_then (fail_in_transaction True c err now retry_after (clock 0) uniform db) (\<lambda>(db', outcome).
       and_then (database_now (clock 1) now) (\<lambda>_. Inr (db', outcome))))) db"

section \<open>Reconciliation\<close>

definition lease_expired :: "int \<Rightarrow> delivery_row \<Rightarrow> bool" where
  "lease_expired t d \<longleftrightarrow>
     d_state d = Leased \<and> (case d_lease_expires_at d of None \<Rightarrow> False | Some e \<Rightarrow> e \<le> t)"

definition expired_leases :: "int \<Rightarrow> int \<Rightarrow> (uuid \<times> uuid \<Rightarrow> bool) \<Rightarrow> 'x db_scheme \<Rightarrow> delivery_row list" where
  "expired_leases selection_time batch_size locked db =
     take (nat batch_size) (filter (\<lambda>d. \<not> locked (delivery_key d))
       (sort_key (\<lambda>d. the (d_lease_expires_at d)) (filter (lease_expired selection_time) (deliveries db))))"

definition live_attempt :: "delivery_row \<Rightarrow> attempt_row \<Rightarrow> bool" where
  "live_attempt d a \<longleftrightarrow> a_tenant_id a = d_tenant_id d \<and> a_delivery_id a = d_delivery_id d \<and>
     d_lease_token d = Some (a_lease_token a) \<and> a_outcome a = Started"

definition reconciled_row :: "bool \<Rightarrow> retry_policy \<Rightarrow> int \<Rightarrow> delivery_row \<Rightarrow> delivery_row" where
  "reconciled_row elapsed policy now d =
     clear_lease now (d\<lparr>d_state := (if d_attempts_started d < max_attempts policy \<and> \<not> elapsed then RetryWait else Dead),
                        d_next_attempt_at := now\<rparr>)"

definition abandoned_attempt :: "bool \<Rightarrow> int \<Rightarrow> attempt_row \<Rightarrow> attempt_row" where
  "abandoned_attempt elapsed now a =
     failed_attempt Abandoned
       (if elapsed then ''delivery.deadline_exceeded'' else ''lease.expired'')
       (if elapsed then ''Delivery elapsed-time deadline passed before reconciliation.''
        else ''Worker lease expired before finalization.'') now a"

definition reconcile_one :: "int \<Rightarrow> delivery_row \<Rightarrow> 'x db_scheme \<Rightarrow> 'x db_scheme result" where
  "reconcile_one now d db =
     and_then (snapshot_policy (d_route_snapshot d)) (\<lambda>policy.
     and_then (delivery_deadline policy (Aware (d_created_at d))) (\<lambda>deadline.
       let elapsed = deadline \<le> now in
       and_then (case List.find (live_attempt d) (attempts db) of
                   None \<Rightarrow> Inr db
                 | Some a \<Rightarrow> update_attempt (abandoned_attempt elapsed now a) db) (\<lambda>db1.
       update_delivery (reconciled_row elapsed policy now d) db1)))"

fun reconcile_loop ::
  "py_datetime \<Rightarrow> (nat \<Rightarrow> py_datetime) \<Rightarrow> delivery_row list \<Rightarrow> nat \<Rightarrow> 'x db_scheme \<Rightarrow> ('x db_scheme \<times> nat) result" where
  "reconcile_loop now clock [] n db = Inr (db, n)"
| "reconcile_loop now clock (d # ds) n db =
     and_then (database_now (clock (Suc n)) now) (\<lambda>effective_now.
     and_then (reconcile_one effective_now d db) (reconcile_loop now clock ds (Suc n)))"

definition reconcile_expired ::
  "bool \<Rightarrow> int \<Rightarrow> py_datetime \<Rightarrow> (nat \<Rightarrow> py_datetime) \<Rightarrow> (uuid \<times> uuid \<Rightarrow> bool) \<Rightarrow>
     'x db_scheme \<Rightarrow> 'x db_scheme \<times> nat result" where
  "reconcile_expired busy batch_size now clock locked db =
     transaction (\<lambda>db.
       and_then (require_idle busy) (\<lambda>_.
       and_then (lease_positive ''batch_size'' batch_size) (\<lambda>_.
       and_then (database_now (clock 0) now) (\<lambda>selection_time.
         reconcile_loop now clock (expired_leases selection_time batch_size locked db) 0 db)))) db"

section \<open>Replay\<close>

definition replay_guard :: "string \<Rightarrow> string \<Rightarrow> unit result" where
  "replay_guard actor reason =
     (if actor = [] \<or> 512 < length actor then config_error ''Replay actor is invalid.''
      else if reason = [] then config_error ''Replay reason is invalid.'' else Inr ())"

definition replay_row :: "uuid \<Rightarrow> string \<Rightarrow> string \<Rightarrow> int \<Rightarrow> delivery_row \<Rightarrow> delivery_row" where
  "replay_row replay_id actor reason now d =
     d\<lparr>d_delivery_id := replay_id, d_state := Pending, d_attempts_started := 0, d_next_attempt_at := now,
       d_lease_token := None, d_lease_expires_at := None, d_replay_of := Some (d_delivery_id d),
       d_replay_actor := Some actor, d_replay_reason := Some reason, d_created_at := now, d_updated_at := now\<rparr>"

definition replay_in_transaction ::
  "bool \<Rightarrow> uuid \<Rightarrow> uuid \<Rightarrow> string \<Rightarrow> string \<Rightarrow> int \<Rightarrow> string option \<Rightarrow> uuid \<Rightarrow> 'x db_scheme \<Rightarrow>
     ('x db_scheme \<times> delivery_record) result" where
  "replay_in_transaction busy tenant delivery_id actor reason now destination_kind replay_id db =
     and_then (ensure busy (ConfigurationError ''Transactional replay requires an active transaction.'')) (\<lambda>_.
     and_then (replay_guard actor reason) (\<lambda>_.
       case find_delivery tenant delivery_id db of
         None \<Rightarrow> config_error ''Only a terminal delivery can be replayed.''
       | Some d \<Rightarrow>
           if (d_state d = Succeeded \<or> d_state d = Dead) \<and>
              (destination_kind = None \<or> destination_kind = Some (d_destination_kind d))
           then and_then (insert_delivery (replay_row replay_id actor reason now d) db) (\<lambda>db'.
                and_then (delivery_from_row (replay_row replay_id actor reason now d)) (\<lambda>record.
                  Inr (db', record)))
           else config_error ''Only a terminal delivery can be replayed.''))"

definition replay ::
  "bool \<Rightarrow> uuid \<Rightarrow> uuid \<Rightarrow> string \<Rightarrow> string \<Rightarrow> int \<Rightarrow> string option \<Rightarrow> uuid \<Rightarrow> 'x db_scheme \<Rightarrow>
     'x db_scheme \<times> delivery_record result" where
  "replay busy tenant delivery_id actor reason now destination_kind replay_id db =
     transaction (\<lambda>db.
       and_then (replay_guard actor reason) (\<lambda>_.
       and_then (require_idle busy) (\<lambda>_.
         replay_in_transaction True tenant delivery_id actor reason now destination_kind replay_id db))) db"

section \<open>Reading successful operations\<close>

lemma database_now_Inr [result_simps]:
  "database_now sample obs = Inr t \<longleftrightarrow> is_aware sample \<and> is_aware obs \<and> t = instant sample"
  by (auto simp: database_now_def)

lemma require_idle_Inr [result_simps]: "require_idle busy = Inr u \<longleftrightarrow> \<not> busy"
  by (simp add: require_idle_def result_simps)

lemma lease_positive_Inr [result_simps]: "lease_positive name v = Inr u \<longleftrightarrow> 1 \<le> v"
  by (simp add: lease_positive_def result_simps)

lemma locked_active_rows_Inr:
  assumes "locked_active_rows c now sample db = Inr (d, a, t)"
  shows "find_delivery (dr_tenant_id (c_delivery c)) (dr_delivery_id (c_delivery c)) db = Some d \<and>
    d \<in> set (deliveries db) \<and> a \<in> set (attempts db) \<and> d_state d = Leased \<and>
    d_lease_token d = Some (a_lease_token a) \<and> a_lease_token a = lease_token c \<and> a_outcome a = Started \<and>
    attempt_key a = (ar_tenant_id (c_attempt c), ar_attempt_id (c_attempt c)) \<and>
    (\<exists>e. d_lease_expires_at d = Some e \<and> t < e) \<and> t = instant sample"
  using assms
  by (auto simp: locked_active_rows_def Let_def and_then_Inr_iff database_now_Inr
      dest!: find_SomeD find_delivery_Some split: option.splits if_splits)

text \<open>A failure ends in a terminal state, or in a retry the policy permits and the deadline allows.\<close>

lemma failure_effect_Inr:
  assumes "failure_effect policy err ra uniform t d a = Inr (a', d')"
  shows "same_attempt a' a \<and> a_outcome a' = (if is_retryable err then AttemptRetryable else Terminal) \<and>
    a_finished_at a' = Some t \<and> same_delivery d' d \<and> d_attempts_started d' = d_attempts_started d \<and>
    (d_state d' = Dead \<or>
     d_state d' = RetryWait \<and> is_retryable err \<and> a_attempt_number a < max_attempts policy \<and>
       schedule_retry policy (a_attempt_number a) uniform ra t = Inr (d_next_attempt_at d') \<and>
       (\<exists>dl. delivery_deadline policy (Aware (d_created_at d)) = Inr dl \<and> d_next_attempt_at d' < dl))"
proof (cases "is_retryable err")
  case False
  then show ?thesis using assms
    by (auto simp: failure_effect_def failed_attempt_def same_attempt_def attempt_key_def attempt_slot_def
        same_delivery_def delivery_key_def)
next
  case True
  with assms obtain retry where r: "permits_retry policy (a_attempt_number a) (Aware (d_created_at d)) (Aware t) = Inr retry"
    by (auto simp: failure_effect_def and_then_Inr_iff)
  show ?thesis
  proof (cases retry)
    case False
    then show ?thesis using assms True r
      by (auto simp: failure_effect_def failed_attempt_def same_attempt_def attempt_key_def attempt_slot_def
          same_delivery_def delivery_key_def)
  next
    case retry: True
    then obtain s dl where s: "schedule_retry policy (a_attempt_number a) uniform ra t = Inr s"
      "delivery_deadline policy (Aware (d_created_at d)) = Inr dl"
      using assms True r by (auto simp: failure_effect_def and_then_Inr_iff)
    have n: "a_attempt_number a < max_attempts policy"
      using r retry by (auto simp: permits_retry_def Let_def split: if_splits)
    show ?thesis
      using assms True r retry s n
      by (cases "s < dl") (auto simp: failure_effect_def failed_attempt_def same_attempt_def attempt_key_def
          attempt_slot_def same_delivery_def delivery_key_def)
  qed
qed

lemma fail_in_transaction_Inr:
  assumes "fail_in_transaction busy c err now ra sample uniform db = Inr (db', st)"
  obtains d a t policy a' d' db1 where
    "locked_active_rows c now sample db = Inr (d, a, t)" "snapshot_policy (d_route_snapshot d) = Inr policy"
    "failure_effect policy err ra uniform t d a = Inr (a', d')"
    "update_attempt a' db = Inr db1" "update_delivery (clear_lease t d') db1 = Inr db'" "d_state d' = st"
  using assms unfolding fail_in_transaction_def and_then_Inr_iff by (auto simp: and_then_Inr_iff)

end
