(* ===== verification/Lease_Safety.thy ===== *)
theory Lease_Safety
  imports Leasing
begin

text \<open>
  Safety of the lease protocol. The abstract machine \<open>lease_move\<close> has the few row-level transitions a
  delivery and its attempts may take; every operation of the store and of the lease repository is shown
  to be a sequence of such moves, and the invariants are proved on the moves.
\<close>

section \<open>The abstract machine\<close>

definition waiting :: "delivery_row \<Rightarrow> bool" where
  "waiting d \<longleftrightarrow> d_state d = Pending \<or> d_state d = RetryWait"

definition below_quota :: "delivery_row \<Rightarrow> bool" where
  "below_quota d \<longleftrightarrow> (\<forall>p. snapshot_policy (d_route_snapshot d) = Inr p \<longrightarrow> d_attempts_started d < max_attempts p)"

definition within_quota :: "delivery_row \<Rightarrow> bool" where
  "within_quota d \<longleftrightarrow> (\<forall>p. snapshot_policy (d_route_snapshot d) = Inr p \<longrightarrow> d_attempts_started d \<le> max_attempts p)"

inductive lease_move :: "'x db_scheme \<Rightarrow> 'x db_scheme \<Rightarrow> bool" where
  store_event: "insert_event e db = Inr db' \<Longrightarrow> lease_move db db'"
| store_delivery:
    "insert_delivery d db = Inr db' \<Longrightarrow> d_state d = Pending \<Longrightarrow> d_attempts_started d = 0 \<Longrightarrow> lease_move db db'"
| lease:
    "d \<in> set (deliveries db) \<Longrightarrow> waiting d \<Longrightarrow> token \<notin> a_lease_token ` set (attempts db) \<Longrightarrow>
     update_delivery (leased_row now expires token d) db = Inr db1 \<Longrightarrow>
     insert_attempt (started_attempt now token i d) db1 = Inr db' \<Longrightarrow> lease_move db db'"
| expire:
    "d \<in> set (deliveries db) \<Longrightarrow> waiting d \<Longrightarrow> update_delivery (expired_row now d) db = Inr db' \<Longrightarrow> lease_move db db'"
| settle:
    "d \<in> set (deliveries db) \<Longrightarrow> d_state d = Leased \<Longrightarrow> a \<in> set (attempts db) \<Longrightarrow> live_attempt d a \<Longrightarrow>
     same_attempt a' a \<Longrightarrow> a_outcome a' \<noteq> Started \<Longrightarrow> update_attempt a' db = Inr db1 \<Longrightarrow>
     same_delivery d' d \<Longrightarrow> d_state d' \<in> {Succeeded, RetryWait, Dead} \<Longrightarrow> d_lease_token d' = None \<Longrightarrow>
     d_attempts_started d' = d_attempts_started d \<Longrightarrow> (d_state d' = RetryWait \<longrightarrow> below_quota d') \<Longrightarrow>
     update_delivery d' db1 = Inr db' \<Longrightarrow> lease_move db db'"

section \<open>The invariant\<close>

definition leases_matched :: "'x db_scheme \<Rightarrow> bool" where
  "leases_matched db \<longleftrightarrow> (\<forall>d\<in>set (deliveries db). d_state d = Leased \<longrightarrow>
     (\<exists>a\<in>set (attempts db). live_attempt d a \<and> a_attempt_number a = d_attempts_started d))"

definition attempts_matched :: "'x db_scheme \<Rightarrow> bool" where
  "attempts_matched db \<longleftrightarrow> (\<forall>a\<in>set (attempts db). a_outcome a = Started \<longrightarrow>
     (\<exists>d\<in>set (deliveries db). d_state d = Leased \<and> live_attempt d a))"

definition numbers_bounded :: "'x db_scheme \<Rightarrow> bool" where
  "numbers_bounded db \<longleftrightarrow> (\<forall>a\<in>set (attempts db). \<forall>d\<in>set (deliveries db).
     (a_tenant_id a, a_delivery_id a) = delivery_key d \<longrightarrow> a_attempt_number a \<le> d_attempts_started d)"

definition quotas_kept :: "'x db_scheme \<Rightarrow> bool" where
  "quotas_kept db \<longleftrightarrow> (\<forall>d\<in>set (deliveries db). within_quota d \<and> (waiting d \<longrightarrow> below_quota d))"

definition lease_inv :: "'x db_scheme \<Rightarrow> bool" where
  "lease_inv db \<longleftrightarrow> schema_ok db \<and> leases_matched db \<and> attempts_matched db \<and> numbers_bounded db \<and>
     quotas_kept db \<and> distinct (map a_lease_token (attempts db))"

lemma lease_inv_empty: "no_rows db \<Longrightarrow> lease_inv db"
  by (simp add: lease_inv_def schema_ok_no_rows)
     (simp add: no_rows_def leases_matched_def attempts_matched_def numbers_bounded_def quotas_kept_def)

lemma lease_inv_schema: "lease_inv db \<Longrightarrow> schema_ok db"
  by (simp add: lease_inv_def)

section \<open>Row facts\<close>

lemma same_delivery_rows [simp]:
  "same_delivery (leased_row now e t d) d" "same_delivery (expired_row now d) d"
  "same_delivery (reconciled_row el p now d) d" "same_delivery (clear_lease now d) d"
  by (simp_all add: same_delivery_def leased_row_def expired_row_def reconciled_row_def clear_lease_def
      delivery_key_def)

lemma same_delivery_key: "same_delivery r q \<Longrightarrow> delivery_key r = delivery_key q"
  by (simp add: same_delivery_def)

lemma unique_delivery:
  "schema_ok db \<Longrightarrow> d \<in> set (deliveries db) \<Longrightarrow> q \<in> set (deliveries db) \<Longrightarrow>
     delivery_key d = delivery_key q \<Longrightarrow> d = q"
  using unique_row [of delivery_key "deliveries db" q d] by (simp add: schema_ok_def)

lemma update_delivery_rows:
  assumes "schema_ok db" and "q \<in> set (deliveries db)" and "same_delivery r q"
    and "update_delivery r db = Inr db'"
  shows "set (deliveries db') = insert r (set (deliveries db) - {q})" and "attempts db' = attempts db"
    and "events db' = events db" and "schema_ok db'"
  using assms set_replace_row [of delivery_key "deliveries db" q r] update_delivery_schema [OF assms(1,4,2,3)]
  by (auto simp: update_delivery_Inr schema_ok_def same_delivery_key)

lemma update_attempt_rows:
  assumes "schema_ok db" and "q \<in> set (attempts db)" and "same_attempt r q"
    and "update_attempt r db = Inr db'"
  shows "set (attempts db') = insert r (set (attempts db) - {q})" and "deliveries db' = deliveries db"
    and "events db' = events db" and "schema_ok db'"
    and "map a_lease_token (attempts db') = map a_lease_token (attempts db)"
  using assms set_replace_row [of attempt_key "attempts db" q r] update_attempt_schema [OF assms(1,4,2,3)]
    map_replace_row [of attempt_key "attempts db" q r a_lease_token]
  by (auto simp: update_attempt_Inr schema_ok_def same_attempt_def)

lemma live_attempt_key: "live_attempt d a \<Longrightarrow> delivery_key d = (a_tenant_id a, a_delivery_id a)"
  by (simp add: live_attempt_def delivery_key_def)

lemma attempt_has_delivery:
  "schema_ok db \<Longrightarrow> a \<in> set (attempts db) \<Longrightarrow> (a_tenant_id a, a_delivery_id a) \<in> delivery_key ` set (deliveries db)"
  by (auto simp: schema_ok_def list_all_iff delivery_exists_def)

lemma token_unique:
  "distinct (map a_lease_token xs) \<Longrightarrow> a \<in> set xs \<Longrightarrow> b \<in> set xs \<Longrightarrow> a_lease_token a = a_lease_token b \<Longrightarrow> a = b"
  by (rule distinct_map_inj_on)

section \<open>Every move keeps the invariant\<close>

lemma store_event_inv:
  assumes "lease_inv db" and "insert_event e db = Inr db'"
  shows "lease_inv db'"
  using assms insert_event_schema [of db e db']
  by (auto simp: lease_inv_def insert_event_Inr leases_matched_def attempts_matched_def numbers_bounded_def
      quotas_kept_def)

lemma store_delivery_inv:
  assumes inv: "lease_inv db" and ins: "insert_delivery d db = Inr db'"
    and d: "d_state d = Pending" "d_attempts_started d = 0"
  shows "lease_inv db'"
proof -
  have db': "deliveries db' = deliveries db @ [d]" "attempts db' = attempts db"
    and new: "delivery_key d \<notin> delivery_key ` set (deliveries db)"
    using ins by (auto simp: insert_delivery_Inr)
  have none: "(a_tenant_id a, a_delivery_id a) \<noteq> delivery_key d" if "a \<in> set (attempts db)" for a
    using attempt_has_delivery [OF lease_inv_schema [OF inv] that] new by auto
  have quota: "within_quota d" "below_quota d"
    using d by (auto simp: within_quota_def below_quota_def valid_policy_def dest!: snapshot_policy_valid)
  show ?thesis
    using inv db' d none quota insert_delivery_schema [OF lease_inv_schema [OF inv] ins]
    by (auto simp: lease_inv_def leases_matched_def attempts_matched_def numbers_bounded_def quotas_kept_def)
qed

lemma expire_inv:
  assumes inv: "lease_inv db" and d: "d \<in> set (deliveries db)" "waiting d"
    and up: "update_delivery (expired_row now d) db = Inr db'"
  shows "lease_inv db'"
proof -
  note rows = update_delivery_rows [OF lease_inv_schema [OF inv] d(1) _ up, simplified]
  have r: "d_state (expired_row now d) = Dead" "d_attempts_started (expired_row now d) = d_attempts_started d"
    "delivery_key (expired_row now d) = delivery_key d" "\<not> waiting (expired_row now d)"
    "within_quota (expired_row now d) = within_quota d"
    by (simp_all add: expired_row_def waiting_def delivery_key_def within_quota_def)
  have "d_state d \<noteq> Leased" using d by (auto simp: waiting_def)
  then show ?thesis
    using inv d r rows
    unfolding lease_inv_def leases_matched_def attempts_matched_def numbers_bounded_def quotas_kept_def
    by (intro conjI; simp) blast
qed

lemma lease_move_inv:
  assumes inv: "lease_inv db" and d: "d \<in> set (deliveries db)" "waiting d"
    and token: "token \<notin> a_lease_token ` set (attempts db)"
    and up: "update_delivery (leased_row now expires token d) db = Inr db1"
    and ins: "insert_attempt (started_attempt now token i d) db1 = Inr db'"
  shows "lease_inv db'"
proof -
  let ?d = "leased_row now expires token d" and ?a = "started_attempt now token i d"
  have schema: "schema_ok db" using inv by (rule lease_inv_schema)
  note rows = update_delivery_rows [OF schema d(1) _ up, simplified]
  have db': "deliveries db' = deliveries db1" "attempts db' = attempts db @ [?a]"
    using ins rows(2) by (auto simp: insert_attempt_Inr)
  have schema': "schema_ok db'" using insert_attempt_schema [OF rows(4) ins] .
  have D: "set (deliveries db') = insert ?d (set (deliveries db) - {d})" using db' rows by simp
  have live: "live_attempt ?d ?a" "a_attempt_number ?a = d_attempts_started ?d" "d_state ?d = Leased"
    by (simp_all add: live_attempt_def leased_row_def started_attempt_def)
  have key: "delivery_key ?d = delivery_key d" by (simp add: leased_row_def delivery_key_def)
  have not_leased: "d_state d \<noteq> Leased" using d by (auto simp: waiting_def)
  have "leases_matched db'"
    using inv live unfolding lease_inv_def leases_matched_def D db'(2) by (auto dest: bspec)
  moreover have "attempts_matched db'"
    using inv live not_leased unfolding lease_inv_def attempts_matched_def D db'(2) by auto
  moreover have "numbers_bounded db'" unfolding numbers_bounded_def
  proof (intro ballI impI)
    fix a q assume aq: "a \<in> set (attempts db')" "q \<in> set (deliveries db')"
      "(a_tenant_id a, a_delivery_id a) = delivery_key q"
    have old: "a_attempt_number b \<le> d_attempts_started p"
      if "b \<in> set (attempts db)" "p \<in> set (deliveries db)" "(a_tenant_id b, a_delivery_id b) = delivery_key p" for b p
      using inv that by (auto simp: lease_inv_def numbers_bounded_def)
    show "a_attempt_number a \<le> d_attempts_started q"
    proof (cases "a = ?a")
      case True
      then have "delivery_key q = delivery_key ?d" using aq(3) live_attempt_key [OF live(1)] by simp
      then have "q = ?d" using unique_delivery [OF schema' aq(2)] D by simp
      then show ?thesis using True live by simp
    next
      case False
      then have a: "a \<in> set (attempts db)" using aq db' by simp
      show ?thesis
      proof (cases "q = ?d")
        case True
        then have "a_attempt_number a \<le> d_attempts_started d" using old [OF a d(1)] aq key by simp
        then show ?thesis using True by (simp add: leased_row_def)
      next
        case False
        then show ?thesis using old [OF a] aq D by auto
      qed
    qed
  qed
  moreover have "quotas_kept db'"
  proof -
    have "within_quota ?d" "\<not> waiting ?d"
      using inv d by (auto simp: lease_inv_def quotas_kept_def within_quota_def below_quota_def leased_row_def waiting_def)
    then show ?thesis using inv unfolding lease_inv_def quotas_kept_def D by auto
  qed
  moreover have "distinct (map a_lease_token (attempts db'))"
    using inv token db' by (auto simp: lease_inv_def started_attempt_def)
  ultimately show ?thesis using schema' by (simp add: lease_inv_def)
qed

lemma settle_inv:
  assumes inv: "lease_inv db" and d: "d \<in> set (deliveries db)" "d_state d = Leased"
    and a: "a \<in> set (attempts db)" "live_attempt d a" "same_attempt a' a" "a_outcome a' \<noteq> Started"
    and upa: "update_attempt a' db = Inr db1"
    and d': "same_delivery d' d" "d_state d' \<in> {Succeeded, RetryWait, Dead}"
      "d_attempts_started d' = d_attempts_started d" "d_state d' = RetryWait \<longrightarrow> below_quota d'"
    and upd: "update_delivery d' db1 = Inr db'"
  shows "lease_inv db'"
proof -
  have schema: "schema_ok db" using inv by (rule lease_inv_schema)
  note ra = update_attempt_rows [OF schema a(1,3) upa]
  have d1: "d \<in> set (deliveries db1)" using d ra(2) by simp
  note rd = update_delivery_rows [OF ra(4) d1 d'(1) upd]
  have D: "set (deliveries db') = insert d' (set (deliveries db) - {d})" using rd ra by simp
  have A: "set (attempts db') = insert a' (set (attempts db) - {a})" using rd ra by simp
  have tokens: "distinct (map a_lease_token (attempts db))" using inv by (simp add: lease_inv_def)
  have other: "b \<noteq> a" if "q \<in> set (deliveries db)" "q \<noteq> d" "live_attempt q b" for q b
    using unique_delivery [OF schema that(1) d(1)] that live_attempt_key [OF a(2)] live_attempt_key [OF that(3)] by auto
  have "leases_matched db'"
  proof -
    have "\<exists>b\<in>set (attempts db'). live_attempt q b \<and> a_attempt_number b = d_attempts_started q"
      if "q \<in> set (deliveries db)" "q \<noteq> d" "d_state q = Leased" for q
      using inv that other unfolding lease_inv_def leases_matched_def A by blast
    then show ?thesis using d'(2) unfolding leases_matched_def D by auto
  qed
  moreover have "attempts_matched db'"
  proof -
    have "\<exists>q\<in>set (deliveries db'). d_state q = Leased \<and> live_attempt q b"
      if b: "b \<in> set (attempts db)" "b \<noteq> a" "a_outcome b = Started" for b
    proof -
      obtain q where q: "q \<in> set (deliveries db)" "d_state q = Leased" "live_attempt q b"
        using inv b by (auto simp: lease_inv_def attempts_matched_def)
      have "q \<noteq> d"
      proof
        assume "q = d"
        then have "a_lease_token b = a_lease_token a" using q(3) a(2) by (auto simp: live_attempt_def)
        then show False using token_unique [OF tokens b(1) a(1)] b(2) by simp
      qed
      then show ?thesis using q D by auto
    qed
    then show ?thesis using a(4) unfolding attempts_matched_def A by auto
  qed
  moreover have "numbers_bounded db'"
  proof -
    have "a_attempt_number a' = a_attempt_number a" "a_tenant_id a' = a_tenant_id a" "a_delivery_id a' = a_delivery_id a"
      using a(3) by (auto simp: same_attempt_def attempt_slot_def)
    then show ?thesis
      using inv d a(1) d'(3) same_delivery_key [OF d'(1)] unfolding lease_inv_def numbers_bounded_def A D by auto
  qed
  moreover have "quotas_kept db'"
  proof -
    have "within_quota d'" using inv d d' by (auto simp: lease_inv_def quotas_kept_def within_quota_def same_delivery_def)
    moreover have "waiting d' \<longrightarrow> below_quota d'" using d' by (auto simp: waiting_def)
    ultimately show ?thesis using inv unfolding lease_inv_def quotas_kept_def D by auto
  qed
  moreover have "distinct (map a_lease_token (attempts db'))" using tokens ra rd by simp
  ultimately show ?thesis using rd(4) by (simp add: lease_inv_def)
qed

lemma move_inv: "lease_inv db \<Longrightarrow> lease_move db db' \<Longrightarrow> lease_inv db'"
  by (erule lease_move.cases)
     (blast intro: store_event_inv store_delivery_inv lease_move_inv expire_inv settle_inv)+

interpretation lease: invariant_machine no_rows lease_move lease_inv
  by unfold_locales (auto intro: lease_inv_empty move_inv)

section \<open>The operations are sequences of moves\<close>

lemma active_rows_live:
  assumes inv: "lease_inv db" and rows: "locked_active_rows c now sample db = Inr (d, a, t)"
  shows "live_attempt d a" and "a_attempt_number a = d_attempts_started d"
proof -
  note r = locked_active_rows_Inr [OF rows]
  obtain b where b: "b \<in> set (attempts db)" "live_attempt d b" "a_attempt_number b = d_attempts_started d"
    using inv r by (auto simp: lease_inv_def leases_matched_def)
  have "b = a" using token_unique [of "attempts db" b a] inv r b by (auto simp: lease_inv_def live_attempt_def)
  then show "live_attempt d a" and "a_attempt_number a = d_attempts_started d" using b by auto
qed

lemma same_attempt_finished [simp]:
  "same_attempt (a\<lparr>a_outcome := oc, a_finished_at := f\<rparr>) a" "same_attempt (failed_attempt oc c s t a) a"
  by (simp_all add: same_attempt_def attempt_key_def attempt_slot_def failed_attempt_def)

lemma succeed_in_transaction_move:
  assumes inv: "lease_inv db" and ok: "succeed_in_transaction busy c now sample db = Inr (db', t)"
  shows "lease_move db db'"
proof -
  from ok obtain d a db1 where rows: "locked_active_rows c now sample db = Inr (d, a, t)"
    and upa: "update_attempt (a\<lparr>a_outcome := AttemptSucceeded, a_finished_at := Some t\<rparr>) db = Inr db1"
    and upd: "update_delivery (clear_lease t (d\<lparr>d_state := Succeeded\<rparr>)) db1 = Inr db'"
    by (auto simp: succeed_in_transaction_def and_then_Inr_iff split: option.splits if_splits)
  note r = locked_active_rows_Inr [OF rows] and live = active_rows_live [OF inv rows]
  show ?thesis
    by (rule settle [of d db a, OF _ _ _ live(1) _ _ upa _ _ _ _ _ upd])
       (use r in \<open>auto simp: same_delivery_def clear_lease_def delivery_key_def\<close>)
qed

lemma fail_in_transaction_move:
  assumes inv: "lease_inv db" and ok: "fail_in_transaction busy c err now ra sample uniform db = Inr (db', st)"
  shows "lease_move db db'"
  using ok
proof (rule fail_in_transaction_Inr)
  fix d a t policy a' d' db1
  assume rows: "locked_active_rows c now sample db = Inr (d, a, t)"
    and p: "snapshot_policy (d_route_snapshot d) = Inr policy"
    and eff: "failure_effect policy err ra uniform t d a = Inr (a', d')"
    and upa: "update_attempt a' db = Inr db1" and upd: "update_delivery (clear_lease t d') db1 = Inr db'"
  note r = locked_active_rows_Inr [OF rows] and live = active_rows_live [OF inv rows]
    and e = failure_effect_Inr [OF eff]
  have c: "d_state (clear_lease t d') = d_state d'" "d_lease_token (clear_lease t d') = None"
    "d_attempts_started (clear_lease t d') = d_attempts_started d'"
    "d_route_snapshot (clear_lease t d') = d_route_snapshot d'"
    by (simp_all add: clear_lease_def)
  have sd: "same_delivery (clear_lease t d') d" and sa: "same_attempt a' a"
    using e same_delivery_trans [of "clear_lease t d'" d' d] by auto
  have "d_state (clear_lease t d') = RetryWait \<longrightarrow> below_quota (clear_lease t d')"
    using e c live p by (auto simp: below_quota_def same_delivery_def)
  moreover have "a_outcome a' \<noteq> Started" "d_state (clear_lease t d') \<in> {Succeeded, RetryWait, Dead}"
    using e c by (auto split: if_splits)
  ultimately show ?thesis
    using settle [OF _ _ _ live(1) sa _ upa sd _ _ _ _ upd] r e c by simp
qed

lemma reconcile_one_move:
  assumes inv: "lease_inv db" and d: "d \<in> set (deliveries db)" "d_state d = Leased"
    and ok: "reconcile_one t d db = Inr db'"
  shows "lease_move db db'" and "set (deliveries db) - {d} \<subseteq> set (deliveries db')"
proof -
  obtain b where b: "b \<in> set (attempts db)" "live_attempt d b" using inv d by (auto simp: lease_inv_def leases_matched_def)
  then have "List.find (live_attempt d) (attempts db) \<noteq> None" by (auto simp: find_None_iff')
  then obtain a where a: "List.find (live_attempt d) (attempts db) = Some a" by blast
  note fa = find_SomeD [OF a]
  from ok a obtain policy deadline db1 where p: "snapshot_policy (d_route_snapshot d) = Inr policy"
    and upa: "update_attempt (abandoned_attempt (deadline \<le> t) t a) db = Inr db1"
    and upd: "update_delivery (reconciled_row (deadline \<le> t) policy t d) db1 = Inr db'"
    by (auto simp: reconcile_one_def and_then_Inr_iff Let_def)
  have sa: "same_attempt (abandoned_attempt (deadline \<le> t) t a) a" by (simp add: abandoned_attempt_def)
  show "lease_move db db'"
    by (rule settle [of d db a, OF d _ _ sa _ upa _ _ _ _ _ upd])
       (use fa p in \<open>auto simp: abandoned_attempt_def failed_attempt_def reconciled_row_def clear_lease_def
         below_quota_def same_delivery_def delivery_key_def\<close>)
  note ra = update_attempt_rows [OF lease_inv_schema [OF inv] conjunct1 [OF fa] sa upa]
  have "d \<in> set (deliveries db1)" using d ra by simp
  from update_delivery_rows(1) [OF ra(4) this _ upd] show "set (deliveries db) - {d} \<subseteq> set (deliveries db')"
    using ra by auto
qed

end
