(* ===== verification/Lease_Machine.thy ===== *)
theory Lease_Machine
  imports Lease_Safety
begin

text \<open>
  The system-level state machine: publishing, claiming, finalising, reconciling and replaying, each as
  one committed (or rolled back) transaction. Every step refines the abstract lease machine; the
  properties of the protocol follow from its invariant.
\<close>

section \<open>Loops\<close>

definition leased_batch :: "'x db_scheme \<Rightarrow> delivery_row list \<Rightarrow> bool" where
  "leased_batch db ds \<longleftrightarrow> set ds \<subseteq> set (deliveries db) \<and> distinct ds \<and> (\<forall>d\<in>set ds. d_state d = Leased)"

definition waiting_batch :: "'x db_scheme \<Rightarrow> delivery_row list \<Rightarrow> bool" where
  "waiting_batch db ds \<longleftrightarrow> set ds \<subseteq> set (deliveries db) \<and> distinct ds \<and> (\<forall>d\<in>set ds. waiting d)"

lemma reconcile_loop_moves:
  assumes "lease_inv db" and "leased_batch db ds" and "reconcile_loop now clock ds n db = Inr (db', m)"
  shows "lease_move\<^sup>*\<^sup>* db db' \<and> m = n + length ds"
  using assms
proof (induction ds arbitrary: n db)
  case (Cons d ds)
  then obtain t db1 where ok: "reconcile_one t d db = Inr db1" and rest: "reconcile_loop now clock ds (Suc n) db1 = Inr (db', m)"
    by (auto simp: and_then_Inr_iff)
  have d: "d \<in> set (deliveries db)" "d_state d = Leased" using Cons.prems by (auto simp: leased_batch_def)
  note mv = reconcile_one_move [OF Cons.prems(1) d ok]
  have "leased_batch db1 ds" using Cons.prems(2) mv(2) by (auto simp: leased_batch_def)
  from Cons.IH [OF move_inv [OF Cons.prems(1) mv(1)] this rest] mv(1) show ?case
    by (auto intro: converse_rtranclp_into_rtranclp)
qed simp

lemma claim_one_Inr:
  assumes "claim_one now token i policy d db = Inr (db', c)"
  obtains expires db1 where
    "update_delivery (leased_row now expires token d) db = Inr db1"
    "insert_attempt (started_attempt now token i d) db1 = Inr db'"
    "timedelta_float (the_fin (lease_duration_seconds policy)) = Inr (expires - now)"
    "delivery_from_row (leased_row now expires token d) = Inr (c_delivery c)"
    "attempt_from_row (started_attempt now token i d) = Inr (c_attempt c)"
    "c_route_snapshot c = d_route_snapshot d"
  using assms
  by (auto simp: claim_one_def and_then_Inr_iff Let_def dt_add_Inr split: option.splits)

text \<open>
  What the lease protocol relies on from the UUID source: the \<open>k\<close> identifiers drawn from position \<open>n\<close> on
  are distinct, and none is the token of a recorded attempt.
\<close>

definition fresh_tokens :: "(nat \<Rightarrow> uuid) \<Rightarrow> nat \<Rightarrow> nat \<Rightarrow> 'x db_scheme \<Rightarrow> bool" where
  "fresh_tokens fresh n k db \<longleftrightarrow> distinct (map fresh [n..<n + k]) \<and>
     (\<forall>t\<in>set (map fresh [n..<n + k]). t \<notin> set (map a_lease_token (attempts db)))"

lemma fresh_tokens_mono: "fresh_tokens fresh n k db \<Longrightarrow> l \<le> k \<Longrightarrow> fresh_tokens fresh n l db"
  by (auto simp: fresh_tokens_def distinct_map inj_on_def)

lemma fresh_tokens_Suc:
  "fresh_tokens fresh n (Suc (Suc k)) db \<Longrightarrow>
     set (map a_lease_token (attempts db')) \<subseteq> insert (fresh n) (set (map a_lease_token (attempts db))) \<Longrightarrow>
     fresh_tokens fresh (Suc (Suc n)) k db'"
proof -
  assume f: "fresh_tokens fresh n (Suc (Suc k)) db"
    and t: "set (map a_lease_token (attempts db')) \<subseteq> insert (fresh n) (set (map a_lease_token (attempts db)))"
  have "[n..<n + Suc (Suc k)] = n # Suc n # [Suc (Suc n)..<Suc (Suc n) + k]" by (simp add: upt_conv_Cons)
  then show ?thesis using f t unfolding fresh_tokens_def by (simp only: list.map distinct.simps list.set) blast
qed

lemma claim_one_move:
  assumes inv: "lease_inv db" and d: "d \<in> set (deliveries db)" "waiting d" and f: "fresh_tokens fresh n (Suc (Suc k)) db"
    and ok: "claim_one now (fresh n) i policy d db = Inr (db', c)"
  shows "lease_move db db' \<and> set (deliveries db) - {d} \<subseteq> set (deliveries db') \<and> fresh_tokens fresh (Suc (Suc n)) k db'"
  using ok
proof (rule claim_one_Inr)
  fix expires db1
  assume upd: "update_delivery (leased_row now expires (fresh n) d) db = Inr db1"
    and ins: "insert_attempt (started_attempt now (fresh n) i d) db1 = Inr db'"
  note rows = update_delivery_rows [OF lease_inv_schema [OF inv] d(1) _ upd, simplified]
  have db': "deliveries db' = deliveries db1" "attempts db' = attempts db @ [started_attempt now (fresh n) i d]"
    using ins rows(2) by (auto simp: insert_attempt_Inr)
  have "fresh n \<notin> a_lease_token ` set (attempts db)" using f by (auto simp: fresh_tokens_def)
  then have "lease_move db db'" using lease [OF d _ upd ins] by blast
  moreover have "fresh_tokens fresh (Suc (Suc n)) k db'"
    using db'(2) by (intro fresh_tokens_Suc [OF f]) (auto simp: started_attempt_def)
  ultimately show ?thesis using rows(1) db'(1) by auto
qed

lemma claim_loop_moves:
  assumes "lease_inv db" and "waiting_batch db ds" and "fresh_tokens fresh n (2 * length ds) db"
    and "claim_loop now batch per fresh ds n counts claims db = Inr (db', claims')"
  shows "lease_move\<^sup>*\<^sup>* db db'"
  using assms
proof (induction ds arbitrary: n counts claims db)
  case (Cons d ds)
  have d: "d \<in> set (deliveries db)" "waiting d" using Cons.prems(2) by (auto simp: waiting_batch_def)
  have tail: "waiting_batch db1 ds" if "set (deliveries db) - {d} \<subseteq> set (deliveries db1)" for db1
    using Cons.prems(2) that by (auto simp: waiting_batch_def)
  consider (stop) "batch \<le> int (length claims)"
    | (skip) "\<not> batch \<le> int (length claims)" "per \<le> int (count_list counts (d_tenant_id d))"
    | (work) "\<not> batch \<le> int (length claims)" "\<not> per \<le> int (count_list counts (d_tenant_id d))"
    by blast
  then show ?case
  proof cases
    case stop
    then show ?thesis using Cons.prems(4) by simp
  next
    case skip
    then show ?thesis
      using Cons.prems(4) Cons.IH [OF Cons.prems(1) tail fresh_tokens_mono [OF Cons.prems(3)]] by simp
  next
    case work
    then obtain policy deadline where pd: "snapshot_policy (d_route_snapshot d) = Inr policy"
      "delivery_deadline policy (Aware (d_created_at d)) = Inr deadline"
      using Cons.prems(4) by (auto simp: and_then_Inr_iff)
    show ?thesis
    proof (cases "deadline \<le> now")
      case True
      then obtain db1 where up: "update_delivery (expired_row now d) db = Inr db1"
        and rest: "claim_loop now batch per fresh ds n counts claims db1 = Inr (db', claims')"
        using Cons.prems(4) work pd by (auto simp: and_then_Inr_iff)
      note rows = update_delivery_rows [OF lease_inv_schema [OF Cons.prems(1)] d(1) _ up, simplified]
      have "fresh_tokens fresh n (2 * length ds) db1"
        using fresh_tokens_mono [OF Cons.prems(3), of "2 * length ds"] rows(2) by (simp add: fresh_tokens_def)
      with Cons.IH [OF expire_inv [OF Cons.prems(1) d up] tail _ rest] rows(1) expire [OF d up]
      show ?thesis by (auto intro: converse_rtranclp_into_rtranclp)
    next
      case False
      then obtain db1 c where one: "claim_one now (fresh n) (fresh (Suc n)) policy d db = Inr (db1, c)"
        and rest: "claim_loop now batch per fresh ds (Suc (Suc n)) (d_tenant_id d # counts) (claims @ [c]) db1 = Inr (db', claims')"
        using Cons.prems(4) work pd by (auto simp: and_then_Inr_iff)
      have "fresh_tokens fresh n (Suc (Suc (2 * length ds))) db" using Cons.prems(3) by simp
      note mv = claim_one_move [OF Cons.prems(1) d this one]
      have "lease_move\<^sup>*\<^sup>* db1 db'"
        using Cons.IH [OF _ tail _ rest] move_inv [OF Cons.prems(1)] mv by blast
      with mv show ?thesis by (meson converse_rtranclp_into_rtranclp)
    qed
  qed
qed simp

lemma with_rank_fst: "map fst (with_rank seen ds) = ds"
  by (induction ds arbitrary: seen) auto

lemma candidates_sorted_distinct:
  assumes "distinct xs"
  shows "distinct (map fst (filter P (with_rank seen xs)))" and "set (map fst (filter P (with_rank seen xs))) \<subseteq> set xs"
proof -
  have m: "map fst (with_rank seen xs) = xs" by (rule with_rank_fst)
  then have "distinct (map fst (with_rank seen xs))" using assms by simp
  then show "distinct (map fst (filter P (with_rank seen xs)))" by (induction "with_rank seen xs" rule: list.induct) (auto simp: distinct_map_filter)
  show "set (map fst (filter P (with_rank seen xs))) \<subseteq> set xs" using m by (metis (no_types, lifting) filter_is_subset image_mono list.set_map)
qed

lemma claim_candidates_waiting:
  assumes "schema_ok db"
  shows "waiting_batch db (claim_candidates t batch per locked db)"
    and "\<forall>d\<in>set (claim_candidates t batch per locked db). d_next_attempt_at d \<le> t \<and> \<not> locked (delivery_key d)"
proof -
  define due where "due = sort_key (\<lambda>d. (d_next_attempt_at d, d_created_at d)) (filter (claimable t) (deliveries db))"
  have "distinct (deliveries db)" using assms by (simp add: schema_ok_def distinct_map)
  then have "distinct due" by (simp add: due_def)
  note r = candidates_sorted_distinct [OF this, of "\<lambda>x. snd x \<le> per" "[]"]
  have sub: "set (claim_candidates t batch per locked db) \<subseteq>
      {d \<in> set (map fst (filter (\<lambda>x. snd x \<le> per) (with_rank [] due))). \<not> locked (delivery_key d)}"
    unfolding claim_candidates_def Let_def due_def [symmetric]
    by (rule subset_trans [OF set_take_subset]) auto
  have due: "set due = {d \<in> set (deliveries db). claimable t d}" by (simp add: due_def)
  have "distinct (claim_candidates t batch per locked db)"
    unfolding claim_candidates_def Let_def due_def [symmetric] using r(1) by simp
  moreover have "set (claim_candidates t batch per locked db) \<subseteq> {d \<in> set (deliveries db). claimable t d}"
    using sub r(2) due by auto
  ultimately show "waiting_batch db (claim_candidates t batch per locked db)"
    by (auto simp: waiting_batch_def claimable_def waiting_def)
  show "\<forall>d\<in>set (claim_candidates t batch per locked db). d_next_attempt_at d \<le> t \<and> \<not> locked (delivery_key d)"
    using sub r(2) due by (auto simp: claimable_def)
qed

lemma expired_leases_batch:
  assumes "schema_ok db"
  shows "leased_batch db (expired_leases t batch locked db)"
proof -
  have "distinct (deliveries db)" using assms by (simp add: schema_ok_def distinct_map)
  moreover have "set (expired_leases t batch locked db) \<subseteq> {d \<in> set (deliveries db). lease_expired t d}"
    unfolding expired_leases_def by (rule subset_trans [OF set_take_subset]) auto
  ultimately show ?thesis by (auto simp: leased_batch_def lease_expired_def expired_leases_def)
qed

lemma insert_deliveries_moves:
  "insert_deliveries rs db = Inr db' \<Longrightarrow> \<forall>r\<in>set rs. d_state r = Pending \<and> d_attempts_started r = 0 \<Longrightarrow>
     lease_move\<^sup>*\<^sup>* db db'"
proof (induction rs arbitrary: db)
  case (Cons r rs)
  then obtain db1 where "insert_delivery r db = Inr db1" "insert_deliveries rs db1 = Inr db'"
    by (auto simp: and_then_Inr_iff)
  with Cons show ?case by (auto intro: converse_rtranclp_into_rtranclp store_delivery)
qed simp

lemma publish_moves:
  assumes "publish frepr sha256 p e routes now fresh d db = Inr (db', record)"
  shows "lease_move\<^sup>*\<^sup>* db db'"
  using assms
proof (cases rule: publish_cases)
  case (fresh_event row rows)
  have "\<forall>r\<in>set rows. d_state r = Pending \<and> d_attempts_started r = 0"
    using new_delivery_rows_nth [OF fresh_event(3)] by (auto simp: in_set_conv_nth dest!: new_delivery_row_Inr)
  then show ?thesis
    using store_event [OF fresh_event(2)] insert_deliveries_moves [OF fresh_event(4)]
    by (meson converse_rtranclp_into_rtranclp)
qed simp

lemma claim_moves:
  assumes inv: "lease_inv db" and f: "fresh_tokens fresh 0 (2 * length (deliveries db)) db"
    and ok: "claim busy batch per now clock fresh locked db = (db', r)"
  shows "lease_move\<^sup>*\<^sup>* db db'"
proof (cases r)
  case (Inr claims)
  then obtain t t' where "claim_loop t' batch per fresh (claim_candidates t batch per locked db) 0 [] [] db = Inr (db', claims)"
    using ok by (auto simp: claim_def transaction_cases claim_body_def and_then_Inr_iff)
  moreover have "waiting_batch db (claim_candidates t batch per locked db)"
    using claim_candidates_waiting(1) [OF lease_inv_schema [OF inv]] .
  moreover from this have "length (claim_candidates t batch per locked db) \<le> length (deliveries db)"
    unfolding waiting_batch_def by (metis card_length card_mono distinct_card List.finite_set order_trans)
  then have "fresh_tokens fresh 0 (2 * length (claim_candidates t batch per locked db)) db"
    by (intro fresh_tokens_mono [OF f]) simp
  ultimately show ?thesis using claim_loop_moves [OF inv] by blast
qed (use ok in \<open>auto simp: claim_def transaction_cases\<close>)

lemma succeed_moves:
  assumes "lease_inv db" and "succeed busy c now sample db = (db', r)"
  shows "lease_move\<^sup>*\<^sup>* db db'"
  using assms
  by (auto simp: succeed_def transaction_cases and_then_Inr_iff
      intro: r_into_rtranclp succeed_in_transaction_move [of db])

lemma fail_moves:
  assumes "lease_inv db" and "fail busy c err now ra clock uniform db = (db', r)"
  shows "lease_move\<^sup>*\<^sup>* db db'"
  using assms
  by (auto simp: fail_def transaction_cases and_then_Inr_iff
      intro: r_into_rtranclp fail_in_transaction_move [of db])

lemma reconcile_moves:
  assumes "lease_inv db" and "reconcile_expired busy batch now clock locked db = (db', r)"
  shows "lease_move\<^sup>*\<^sup>* db db'"
proof (cases r)
  case (Inr n)
  then obtain t where "reconcile_loop now clock (expired_leases t batch locked db) 0 db = Inr (db', n)"
    using assms(2) by (auto simp: reconcile_expired_def transaction_cases and_then_Inr_iff)
  then show ?thesis
    using reconcile_loop_moves [OF assms(1) expired_leases_batch] lease_inv_schema [OF assms(1)] by blast
qed (use assms(2) in \<open>auto simp: reconcile_expired_def transaction_cases\<close>)

lemma replay_in_transaction_Inr:
  assumes "replay_in_transaction busy tenant i actor reason now kind rid db = Inr (db', record)"
  obtains d where "find_delivery tenant i db = Some d" "d_state d = Succeeded \<or> d_state d = Dead"
    "insert_delivery (replay_row rid actor reason now d) db = Inr db'"
    "delivery_from_row (replay_row rid actor reason now d) = Inr record"
  using assms by (auto simp: replay_in_transaction_def and_then_Inr_iff split: option.splits if_splits)

lemma replay_moves:
  assumes "replay busy tenant i actor reason now kind rid db = (db', r)"
  shows "lease_move\<^sup>*\<^sup>* db db'"
proof (cases r)
  case (Inr rec)
  then have "replay_in_transaction True tenant i actor reason now kind rid db = Inr (db', rec)"
    using assms by (auto simp: replay_def transaction_cases and_then_Inr_iff)
  then show ?thesis
    by (rule replay_in_transaction_Inr) (auto intro!: r_into_rtranclp store_delivery simp: replay_row_def)
qed (use assms in \<open>auto simp: replay_def transaction_cases\<close>)

section \<open>System steps\<close>

inductive effect_step ::
  "(rat \<Rightarrow> string) \<Rightarrow> (bytes \<Rightarrow> bytes) \<Rightarrow> 'x db_scheme \<Rightarrow> 'x db_scheme \<Rightarrow> bool" for frepr sha256 where
  published: "publish frepr sha256 p e routes now fresh d db = Inr (db', record) \<Longrightarrow> effect_step frepr sha256 db db'"
| claimed: "fresh_tokens fresh 0 (2 * length (deliveries db)) db \<Longrightarrow> claim busy batch per now clock fresh locked db = (db', r) \<Longrightarrow>
    effect_step frepr sha256 db db'"
| succeeded: "succeed busy c now sample db = (db', t) \<Longrightarrow> effect_step frepr sha256 db db'"
| failed: "fail busy c err now ra clock uniform db = (db', st) \<Longrightarrow> effect_step frepr sha256 db db'"
| reconciled: "reconcile_expired busy batch now clock locked db = (db', n) \<Longrightarrow> effect_step frepr sha256 db db'"
| replayed: "replay busy tenant i actor reason replayed_at kind rid db = (db', rec) \<Longrightarrow> effect_step frepr sha256 db db'"

lemma effect_step_moves: "lease_inv db \<Longrightarrow> effect_step frepr sha256 db db' \<Longrightarrow> lease_move\<^sup>*\<^sup>* db db'"
  by (erule effect_step.cases)
     (blast intro: publish_moves claim_moves succeed_moves fail_moves reconcile_moves replay_moves)+

lemma effect_step_inv: "lease_inv db \<Longrightarrow> effect_step frepr sha256 db db' \<Longrightarrow> lease_inv db'"
  using effect_step_moves lease.inv_steps by blast

interpretation effects: invariant_machine no_rows "effect_step frepr sha256" lease_inv
  for frepr sha256
  by unfold_locales (auto intro: lease_inv_empty effect_step_inv)

lemma effect_steps_moves: "(effect_step frepr sha256)\<^sup>*\<^sup>* db db' \<Longrightarrow> lease_inv db \<Longrightarrow> lease_move\<^sup>*\<^sup>* db db'"
proof (induction rule: rtranclp_induct)
  case (step db1 db2)
  then have "lease_move\<^sup>*\<^sup>* db1 db2" using effect_step_moves lease.inv_steps by blast
  with step show ?case by auto
qed simp

end
