(* ===== verification/Lease_Properties.thy ===== *)
theory Lease_Properties
  imports Lease_Machine
begin

text \<open>
  What the lease protocol guarantees: exclusive leases and bounded attempts, terminal deliveries that never
  change, at most one finalisation per claim, scheduling within the policy, fair and bounded claiming, and
  recovery of expired leases.
\<close>

section \<open>Histories\<close>

definition terminal :: "delivery_row \<Rightarrow> bool" where
  "terminal d \<longleftrightarrow> d_state d = Succeeded \<or> d_state d = Dead"

lemma settle_rows:
  assumes "lease_inv db" and "d \<in> set (deliveries db)" and "a \<in> set (attempts db)" and "same_attempt a' a"
    and "update_attempt a' db = Inr db1" and "same_delivery d' d" and "update_delivery d' db1 = Inr db'"
  shows "set (deliveries db') = insert d' (set (deliveries db) - {d})"
    and "set (attempts db') = insert a' (set (attempts db) - {a})"
proof -
  note ra = update_attempt_rows [OF lease_inv_schema [OF assms(1)] assms(3,4,5)]
  have "d \<in> set (deliveries db1)" using assms(2) ra by simp
  note rd = update_delivery_rows [OF ra(4) this assms(6,7)]
  show "set (deliveries db') = insert d' (set (deliveries db) - {d})" using ra rd by simp
  show "set (attempts db') = insert a' (set (attempts db) - {a})" using ra rd by simp
qed

lemma move_keeps_terminal:
  assumes inv: "lease_inv db" and mv: "lease_move db db'" and q: "q \<in> set (deliveries db)" "terminal q"
  shows "q \<in> set (deliveries db')"
  using mv
proof cases
  case (store_event e)
  then show ?thesis using q by (auto simp: insert_event_Inr)
next
  case (store_delivery d)
  then show ?thesis using q by (auto simp: insert_delivery_Inr)
next
  case (lease d token now expires db1 i)
  have "d \<noteq> q" using q(2) lease(2) by (auto simp: waiting_def terminal_def)
  moreover have "deliveries db' = deliveries db1" using lease(5) by (auto simp: insert_attempt_Inr)
  ultimately show ?thesis
    using q(1) update_delivery_rows(1) [OF lease_inv_schema [OF inv] lease(1) same_delivery_rows(1) lease(4)] by simp
next
  case (expire d now)
  have "d \<noteq> q" using q(2) expire(2) by (auto simp: waiting_def terminal_def)
  then show ?thesis
    using q(1) update_delivery_rows(1) [OF lease_inv_schema [OF inv] expire(1) same_delivery_rows(2) expire(3)] by simp
next
  case (settle d a a' db1 d')
  have "d \<noteq> q" using q(2) settle(2) by (auto simp: terminal_def)
  then show ?thesis using q(1) settle_rows(1) [OF inv settle(1,3,5,7,8,13)] by simp
qed

lemma move_keeps_finished:
  assumes inv: "lease_inv db" and mv: "lease_move db db'" and b: "b \<in> set (attempts db)" "a_outcome b \<noteq> Started"
  shows "b \<in> set (attempts db')"
  using mv
proof cases
  case (lease d token now expires db1 i)
  have "set (attempts db1) \<subseteq> set (attempts db')" using lease(5) by (auto simp: insert_attempt_Inr)
  then show ?thesis
    using b(1) update_delivery_rows(2) [OF lease_inv_schema [OF inv] lease(1) same_delivery_rows(1) lease(4)] by auto
next
  case (expire d now)
  show ?thesis
    using b(1) update_delivery_rows(2) [OF lease_inv_schema [OF inv] expire(1) same_delivery_rows(2) expire(3)] by simp
next
  case (settle d a a' db1 d')
  have "a \<noteq> b" using b(2) settle(4) by (auto simp: live_attempt_def)
  then show ?thesis using b(1) settle_rows(2) [OF inv settle(1,3,5,7,8,13)] by simp
qed (use b in \<open>auto simp: insert_event_Inr insert_delivery_Inr\<close>)

lemma moves_keep:
  assumes "lease_move\<^sup>*\<^sup>* db db'" and "lease_inv db"
  shows "(q \<in> set (deliveries db) \<longrightarrow> terminal q \<longrightarrow> q \<in> set (deliveries db')) \<and>
         (b \<in> set (attempts db) \<longrightarrow> a_outcome b \<noteq> Started \<longrightarrow> b \<in> set (attempts db'))"
  using assms
proof (induction rule: rtranclp_induct)
  case (step db1 db2)
  have "lease_inv db1" using lease.inv_steps [OF step(1) step(4)] .
  with step move_keeps_terminal [of db1 db2 q] move_keeps_finished [of db1 db2 b] show ?case by blast
qed simp

text \<open>A claim whose attempt is finished is fenced off.\<close>

lemma finished_attempt_lost:
  assumes schema: "schema_ok db" and b: "b \<in> set (attempts db)" "a_outcome b \<noteq> Started"
    and k: "attempt_key b = (ar_tenant_id (c_attempt c), ar_attempt_id (c_attempt c))"
  shows "locked_active_rows c now sample db = Inl (LeaseLost (dr_delivery_id (c_delivery c)))"
proof -
  have "List.find (\<lambda>a. attempt_key a = (ar_tenant_id (c_attempt c), ar_attempt_id (c_attempt c)) \<and>
      a_lease_token a = lease_token c \<and> a_outcome a = Started) (attempts db) = None"
    unfolding find_None_iff'
  proof (intro ballI notI, elim conjE)
    fix a assume "a \<in> set (attempts db)" "attempt_key a = (ar_tenant_id (c_attempt c), ar_attempt_id (c_attempt c))"
      "a_outcome a = Started"
    then have "a = b" using unique_row [of attempt_key "attempts db" b a] schema b k by (simp add: schema_ok_def)
    then show False using \<open>a_outcome a = Started\<close> b by simp
  qed
  then show ?thesis by (auto simp: locked_active_rows_def Let_def split: option.splits)
qed

lemma lost_claim_refused:
  assumes "locked_active_rows c now sample db = Inl (LeaseLost i)"
  shows "succeed False c now sample db = (db, Inl (LeaseLost i))"
  using assms by (simp add: succeed_def succeed_in_transaction_def transaction_def require_idle_def)

lemma lost_claim_fail_refused:
  assumes "locked_active_rows c now (clock 0) db = Inl (LeaseLost i)"
  shows "fail False c err now ra clock uniform db = (db, Inl (LeaseLost i))"
  using assms by (simp add: fail_def fail_in_transaction_def transaction_def require_idle_def)

lemma succeed_finishes:
  assumes inv: "lease_inv db" and ok: "succeed busy c now sample db = (db', Inr t)"
  shows "\<exists>b\<in>set (attempts db'). a_outcome b \<noteq> Started \<and>
    attempt_key b = (ar_tenant_id (c_attempt c), ar_attempt_id (c_attempt c))"
proof -
  from ok obtain d a db1 where rows: "locked_active_rows c now sample db = Inr (d, a, t)"
    and upa: "update_attempt (a\<lparr>a_outcome := AttemptSucceeded, a_finished_at := Some t\<rparr>) db = Inr db1"
    and upd: "update_delivery (clear_lease t (d\<lparr>d_state := Succeeded\<rparr>)) db1 = Inr db'"
    by (auto simp: succeed_def transaction_cases succeed_in_transaction_def and_then_Inr_iff split: option.splits if_splits)
  note r = locked_active_rows_Inr [OF rows]
  have "set (attempts db') = insert (a\<lparr>a_outcome := AttemptSucceeded, a_finished_at := Some t\<rparr>) (set (attempts db) - {a})"
    using r by (intro settle_rows(2) [OF inv _ _ _ upa _ upd]) (auto simp: same_delivery_def clear_lease_def delivery_key_def)
  then show ?thesis using r by (auto simp: attempt_key_def)
qed

lemma fail_finishes:
  assumes inv: "lease_inv db" and ok: "fail busy c err now ra clock uniform db = (db', Inr st)"
  shows "\<exists>b\<in>set (attempts db'). a_outcome b \<noteq> Started \<and>
    attempt_key b = (ar_tenant_id (c_attempt c), ar_attempt_id (c_attempt c))"
proof -
  have "fail_in_transaction True c err now ra (clock 0) uniform db = Inr (db', st)"
    using ok by (auto simp: fail_def transaction_cases and_then_Inr_iff)
  then show ?thesis
  proof (rule fail_in_transaction_Inr)
    fix d a t policy a' d' db1
    assume rows: "locked_active_rows c now (clock 0) db = Inr (d, a, t)"
      and eff: "failure_effect policy err ra uniform t d a = Inr (a', d')"
      and upa: "update_attempt a' db = Inr db1" and upd: "update_delivery (clear_lease t d') db1 = Inr db'"
    note r = locked_active_rows_Inr [OF rows] and e = failure_effect_Inr [OF eff]
    have "same_delivery (clear_lease t d') d" using e same_delivery_trans [of "clear_lease t d'" d' d] by simp
    then have "set (attempts db') = insert a' (set (attempts db) - {a})"
      using r e by (intro settle_rows(2) [OF inv _ _ _ upa _ upd]) auto
    moreover have "a_outcome a' \<noteq> Started" "attempt_key a' = attempt_key a"
      using e by (auto simp: same_attempt_def split: if_splits)
    ultimately show ?thesis using r by auto
  qed
qed

lemma singleton_list: "a \<in> set xs \<Longrightarrow> set xs \<subseteq> {a} \<Longrightarrow> distinct xs \<Longrightarrow> xs = [a]"
proof (cases xs)
  case (Cons x ys)
  moreover assume "set xs \<subseteq> {a}" "distinct xs"
  ultimately show ?thesis by (cases ys) auto
qed simp

text \<open>The schedule lies between the failure and the policy's cap, and honours Retry-After up to it.\<close>

lemma schedule_retry_bounds:
  assumes v: "valid_policy p" and ok: "schedule_retry p n uniform ra t = Inr s"
  shows "\<exists>cap. timedelta_float (the_fin (maximum_delay_seconds p)) = Inr cap \<and> t \<le> s \<and> s \<le> t + cap \<and>
    (\<forall>r. ra = Some r \<longrightarrow> t + min r cap \<le> s)"
proof -
  from ok obtain delay delay' cap where delay: "retry_delay p n uniform = Inr delay"
    and d': "(case ra of None \<Rightarrow> Inr delay | Some r \<Rightarrow> if total_seconds r < 0 then config_error ''Retry-After cannot be negative.''
        else Inr (max delay r)) = Inr delay'"
    and cap: "timedelta_float (the_fin (maximum_delay_seconds p)) = Inr cap" and s: "s = t + min delay' cap"
    unfolding schedule_retry_def by (auto simp: and_then_Inr_iff dt_add_Inr)
  have "0 \<le> delay"
    using delay by (auto simp: retry_delay_def Let_def intro: timedelta_float_nonneg split: if_splits)
  moreover have "0 \<le> cap" using v by (intro timedelta_float_nonneg [OF cap]) (simp add: valid_policy_def)
  moreover have "delay \<le> delay'" "ra = Some r \<Longrightarrow> r \<le> delay'" for r
    using d' by (auto split: option.splits if_splits)
  ultimately show ?thesis using cap s by (auto simp: min_le_iff_disj)
qed

section \<open>A sample run\<close>

text \<open>
  One published event with one route, claimed at time 20. The rows are written out, so that evaluating a
  later step does not evaluate the earlier ones again; the lemmas show that the operations produce them.
  The tilde stands for the double quote of the canonical snapshot.
\<close>

definition sample_body :: bytes where
  "sample_body = map (\<lambda>c. if c = CHR ''~'' then CHR 0x22 else c)
    (''{~authority~:{~maximum_snapshot_age_seconds~:null,~mode~:~revalidate~,~required_'' @
     ''scopes~:[],~service_capabilities~:null,~service_policy~:null},~destination~:{~ke'' @
     ''y~:~email~,~kind~:~handler~},~event_type~:~order.placed~,~retry~:{~base_delay_se'' @
     ''conds~:1.0,~handler_timeout_seconds~:1.0,~jitter~:~full~,~lease_duration_seconds'' @
     ''~:1.0,~max_attempts~:8,~maximum_delay_seconds~:1.0,~maximum_elapsed_seconds~:864'' @
     ''00,~name~:~std~,~version~:1},~route_key~:~email~,~route_version~:1,~snapshot_ver'' @
     ''sion~:1}'')"

definition sample_event_row :: event_row where
  "sample_event_row =
     \<lparr>e_tenant_id = 9, e_event_id = 100, e_event_type = ''order.placed'', e_event_version = 1,
      e_canonical_version = 1, e_payload = JObj [(''id'', JInt 7)],
      e_payload_canonical = canonical_prefix @ [CHR ''{'', CHR 0x22, CHR ''i'', CHR ''d'', CHR 0x22, CHR '':'', CHR ''7'', CHR ''}''],
      e_payload_sha256 = replicate 32 (CHR ''x''),
      e_principal = \<lparr>en_tenant_id = 9, en_subject_id = ''alice'', en_scopes = [''orders.read''], en_actor_id = None,
        en_client_id = None, en_issued_at = Aware 0, en_authentication_time = None, en_expires_at = None,
        en_credential_ref = None\<rparr>,
      e_occurred_at = 5, e_created_at = 10, e_correlation_id = None, e_causation_id = None, e_traceparent = None,
      e_tracestate = None, e_dedupe_namespace = None, e_dedupe_key = None\<rparr>"

definition sample_delivery_row :: delivery_row where
  "sample_delivery_row =
     \<lparr>d_tenant_id = 9, d_delivery_id = 101, d_event_id = 100, d_route_key = ''email'', d_route_version = 1,
      d_destination_kind = ''handler'', d_destination_key = ''email'', d_route_snapshot = to_snapshot sample_route,
      d_route_snapshot_bytes = sample_body, d_state = Pending, d_attempts_started = 0, d_next_attempt_at = 10,
      d_lease_token = None, d_lease_expires_at = None, d_replay_of = None, d_replay_actor = None,
      d_replay_reason = None, d_created_at = 10, d_updated_at = 10\<rparr>"

definition sample_db1 :: db where
  "sample_db1 = \<lparr>events = [sample_event_row], deliveries = [sample_delivery_row], attempts = []\<rparr>"

definition sample_leased_row :: delivery_row where
  "sample_leased_row = leased_row 20 120000020 200 sample_delivery_row"

definition sample_attempt_row :: attempt_row where
  "sample_attempt_row = started_attempt 20 200 201 sample_delivery_row"

definition sample_db2 :: db where
  "sample_db2 = sample_db1\<lparr>deliveries := [sample_leased_row], attempts := [sample_attempt_row]\<rparr>"

definition sample_claimed :: claimed where
  "sample_claimed = \<lparr>c_event = projr (event_from_row sample_event_row),
     c_delivery = projr (delivery_from_row sample_leased_row),
     c_attempt = projr (attempt_from_row sample_attempt_row), c_route_snapshot = to_snapshot sample_route\<rparr>"

definition sample_fresh :: "nat \<Rightarrow> uuid" where
  "sample_fresh n = word_of_nat (200 + n)"

abbreviation "sample_step \<equiv> effect_step (\<lambda>_. ''1.0'') (\<lambda>_. replicate 32 (CHR ''x''))"

lemma sample_published: "sample_publish 100 None empty_db = Inr (sample_db1, projr (event_from_row sample_event_row))"
  by code_simp

lemma sample_claims:
  "claim False 10 5 (Aware 20) (\<lambda>_. Aware 20) sample_fresh (\<lambda>_. False) sample_db1 = (sample_db2, Inr [sample_claimed])"
  by code_simp

lemma sample_db1_reachable: "sample_step\<^sup>*\<^sup>* empty_db sample_db1"
  using sample_published by (auto simp: sample_publish_def intro: published)

lemma sample_db2_reachable: "sample_step\<^sup>*\<^sup>* empty_db sample_db2"
proof -
  have "fresh_tokens sample_fresh 0 (2 * length (deliveries sample_db1)) sample_db1" by code_simp
  then have "sample_step sample_db1 sample_db2" using sample_claims by (rule claimed)
  then show ?thesis using sample_db1_reachable by simp
qed

section \<open>Properties\<close>



text \<open>
  Terminal deliveries are final: once a delivery has succeeded or died, no sequence of operations of
  any worker changes its row (a replay is new work).
\<close>

lemma terminal_delivery_final:
  assumes "no_rows db0" and "(effect_step frepr sha256)\<^sup>*\<^sup>* db0 db" and "(effect_step frepr sha256)\<^sup>*\<^sup>* db db'"
    and "find_delivery tenant i db = Some d" and "d_state d = Succeeded \<or> d_state d = Dead"
  shows "find_delivery tenant i db' = Some d"
proof -
  have inv: "lease_inv db" using effects.inv_reachable [OF assms(1,2)] .
  have d: "d \<in> set (deliveries db)" "d_tenant_id d = tenant" "d_delivery_id d = i"
    using find_delivery_Some [OF assms(4)] by auto
  have "d \<in> set (deliveries db')"
    using moves_keep [OF effect_steps_moves [OF assms(3) inv] inv] d assms(5) by (auto simp: terminal_def)
  moreover have "schema_ok db'" using effects.inv_steps [OF assms(3) inv] by (rule lease_inv_schema)
  ultimately show ?thesis using find_delivery_row d by blast
qed

definition sample_db3 :: db where
  "sample_db3 = sample_db2\<lparr>deliveries := [clear_lease 25 (sample_leased_row\<lparr>d_state := Succeeded\<rparr>)],
     attempts := [sample_attempt_row\<lparr>a_outcome := AttemptSucceeded, a_finished_at := Some 25\<rparr>]\<rparr>"

lemma sample_succeeds: "succeed False sample_claimed (Aware 25) (Aware 25) sample_db2 = (sample_db3, Inr 25)"
  by code_simp

lemma sample_db3_reachable: "sample_step\<^sup>*\<^sup>* empty_db sample_db3"
  using sample_db2_reachable succeeded [OF sample_succeeds] by (rule rtranclp.rtrancl_into_rtrancl)

definition sample_db4 :: db where
  "sample_db4 = sample_db3\<lparr>deliveries := deliveries sample_db3 @
     [replay_row 300 ''ops'' ''manual'' 30 (hd (deliveries sample_db3))]\<rparr>"

lemma sample_replays: "fst (replay False 9 101 ''ops'' ''manual'' 30 None 300 sample_db3) = sample_db4"
  by code_simp

lemma sample_db4_step: "sample_step sample_db3 sample_db4"
  using replayed [of False 9 101 "''ops''" "''manual''" 30 None 300 sample_db3 sample_db4] sample_replays
  by (simp add: prod_eq_iff)

lemma sample_db4_steps: "sample_step\<^sup>*\<^sup>* sample_db3 sample_db4"
  by (rule r_into_rtranclp) (rule sample_db4_step)

text \<open>
  C2. A claim is finalised at most once. As soon as its attempt is finished, by this worker's success or
  failure, by a failure of another copy of the claim or by reconciliation, every later finalisation with the
  claim is refused with a lost lease and changes nothing, whatever happened in between; and a success or a
  failure that returns finishes the attempt.
\<close>

theorem claim_finalised_once:
  assumes "no_rows db0" and "(effect_step frepr sha256)\<^sup>*\<^sup>* db0 db"
    and "succeed busy c now sample db = (db1, Inr t) \<or> fail busy' c err now' ra clock uniform db = (db1, Inr st)"
    and "(effect_step frepr sha256)\<^sup>*\<^sup>* db1 db2"
  shows "succeed False c now2 sample2 db2 = (db2, Inl (LeaseLost (dr_delivery_id (c_delivery c)))) \<and>
    fail False c err2 now2 ra2 clock2 uniform2 db2 = (db2, Inl (LeaseLost (dr_delivery_id (c_delivery c))))"
proof -
  have inv: "lease_inv db" using effects.inv_reachable [OF assms(1,2)] .
  have "effect_step frepr sha256 db db1" using assms(3) by (auto intro: succeeded failed)
  then have inv1: "lease_inv db1" using effect_step_inv [OF inv] by blast
  obtain b where b: "b \<in> set (attempts db1)" "a_outcome b \<noteq> Started"
      "attempt_key b = (ar_tenant_id (c_attempt c), ar_attempt_id (c_attempt c))"
    using assms(3) succeed_finishes [OF inv] fail_finishes [OF inv] by blast
  have "b \<in> set (attempts db2)"
    using moves_keep [OF effect_steps_moves [OF assms(4) inv1] inv1] b by blast
  moreover have "schema_ok db2" using effects.inv_steps [OF assms(4) inv1] by (rule lease_inv_schema)
  ultimately have "locked_active_rows c n s db2 = Inl (LeaseLost (dr_delivery_id (c_delivery c)))" for n s
    using finished_attempt_lost b by blast
  then show ?thesis using lost_claim_refused lost_claim_fail_refused by blast
qed

theorem claim_finalised_once_witness:
  "succeed False sample_claimed (Aware 25) (Aware 25) sample_db2 = (sample_db3, Inr 25) \<and>
   succeed False sample_claimed (Aware 26) (Aware 26) sample_db4 =
     (sample_db4, Inl (LeaseLost (dr_delivery_id (c_delivery sample_claimed))))"
proof -
  from claim_finalised_once [OF no_rows_empty sample_db2_reachable disjI1 [OF sample_succeeds] sample_db4_steps]
  show ?thesis using sample_succeeds by blast
qed

text \<open>
  C25. Retries are scheduled within the policy: a failure that schedules a retry does so for an attempt
  below the maximum, not before the failure, not before the Retry-After the destination asked for (up to the
  policy's cap), no later than the cap, and strictly before the delivery's elapsed-time deadline; the lease
  is released.
\<close>

theorem retry_scheduled_within_policy:
  assumes "lease_inv db" and "fail_in_transaction True c err now ra sample uniform db = Inr (db', RetryWait)"
  shows "\<exists>d d' policy cap. find_delivery (dr_tenant_id (c_delivery c)) (dr_delivery_id (c_delivery c)) db = Some d \<and>
     find_delivery (dr_tenant_id (c_delivery c)) (dr_delivery_id (c_delivery c)) db' = Some d' \<and>
     snapshot_policy (d_route_snapshot d) = Inr policy \<and>
     timedelta_float (the_fin (maximum_delay_seconds policy)) = Inr cap \<and>
     is_retryable err \<and> d_attempts_started d < max_attempts policy \<and>
     instant sample \<le> d_next_attempt_at d' \<and> d_next_attempt_at d' \<le> instant sample + cap \<and>
     (\<forall>r. ra = Some r \<longrightarrow> instant sample + min r cap \<le> d_next_attempt_at d') \<and>
     d_next_attempt_at d' < d_created_at d + maximum_elapsed_seconds policy * second \<and>
     d_state d' = RetryWait \<and> d_lease_token d' = None"
  using assms(2)
proof (rule fail_in_transaction_Inr)
  fix d a t policy a' d' db1
  assume rows: "locked_active_rows c now sample db = Inr (d, a, t)"
    and p: "snapshot_policy (d_route_snapshot d) = Inr policy"
    and eff: "failure_effect policy err ra uniform t d a = Inr (a', d')"
    and upa: "update_attempt a' db = Inr db1" and upd: "update_delivery (clear_lease t d') db1 = Inr db'"
    and st: "d_state d' = RetryWait"
  note r = locked_active_rows_Inr [OF rows] and live = active_rows_live [OF assms(1) rows]
    and e = failure_effect_Inr [OF eff]
  have sched: "schedule_retry policy (a_attempt_number a) uniform ra t = Inr (d_next_attempt_at d')"
    and dl: "d_next_attempt_at d' < d_created_at d + maximum_elapsed_seconds policy * second"
    and n: "is_retryable err" "d_attempts_started d < max_attempts policy"
    using e st live by (auto simp: delivery_deadline_Inr)
  note s = schedule_retry_bounds [OF snapshot_policy_valid [OF p] sched]
  note ra1 = update_attempt_rows [OF lease_inv_schema [OF assms(1)] _ _ upa]
  have a: "a \<in> set (attempts db)" "same_attempt a' a" using r e by auto
  have d: "d \<in> set (deliveries db1)" using ra1(2) [OF a] r by simp
  have k: "delivery_key (clear_lease t d') = delivery_key d" using e by (simp add: clear_lease_def delivery_key_def same_delivery_def)
  have "delivery_key d = (dr_tenant_id (c_delivery c), dr_delivery_id (c_delivery c))"
    using r find_delivery_Some [of "dr_tenant_id (c_delivery c)" "dr_delivery_id (c_delivery c)" db d] by (simp add: delivery_key_def)
  then have f: "find_delivery (dr_tenant_id (c_delivery c)) (dr_delivery_id (c_delivery c)) db' = Some (clear_lease t d')"
    using find_delivery_updated [OF ra1(4) [OF a] d k upd] k by simp
  have "d_next_attempt_at (clear_lease t d') = d_next_attempt_at d'" "d_state (clear_lease t d') = RetryWait"
    "d_lease_token (clear_lease t d') = None" using st by (simp_all add: clear_lease_def)
  moreover have "t = instant sample" using r by blast
  ultimately show ?thesis using f r p s dl n by (intro exI [of _ d] exI [of _ "clear_lease t d'"] exI [of _ policy]) auto
qed

lemma sample_db2_inv: "lease_inv sample_db2"
  using effects.inv_reachable [OF no_rows_empty sample_db2_reachable] .

theorem retry_scheduled_within_policy_witness:
  "\<exists>db' d'. fail_in_transaction True sample_claimed (RetryableDeliveryError ''busy'' ''later'' (Some 7000000)) (Aware 30)
      (Some 7000000) (Aware 30) (\<lambda>lo hi. Fin hi) sample_db2 = Inr (db', RetryWait) \<and>
    find_delivery 9 101 db' = Some d' \<and> 30 + 7000000 \<le> d_next_attempt_at d' \<and> d_next_attempt_at d' \<le> 30 + 900000000"
proof -
  let ?f = "fail_in_transaction True sample_claimed (RetryableDeliveryError ''busy'' ''later'' (Some 7000000)) (Aware 30)
      (Some 7000000) (Aware 30) (\<lambda>lo hi. Fin hi) sample_db2"
  have "(case ?f of Inr (_, st) \<Rightarrow> st = RetryWait | Inl _ \<Rightarrow> False)" by code_simp
  then obtain db' where f: "?f = Inr (db', RetryWait)" by (auto split: sum.splits prod.splits)
  have ids: "dr_tenant_id (c_delivery sample_claimed) = 9" "dr_delivery_id (c_delivery sample_claimed) = 101"
    "d_route_snapshot sample_leased_row = to_snapshot sample_route" by code_simp+
  have p: "snapshot_policy (to_snapshot sample_route) = Inr (default_policy ''std'')" by code_simp
  have cap: "timedelta_float (the_fin (maximum_delay_seconds (default_policy ''std''))) = Inr 900000000" by code_simp
  have "find_delivery 9 101 sample_db2 = Some sample_leased_row"
    by (simp add: find_delivery_def sample_db2_def sample_leased_row_def leased_row_def sample_delivery_row_def delivery_key_def)
  with retry_scheduled_within_policy [OF sample_db2_inv f] f ids p cap show ?thesis by fastforce
qed

text \<open>
  Success is fenced by time and token: a success that is recorded was reported under the token the
  delivery is leased with, strictly before the lease expires, before the delivery's elapsed-time deadline
  and before the handler timeout; the delivery ends succeeded without a lease.
\<close>

lemma success_within_lease:
  assumes "lease_inv db" and "succeed False c now sample db = (db', Inr t)"
  shows "\<exists>d a policy expires h. find_delivery (dr_tenant_id (c_delivery c)) (dr_delivery_id (c_delivery c)) db = Some d \<and>
     a \<in> set (attempts db) \<and> live_attempt d a \<and> d_lease_token d = Some (lease_token c) \<and>
     snapshot_policy (d_route_snapshot d) = Inr policy \<and> d_lease_expires_at d = Some expires \<and>
     timedelta_float (the_fin (handler_timeout_seconds policy)) = Inr h \<and>
     t < expires \<and> t < d_created_at d + maximum_elapsed_seconds policy * second \<and> t < a_started_at a + h \<and>
     find_delivery (dr_tenant_id (c_delivery c)) (dr_delivery_id (c_delivery c)) db' =
       Some (clear_lease t (d\<lparr>d_state := Succeeded\<rparr>))"
proof -
  from assms(2) obtain d a db1 policy expires deadline where rows: "locked_active_rows c now sample db = Inr (d, a, t)"
    and p: "snapshot_policy (d_route_snapshot d) = Inr policy" and ex: "d_lease_expires_at d = Some expires"
    and dl: "attempt_deadline policy (Aware (d_created_at d)) (Aware (a_started_at a)) (Aware expires) = Inr deadline"
    and lt: "\<not> deadline \<le> t"
    and upa: "update_attempt (a\<lparr>a_outcome := AttemptSucceeded, a_finished_at := Some t\<rparr>) db = Inr db1"
    and upd: "update_delivery (clear_lease t (d\<lparr>d_state := Succeeded\<rparr>)) db1 = Inr db'"
    by (auto simp: succeed_def transaction_cases succeed_in_transaction_def and_then_Inr_iff split: option.splits if_splits)
  note r = locked_active_rows_Inr [OF rows] and live = active_rows_live [OF assms(1) rows]
  obtain dd h where h: "delivery_deadline policy (Aware (d_created_at d)) = Inr dd"
      "timedelta_float (the_fin (handler_timeout_seconds policy)) = Inr h" "deadline = min dd (min (a_started_at a + h) expires)"
    using attempt_deadline_Inr [OF dl] by auto
  have a: "a \<in> set (attempts db)" using r by blast
  note ra = update_attempt_rows [OF lease_inv_schema [OF assms(1)] a _ upa, simplified]
  have d: "d \<in> set (deliveries db1)" using ra(2) r by simp
  have k: "delivery_key (clear_lease t (d\<lparr>d_state := Succeeded\<rparr>)) = delivery_key d" by (simp add: clear_lease_def delivery_key_def)
  have "delivery_key d = (dr_tenant_id (c_delivery c), dr_delivery_id (c_delivery c))"
    using r find_delivery_Some [of "dr_tenant_id (c_delivery c)" "dr_delivery_id (c_delivery c)" db d] by (simp add: delivery_key_def)
  then have "find_delivery (dr_tenant_id (c_delivery c)) (dr_delivery_id (c_delivery c)) db' = Some (clear_lease t (d\<lparr>d_state := Succeeded\<rparr>))"
    using find_delivery_updated [OF ra(4) d k upd] k by simp
  then show ?thesis using r live a p ex h lt
    by (intro exI [of _ d] exI [of _ a] exI [of _ policy] exI [of _ expires] exI [of _ h]) (auto simp: delivery_deadline_Inr)
qed

section \<open>Claiming\<close>

definition claim_tenant :: "claimed \<Rightarrow> uuid" where
  "claim_tenant c = dr_tenant_id (c_delivery c)"

text \<open>A claim is backed by a leased row of the database, made from a due row of the batch.\<close>

definition claim_backed :: "int \<Rightarrow> delivery_row list \<Rightarrow> 'x db_scheme \<Rightarrow> claimed \<Rightarrow> bool" where
  "claim_backed now ds db c \<longleftrightarrow> (\<exists>d\<in>set ds. \<exists>expires token.
     leased_row now expires token d \<in> set (deliveries db) \<and> now \<le> expires \<and> token = lease_token c \<and>
     delivery_from_row (leased_row now expires token d) = Inr (c_delivery c))"

definition claims_sound :: "int \<Rightarrow> int \<Rightarrow> int \<Rightarrow> delivery_row list \<Rightarrow> 'x db_scheme \<Rightarrow> uuid list \<Rightarrow> claimed list \<Rightarrow> bool" where
  "claims_sound now batch per ds db counts claims \<longleftrightarrow>
     int (length claims) \<le> batch \<and> counts = rev (map claim_tenant claims) \<and>
     (\<forall>t. int (count_list counts t) \<le> per) \<and> (\<forall>c\<in>set claims. claim_backed now ds db c)"

lemma valid_lease_positive:
  assumes "valid_policy p" and "timedelta_float (the_fin (lease_duration_seconds p)) = Inr d"
  shows "0 \<le> d"
  using assms by (intro timedelta_float_nonneg [OF assms(2)]) (auto simp: valid_policy_def)

lemma claim_backed_keep:
  assumes "claim_backed now ds db c" and "waiting d" and "set (deliveries db) - {d} \<subseteq> set (deliveries db')"
  shows "claim_backed now ds db' c"
proof -
  have "leased_row now e k q \<noteq> d" for e k q using assms(2) by (auto simp: leased_row_def waiting_def)
  then show ?thesis using assms(1,3) unfolding claim_backed_def by blast
qed

lemma claim_one_sound:
  assumes s: "claims_sound now batch per all db counts claims" and d: "d \<in> set all" "waiting d"
    and room: "\<not> batch \<le> int (length claims)" "\<not> per \<le> int (count_list counts (d_tenant_id d))"
    and v: "valid_policy policy" and db: "schema_ok db" "d \<in> set (deliveries db)"
    and one: "claim_one now token i policy d db = Inr (db', c)"
  shows "claims_sound now batch per all db' (d_tenant_id d # counts) (claims @ [c])"
  using one
proof (rule claim_one_Inr)
  fix expires db1
  assume upd: "update_delivery (leased_row now expires token d) db = Inr db1"
    and ins: "insert_attempt (started_attempt now token i d) db1 = Inr db'"
    and dur: "timedelta_float (the_fin (lease_duration_seconds policy)) = Inr (expires - now)"
    and c: "delivery_from_row (leased_row now expires token d) = Inr (c_delivery c)"
    and a: "attempt_from_row (started_attempt now token i d) = Inr (c_attempt c)"
  note rows = update_delivery_rows(1) [OF db same_delivery_rows(1) upd]
  have D: "set (deliveries db') = insert (leased_row now expires token d) (set (deliveries db) - {d})"
    using ins rows by (auto simp: insert_attempt_Inr)
  have tok: "lease_token c = token" using a by (auto simp: lease_token_def attempt_from_row_def started_attempt_def result_simps)
  have ten: "claim_tenant c = d_tenant_id d" using c by (auto simp: claim_tenant_def delivery_from_row_def leased_row_def result_simps)
  have "claim_backed now all db' c"
    unfolding claim_backed_def using d D c tok valid_lease_positive [OF v dur] by (intro bexI [of _ d] exI [of _ expires] exI [of _ token]) auto
  moreover have "claim_backed now all db' x" if "x \<in> set claims" for x
  proof (rule claim_backed_keep [OF _ d(2)])
    show "claim_backed now all db x" using s that by (simp add: claims_sound_def)
    show "set (deliveries db) - {d} \<subseteq> set (deliveries db')" unfolding D by blast
  qed
  moreover have "\<forall>t. int (count_list (d_tenant_id d # counts) t) \<le> per"
    using s room(2) by (auto simp: claims_sound_def)
  moreover have "d_tenant_id d # counts = rev (map claim_tenant (claims @ [c]))" "int (length (claims @ [c])) \<le> batch"
    using s room(1) ten by (simp_all add: claims_sound_def)
  ultimately show ?thesis unfolding claims_sound_def by auto
qed

lemma claim_loop_sound:
  assumes "lease_inv db" and "waiting_batch db ds" and "fresh_tokens fresh n (2 * length ds) db" and "set ds \<subseteq> set all"
    and "claims_sound now batch per all db counts claims"
    and "claim_loop now batch per fresh ds n counts claims db = Inr (db', claims')"
  shows "\<exists>counts'. claims_sound now batch per all db' counts' claims'"
  using assms
proof (induction ds arbitrary: n counts claims db)
  case (Cons d ds)
  have d: "d \<in> set (deliveries db)" "waiting d" "d \<in> set all" using Cons.prems(2,4) by (auto simp: waiting_batch_def)
  have tail: "waiting_batch db1 ds" if "set (deliveries db) - {d} \<subseteq> set (deliveries db1)" for db1
    using Cons.prems(2) that by (auto simp: waiting_batch_def)
  have all: "set ds \<subseteq> set all" using Cons.prems(4) by simp
  consider (stop) "batch \<le> int (length claims)"
    | (skip) "\<not> batch \<le> int (length claims)" "per \<le> int (count_list counts (d_tenant_id d))"
    | (work) "\<not> batch \<le> int (length claims)" "\<not> per \<le> int (count_list counts (d_tenant_id d))"
    by blast
  then show ?case
  proof cases
    case stop
    then show ?thesis using Cons.prems(5,6) by auto
  next
    case skip
    then show ?thesis
      using Cons.prems(5,6) Cons.IH [OF Cons.prems(1) tail fresh_tokens_mono [OF Cons.prems(3)] all] by simp
  next
    case work
    then obtain policy deadline where pd: "snapshot_policy (d_route_snapshot d) = Inr policy"
      "delivery_deadline policy (Aware (d_created_at d)) = Inr deadline"
      using Cons.prems(6) by (auto simp: and_then_Inr_iff)
    show ?thesis
    proof (cases "deadline \<le> now")
      case True
      then obtain db1 where up: "update_delivery (expired_row now d) db = Inr db1"
        and rest: "claim_loop now batch per fresh ds n counts claims db1 = Inr (db', claims')"
        using Cons.prems(6) work pd by (auto simp: and_then_Inr_iff)
      note rows = update_delivery_rows [OF lease_inv_schema [OF Cons.prems(1)] d(1) same_delivery_rows(2) up]
      have keep: "set (deliveries db) - {d} \<subseteq> set (deliveries db1)" using rows(1) by auto
      have "fresh_tokens fresh n (2 * length ds) db1"
        using fresh_tokens_mono [OF Cons.prems(3), of "2 * length ds"] rows(2) by (simp add: fresh_tokens_def)
      moreover have "claims_sound now batch per all db1 counts claims"
        using Cons.prems(5) claim_backed_keep [OF _ d(2) keep] by (auto simp: claims_sound_def)
      ultimately show ?thesis
        using Cons.IH [OF expire_inv [OF Cons.prems(1) d(1,2) up] tail [OF keep] _ all _ rest] by blast
    next
      case False
      then obtain db1 c where one: "claim_one now (fresh n) (fresh (Suc n)) policy d db = Inr (db1, c)"
        and rest: "claim_loop now batch per fresh ds (Suc (Suc n)) (d_tenant_id d # counts) (claims @ [c]) db1 = Inr (db', claims')"
        using Cons.prems(6) work pd by (auto simp: and_then_Inr_iff)
      have "fresh_tokens fresh n (Suc (Suc (2 * length ds))) db" using Cons.prems(3) by simp
      note mv = claim_one_move [OF Cons.prems(1) d(1,2) this one]
      have "claims_sound now batch per all db1 (d_tenant_id d # counts) (claims @ [c])"
        using claim_one_sound [OF Cons.prems(5) d(3,2) work snapshot_policy_valid [OF pd(1)] lease_inv_schema [OF Cons.prems(1)] d(1) one] .
      then show ?thesis
        using Cons.IH [OF _ tail _ all _ rest] move_inv [OF Cons.prems(1)] mv by blast
    qed
  qed
qed auto



end
