(* ===== verification/Lease_Recovery.thy ===== *)
theory Lease_Recovery
  imports Lease_Properties
begin

text \<open>
  Recovery of work whose worker disappeared: reconciliation always completes on readable snapshots, takes
  back every expired lease it selects, and hands the delivery to the next claim or ends it; replay creates new,
  linked work from a terminal delivery.
\<close>

section \<open>Reconciliation completes\<close>

definition deadline_defined :: "delivery_row \<Rightarrow> bool" where
  "deadline_defined d \<longleftrightarrow> (\<exists>p dl. snapshot_policy (d_route_snapshot d) = Inr p \<and>
     delivery_deadline p (Aware (d_created_at d)) = Inr dl)"

lemma reconciled_row_ok: "delivery_row_ok d \<Longrightarrow> delivery_row_ok (reconciled_row el p t d)"
  by (simp add: delivery_row_ok_def reconciled_row_def clear_lease_def)

lemma abandoned_row_ok: "attempt_row_ok a \<Longrightarrow> attempt_row_ok (abandoned_attempt el t a)"
  by (simp add: attempt_row_ok_def abandoned_attempt_def failed_attempt_def varchar_def)

lemma reconcile_one_returns:
  assumes "lease_inv db" and "d \<in> set (deliveries db)" and "deadline_defined d"
  shows "\<exists>db'. reconcile_one t d db = Inr db'"
proof -
  obtain p dl where pd: "snapshot_policy (d_route_snapshot d) = Inr p" "delivery_deadline p (Aware (d_created_at d)) = Inr dl"
    using assms(3) by (auto simp: deadline_defined_def)
  have rows: "list_all delivery_row_ok (deliveries db)" "list_all attempt_row_ok (attempts db)"
    using assms(1) by (auto simp: lease_inv_def schema_ok_def)
  have d: "delivery_row_ok (reconciled_row el p t d)" for el
    using rows(1) assms(2) by (simp add: list_all_iff reconciled_row_ok)
  show ?thesis
  proof (cases "List.find (live_attempt d) (attempts db)")
    case None
    then show ?thesis using pd d by (simp add: reconcile_one_def update_delivery_def Let_def)
  next
    case (Some a)
    then have "attempt_row_ok (abandoned_attempt el t a)" for el
      using rows(2) find_SomeD [OF Some] by (simp add: list_all_iff abandoned_row_ok)
    then show ?thesis using Some pd d by (simp add: reconcile_one_def update_delivery_def update_attempt_def Let_def)
  qed
qed

lemma reconcile_loop_returns:
  assumes "lease_inv db" and "leased_batch db ds" and "\<forall>d\<in>set ds. deadline_defined d"
    and "\<forall>i. is_aware (clock i)" and "is_aware now"
  shows "\<exists>db' m. reconcile_loop now clock ds n db = Inr (db', m)"
  using assms(1-3)
proof (induction ds arbitrary: n db)
  case (Cons d ds)
  have d: "d \<in> set (deliveries db)" "d_state d = Leased" using Cons.prems(2) by (auto simp: leased_batch_def)
  obtain db1 where one: "reconcile_one (instant (clock (Suc n))) d db = Inr db1"
    using reconcile_one_returns [OF Cons.prems(1) d(1)] Cons.prems(3) by auto
  note mv = reconcile_one_move [OF Cons.prems(1) d one]
  have "leased_batch db1 ds" using Cons.prems(2) mv(2) by (auto simp: leased_batch_def)
  moreover have "database_now (clock (Suc n)) now = Inr (instant (clock (Suc n)))"
    using assms(4,5) by (simp add: database_now_def)
  ultimately show ?case
    using Cons.IH [OF move_inv [OF Cons.prems(1) mv(1)], of "Suc n"] one Cons.prems(3) by simp
qed simp

lemma reconcile_one_rows:
  assumes inv: "lease_inv db" and d: "d \<in> set (deliveries db)" "d_state d = Leased" and ok: "reconcile_one t d db = Inr db'"
  shows "set (deliveries db') \<subseteq> (set (deliveries db) - {d}) \<union> {r. d_state r = RetryWait \<or> d_state r = Dead}"
proof -
  obtain b where "b \<in> set (attempts db)" "live_attempt d b" using inv d by (auto simp: lease_inv_def leases_matched_def)
  then have "List.find (live_attempt d) (attempts db) \<noteq> None" by (auto simp: find_None_iff')
  then obtain a where a: "List.find (live_attempt d) (attempts db) = Some a" by blast
  from ok a obtain policy el db1 where upa: "update_attempt (abandoned_attempt el t a) db = Inr db1"
    and upd: "update_delivery (reconciled_row el policy t d) db1 = Inr db'"
    by (auto simp: reconcile_one_def and_then_Inr_iff Let_def)
  have "set (deliveries db') = insert (reconciled_row el policy t d) (set (deliveries db) - {d})"
    using find_SomeD [OF a] by (intro settle_rows(1) [OF inv d(1) _ _ upa _ upd]) (auto simp: abandoned_attempt_def)
  then show ?thesis by (auto simp: reconciled_row_def clear_lease_def)
qed

lemma reconcile_loop_rows:
  assumes "lease_inv db" and "leased_batch db ds" and "reconcile_loop now clock ds n db = Inr (db', m)"
  shows "set (deliveries db') \<subseteq> (set (deliveries db) - set ds) \<union> {r. d_state r = RetryWait \<or> d_state r = Dead}"
  using assms
proof (induction ds arbitrary: n db)
  case (Cons d ds)
  then obtain t db1 where one: "reconcile_one t d db = Inr db1" and rest: "reconcile_loop now clock ds (Suc n) db1 = Inr (db', m)"
    by (auto simp: and_then_Inr_iff)
  have d: "d \<in> set (deliveries db)" "d_state d = Leased" using Cons.prems by (auto simp: leased_batch_def)
  note mv = reconcile_one_move [OF Cons.prems(1) d one]
  have "leased_batch db1 ds" using Cons.prems(2) mv(2) by (auto simp: leased_batch_def)
  from Cons.IH [OF move_inv [OF Cons.prems(1) mv(1)] this rest] reconcile_one_rows [OF Cons.prems(1) d one]
  show ?case by auto
qed auto

section \<open>Properties\<close>



text \<open>
  Replay creates new work and nothing else: a replay that returns adds one pending, unattempted delivery
  with the route, snapshot and event of a terminal original, linked to it with the actor and reason; all
  existing rows stay. A delivery that is not terminal cannot be replayed.
\<close>

lemma replay_creates_linked_work:
  assumes "replay busy tenant i actor reason now kind rid db = (db', Inr rec)"
  shows "\<exists>d r. find_delivery tenant i db = Some d \<and> (d_state d = Succeeded \<or> d_state d = Dead) \<and>
    db' = db\<lparr>deliveries := deliveries db @ [r]\<rparr> \<and> delivery_from_row r = Inr rec \<and>
    d_delivery_id r = rid \<and> d_state r = Pending \<and> d_attempts_started r = 0 \<and> d_next_attempt_at r = now \<and>
    d_replay_of r = Some i \<and> d_replay_actor r = Some actor \<and> d_replay_reason r = Some reason \<and> stable_key reason \<and>
    d_event_id r = d_event_id d \<and> d_route_snapshot r = d_route_snapshot d \<and>
    d_route_snapshot_bytes r = d_route_snapshot_bytes d \<and> d_destination_key r = d_destination_key d"
proof -
  have "replay_in_transaction True tenant i actor reason now kind rid db = Inr (db', rec)"
    using assms by (auto simp: replay_def transaction_cases and_then_Inr_iff)
  then show ?thesis
  proof (rule replay_in_transaction_Inr)
    fix d
    assume d: "find_delivery tenant i db = Some d" "d_state d = Succeeded \<or> d_state d = Dead"
      and ins: "insert_delivery (replay_row rid actor reason now d) db = Inr db'"
      and rec: "delivery_from_row (replay_row rid actor reason now d) = Inr rec"
    have "d_delivery_id d = i" using find_delivery_Some [OF d(1)] by simp
    moreover have "stable_key reason"
      using rec by (simp add: delivery_from_row_def delivery_record_post_init_Inr valid_delivery_record_def
          replay_audit_ok_def replay_row_def)
    ultimately show ?thesis
      using d ins rec
      by (intro exI [of _ d] exI [of _ "replay_row rid actor reason now d"]) (simp add: insert_delivery_Inr replay_row_def)
  qed
qed

end
