(* ===== verification/Unit_Of_Work.thy ===== *)
theory Unit_Of_Work
  imports Repository
begin

text \<open>
  \<^verbatim>\<open>sqlalchemy/uow.py\<close>: the unit of work that owns the outer transaction. The world holds the committed
  database, the working state of the session's open transaction (if any), the marker in the session's info
  dictionary, the transaction-local settings and the context variable. Database faults at the points where the
  code awaits the database are arguments; dynamic route providers are parameters.
\<close>

section \<open>State\<close>

record world =
  w_db :: db
  w_work :: "db option"
  w_marker :: "nat option"
  w_settings :: "(string \<times> string) list"
  w_context :: context_var

type_synonym route_provider = "event \<Rightarrow> route_spec list result"

record uow =
  u_id :: nat
  u_principal :: principal
  u_store :: bool
  u_routes :: "route_spec list"
  u_providers :: "route_provider list"
  u_transaction :: bool
  u_token :: "context_var option"
  u_active :: bool

definition uow_cleanup :: "uow \<Rightarrow> world \<Rightarrow> uow \<times> world" where
  "uow_cleanup u w =
     (u\<lparr>u_active := False, u_token := None\<rparr>,
      w\<lparr>w_context := (case u_token u of None \<Rightarrow> w_context w | Some token \<Rightarrow> reset_principal token (w_context w)),
        w_marker := (if w_marker w = Some (u_id u) then None else w_marker w)\<rparr>)"

text \<open>The end of the transaction: settings made with \<^verbatim>\<open>set_config(..., true)\<close> are local to it.\<close>

definition end_transaction :: "db \<Rightarrow> world \<Rightarrow> world" where
  "end_transaction db w = w\<lparr>w_db := db, w_work := None, w_settings := []\<rparr>"

definition abort_enter :: "uow \<Rightarrow> world \<Rightarrow> uow \<times> world" where
  "abort_enter u w =
     (let (u1, w1) = uow_cleanup u w in (u1\<lparr>u_transaction := False\<rparr>, end_transaction (w_db w1) w1))"

section \<open>Entering and leaving\<close>

definition aenter :: "exn option \<Rightarrow> exn option \<Rightarrow> uow \<Rightarrow> world \<Rightarrow> uow \<times> world \<times> unit result" where
  "aenter begin_fault settings_fault u w =
     (if u_active u \<or> w_marker w \<noteq> None
      then (u, w, config_error ''Nested FastAPIEffects unit of work is not allowed.'')
      else if w_work w \<noteq> None
      then (u, w, config_error ''FastAPIEffects requires an idle session and owns the outer transaction.'')
      else let u1 = u\<lparr>u_transaction := True\<rparr> in
        case begin_fault of
          Some e \<Rightarrow> (let (u2, w2) = abort_enter u1 w in (u2, w2, Inl e))
        | None \<Rightarrow>
            let (bound, token) = bind_principal (u_principal u) (w_context w);
                w1 = w\<lparr>w_work := Some (w_db w), w_marker := Some (u_id u), w_context := bound\<rparr>;
                u2 = u1\<lparr>u_token := Some token\<rparr>
            in case settings_fault of
                 Some e \<Rightarrow> (let (u3, w3) = abort_enter u2 w1 in (u3, w3, Inl e))
               | None \<Rightarrow>
                   (u2\<lparr>u_active := True\<rparr>,
                    w1\<lparr>w_settings := [(''fastapi_effects.tenant_id'', uuid_str (p_tenant_id (u_principal u))),
                                    (''fastapi_effects.subject_id'', subject_id (u_principal u))]\<rparr>,
                    Inr ()))"

definition aexit :: "exn option \<Rightarrow> exn option \<Rightarrow> uow \<Rightarrow> world \<Rightarrow> uow \<times> world \<times> unit result" where
  "aexit raised commit_fault u w =
     (if \<not> u_transaction u then (u, w, Inr ())
      else
        let (w1, r) = (case (raised, commit_fault) of
              (None, None) \<Rightarrow> (end_transaction (case w_work w of None \<Rightarrow> w_db w | Some db \<Rightarrow> db) w, Inr ())
            | (None, Some e) \<Rightarrow> (end_transaction (w_db w) w, Inl e)
            | (Some _, _) \<Rightarrow> (end_transaction (w_db w) w, Inr ()));
            (u2, w2) = uow_cleanup u w1
        in (u2\<lparr>u_transaction := False\<rparr>, w2, r))"

section \<open>Emitting\<close>

fun provided_routes :: "route_provider list \<Rightarrow> event \<Rightarrow> route_spec list result" where
  "provided_routes [] e = Inr []"
| "provided_routes (p # ps) e =
     and_then (p e) (\<lambda>rs. and_then (provided_routes ps e) (\<lambda>more. Inr (matching_routes rs (ev_type e) @ more)))"

definition emit_identity :: "string option \<Rightarrow> string option \<Rightarrow> dedupe_identity option result" where
  "emit_identity dedupe_namespace dedupe_key =
     (case (dedupe_namespace, dedupe_key) of
        (None, None) \<Rightarrow> Inr None
      | (Some ns, Some k) \<Rightarrow> and_then (dedupe_post_init \<lparr>namespace = ns, dedupe_key_text = k\<rparr>) (\<lambda>i. Inr (Some i))
      | _ \<Rightarrow> config_error ''dedupe_namespace and dedupe_key must be provided together.'')"

definition emit ::
  "(rat \<Rightarrow> string) \<Rightarrow> (bytes \<Rightarrow> bytes) \<Rightarrow> event \<Rightarrow> string option \<Rightarrow> string option \<Rightarrow> int \<Rightarrow> (nat \<Rightarrow> uuid) \<Rightarrow> uow \<Rightarrow> world \<Rightarrow>
     world \<times> event_record result" where
  "emit frepr sha256 e dedupe_namespace dedupe_key now fresh u w =
     (case and_then (emit_identity dedupe_namespace dedupe_key) (\<lambda>identity.
           and_then (ensure (u_active u \<and> u_transaction u)
             (ConfigurationError ''emit() requires an active FastAPIEffects unit of work.'')) (\<lambda>_.
           and_then (ensure (u_store u) (ConfigurationError ''No transactional effect store is configured.'')) (\<lambda>_.
           and_then (provided_routes (u_providers u) e) (\<lambda>dynamic.
           and_then (unique_routes (matching_routes (u_routes u) (ev_type e) @ dynamic)) (\<lambda>routes.
             store_publish frepr sha256 (u_principal u) e routes now fresh
               (map_option namespace identity) (map_option dedupe_key_text identity)
               (case w_work w of None \<Rightarrow> w_db w | Some db \<Rightarrow> db)))))) of
        Inl err \<Rightarrow> (w, Inl err)
      | Inr (db', record) \<Rightarrow> (w\<lparr>w_work := Some db'\<rparr>, Inr record))"

section \<open>The body of a unit of work\<close>

text \<open>
  What application code does between entering and leaving: business writes, emissions, and failures. The
  first action that raises ends the body.
\<close>

datatype action =
    Write "db \<Rightarrow> db"
  | Emit event "string option" "string option" int "nat \<Rightarrow> uuid"
  | Raise exn

definition run_action :: "(rat \<Rightarrow> string) \<Rightarrow> (bytes \<Rightarrow> bytes) \<Rightarrow> uow \<Rightarrow> action \<Rightarrow> world \<Rightarrow> world \<times> unit result" where
  "run_action frepr sha256 u a w =
     (case a of
        Write f \<Rightarrow> (w\<lparr>w_work := map_option f (w_work w)\<rparr>, Inr ())
      | Emit e ns k now fresh \<Rightarrow>
          (let (w', r) = emit frepr sha256 e ns k now fresh u w in (w', and_then r (\<lambda>_. Inr ())))
      | Raise e \<Rightarrow> (w, Inl e))"

fun run_actions :: "(rat \<Rightarrow> string) \<Rightarrow> (bytes \<Rightarrow> bytes) \<Rightarrow> uow \<Rightarrow> action list \<Rightarrow> world \<Rightarrow> world \<times> unit result" where
  "run_actions frepr sha256 u [] w = (w, Inr ())"
| "run_actions frepr sha256 u (a # as) w =
     (case run_action frepr sha256 u a w of
        (w', Inl e) \<Rightarrow> (w', Inl e)
      | (w', Inr _) \<Rightarrow> run_actions frepr sha256 u as w')"

text \<open>\<^verbatim>\<open>async with uow: ...\<close> with the faults the database may answer with.\<close>

record faults =
  begin_fault :: "exn option"
  settings_fault :: "exn option"
  commit_fault :: "exn option"

definition run_uow ::
  "(rat \<Rightarrow> string) \<Rightarrow> (bytes \<Rightarrow> bytes) \<Rightarrow> faults \<Rightarrow> action list \<Rightarrow> uow \<Rightarrow> world \<Rightarrow> uow \<times> world \<times> unit result" where
  "run_uow frepr sha256 fs as u w =
     (case aenter (begin_fault fs) (settings_fault fs) u w of
        (u1, w1, Inl e) \<Rightarrow> (u1, w1, Inl e)
      | (u1, w1, Inr _) \<Rightarrow>
          (case run_actions frepr sha256 u1 as w1 of
             (w2, Inl e) \<Rightarrow> (let (u3, w3, _) = aexit (Some e) (commit_fault fs) u1 w2 in (u3, w3, Inl e))
           | (w2, Inr _) \<Rightarrow> aexit None (commit_fault fs) u1 w2))"

section \<open>Lemmas\<close>

definition idle_uow :: "uow \<Rightarrow> bool" where
  "idle_uow u \<longleftrightarrow> \<not> u_active u \<and> \<not> u_transaction u \<and> u_token u = None"

definition idle_world :: "world \<Rightarrow> bool" where
  "idle_world w \<longleftrightarrow> w_work w = None \<and> w_marker w = None \<and> w_settings w = []"

lemma emit_frame:
  "emit frepr sha256 e ns k now fresh u w = (w', r) \<Longrightarrow>
     w_db w' = w_db w \<and> w_marker w' = w_marker w \<and> w_context w' = w_context w \<and> w_settings w' = w_settings w \<and>
     (w_work w \<noteq> None \<longrightarrow> w_work w' \<noteq> None)"
  by (auto simp: emit_def split: sum.splits prod.splits)

lemma run_action_frame:
  "run_action frepr sha256 u a w = (w', r) \<Longrightarrow>
     w_db w' = w_db w \<and> w_marker w' = w_marker w \<and> w_context w' = w_context w \<and> w_settings w' = w_settings w \<and>
     (w_work w \<noteq> None \<longrightarrow> w_work w' \<noteq> None)"
  by (cases a) (auto simp: run_action_def split: prod.splits dest: emit_frame)

lemma run_actions_frame:
  "run_actions frepr sha256 u as w = (w', r) \<Longrightarrow>
     w_db w' = w_db w \<and> w_marker w' = w_marker w \<and> w_context w' = w_context w \<and> w_settings w' = w_settings w \<and>
     (w_work w \<noteq> None \<longrightarrow> w_work w' \<noteq> None)"
proof (induction as arbitrary: w)
  case (Cons a as)
  obtain w1 r1 where a: "run_action frepr sha256 u a w = (w1, r1)" by fastforce
  note f = run_action_frame [OF a]
  show ?case
  proof (cases r1)
    case (Inl e)
    then show ?thesis using Cons.prems a f by simp
  next
    case (Inr x)
    then show ?thesis using Cons.prems a f Cons.IH [of w1] by simp
  qed
qed simp

definition entered :: "uow \<Rightarrow> world \<Rightarrow> uow \<times> world" where
  "entered u w =
     (u\<lparr>u_transaction := True, u_token := Some (w_context w), u_active := True\<rparr>,
      w\<lparr>w_work := Some (w_db w), w_marker := Some (u_id u), w_context := Some (u_principal u),
        w_settings := [(''fastapi_effects.tenant_id'', uuid_str (p_tenant_id (u_principal u))),
                     (''fastapi_effects.subject_id'', subject_id (u_principal u))]\<rparr>)"

lemma aenter_idle:
  assumes "idle_uow u" and "idle_world w"
  shows "aenter bf sf u w =
    (case (bf, sf) of
       (None, None) \<Rightarrow> (fst (entered u w), snd (entered u w), Inr ())
     | (Some e, _) \<Rightarrow> (u, w, Inl e)
     | (None, Some e) \<Rightarrow> (u, w, Inl e))"
  using assms
  by (cases u; cases w)
     (auto simp: aenter_def idle_uow_def idle_world_def bind_principal_def abort_enter_def uow_cleanup_def
        end_transaction_def reset_principal_def entered_def split: option.splits)

lemma aexit_entered:
  assumes "idle_uow u" and "idle_world w" and "w_db w2 = w_db w" and "w_marker w2 = Some (u_id u)"
    and "w_work w2 = Some db"
  shows "aexit raised cf (fst (entered u w)) w2 =
    (u, w2\<lparr>w_db := (if raised = None \<and> cf = None then db else w_db w), w_work := None, w_settings := [],
           w_context := w_context w, w_marker := None\<rparr>,
     if raised = None then (case cf of None \<Rightarrow> Inr () | Some e \<Rightarrow> Inl e) else Inr ())"
  using assms
  by (cases u; cases w; cases w2)
     (auto simp: aexit_def idle_uow_def idle_world_def uow_cleanup_def end_transaction_def reset_principal_def
        entered_def split: option.splits)

lemma collect_unique_Inr:
  "collect_unique rs acc = Inr out \<Longrightarrow> distinct (map fst acc) \<Longrightarrow>
     out = acc @ map (\<lambda>r. (delivery_route_identity r, r)) rs \<and> distinct (map fst out)"
proof (induction rs arbitrary: acc)
  case (Cons r rs)
  have new: "delivery_route_identity r \<notin> fst ` set acc"
    and rest: "collect_unique rs (acc @ [(delivery_route_identity r, r)]) = Inr out"
    using Cons.prems by (auto simp: dict_set_new split: if_splits)
  have "distinct (map fst (acc @ [(delivery_route_identity r, r)]))" using Cons.prems(2) new by simp
  note ih = Cons.IH [OF rest this]
  show ?case using conjunct1 [OF ih] by (intro conjI conjunct2 [OF ih]) simp
qed simp

lemma unique_routes_Inr:
  assumes "unique_routes rs = Inr out"
  shows "mset out = mset rs" and "distinct (map delivery_route_identity out)"
proof -
  from assms obtain u where u: "collect_unique rs [] = Inr u"
    and out: "out = sort_key (\<lambda>r. (r_route_key r, r_destination_key r)) (map snd u)"
    by (auto simp: unique_routes_def and_then_Inr_iff)
  have e: "u = map (\<lambda>r. (delivery_route_identity r, r)) rs" "distinct (map fst u)"
    using collect_unique_Inr [OF u] by auto
  show m: "mset out = mset rs" using out e(1) by (simp add: comp_def)
  have "distinct (map delivery_route_identity rs)" using e by (simp add: comp_def)
  moreover have "mset (map delivery_route_identity out) = mset (map delivery_route_identity rs)" using m by simp
  ultimately show "distinct (map delivery_route_identity out)" by (metis mset_eq_imp_distinct_iff)
qed

section \<open>Properties\<close>

text \<open>
  C21. A unit of work is atomic and leaves nothing behind: whatever the body does and wherever the database
  fails, afterwards the session has no open transaction, marker or settings, the previously bound principal is
  current again and the unit of work is idle; and the committed database is the one the body produced when the
  unit of work returns, and the original one when it raises.
\<close>

theorem uow_atomic:
  assumes "idle_uow u" and "idle_world w" and "run_uow frepr sha256 fs as u w = (u', w', r)"
  shows "u' = u \<and> idle_world w' \<and> w_context w' = w_context w \<and>
    (case r of
       Inl e \<Rightarrow> w_db w' = w_db w
     | Inr _ \<Rightarrow> \<exists>w2. run_actions frepr sha256 (fst (entered u w)) as (snd (entered u w)) = (w2, Inr ()) \<and>
                     w_work w2 = Some (w_db w'))"
proof (cases "begin_fault fs = None \<and> settings_fault fs = None")
  case False
  then show ?thesis using assms by (auto simp: run_uow_def aenter_idle split: option.splits)
next
  case True
  obtain w2 r2 where body: "run_actions frepr sha256 (fst (entered u w)) as (snd (entered u w)) = (w2, r2)" by fastforce
  from run_actions_frame [OF body] obtain db where f: "w_db w2 = w_db w" "w_marker w2 = Some (u_id u)" "w_work w2 = Some db"
    by (auto simp: entered_def)
  note leave = aexit_entered [OF assms(1,2) f]
  show ?thesis
    using assms True body f
    by (cases r2; cases "commit_fault fs")
       (auto simp: run_uow_def aenter_idle leave idle_world_def)
qed

definition sample_uow :: uow where
  "sample_uow = \<lparr>u_id = 1, u_principal = sample_principal 9 [''orders.read''], u_store = True, u_routes = [sample_route],
     u_providers = [], u_transaction = False, u_token = None, u_active = False\<rparr>"

definition sample_world :: world where
  "sample_world = \<lparr>w_db = empty_db, w_work = None, w_marker = None, w_settings = [], w_context = None\<rparr>"

definition sample_actions :: "action list" where
  "sample_actions = [Emit sample_event None None 10 (\<lambda>i. word_of_nat (100 + i)), Raise TimeoutError]"

theorem uow_atomic_witness:
  "\<exists>u' w'. run_uow (\<lambda>_. ''1.0'') (\<lambda>_. replicate 32 (CHR ''x'')) \<lparr>begin_fault = None, settings_fault = None, commit_fault = None\<rparr>
      sample_actions sample_uow sample_world = (u', w', Inl TimeoutError) \<and>
    w_db w' = empty_db \<and> w_context w' = None \<and> idle_world w'"
proof -
  let ?r = "run_uow (\<lambda>_. ''1.0'') (\<lambda>_. replicate 32 (CHR ''x'')) \<lparr>begin_fault = None, settings_fault = None, commit_fault = None\<rparr>
      sample_actions sample_uow sample_world"
  have "snd (snd ?r) = Inl TimeoutError" by code_simp
  then obtain u' w' where r: "?r = (u', w', Inl TimeoutError)" by (cases ?r) auto
  have "idle_uow sample_uow" "idle_world sample_world"
    by (simp_all add: idle_uow_def idle_world_def sample_uow_def sample_world_def)
  from uow_atomic [OF this r] r show ?thesis by (auto simp: sample_world_def)
qed

text \<open>
  Effects are emitted only inside an active unit of work, and to every subscriber: an emission that
  returns was made in an active transaction with a store, stores its rows in that transaction only, and its
  event fans out to exactly the highest-version static routes and the dynamic routes of its type, no identity
  twice. In an inactive unit of work nothing is stored.
\<close>

lemma emit_requires_active_uow:
  assumes "emit frepr sha256 e ns k now fresh u w = (w', r)"
  shows "(\<not> u_active u \<longrightarrow> w' = w \<and> (\<exists>err. r = Inl err)) \<and> w_db w' = w_db w \<and>
    (\<forall>record. r = Inr record \<longrightarrow> (\<exists>dynamic routes identity db'.
       provided_routes (u_providers u) e = Inr dynamic \<and>
       unique_routes (matching_routes (u_routes u) (ev_type e) @ dynamic) = Inr routes \<and>
       mset routes = mset (matching_routes (u_routes u) (ev_type e) @ dynamic) \<and>
       distinct (map delivery_route_identity routes) \<and>
       publish frepr sha256 (u_principal u) e routes now fresh identity (case w_work w of None \<Rightarrow> w_db w | Some db \<Rightarrow> db)
         = Inr (db', record) \<and> w_work w' = Some db'))"
proof (intro conjI allI impI)
  show "w_db w' = w_db w" using emit_frame [OF assms] by blast
  show "w' = w" "\<exists>err. r = Inl err" if "\<not> u_active u"
    using assms that by (auto simp: emit_def ensure_def and_then_Inr_iff split: sum.splits prod.splits)
  fix rec
  assume r: "r = Inr rec"
  let ?db = "case w_work w of None \<Rightarrow> w_db w | Some db \<Rightarrow> db"
  from assms r obtain i dynamic routes db' where i: "emit_identity ns k = Inr i"
    and d: "provided_routes (u_providers u) e = Inr dynamic"
    and q: "unique_routes (matching_routes (u_routes u) (ev_type e) @ dynamic) = Inr routes"
    and p: "store_publish frepr sha256 (u_principal u) e routes now fresh (map_option namespace i)
              (map_option dedupe_key_text i) ?db = Inr (db', rec)"
    and w': "w' = w\<lparr>w_work := Some db'\<rparr>"
    unfolding emit_def by (auto simp: and_then_Inr_iff split: sum.splits prod.splits)
  have "\<exists>identity. publish frepr sha256 (u_principal u) e routes now fresh identity ?db = Inr (db', rec)"
    using p unfolding store_publish_def by (auto simp: and_then_Inr_iff split: option.splits)
  then show "\<exists>dynamic routes identity db'. provided_routes (u_providers u) e = Inr dynamic \<and>
       unique_routes (matching_routes (u_routes u) (ev_type e) @ dynamic) = Inr routes \<and>
       mset routes = mset (matching_routes (u_routes u) (ev_type e) @ dynamic) \<and>
       distinct (map delivery_route_identity routes) \<and>
       publish frepr sha256 (u_principal u) e routes now fresh identity ?db = Inr (db', rec) \<and> w_work w' = Some db'"
    using d q unique_routes_Inr [OF q] w' by auto
qed

end
