(* ===== verification/Json_Parse.thy ===== *)
theory Json_Parse
  imports Canonical
begin

text \<open>
  \<^verbatim>\<open>strict_json_loads\<close> of \<^verbatim>\<open>sqlalchemy/canonical.py\<close> with the decoder of the standard \<^verbatim>\<open>json\<close> module it configures:
  the byte bound, UTF-8 decoding, the JSON grammar, rejection of duplicate keys and of non-finite constants, and
  the normalisation walk over the result.

  Text is Latin-1 throughout: an escape or a byte sequence that denotes a code point above 255 is outside the
  model and answered with \<open>OtherException\<close>. \<^verbatim>\<open>float()\<close> of a literal is the argument \<open>fparse\<close>; \<open>stack\<close> is the
  number of nested containers the interpreter's recursion limit still allows. The scanner has fuel; twice the length of
  the input is enough (\<open>loads_fuel\<close> below).
\<close>

section \<open>Scanning\<close>

text \<open>
  \<open>Malformed\<close> stands for \<^verbatim>\<open>JSONDecodeError\<close>, \<^verbatim>\<open>UnicodeError\<close> and \<^verbatim>\<open>RecursionError\<close>, which the caller treats alike;
  other exceptions pass through.
\<close>

datatype decode_error = Malformed | Raised exn | OutOfFuel

type_synonym 'a scan = "decode_error + 'a \<times> string"

definition is_json_space :: "char \<Rightarrow> bool" where
  "is_json_space c \<longleftrightarrow> c = CHR '' '' \<or> c = CHR 9 \<or> c = CHR 10 \<or> c = CHR 13"

definition skip_ws :: "string \<Rightarrow> string" where
  "skip_ws s = dropWhile is_json_space s"

definition starts :: "string \<Rightarrow> string \<Rightarrow> bool" where
  "starts p s \<longleftrightarrow> take (length p) s = p"

definition digit_value :: "char \<Rightarrow> int" where
  "digit_value c = int (code c) - 48"

definition hex_value :: "char \<Rightarrow> int option" where
  "hex_value c =
     (if is_digit c then Some (digit_value c)
      else if in_range 97 102 c then Some (int (code c) - 87)
      else if in_range 65 70 c then Some (int (code c) - 55) else None)"

definition hex4 :: "char \<Rightarrow> char \<Rightarrow> char \<Rightarrow> char \<Rightarrow> int option" where
  "hex4 a b c d =
     (case (hex_value a, hex_value b, hex_value c, hex_value d) of
        (Some w, Some x, Some y, Some z) \<Rightarrow> Some (((w * 16 + x) * 16 + y) * 16 + z)
      | _ \<Rightarrow> None)"

definition simple_escape :: "char \<Rightarrow> char option" where
  "simple_escape c =
     map_of [(CHR 0x22, CHR 0x22), (CHR 0x5C, CHR 0x5C), (CHR ''/'', CHR ''/''), (CHR ''b'', CHR 8), (CHR ''f'', CHR 12),
             (CHR ''n'', CHR 10), (CHR ''r'', CHR 13), (CHR ''t'', CHR 9)] c"

definition prepend :: "char \<Rightarrow> string scan \<Rightarrow> string scan" where
  "prepend c r = and_then r (\<lambda>(s, rest). Inr (c # s, rest))"

text \<open>The characters after the opening quote, up to and including the closing one.\<close>

fun scan_string :: "string \<Rightarrow> string scan" where
  "scan_string [] = Inl Malformed"
| "scan_string (c # cs) =
     (if c = CHR 0x22 then Inr ([], cs)
      else if c = CHR 0x5C then
        (case cs of
           [] \<Rightarrow> Inl Malformed
         | e # es \<Rightarrow>
             if e = CHR ''u'' then
               (case es of
                  h1 # h2 # h3 # h4 # rest \<Rightarrow>
                    (case hex4 h1 h2 h3 h4 of
                       None \<Rightarrow> Inl Malformed
                     | Some n \<Rightarrow> if n < 256 then prepend (char_of (nat n)) (scan_string rest) else Inl (Raised OtherException))
                | _ \<Rightarrow> Inl Malformed)
             else (case simple_escape e of None \<Rightarrow> Inl Malformed | Some x \<Rightarrow> prepend x (scan_string es)))
      else if code c < 32 then Inl Malformed
      else prepend c (scan_string cs))"

text \<open>\<^verbatim>\<open>(-?(?:0|[1-9][0-9]*))(\.[0-9]+)?([eE][-+]?[0-9]+)?\<close>\<close>

definition unsigned_part :: "string \<Rightarrow> (string \<times> string) option" where
  "unsigned_part r =
     (case r of
        [] \<Rightarrow> None
      | d # ds \<Rightarrow>
          if d = CHR ''0'' then Some ([d], ds)
          else if is_digit d then Some (d # takeWhile is_digit ds, dropWhile is_digit ds)
          else None)"

definition integer_part :: "string \<Rightarrow> (string \<times> string) option" where
  "integer_part s =
     (if starts ''-'' s then map_option (\<lambda>(i, r). (CHR ''-'' # i, r)) (unsigned_part (tl s)) else unsigned_part s)"

definition fraction_part :: "string \<Rightarrow> string \<times> string" where
  "fraction_part s =
     (case s of
        c # d # ds \<Rightarrow> if c = CHR ''.'' \<and> is_digit d then (c # takeWhile is_digit (d # ds), dropWhile is_digit (d # ds)) else ([], s)
      | _ \<Rightarrow> ([], s))"

definition exponent_part :: "string \<Rightarrow> string \<times> string" where
  "exponent_part s =
     (case s of
        [] \<Rightarrow> ([], s)
      | e # t \<Rightarrow>
          if e = CHR ''e'' \<or> e = CHR ''E'' then
            (let (sign, r) = (case t of c # u \<Rightarrow> if c = CHR ''-'' \<or> c = CHR ''+'' then ([c], u) else ([], t) | [] \<Rightarrow> ([], t)) in
             if r \<noteq> [] \<and> is_digit (hd r) then (e # sign @ takeWhile is_digit r, dropWhile is_digit r) else ([], s))
          else ([], s))"

definition number_parts :: "string \<Rightarrow> (string \<times> string \<times> string \<times> string) option" where
  "number_parts s =
     (case integer_part s of
        None \<Rightarrow> None
      | Some (i, r) \<Rightarrow>
          (let (f, r1) = fraction_part r; (e, r2) = exponent_part r1 in Some (i, f, e, r2)))"

definition decimal_value :: "string \<Rightarrow> int" where
  "decimal_value ds = foldl (\<lambda>n c. 10 * n + digit_value c) 0 ds"

text \<open>\<^verbatim>\<open>int()\<close> of a decimal literal; more than 4300 digits raise \<^verbatim>\<open>ValueError\<close>, which is not a decode error.\<close>

definition parse_int :: "string \<Rightarrow> decode_error + int" where
  "parse_int t =
     (let ds = (if starts ''-'' t then tl t else t) in
      if 4300 < int (length ds) then Inl (Raised ValueError)
      else Inr (if starts ''-'' t then - decimal_value ds else decimal_value ds))"

definition scan_number :: "(string \<Rightarrow> pyfloat) \<Rightarrow> string \<Rightarrow> json scan" where
  "scan_number fparse s =
     (case number_parts s of
        None \<Rightarrow> Inl Malformed
      | Some (i, f, e, rest) \<Rightarrow>
          if f = [] \<and> e = [] then and_then (parse_int i) (\<lambda>n. Inr (JInt n, rest))
          else Inr (JFloat (fparse (i @ f @ e)), rest))"

section \<open>The decoder\<close>

text \<open>\<^verbatim>\<open>object_pairs\<close>: the hook that builds an object and rejects duplicate keys.\<close>

definition object_pairs :: "(string \<times> json) list \<Rightarrow> decode_error + json" where
  "object_pairs ps =
     (if distinct (map fst ps) then Inr (JObj ps)
      else Inl (Raised (ConfigurationError ''JSON object contains duplicate semantic keys.'')))"

abbreviation non_finite_constant :: "'a scan" where
  "non_finite_constant \<equiv> Inl (Raised (ConfigurationError ''JSON contains a non-finite number.''))"

definition scan_scalar :: "(string \<Rightarrow> pyfloat) \<Rightarrow> string \<Rightarrow> json scan" where
  "scan_scalar fparse s =
     (if starts [CHR 0x22] s then and_then (scan_string (tl s)) (\<lambda>(t, rest). Inr (JStr t, rest))
      else if starts ''null'' s then Inr (JNull, drop 4 s)
      else if starts ''true'' s then Inr (JBool True, drop 4 s)
      else if starts ''false'' s then Inr (JBool False, drop 5 s)
      else if starts ''NaN'' s \<or> starts ''Infinity'' s \<or> starts ''-Infinity'' s then non_finite_constant
      else scan_number fparse s)"

fun parse_value :: "(string \<Rightarrow> pyfloat) \<Rightarrow> nat \<Rightarrow> nat \<Rightarrow> string \<Rightarrow> json scan"
  and parse_items :: "(string \<Rightarrow> pyfloat) \<Rightarrow> nat \<Rightarrow> nat \<Rightarrow> string \<Rightarrow> json list scan"
  and parse_members :: "(string \<Rightarrow> pyfloat) \<Rightarrow> nat \<Rightarrow> nat \<Rightarrow> string \<Rightarrow> (string \<times> json) list scan"
where
  "parse_value fparse 0 stack s = Inl OutOfFuel"
| "parse_value fparse (Suc n) stack s =
     (if starts [CHR 0x7B] s then
        (if stack = 0 then Inl Malformed
         else if starts [CHR 0x7D] (skip_ws (tl s)) then Inr (JObj [], tl (skip_ws (tl s)))
         else and_then (parse_members fparse n (stack - 1) (skip_ws (tl s))) (\<lambda>(ps, rest).
              and_then (object_pairs ps) (\<lambda>v. Inr (v, rest))))
      else if starts ''['' s then
        (if stack = 0 then Inl Malformed
         else if starts '']'' (skip_ws (tl s)) then Inr (JList [], tl (skip_ws (tl s)))
         else and_then (parse_items fparse n (stack - 1) (skip_ws (tl s))) (\<lambda>(vs, rest). Inr (JList vs, rest)))
      else scan_scalar fparse s)"
| "parse_items fparse 0 stack s = Inl OutOfFuel"
| "parse_items fparse (Suc n) stack s =
     and_then (parse_value fparse n stack s) (\<lambda>(v, rest).
       case skip_ws rest of
         [] \<Rightarrow> Inl Malformed
       | c # cs \<Rightarrow>
           if c = CHR '']'' then Inr ([v], cs)
           else if c = CHR '','' then and_then (parse_items fparse n stack (skip_ws cs)) (\<lambda>(vs, rest'). Inr (v # vs, rest'))
           else Inl Malformed)"
| "parse_members fparse 0 stack s = Inl OutOfFuel"
| "parse_members fparse (Suc n) stack s =
     (if \<not> starts [CHR 0x22] s then Inl Malformed
      else and_then (scan_string (tl s)) (\<lambda>(k, rest).
        if \<not> starts '':'' (skip_ws rest) then Inl Malformed
        else and_then (parse_value fparse n stack (skip_ws (tl (skip_ws rest)))) (\<lambda>(v, rest1).
          case skip_ws rest1 of
            [] \<Rightarrow> Inl Malformed
          | c # cs \<Rightarrow>
              if c = CHR 0x7D then Inr ([(k, v)], cs)
              else if c = CHR '','' then
                and_then (parse_members fparse n stack (skip_ws cs)) (\<lambda>(ps, rest'). Inr ((k, v) # ps, rest'))
              else Inl Malformed)))"

text \<open>UTF-8 decoding of the one- and two-byte sequences that denote Latin-1 text.\<close>

fun utf8_decode :: "bytes \<Rightarrow> decode_error + string" where
  "utf8_decode [] = Inr []"
| "utf8_decode (c # cs) =
     (if code c < 128 then and_then (utf8_decode cs) (\<lambda>s. Inr (c # s))
      else if code c = 194 \<or> code c = 195 then
        (case cs of
           [] \<Rightarrow> Inl Malformed
         | d # ds \<Rightarrow>
             if in_range 128 191 d
             then and_then (utf8_decode ds) (\<lambda>s. Inr (char_of ((code c - 192) * 64 + (code d - 128)) # s))
             else Inl Malformed)
      else if in_range 196 244 c then Inl (Raised OtherException)
      else Inl Malformed)"

definition json_loads :: "(string \<Rightarrow> pyfloat) \<Rightarrow> nat \<Rightarrow> string \<Rightarrow> decode_error + json" where
  "json_loads fparse stack s =
     and_then (parse_value fparse (Suc (2 * length s)) stack (skip_ws s)) (\<lambda>(v, rest).
       if skip_ws rest = [] then Inr v else Inl Malformed)"

definition strict_json_loads :: "(string \<Rightarrow> pyfloat) \<Rightarrow> nat \<Rightarrow> int \<Rightarrow> bytes \<Rightarrow> json result" where
  "strict_json_loads fparse stack maximum_bytes raw =
     (if maximum_bytes < int (length raw) then config_error ''JSON input exceeds the configured byte limit.''
      else case and_then (utf8_decode raw) (json_loads fparse stack) of
             Inl Malformed \<Rightarrow> config_error ''JSON input is malformed.''
           | Inl (Raised e) \<Rightarrow> Inl e
           | Inl OutOfFuel \<Rightarrow> Inl OtherException
           | Inr parsed \<Rightarrow> and_then (normalize 0 parsed) (\<lambda>_. Inr parsed))"

section \<open>The fuel suffices\<close>

lemma length_skip_ws: "length (skip_ws s) \<le> length s"
  by (simp add: skip_ws_def length_dropWhile_le)

lemma prepend_Inr: "prepend c r = Inr (t, rest) \<longleftrightarrow> (\<exists>u. t = c # u \<and> r = Inr (u, rest))"
  by (cases r) (auto simp: prepend_def)

lemma prepend_Inl: "prepend c r = Inl e \<longleftrightarrow> r = Inl e"
  by (cases r) (auto simp: prepend_def)

lemma scan_string_step:
  assumes "scan_string (c # cs) = Inr (t, r)"
  shows "r = cs \<or> (\<exists>u rest. scan_string rest = Inr (u, r) \<and> length rest \<le> length cs)"
  using assms
  by (simp add: prepend_Inr split: if_splits list.splits option.splits) (elim exE conjE, (rule disjI2, intro exI conjI, assumption, simp))+

lemma scan_string_rest: "scan_string s = Inr (t, r) \<Longrightarrow> length r < length s"
proof (induction "length s" arbitrary: s t r rule: less_induct)
  case less
  then obtain c cs where s: "s = c # cs" by (cases s) auto
  from scan_string_step [OF less.prems [unfolded s]] show ?case
  proof (elim disjE exE conjE)
    fix u rest assume "scan_string rest = Inr (u, r)" "length rest \<le> length cs"
    then show ?thesis using less.hyps [of rest u r] s by simp
  qed (simp add: s)
qed

lemma scan_string_step_Inl:
  assumes "scan_string (c # cs) = Inl OutOfFuel"
  shows "\<exists>rest. scan_string rest = Inl OutOfFuel \<and> length rest \<le> length cs"
  using assms
  by (simp add: prepend_Inl split: if_splits list.splits option.splits) (intro exI conjI, assumption, simp)+

lemma scan_string_fuel: "scan_string s \<noteq> Inl OutOfFuel"
proof (induction "length s" arbitrary: s rule: less_induct)
  case less
  show ?case
  proof (cases s)
    case (Cons c cs)
    then show ?thesis using less.hyps scan_string_step_Inl [of c cs] by fastforce
  qed simp
qed

lemma length_dropWhile_Cons: "P x \<Longrightarrow> length (dropWhile P (x # xs)) < length (x # xs)"
  by (simp add: length_dropWhile_le less_Suc_eq_le)

lemma unsigned_part_rest: "unsigned_part s = Some (i, r) \<Longrightarrow> length r < length s"
  by (auto simp: unsigned_part_def less_Suc_eq_le length_dropWhile_le split: list.splits if_splits)

lemma integer_part_rest: "integer_part s = Some (i, r) \<Longrightarrow> length r < length s"
  by (cases s) (auto simp: integer_part_def starts_def split: if_splits dest!: unsigned_part_rest)

lemma fraction_part_rest: "fraction_part s = (f, r) \<Longrightarrow> length r \<le> length s"
  by (auto simp: fraction_part_def le_SucI length_dropWhile_le split: list.splits if_splits)

lemma exponent_part_rest: "exponent_part s = (f, r) \<Longrightarrow> length r \<le> length s"
  by (auto simp: exponent_part_def Let_def le_SucI length_dropWhile_le split: list.splits if_splits prod.splits)

lemma number_parts_rest: "number_parts s = Some (i, f, e, r) \<Longrightarrow> length r < length s"
  by (auto simp: number_parts_def Let_def split: option.splits prod.splits
      dest!: integer_part_rest fraction_part_rest exponent_part_rest)

lemma scan_number_rest: "scan_number fparse s = Inr (v, r) \<Longrightarrow> length r < length s"
  by (auto simp: scan_number_def and_then_Inr_iff split: option.splits if_splits dest: number_parts_rest)

lemma scan_number_fuel: "scan_number fparse s \<noteq> Inl OutOfFuel"
  by (auto simp: scan_number_def parse_int_def Let_def and_then_Inl_iff split: option.splits if_splits)

lemma starts_nonempty: "starts p s \<Longrightarrow> p \<noteq> [] \<Longrightarrow> s \<noteq> []"
  by (auto simp: starts_def)

lemma starts_length: "starts p s \<Longrightarrow> length p \<le> length s"
  unfolding starts_def by (metis length_take min.cobounded1)

lemma scan_scalar_rest: "scan_scalar fparse s = Inr (v, r) \<Longrightarrow> length r < length s"
  using starts_length [of "[CHR 0x22]" s] starts_length [of "''null''" s] starts_length [of "''true''" s] starts_length [of "''false''" s]
  by (auto simp: scan_scalar_def and_then_Inr_iff scan_number_rest split: if_splits dest!: scan_string_rest)

lemma scan_scalar_fuel: "scan_scalar fparse s \<noteq> Inl OutOfFuel"
  by (auto simp: scan_scalar_def and_then_Inl_iff scan_number_fuel scan_string_fuel)

text \<open>What the three parsers do at one level: the rest they leave is shorter, and they run out of fuel only below.\<close>

definition consumes :: "(string \<Rightarrow> 'a scan) \<Rightarrow> bool" where
  "consumes p \<longleftrightarrow> (\<forall>s v r. p s = Inr (v, r) \<longrightarrow> length r < length s)"

lemma consumesD: "consumes p \<Longrightarrow> p s = Inr (v, r) \<Longrightarrow> length r < length s"
  by (auto simp: consumes_def)

lemma length_tl_skip_ws: "s \<noteq> [] \<Longrightarrow> length (skip_ws (tl s)) < length s"
  using length_skip_ws [of "tl s"] by (cases s) auto

lemma length_tl_skip_ws2: "s \<noteq> [] \<Longrightarrow> length (tl (skip_ws (tl s))) < length s"
  using length_tl_skip_ws [of s] by simp

lemma consumes_value:
  assumes "consumes (parse_items fparse n (k - 1))" and "consumes (parse_members fparse n (k - 1))"
  shows "consumes (parse_value fparse (Suc n) k)"
  unfolding consumes_def
proof (intro allI impI)
  fix s v r assume r: "parse_value fparse (Suc n) k s = Inr (v, r)"
  consider (obj) "starts [CHR 0x7B] s" | (arr) "\<not> starts [CHR 0x7B] s" "starts ''['' s"
    | (scalar) "\<not> starts [CHR 0x7B] s" "\<not> starts ''['' s" by blast
  then show "length r < length s"
  proof cases
    case obj
    note l = length_tl_skip_ws [OF starts_nonempty [OF obj]] length_tl_skip_ws2 [OF starts_nonempty [OF obj]]
    show ?thesis using r obj l by (auto simp: and_then_Inr_iff split: if_splits dest!: consumesD [OF assms(2) [unfolded One_nat_def]])
  next
    case arr
    note l = length_tl_skip_ws [OF starts_nonempty [OF arr(2)]] length_tl_skip_ws2 [OF starts_nonempty [OF arr(2)]]
    show ?thesis using r arr l by (auto simp: and_then_Inr_iff split: if_splits dest!: consumesD [OF assms(1) [unfolded One_nat_def]])
  next
    case scalar
    then show ?thesis using r by (auto simp: scan_scalar_rest)
  qed
qed

lemma skip_ws_Cons: "skip_ws s = c # cs \<Longrightarrow> length cs < length s"
  using length_skip_ws [of s] by simp

lemma consumes_items:
  assumes "consumes (parse_value fparse n k)" and "consumes (parse_items fparse n k)"
  shows "consumes (parse_items fparse (Suc n) k)"
  unfolding consumes_def
proof (intro allI impI)
  fix s vs r assume r: "parse_items fparse (Suc n) k s = Inr (vs, r)"
  then obtain v rest where v: "parse_value fparse n k s = Inr (v, rest)" by (auto simp: and_then_Inr_iff)
  obtain c cs where c: "skip_ws rest = c # cs" using r v by (auto split: list.splits)
  have "length cs < length s" using skip_ws_Cons [OF c] consumesD [OF assms(1) v] by simp
  then show "length r < length s"
    using r v c length_skip_ws [of cs] by (auto simp: and_then_Inr_iff split: if_splits dest!: consumesD [OF assms(2)])
qed

lemma parse_members_head:
  assumes "parse_members fparse (Suc n) k s = Inr (ps, r)"
  obtains key rest v rest1 where "starts [CHR 0x22] s" "scan_string (tl s) = Inr (key, rest)" "starts '':'' (skip_ws rest)"
    "parse_value fparse n k (skip_ws (tl (skip_ws rest))) = Inr (v, rest1)"
  using assms by (auto simp: and_then_Inr_iff split: if_splits)

lemma member_value_shorter:
  "scan_string (tl s) = Inr (key, rest) \<Longrightarrow> length (skip_ws (tl (skip_ws rest))) < length s"
  using scan_string_rest [of "tl s" key rest] length_skip_ws [of rest] length_skip_ws [of "tl (skip_ws rest)"] by simp

lemma consumes_members:
  assumes "consumes (parse_value fparse n k)" and "consumes (parse_members fparse n k)"
  shows "consumes (parse_members fparse (Suc n) k)"
  unfolding consumes_def
proof (intro allI impI)
  fix s ps r assume r: "parse_members fparse (Suc n) k s = Inr (ps, r)"
  then obtain key rest v rest1 where h: "starts [CHR 0x22] s" "scan_string (tl s) = Inr (key, rest)"
    "starts '':'' (skip_ws rest)" "parse_value fparse n k (skip_ws (tl (skip_ws rest))) = Inr (v, rest1)"
    by (rule parse_members_head)
  obtain c cs where c: "skip_ws rest1 = c # cs" using r h by (auto split: list.splits)
  have "length cs < length s"
    using skip_ws_Cons [OF c] consumesD [OF assms(1) h(4)] member_value_shorter [OF h(2)] by simp
  then show "length r < length s"
    using r h c length_skip_ws [of cs] by (auto simp: and_then_Inr_iff split: if_splits dest!: consumesD [OF assms(2)])
qed

lemma parse_consumes:
  "consumes (parse_value fparse n k) \<and> consumes (parse_items fparse n k) \<and> consumes (parse_members fparse n k)"
proof (induction n arbitrary: k)
  case (Suc n)
  then show ?case by (simp only: consumes_value consumes_items consumes_members simp_thms)
qed (simp add: consumes_def)

definition fuelled :: "nat \<Rightarrow> nat \<Rightarrow> (string \<Rightarrow> 'a scan) \<Rightarrow> bool" where
  "fuelled j n p \<longleftrightarrow> (\<forall>s. 2 * length s + j < n \<longrightarrow> p s \<noteq> Inl OutOfFuel)"

lemma fuelledD: "fuelled j n p \<Longrightarrow> p s = Inl OutOfFuel \<Longrightarrow> \<not> 2 * length s + j < n"
  by (auto simp: fuelled_def)

lemma fuelled_value:
  assumes "fuelled 1 n (parse_items fparse n (k - 1))" and "fuelled 1 n (parse_members fparse n (k - 1))"
  shows "fuelled 0 (Suc n) (parse_value fparse (Suc n) k)"
  unfolding fuelled_def
proof (intro allI impI notI)
  fix s assume l: "2 * length s + 0 < Suc n" and e: "parse_value fparse (Suc n) k s = Inl OutOfFuel"
  have "starts [CHR 0x7B] s \<or> starts ''['' s" using e scan_scalar_fuel [of fparse s] by (auto split: if_splits)
  then have "s \<noteq> []" using starts_nonempty by blast
  then have "2 * length (skip_ws (tl s)) + 1 < n" using length_tl_skip_ws [of s] l by linarith
  then show False
    using e fuelledD [OF assms(1), of "skip_ws (tl s)"] fuelledD [OF assms(2), of "skip_ws (tl s)"]
    by (auto simp: and_then_Inl_iff object_pairs_def scan_scalar_fuel split: if_splits)
qed

lemma fuelled_items:
  assumes "fuelled 0 n (parse_value fparse n k)" and "fuelled 1 n (parse_items fparse n k)"
  shows "fuelled 1 (Suc n) (parse_items fparse (Suc n) k)"
  unfolding fuelled_def
proof (intro allI impI notI)
  fix s assume l: "2 * length s + 1 < Suc n" and e: "parse_items fparse (Suc n) k s = Inl OutOfFuel"
  have "parse_value fparse n k s \<noteq> Inl OutOfFuel" using fuelledD [OF assms(1), of s] l by auto
  then obtain v rest where v: "parse_value fparse n k s = Inr (v, rest)" using e by (auto simp: and_then_Inl_iff)
  obtain c cs where c: "skip_ws rest = c # cs" using e v by (auto split: list.splits)
  have "2 * length (skip_ws cs) + 1 < n"
    using skip_ws_Cons [OF c] consumesD [OF conjunct1 [OF parse_consumes] v] length_skip_ws [of cs] l by linarith
  then show False using e v c fuelledD [OF assms(2), of "skip_ws cs"] by (auto simp: and_then_Inl_iff split: if_splits)
qed

lemma fuelled_members:
  assumes "fuelled 0 n (parse_value fparse n k)" and "fuelled 1 n (parse_members fparse n k)"
  shows "fuelled 1 (Suc n) (parse_members fparse (Suc n) k)"
  unfolding fuelled_def
proof (intro allI impI notI)
  fix s assume l: "2 * length s + 1 < Suc n" and e: "parse_members fparse (Suc n) k s = Inl OutOfFuel"
  then obtain key rest where h: "starts [CHR 0x22] s" "scan_string (tl s) = Inr (key, rest)" "starts '':'' (skip_ws rest)"
    by (auto simp: and_then_Inl_iff scan_string_fuel split: if_splits)
  let ?u = "skip_ws (tl (skip_ws rest))"
  have "2 * length ?u < n" using member_value_shorter [OF h(2)] l by linarith
  then have "parse_value fparse n k ?u \<noteq> Inl OutOfFuel" using fuelledD [OF assms(1), of ?u] by auto
  then obtain v rest1 where v: "parse_value fparse n k ?u = Inr (v, rest1)" using e h by (auto simp: and_then_Inl_iff)
  obtain c cs where c: "skip_ws rest1 = c # cs" using e h v by (auto split: list.splits)
  have "2 * length (skip_ws cs) + 1 < n"
    using skip_ws_Cons [OF c] consumesD [OF conjunct1 [OF parse_consumes] v] member_value_shorter [OF h(2)]
      length_skip_ws [of cs] l by linarith
  then show False using e h v c fuelledD [OF assms(2), of "skip_ws cs"] by (auto simp: and_then_Inl_iff split: if_splits)
qed

lemma parse_fuelled:
  "fuelled 0 n (parse_value fparse n k) \<and> fuelled 1 n (parse_items fparse n k) \<and> fuelled 1 n (parse_members fparse n k)"
proof (induction n arbitrary: k)
  case (Suc n)
  then show ?case by (simp only: fuelled_value fuelled_items fuelled_members simp_thms)
qed (simp add: fuelled_def)

lemma loads_fuel: "json_loads fparse stack s \<noteq> Inl OutOfFuel"
proof -
  have "2 * length (skip_ws s) + 0 < Suc (2 * length s)" using length_skip_ws [of s] by linarith
  then have "parse_value fparse (Suc (2 * length s)) stack (skip_ws s) \<noteq> Inl OutOfFuel"
    using fuelledD [OF conjunct1 [OF parse_fuelled]] by blast
  then show ?thesis by (auto simp: json_loads_def and_then_Inl_iff split: if_splits)
qed

section \<open>Reading back canonical text\<close>

text \<open>The value that canonical text denotes: the same tree with the members of every object sorted by key.\<close>

fun canon :: "json \<Rightarrow> json" where
  "canon (JObj ms) = JObj (sort_key fst (map (\<lambda>m. (fst m, canon (snd m))) ms))"
| "canon (JList vs) = JList (map canon vs)"
| "canon v = v"

text \<open>
  What the round trip relies on from the float conversions of the language: the rendering of every float in the value is
  a complete float literal that reads back as the same float.
\<close>

definition float_reads_back :: "(rat \<Rightarrow> string) \<Rightarrow> (string \<Rightarrow> pyfloat) \<Rightarrow> rat \<Rightarrow> bool" where
  "float_reads_back frepr fparse q \<longleftrightarrow> fparse (frepr q) = Fin q \<and>
     (\<exists>i f e. number_parts (frepr q) = Some (i, f, e, []) \<and> (f \<noteq> [] \<or> e \<noteq> []))"

fun floats_read_back :: "(rat \<Rightarrow> string) \<Rightarrow> (string \<Rightarrow> pyfloat) \<Rightarrow> json \<Rightarrow> bool" where
  "floats_read_back frepr fparse (JFloat f) \<longleftrightarrow> float_reads_back frepr fparse (the_fin f)"
| "floats_read_back frepr fparse (JObj ms) \<longleftrightarrow> list_all (\<lambda>m. floats_read_back frepr fparse (snd m)) ms"
| "floats_read_back frepr fparse (JList vs) \<longleftrightarrow> list_all (floats_read_back frepr fparse) vs"
| "floats_read_back frepr fparse _ \<longleftrightarrow> True"

lemma utf8_decode_utf8: "utf8_decode (utf8 s) = Inr s"
proof (induction s)
  case (Cons c s)
  have c: "code c < 256" by (simp add: code_def)
  show ?case
  proof (cases "code c < 128")
    case True
    with Cons show ?thesis by simp
  next
    case False
    have hi: "code c div 64 = 2 \<or> code c div 64 = 3" using False c by linarith
    then have "code (char_of (192 + code c div 64)) = 192 + code c div 64" by (auto simp: code_def)
    moreover have "code (char_of (128 + code c mod 64)) = 128 + code c mod 64"
      using mod_less_divisor [of 64 "code c"] by (simp add: code_def take_bit_eq_mod)
    moreover have "(code c div 64) * 64 + code c mod 64 = code c" by simp
    moreover have "char_of (code c) = c" by (simp add: code_def)
    ultimately show ?thesis using False hi Cons mod_less_divisor [of 64 "code c"] by (auto simp: in_range_def)
  qed
qed simp

lemma hex4_control: "list_all (\<lambda>n. case hex_digits 4 (int n) of [a, b, c, d] \<Rightarrow> hex4 a b c d = Some (int n) | _ \<Rightarrow> False) [0..<32]"
  by code_simp

lemma scan_escaped: "scan_string (escape_char c @ t) = prepend c (scan_string t)"
proof (cases "c \<in> set [CHR 0x22, CHR 0x5C, CHR 0x0A, CHR 0x0D, CHR 0x09, CHR 0x0C, CHR 0x08]")
  case True
  then show ?thesis by (auto simp: escape_char_def simple_escape_def)
next
  case plain: False
  show ?thesis
  proof (cases "code c < 32")
    case True
    then have "case hex_digits 4 (int (code c)) of [a, b, x, d] \<Rightarrow> hex4 a b x d = Some (int (code c)) | _ \<Rightarrow> False"
      using hex4_control unfolding list_all_iff by (simp del: hex_digits.simps)
    then obtain a b x d where h: "hex_digits 4 (int (code c)) = [a, b, x, d]" "hex4 a b x d = Some (int (code c))"
      by (auto simp del: hex_digits.simps split: list.splits)
    moreover have "escape_char c = [CHR 0x5C, CHR ''u'', a, b, x, d]" using plain True h(1) by (simp add: escape_char_def)
    moreover have "char_of (nat (int (code c))) = c" "int (code c) < 256" using True by (simp_all add: code_def)
    ultimately show ?thesis by simp
  next
    case False
    then show ?thesis using plain by (auto simp: escape_char_def)
  qed
qed

lemma scan_escaped_string: "scan_string (concat (map escape_char s) @ CHR 0x22 # r) = Inr (s, r)"
  by (induction s) (simp_all add: scan_escaped prepend_def)

lemma digit_chars:
  "0 \<le> d \<Longrightarrow> d < 10 \<Longrightarrow> is_digit (digit_char d) \<and> digit_value (digit_char d) = d \<and> (digit_char d = CHR ''0'' \<longleftrightarrow> d = 0)"
proof -
  have "list_all (\<lambda>n. is_digit (digit_char n) \<and> digit_value (digit_char n) = n \<and> (digit_char n = CHR ''0'' \<longleftrightarrow> n = 0)) [0,1,2,3,4,5,6,7,8,9]"
    by (simp add: digit_char_def is_digit_def in_range_def digit_value_def code_def)
  moreover assume "0 \<le> d" "d < 10"
  then have "d \<in> set [0,1,2,3,4,5,6,7,8,9]" by simp presburger
  ultimately show ?thesis unfolding list_all_iff by blast
qed

lemma decimal_value_snoc: "decimal_value (ds @ [c]) = 10 * decimal_value ds + digit_value c"
  by (simp add: decimal_value_def)

lemma pos_str_digits:
  "0 \<le> n \<Longrightarrow> pos_str n \<noteq> [] \<and> list_all is_digit (pos_str n) \<and> decimal_value (pos_str n) = n \<and>
     (hd (pos_str n) = CHR ''0'' \<longrightarrow> pos_str n = [CHR ''0''])"
proof (induction n rule: pos_str.induct)
  case (1 n)
  show ?case
  proof (cases "n < 10")
    case True
    then show ?thesis using 1(2) digit_chars [of n] by (cases "n = 0") (auto simp: pos_str.simps [of n] pos_str.simps [of 0] decimal_value_def)
  next
    case False
    have "pos_str n = pos_str (n div 10) @ [digit_char (n mod 10)]" using False by (simp add: pos_str.simps [of n])
    moreover have "decimal_value (pos_str (n div 10)) = n div 10" and "0 < n div 10" using 1 False by auto
    moreover have "pos_str (n div 10) \<noteq> [CHR ''0'']"
      using calculation(2,3) by (auto simp: decimal_value_def digit_value_def code_def)
    ultimately show ?thesis using 1(1) [OF False] digit_chars [of "n mod 10"] False by (auto simp: decimal_value_snoc)
  qed
qed

text \<open>The characters that may follow a value.\<close>

definition delimited :: "string \<Rightarrow> bool" where
  "delimited r \<longleftrightarrow> r = [] \<or> hd r = CHR '','' \<or> hd r = CHR '']'' \<or> hd r = CHR 0x7D"

lemma delimited_not_digit: "delimited r \<Longrightarrow> takeWhile is_digit r = [] \<and> dropWhile is_digit r = r"
  by (cases r) (auto simp: delimited_def is_digit_def in_range_def code_def)

lemma takeWhile_digits_append:
  "delimited r \<Longrightarrow> takeWhile is_digit (ds @ r) = takeWhile is_digit ds \<and> dropWhile is_digit (ds @ r) = dropWhile is_digit ds @ r"
  using delimited_not_digit [of r] by (induction ds) auto

lemma unsigned_part_append:
  "unsigned_part s = Some (i, t) \<Longrightarrow> delimited r \<Longrightarrow> unsigned_part (s @ r) = Some (i, t @ r)"
  by (auto simp: unsigned_part_def takeWhile_digits_append split: list.splits if_splits)

lemma integer_part_append:
  assumes "integer_part s = Some (i, t)" and "delimited r"
  shows "integer_part (s @ r) = Some (i, t @ r)"
proof (cases s)
  case (Cons c cs)
  then show ?thesis
    using assms unsigned_part_append [OF _ assms(2), of cs] unsigned_part_append [OF _ assms(2), of "c # cs"]
    by (auto simp: integer_part_def starts_def split: if_splits)
qed (use assms in \<open>simp add: integer_part_def unsigned_part_def starts_def\<close>)

lemma fraction_part_append:
  assumes "delimited r"
  shows "fraction_part (s @ r) = (fst (fraction_part s), snd (fraction_part s) @ r)"
proof (cases s)
  case Nil
  then show ?thesis using assms by (cases r; cases "tl r") (auto simp: fraction_part_def delimited_def)
next
  case (Cons c cs)
  then show ?thesis
    using assms takeWhile_digits_append [OF assms, of "tl cs"] delimited_not_digit [OF assms]
    by (cases cs; cases r) (auto simp: fraction_part_def split: list.splits if_splits)
qed

lemma exponent_part_append:
  assumes "delimited r"
  shows "exponent_part (s @ r) = (fst (exponent_part s), snd (exponent_part s) @ r)"
proof (cases s)
  case Nil
  then show ?thesis using assms by (cases r) (auto simp: exponent_part_def delimited_def)
next
  case (Cons c cs)
  have r: "r = [] \<or> \<not> is_digit (hd r) \<and> hd r \<noteq> CHR ''-'' \<and> hd r \<noteq> CHR ''+''"
    using assms by (auto simp: delimited_def is_digit_def in_range_def code_def)
  note tw = takeWhile_digits_append [OF assms] delimited_not_digit [OF assms]
  show ?thesis
  proof (cases cs)
    case Nil
    then show ?thesis using Cons r by (cases r) (auto simp: exponent_part_def)
  next
    case (Cons d ds)
    then show ?thesis using \<open>s = c # cs\<close> r tw(1) [of ds] tw(1) [of "d # ds"]
      by (cases ds; cases r) (auto simp: exponent_part_def split: if_splits)
  qed
qed

lemma number_parts_append:
  assumes "number_parts s = Some (i, f, e, [])" and "delimited r"
  shows "number_parts (s @ r) = Some (i, f, e, r)"
proof -
  obtain t where t: "integer_part s = Some (i, t)" "fraction_part t = (f, snd (fraction_part t))"
    "exponent_part (snd (fraction_part t)) = (e, [])"
    using assms(1) by (auto simp: number_parts_def Let_def split: option.splits prod.splits)
  show ?thesis
    using integer_part_append [OF t(1) assms(2)] fraction_part_append [OF assms(2), of t]
      exponent_part_append [OF assms(2), of "snd (fraction_part t)"] t
    by (simp add: number_parts_def) (metis fst_conv)
qed

lemma takeWhile_all_digits: "list_all is_digit ds \<Longrightarrow> takeWhile is_digit ds = ds \<and> dropWhile is_digit ds = []"
  by (induction ds) auto

lemma unsigned_part_pos_str: "0 \<le> n \<Longrightarrow> unsigned_part (pos_str n) = Some (pos_str n, [])"
  using pos_str_digits [of n] takeWhile_all_digits [of "tl (pos_str n)"]
  by (cases "pos_str n") (auto simp: unsigned_part_def)

lemma pos_str_no_sign: "0 \<le> n \<Longrightarrow> \<not> starts ''-'' (pos_str n)"
  using pos_str_digits [of n] by (cases "pos_str n") (auto simp: starts_def is_digit_def in_range_def code_def)

lemma number_parts_int_str: "number_parts (int_str n) = Some (int_str n, [], [], [])"
proof -
  have "integer_part (int_str n) = Some (int_str n, [])"
    using unsigned_part_pos_str [of n] unsigned_part_pos_str [of "- n"] pos_str_no_sign [of n]
    by (auto simp: integer_part_def int_str_def starts_def)
  then show ?thesis by (simp add: number_parts_def fraction_part_def exponent_part_def)
qed

lemma parse_int_int_str: "int (length (pos_str \<bar>n\<bar>)) \<le> 4300 \<Longrightarrow> parse_int (int_str n) = Inr n"
  using pos_str_digits [of n] pos_str_digits [of "- n"] pos_str_no_sign [of n]
  by (auto simp: parse_int_def int_str_def Let_def) (auto simp: starts_def)

text \<open>A number starts with a digit or a sign followed by a digit, so no other rule of the grammar applies to it.\<close>

lemma unsigned_part_head: "unsigned_part s = Some x \<Longrightarrow> s \<noteq> [] \<and> is_digit (hd s)"
proof -
  have "is_digit (CHR ''0'')" by code_simp
  then show "unsigned_part s = Some x \<Longrightarrow> ?thesis" by (auto simp: unsigned_part_def split: list.splits if_splits)
qed

definition number_head :: "string \<Rightarrow> bool" where
  "number_head s \<longleftrightarrow> s \<noteq> [] \<and> (is_digit (hd s) \<or> hd s = CHR ''-'' \<and> tl s \<noteq> [] \<and> is_digit (hd (tl s)))"

lemma integer_part_head: "integer_part s = Some x \<Longrightarrow> number_head s"
  by (cases s) (auto simp: number_head_def integer_part_def starts_def split: if_splits dest!: unsigned_part_head)

lemma digit_not: "is_digit d \<Longrightarrow> d \<notin> set [CHR 0x7B, CHR ''['', CHR 0x22, CHR ''n'', CHR ''t'', CHR ''f'', CHR ''N'', CHR ''I'',
    CHR '' '', CHR 9, CHR 10, CHR 13, CHR ''-'', CHR '']'']"
  by (auto simp: is_digit_def in_range_def code_def)

lemma number_head_dispatch:
  assumes "number_head s"
  shows "parse_value fparse (Suc n) k (s @ r) = scan_number fparse (s @ r)" and "\<not> is_json_space (hd s)"
proof -
  have *: "parse_value fparse (Suc n) k (s @ r) = scan_number fparse (s @ r) \<and> \<not> is_json_space (hd s)"
  proof (cases "is_digit (hd s)")
    case True
    then obtain d ds where "s = d # ds" using assms by (cases s) (auto simp: number_head_def)
    then show ?thesis using digit_not [of d] True by (simp add: scan_scalar_def starts_def is_json_space_def)
  next
    case False
    then obtain d ds where "s = CHR ''-'' # d # ds" "is_digit d"
      using assms by (cases s; cases "tl s") (auto simp: number_head_def)
    then show ?thesis using digit_not [of d] by (simp add: scan_scalar_def starts_def is_json_space_def)
  qed
  then show "parse_value fparse (Suc n) k (s @ r) = scan_number fparse (s @ r)" "\<not> is_json_space (hd s)" by blast+
qed

text \<open>\<open>parses\<close>: text that the parser reads as one value, whatever delimiter follows it.\<close>

definition parses :: "(string \<Rightarrow> pyfloat) \<Rightarrow> nat \<Rightarrow> string \<Rightarrow> json \<Rightarrow> bool" where
  "parses fparse k t v \<longleftrightarrow> t \<noteq> [] \<and> \<not> is_json_space (hd t) \<and> hd t \<noteq> CHR '']'' \<and>
     (\<forall>n r. delimited r \<longrightarrow> 2 * length t < n \<longrightarrow> parse_value fparse n k (t @ r) = Inr (v, r))"

lemma parsesI:
  "t \<noteq> [] \<Longrightarrow> \<not> is_json_space (hd t) \<Longrightarrow> hd t \<noteq> CHR '']'' \<Longrightarrow>
     (\<And>n r. delimited r \<Longrightarrow> parse_value fparse (Suc n) k (t @ r) = Inr (v, r)) \<Longrightarrow> parses fparse k t v"
  unfolding parses_def by (metis Suc_pred bot_nat_0.not_eq_extremum not_less_zero)

lemma number_head_plain: "number_head s \<Longrightarrow> s \<noteq> [] \<and> hd s \<noteq> CHR '']''"
  using digit_not [of "hd s"] by (auto simp: number_head_def)

lemma parses_number:
  assumes "number_parts s = Some (i, f, e, [])"
    and "\<And>r. delimited r \<Longrightarrow> scan_number fparse (s @ r) = Inr (v, r)"
  shows "parses fparse k s v"
proof -
  have h: "number_head s" using assms(1) by (auto simp: number_parts_def split: option.splits intro: integer_part_head)
  show ?thesis
  proof (rule parsesI)
    fix n r assume "delimited r"
    then show "parse_value fparse (Suc n) k (s @ r) = Inr (v, r)" unfolding number_head_dispatch(1) [OF h] by (rule assms(2))
  qed (use number_head_plain [OF h] number_head_dispatch(2) [OF h] in blast)+
qed

lemma parses_int: "int (length (pos_str \<bar>n\<bar>)) \<le> 4300 \<Longrightarrow> parses fparse k (int_str n) (JInt n)"
  using number_parts_append [OF number_parts_int_str]
  by (intro parses_number [OF number_parts_int_str]) (simp add: scan_number_def parse_int_int_str)

lemma integer_part_text: "integer_part s = Some (i, r) \<Longrightarrow> i @ r = s"
  by (cases s) (auto simp: integer_part_def unsigned_part_def starts_def split: if_splits list.splits)

lemma fraction_part_text: "fraction_part s = (f, r) \<Longrightarrow> f @ r = s"
  by (auto simp: fraction_part_def split: list.splits if_splits)

lemma exponent_part_text: "exponent_part s = (e, r) \<Longrightarrow> e @ r = s"
  by (auto simp: exponent_part_def Let_def split: list.splits if_splits prod.splits)

lemma number_parts_text: "number_parts s = Some (i, f, e, r) \<Longrightarrow> i @ f @ e @ r = s"
  by (auto simp: number_parts_def Let_def split: option.splits prod.splits
      dest!: integer_part_text fraction_part_text exponent_part_text)

lemma parses_float:
  assumes "float_reads_back frepr fparse q"
  shows "parses fparse k (frepr q) (JFloat (Fin q))"
proof -
  obtain i f e where p: "number_parts (frepr q) = Some (i, f, e, [])" "f \<noteq> [] \<or> e \<noteq> []" and q: "fparse (frepr q) = Fin q"
    using assms by (auto simp: float_reads_back_def)
  show ?thesis
    using number_parts_append [OF p(1)] p q number_parts_text [OF p(1)]
    by (intro parses_number [OF p(1)]) (auto simp: scan_number_def)
qed

lemma parses_finite: "is_finite f \<Longrightarrow> float_reads_back frepr fparse (the_fin f) \<Longrightarrow> parses fparse k (frepr (the_fin f)) (JFloat f)"
  by (cases f) (auto intro: parses_float)

lemma parses_string: "parses fparse k (json_string s) (JStr s)"
proof (rule parsesI)
  fix n r show "parse_value fparse (Suc n) k (json_string s @ r) = Inr (JStr s, r)"
    using scan_escaped_string [of s r] by (simp add: json_string_def scan_scalar_def starts_def)
qed (simp_all add: json_string_def is_json_space_def)

lemma parses_literals:
  "parses fparse k ''null'' JNull" "parses fparse k ''true'' (JBool True)" "parses fparse k ''false'' (JBool False)"
  by (rule parsesI; simp add: scan_scalar_def starts_def is_json_space_def)+

lemma skip_ws_none: "s \<noteq> [] \<Longrightarrow> \<not> is_json_space (hd s) \<Longrightarrow> skip_ws s = s"
  by (cases s) (auto simp: skip_ws_def)

lemma skip_ws_delim: "skip_ws (CHR '','' # s) = CHR '','' # s" "skip_ws (CHR '']'' # s) = CHR '']'' # s"
  "skip_ws (CHR 0x7D # s) = CHR 0x7D # s" "skip_ws (CHR '':'' # s) = CHR '':'' # s"
  by (simp_all add: skip_ws_def is_json_space_def)

lemma delimited_Cons: "delimited (CHR '','' # s)" "delimited (CHR '']'' # s)" "delimited (CHR 0x7D # s)"
  by (simp_all add: delimited_def)

lemma parsesD: "parses fparse k t v \<Longrightarrow> delimited r \<Longrightarrow> 2 * length t < n \<Longrightarrow> parse_value fparse n k (t @ r) = Inr (v, r)"
  by (simp add: parses_def)

lemma parses_skip_ws: "parses fparse k t v \<Longrightarrow> skip_ws (t @ r) = t @ r"
  by (rule skip_ws_none) (auto simp: parses_def)

lemma join_Cons: "ws \<noteq> [] \<Longrightarrow> join sep (w # ws) = w @ sep @ join sep ws"
  by (cases ws) auto

lemma parse_joined_items:
  assumes "list_all2 (parses fparse k) ws vs" and "ws \<noteq> []" and "2 * length (join '','' ws) + 1 < n"
  shows "parse_items fparse n k (join '','' ws @ CHR '']'' # r) = Inr (vs, r) \<and>
    skip_ws (join '','' ws @ CHR '']'' # r) = join '','' ws @ CHR '']'' # r"
  using assms
proof (induction ws vs arbitrary: n rule: list_all2_induct)
  case (Cons w ws v vs)
  from Cons.prems(2) obtain m where n: "n = Suc m" by (cases n) auto
  show ?case
  proof (cases "ws = []")
    case True
    with Cons have "vs = []" and w: "parse_value fparse m k (w @ CHR '']'' # r) = Inr (v, CHR '']'' # r)"
      using parsesD [OF Cons.hyps(1) delimited_Cons(2), of m r] n by auto
    then show ?thesis using n True parses_skip_ws [OF Cons.hyps(1)] by (simp add: skip_ws_delim)
  next
    case False
    have l: "2 * length w < m" "2 * length (join '','' ws) + 1 < m" using Cons.prems(2) n False by (auto simp: join_Cons)
    have "parse_value fparse m k (w @ CHR '','' # join '','' ws @ CHR '']'' # r) = Inr (v, CHR '','' # join '','' ws @ CHR '']'' # r)"
      by (rule parsesD [OF Cons.hyps(1) delimited_Cons(1) l(1)])
    then show ?thesis
      using Cons.IH [OF False l(2)] n False parses_skip_ws [OF Cons.hyps(1)] by (simp add: join_Cons skip_ws_delim)
  qed
qed simp

definition member_text :: "string \<times> string \<Rightarrow> string" where
  "member_text p = json_string (fst p) @ '':'' @ snd p"

lemma member_text_eq: "(\<lambda>(k, w). json_string k @ '':'' @ w) = member_text"
  by (auto simp: member_text_def fun_eq_iff)

lemma scan_json_string: "starts [CHR 0x22] (json_string s @ r) \<and> scan_string (tl (json_string s @ r)) = Inr (s, r)"
  using scan_escaped_string [of s r] by (simp add: json_string_def starts_def)

lemma skip_ws_member: "skip_ws (member_text p @ r) = member_text p @ r"
  by (rule skip_ws_none) (simp_all add: member_text_def json_string_def is_json_space_def)

lemma parse_one_member:
  assumes "parses fparse k (snd p) v" and "delimited r" and "2 * length (member_text p) < Suc n"
  shows "parse_members fparse (Suc n) k (member_text p @ r) =
    (case skip_ws r of
       [] \<Rightarrow> Inl Malformed
     | c # cs \<Rightarrow>
         if c = CHR 0x7D then Inr ([(fst p, v)], cs)
         else if c = CHR '','' then
           and_then (parse_members fparse n k (skip_ws cs)) (\<lambda>(ps, rest'). Inr ((fst p, v) # ps, rest'))
         else Inl Malformed)"
proof -
  have "2 * length (snd p) < n" using assms(3) by (simp add: member_text_def json_string_def)
  then have "parse_value fparse n k (snd p @ r) = Inr (v, r)" by (rule parsesD [OF assms(1,2)])
  then show ?thesis
    using scan_json_string [of "fst p" "CHR '':'' # snd p @ r"] parses_skip_ws [OF assms(1)]
    by (simp add: member_text_def skip_ws_delim starts_def)
qed

lemma parse_joined_members:
  assumes "list_all2 (\<lambda>p q. fst p = fst q \<and> parses fparse k (snd p) (snd q)) ps qs" and "ps \<noteq> []"
    and "2 * length (join '','' (map member_text ps)) + 1 < n"
  shows "parse_members fparse n k (join '','' (map member_text ps) @ CHR 0x7D # r) = Inr (qs, r) \<and>
    skip_ws (join '','' (map member_text ps) @ CHR 0x7D # r) = join '','' (map member_text ps) @ CHR 0x7D # r"
  using assms
proof (induction ps qs arbitrary: n rule: list_all2_induct)
  case (Cons p ps q qs)
  from Cons.prems(2) obtain m where n: "n = Suc m" by (cases n) auto
  have q: "q = (fst p, snd q)" using Cons.hyps(1) by (cases q) auto
  note one = parse_one_member [OF conjunct2 [OF Cons.hyps(1)]]
  show ?case
  proof (cases "ps = []")
    case True
    with Cons have "qs = []" by simp
    moreover have "2 * length (member_text p) < Suc m" using Cons.prems(2) n True by simp
    ultimately show ?thesis using one [OF delimited_Cons(3)] n True q by (simp add: skip_ws_delim skip_ws_member)
  next
    case False
    have j: "join '','' (map member_text (p # ps)) = member_text p @ '','' @ join '','' (map member_text ps)"
      using False by (simp add: join_Cons)
    have l: "2 * length (member_text p) < Suc m" "2 * length (join '','' (map member_text ps)) + 1 < m"
      using Cons.prems(2) n j by auto
    show ?thesis
      using Cons.IH [OF False l(2)] one [OF delimited_Cons(1) l(1)] n j q by (simp add: skip_ws_delim skip_ws_member)
  qed
qed simp

lemma list_all2_insort:
  assumes "list_all2 (\<lambda>p q. fst p = fst q \<and> R p q) ps qs" and "fst p = fst q" and "R p q"
  shows "list_all2 (\<lambda>p q. fst p = fst q \<and> R p q) (insort_key fst p ps) (insort_key fst q qs)"
  using assms by (induction rule: list_all2_induct) auto

lemma list_all2_sort:
  "list_all2 (\<lambda>p q. fst p = fst q \<and> R p q) ps qs \<Longrightarrow> list_all2 (\<lambda>p q. fst p = fst q \<and> R p q) (sort_key fst ps) (sort_key fst qs)"
  by (induction rule: list_all2_induct) (auto simp: list_all2_insort)

text \<open>The stack a value at depth \<open>d\<close> needs: 65 nested containers are never exceeded by an accepted value.\<close>

lemma parses_list:
  assumes "list_all2 (parses fparse (k - 1)) ws vs" and "0 < k"
  shows "parses fparse k (''['' @ join '','' ws @ '']'') (JList vs)"
  unfolding parses_def
proof (intro conjI allI impI)
  fix n r assume l: "2 * length (''['' @ join '','' ws @ '']'') < n"
  then obtain m where n: "n = Suc m" by (cases n) auto
  show "parse_value fparse n k ((''['' @ join '','' ws @ '']'') @ r) = Inr (JList vs, r)"
  proof (cases "ws = []")
    case True
    then show ?thesis using n assms by (simp add: starts_def skip_ws_delim)
  next
    case False
    have "2 * length (join '','' ws) + 1 < m" using l n by simp
    note p = parse_joined_items [OF assms(1) False this, of r]
    have "\<not> starts '']'' (join '','' ws @ CHR '']'' # r)"
      using assms(1) False by (cases ws; cases "tl ws") (auto simp: list_all2_Cons1 parses_def starts_def hd_append neq_Nil_conv)
    then show ?thesis using n p assms(2) by (simp add: starts_def)
  qed
qed (simp_all add: is_json_space_def)

lemma parses_object:
  assumes "list_all2 (\<lambda>p q. fst p = fst q \<and> parses fparse (k - 1) (snd p) (snd q)) ps qs" and "0 < k"
    and "distinct (map fst qs)"
  shows "parses fparse k ([CHR 0x7B] @ join '','' (map member_text ps) @ [CHR 0x7D]) (JObj qs)"
  unfolding parses_def
proof (intro conjI allI impI)
  fix n r assume l: "2 * length ([CHR 0x7B] @ join '','' (map member_text ps) @ [CHR 0x7D]) < n"
  then obtain m where n: "n = Suc m" by (cases n) auto
  show "parse_value fparse n k (([CHR 0x7B] @ join '','' (map member_text ps) @ [CHR 0x7D]) @ r) = Inr (JObj qs, r)"
  proof (cases "ps = []")
    case True
    then show ?thesis using n assms by (simp add: starts_def skip_ws_delim)
  next
    case False
    have "2 * length (join '','' (map member_text ps)) + 1 < m" using l n by simp
    note p = parse_joined_members [OF assms(1) False this, of r]
    have "\<not> starts [CHR 0x7D] (join '','' (map member_text ps) @ CHR 0x7D # r)"
      using False by (cases ps; cases "tl ps") (auto simp: member_text_def json_string_def starts_def)
    then show ?thesis using n p assms(2,3) by (simp add: starts_def object_pairs_def)
  qed
qed (simp_all add: is_json_space_def)

lemma sort_keys_distinct: "distinct (map fst (sort_key fst (map (\<lambda>m. (fst m, g m)) ms))) \<longleftrightarrow> distinct (map fst ms)"
proof -
  have "mset (map fst (sort_key fst (map (\<lambda>m. (fst m, g m)) ms))) = mset (map fst ms)" by (simp add: multiset.map_comp comp_def)
  then show ?thesis by (rule mset_eq_imp_distinct_iff)
qed

lemma dumps_parses:
  "accepted d v \<Longrightarrow> 65 - d \<le> int k \<Longrightarrow> floats_read_back frepr fparse v \<Longrightarrow> dumps frepr v = Inr t \<Longrightarrow> parses fparse k t (canon v)"
proof (induction v arbitrary: d k t rule: canon.induct)
  case (1 ms)
  then obtain ps where ps: "dumps_members frepr ms = Inr ps"
    and t: "t = [CHR 0x7B] @ join '','' (map member_text (sort_key fst ps)) @ [CHR 0x7D]"
    by (auto simp del: append.simps simp add: and_then_Inr_iff member_text_eq)
  have k: "0 < k" "65 - (d + 1) \<le> int (k - 1)" using 1(2,3) by (auto simp: max_depth_def)
  have ih: "parses fparse (k - 1) w (canon (snd m))" if "m \<in> set ms" "dumps frepr (snd m) = Inr w" for m w
    using 1(1) [OF that(1), of "d + 1" "k - 1" w] 1(2,4) k(2) that by (simp add: list_all_iff)
  from dumps_members_Inr [THEN iffD1, OF ps]
  have "list_all2 (\<lambda>m p. fst p = fst m \<and> parses fparse (k - 1) (snd p) (canon (snd m))) ms ps"
    by (rule list.rel_mono_strong) (metis ih)
  then have "list_all2 (\<lambda>p q. fst p = fst q \<and> parses fparse (k - 1) (snd p) (snd q)) ps (map (\<lambda>m. (fst m, canon (snd m))) ms)"
    by (subst list.rel_flip [symmetric]) (simp add: list_all2_map1)
  from parses_object [OF list_all2_sort [OF this] k(1)] show ?case using 1(2) t by (simp add: sort_keys_distinct del: map_map)
next
  case (2 vs)
  then obtain ws where ws: "dumps_items frepr vs = Inr ws" and t: "t = ''['' @ join '','' ws @ '']''"
    by (auto simp: and_then_Inr_iff)
  have k: "0 < k" "65 - (d + 1) \<le> int (k - 1)" using 2(2,3) by (auto simp: max_depth_def)
  have "list_all2 (parses fparse (k - 1)) ws (map canon vs)"
    using dumps_items_Inr [THEN iffD1, OF ws] 2(1) [of _ "d + 1" "k - 1"] 2(2,4) k(2)
    by (simp add: list_all2_conv_all_nth list_all_iff)
  from parses_list [OF this k(1)] show ?case using t by simp
qed (auto simp: parses_literals parses_string int_repr_def split: if_splits intro: parses_int parses_finite)

section \<open>Properties\<close>

lemma accepted_dicts: "accepted d v \<Longrightarrow> json_dicts v"
  by (induction d v rule: accepted.induct) (auto simp: list_all_iff)

lemma canon_dicts: "json_dicts v \<Longrightarrow> json_dicts (canon v)"
  by (induction v rule: canon.induct) (auto simp: list_all_iff sort_keys_distinct)

lemma canon_same: "json_dicts v \<Longrightarrow> json_same v (canon v)"
proof (induction v rule: canon.induct)
  case (1 ms)
  have "map_of (sort_key fst (map (\<lambda>m. (fst m, canon (snd m))) ms)) (fst m) = Some (canon (snd m))" if "m \<in> set ms" for m
    using 1(2) that by (intro map_of_is_SomeI) (auto simp: sort_keys_distinct)
  with 1 show ?case by (auto simp: list_all_iff)
next
  case (2 vs)
  then show ?case by (auto simp: list_all_iff list_all2_conv_all_nth)
qed auto

lemma skip_ws_parsed: "parses fparse k t v \<Longrightarrow> skip_ws t = t"
  using parses_skip_ws [of fparse k t v "[]"] by simp

lemma canonical_reads_back:
  assumes "canonical_json_bytes frepr m v = Inr b" and "floats_read_back frepr fparse v"
    and "65 \<le> stack" and "int (length b) \<le> maximum"
  shows "strict_json_loads fparse stack maximum b = Inr (canon v) \<and> json_same v (canon v) \<and> canonical_json_bytes frepr m (canon v) = Inr b"
proof -
  from assms(1) obtain t where acc: "accepted 0 v" and t: "dumps frepr v = Inr t" and b: "b = utf8 t"
    by (auto simp: canonical_json_bytes_Inr)
  have p: "parses fparse stack t (canon v)" using dumps_parses [OF acc _ assms(2) t] assms(3) by simp
  have "parse_value fparse (Suc (2 * length t)) stack (t @ []) = Inr (canon v, [])"
    by (rule parsesD [OF p]) (simp_all add: delimited_def)
  then have "json_loads fparse stack t = Inr (canon v)"
    by (simp add: json_loads_def skip_ws_parsed [OF p]) (simp add: skip_ws_def)
  note same = canon_same [OF accepted_dicts [OF acc]]
  from json_same_canonical [OF same acc canon_dicts [OF accepted_dicts [OF acc]], of frepr]
  have "accepted 0 (canon v)" "dumps frepr (canon v) = Inr t" using t by blast+
  moreover from this have "strict_json_loads fparse stack maximum b = Inr (canon v)"
    using \<open>json_loads fparse stack t = Inr (canon v)\<close> assms(4) b
    using normalize_accepted(1) by (simp add: strict_json_loads_def utf8_decode_utf8)
  ultimately show ?thesis using same assms(1) b by (auto simp: canonical_json_bytes_Inr)
qed

text \<open>
  C27. Canonical bytes read back: the bytes stored for a value are parsed by the strict reader into the same value, up
  to the order of object members, and re-encoding what was read gives the same bytes, so digests computed before
  and after a round trip through storage agree.
\<close>

theorem canonical_json_roundtrip:
  assumes "canonical_json_bytes frepr m v = Inr b" and "floats_read_back frepr fparse v"
    and "65 \<le> stack" and "int (length b) \<le> maximum"
  shows "\<exists>w. strict_json_loads fparse stack maximum b = Inr w \<and> json_same v w \<and> canonical_json_bytes frepr m w = Inr b"
  using canonical_reads_back [OF assms] by blast

definition sample_value :: json where
  "sample_value = JObj [(''b'', JList [JInt (- 12), JFloat (Fin (1 / 2)), JNull]), (''a'', JStr [CHR 0x22, CHR 0xE9, CHR 10])]"

theorem canonical_json_roundtrip_witness:
  "\<exists>b w. canonical_json_bytes (\<lambda>_. ''0.5'') 1000 sample_value = Inr b \<and>
     strict_json_loads (\<lambda>_. Fin (1 / 2)) 65 1000 b = Inr w \<and> json_same sample_value w"
proof -
  let ?r = "canonical_json_bytes (\<lambda>_. ''0.5'') 1000 sample_value"
  have "returns ?r" by code_simp
  then obtain b where b: "?r = Inr b" by (auto simp: returns_iff)
  moreover have "number_parts ''0.5'' = Some (''0'', ''.5'', [], [])" by code_simp
  then have "float_reads_back (\<lambda>_. ''0.5'') (\<lambda>_. Fin (1 / 2)) (1 / 2)" by (simp add: float_reads_back_def)
  then have "floats_read_back (\<lambda>_. ''0.5'') (\<lambda>_. Fin (1 / 2)) sample_value" by (simp add: sample_value_def)
  moreover have "int (length b) \<le> 1000" using b by (simp add: canonical_json_bytes_Inr)
  ultimately show ?thesis using canonical_json_roundtrip [of "\<lambda>_. ''0.5''" 1000 sample_value b _ 65 1000] by fastforce
qed

text \<open>
  Strict parsing always answers, and one malformed input escapes the reviewed error: every parse ends with
  a value or an exception within the fuel, but an integer literal of more than 4300 digits raises a bare ValueError
  instead of the configuration error the function promises for malformed input.
\<close>

lemma strict_loads_long_integer:
  assumes "list_all is_digit ds" and "ds \<noteq> []" and "hd ds \<noteq> CHR ''0''" and "4300 < int (length ds)" and "int (length ds) \<le> maximum"
  shows "json_loads fparse stack s \<noteq> Inl OutOfFuel \<and> strict_json_loads fparse stack maximum ds = Inl ValueError"
proof -
  obtain d es where ds: "ds = d # es" using assms(2) by (cases ds) auto
  have u: "unsigned_part ds = Some (ds, [])"
    using assms(1,3) ds takeWhile_all_digits [of es] by (auto simp: unsigned_part_def)
  have ns: "\<not> starts ''-'' ds" using assms(1) ds digit_not [of d] by (auto simp: starts_def)
  have parts: "number_parts ds = Some (ds, [], [], [])"
    using u ns by (simp add: number_parts_def integer_part_def fraction_part_def exponent_part_def)
  have h: "number_head ds" using assms(1) ds by (simp add: number_head_def)
  have "parse_value fparse (Suc n) stack (ds @ []) = Inl (Raised ValueError)" for n
    unfolding number_head_dispatch(1) [OF h] using parts ns assms(4) by (simp add: scan_number_def parse_int_def)
  then have "json_loads fparse stack ds = Inl (Raised ValueError)"
    using skip_ws_none [OF assms(2) number_head_dispatch(2) [OF h]] by (simp add: json_loads_def del: parse_value.simps)
  moreover have "utf8_decode ds = Inr ds" using assms(1)
    by (induction ds) (auto simp: is_digit_def in_range_def)
  ultimately show ?thesis using loads_fuel assms(5) by (simp add: strict_json_loads_def)
qed

end
