(* ===== verification/Handler_Executor.thy ===== *)
theory Handler_Executor
  imports Leasing Json_Parse
begin

text \<open>
  \<^verbatim>\<open>handlers/executor.py\<close>: execution of a claimed delivery by the handler its snapshot names, under an
  effective principal that never exceeds the recorded authority. The authorization resolver and
  the handlers themselves are parameters, as are the float conversion and the recursion limit of the JSON reader.
\<close>

section \<open>Effective authority\<close>

type_synonym resolver = "principal \<Rightarrow> string list \<Rightarrow> authorization_mode \<Rightarrow> string list result"

fun as_str :: "json \<Rightarrow> string option" where
  "as_str (JStr s) = Some s"
| "as_str _ = None"

definition string_list :: "json \<Rightarrow> string list result" where
  "string_list v =
     (case v of
        JList vs \<Rightarrow> if list_ex (\<lambda>x. as_str x = None) vs
                    then config_error ''Authority scope snapshot is invalid.''
                    else Inr (map (\<lambda>x. the (as_str x)) vs)
      | _ \<Rightarrow> config_error ''Authority scope snapshot is invalid.'')"

definition authority_item :: "(string \<times> json) list \<Rightarrow> string \<Rightarrow> json result" where
  "authority_item snapshot k =
     (case map_of snapshot k of None \<Rightarrow> config_error ''Authority snapshot is invalid.'' | Some v \<Rightarrow> Inr v)"

definition parse_mode_json :: "json \<Rightarrow> authorization_mode result" where
  "parse_mode_json v =
     (case as_str v of None \<Rightarrow> config_error ''Unsupported authorization mode.'' | Some s \<Rightarrow> parse_mode s)"

definition snapshot_age_exceeded :: "py_datetime \<Rightarrow> principal \<Rightarrow> (string \<times> json) list \<Rightarrow> bool result" where
  "snapshot_age_exceeded now origin snapshot =
     (case map_of snapshot ''maximum_snapshot_age_seconds'' of
        Some (JInt maximum_age) \<Rightarrow>
          and_then (timedelta_int maximum_age) (\<lambda>limit. Inr (limit < instant now - instant (issued_at origin)))
      | _ \<Rightarrow> config_error ''Snapshot authority age is invalid.'')"

definition attenuate :: "principal \<Rightarrow> string list \<Rightarrow> string list \<Rightarrow> principal result" where
  "attenuate origin required effective =
     (if \<not> fs_subset required effective then Inl AuthorizationDenied
      else principal_post_init (origin\<lparr>scopes := effective, credential_ref := None\<rparr>))"

definition service_principal :: "py_datetime \<Rightarrow> principal \<Rightarrow> string \<Rightarrow> string list \<Rightarrow> principal result" where
  "service_principal now origin policy effective = principal_post_init
     \<lparr>p_tenant_id = p_tenant_id origin, subject_id = ''service:'' @ policy, scopes = effective,
      actor_id = Some (subject_id origin), client_id = client_id origin, issued_at = now,
      authentication_time = None, expires_at = None, credential_ref = None\<rparr>"

definition effective_principal ::
  "resolver option \<Rightarrow> py_datetime \<Rightarrow> principal \<Rightarrow> (string \<times> json) list \<Rightarrow> principal result" where
  "effective_principal resolver now origin snapshot =
     and_then (authority_item snapshot ''mode'') (\<lambda>m.
     and_then (parse_mode_json m) (\<lambda>mode.
     and_then (authority_item snapshot ''required_scopes'') (\<lambda>r.
     and_then (string_list r) (\<lambda>scopes'.
       let required = frozenset scopes' in
       case mode of
         Snapshot \<Rightarrow>
           and_then (snapshot_age_exceeded now origin snapshot) (\<lambda>exceeded.
             if exceeded then Inl AuthorizationExpired
             else attenuate origin required (fs_inter (scopes origin) required))
       | Revalidate \<Rightarrow>
           (case resolver of
              None \<Rightarrow> config_error ''Revalidation requires an authorization resolver.''
            | Some resolve \<Rightarrow>
                and_then (resolve origin required mode) (\<lambda>current.
                  attenuate origin required (fs_inter (fs_inter (frozenset current) (scopes origin)) required)))
       | ServicePolicy \<Rightarrow>
           (case (map_of snapshot ''service_policy'', map_of snapshot ''service_capabilities'') of
              (Some (JStr policy), Some capabilities) \<Rightarrow>
                if capabilities = JNull then config_error ''Service authority snapshot is invalid.''
                else and_then (string_list capabilities) (\<lambda>cs.
                  let effective = fs_inter (frozenset cs) required in
                  if \<not> fs_subset required effective then Inl AuthorizationDenied
                  else service_principal now origin policy effective)
            | _ \<Rightarrow> config_error ''Service authority snapshot is invalid.'')))))"

section \<open>Execution\<close>

record effect_context =
  x_event :: event
  x_principal :: principal
  x_delivery_id :: uuid
  x_route_key :: string
  x_route_version :: int
  x_attempt_number :: int

definition effect_context_post_init :: "effect_context \<Rightarrow> effect_context result" where
  "effect_context_post_init x =
     (if \<not> stable_key (x_route_key x) then config_error ''Effect context route_key is invalid.''
      else if \<not> 0 < x_route_version x then config_error ''Effect context route_version must be positive.''
      else if \<not> 0 < x_attempt_number x then config_error ''Effect context attempt_number must be positive.''
      else Inr x)"

definition snapshot_object :: "(string \<times> json) list \<Rightarrow> string \<Rightarrow> string \<Rightarrow> (string \<times> json) list result" where
  "snapshot_object snapshot k message =
     (case map_of snapshot k of Some (JObj d) \<Rightarrow> Inr d | _ \<Rightarrow> config_error message)"

definition new_executor :: "registry \<Rightarrow> unit result" where
  "new_executor g =
     ensure (reg_frozen g) (ConfigurationError ''Handler registry must be frozen before execution.'')"

text \<open>Everything up to the handler call: the handler, its context and its time budget.\<close>

definition prepare_execution ::
  "registry \<Rightarrow> resolver option \<Rightarrow> (string \<Rightarrow> pyfloat) \<Rightarrow> nat \<Rightarrow> py_datetime \<Rightarrow> claimed \<Rightarrow>
     (handler \<times> effect_context \<times> rat) result" where
  "prepare_execution g resolver fparse stack now c =
     (let snapshot = c_route_snapshot c; ev = c_event c in
      and_then (snapshot_object snapshot ''destination'' ''Handler delivery snapshot is invalid.'') (\<lambda>destination.
      and_then (snapshot_object snapshot ''authority'' ''Handler delivery snapshot is invalid.'') (\<lambda>authority.
      and_then (snapshot_object snapshot ''retry'' ''Handler retry snapshot is invalid.'') (\<lambda>retry_value.
      and_then (case map_of destination ''key'' of
                  Some (JStr k) \<Rightarrow> Inr k | _ \<Rightarrow> config_error ''Handler destination is invalid.'') (\<lambda>key.
      and_then (resolve_handler key (dr_route_version (c_delivery c)) g) (\<lambda>h.
      and_then (from_envelope (er_principal ev)) (\<lambda>origin.
      and_then (effective_principal resolver now origin authority) (\<lambda>effective.
        if take (length canonical_prefix) (er_payload_canonical ev) \<noteq> canonical_prefix
        then config_error ''Event canonical payload revision is unsupported.''
        else and_then (strict_json_loads fparse stack default_max_payload_bytes (drop (length canonical_prefix) (er_payload_canonical ev))) (\<lambda>payload.
             and_then (event_post_init (event_of_record ev\<lparr>ev_data := payload\<rparr>)) (\<lambda>e.
             and_then (effect_context_post_init
               \<lparr>x_event = e, x_principal = effective, x_delivery_id = dr_delivery_id (c_delivery c),
                x_route_key = dr_route_key (c_delivery c), x_route_version = dr_route_version (c_delivery c),
                x_attempt_number = ar_attempt_number (c_attempt c)\<rparr>) (\<lambda>x.
             and_then (policy_from_dict retry_value) (\<lambda>policy.
               Inr (h, x, the_fin (handler_timeout_seconds policy))))))))))))))"

text \<open>
  The handler runs inside the principal context with its timeout: \<open>invoke h x limit ctx\<close> is its result and the
  context variable it leaves, \<open>Inl TimeoutError\<close> when the limit passes.
\<close>

definition execute ::
  "registry \<Rightarrow> resolver option \<Rightarrow> (string \<Rightarrow> pyfloat) \<Rightarrow> nat \<Rightarrow> py_datetime \<Rightarrow>
     (handler \<Rightarrow> effect_context \<Rightarrow> rat \<Rightarrow> context_var \<Rightarrow> unit result \<times> context_var) \<Rightarrow> claimed \<Rightarrow> context_var \<Rightarrow>
     unit result \<times> context_var" where
  "execute g resolver fparse stack now invoke c ctx =
     (case prepare_execution g resolver fparse stack now c of
        Inl e \<Rightarrow> (Inl e, ctx)
      | Inr (h, x, limit) \<Rightarrow> principal_context (x_principal x) (invoke h x limit) ctx)"

section \<open>Lemmas\<close>

lemma attenuate_Inr:
  assumes "attenuate origin required effective = Inr p"
  shows "set required \<subseteq> set effective \<and> set (scopes p) = set effective \<and> p_tenant_id p = p_tenant_id origin \<and>
    subject_id p = subject_id origin \<and> credential_ref p = None \<and> valid_principal p"
  using assms by (auto simp: attenuate_def principal_post_init_Inr split: if_splits)

lemma service_principal_Inr:
  assumes "service_principal now origin policy effective = Inr p"
  shows "set (scopes p) = set effective \<and> p_tenant_id p = p_tenant_id origin \<and> subject_id p = ''service:'' @ policy \<and>
    actor_id p = Some (subject_id origin) \<and> credential_ref p = None \<and> valid_principal p"
  using assms by (auto simp: service_principal_def principal_post_init_Inr)

lemma effective_authority_tenant:
  "effective_principal resolver now origin authority = Inr p \<Longrightarrow> p_tenant_id p = p_tenant_id origin"
  by (auto simp: effective_principal_def and_then_Inr_iff Let_def
      split: authorization_mode.splits option.splits json.splits if_splits
      dest!: attenuate_Inr service_principal_Inr) (metis authorization_mode.exhaust)+

section \<open>Properties\<close>

text \<open>
  C22. Authority never expands: the principal a handler runs under stays in the origin's tenant, carries no
  credential reference, and holds exactly the scopes the route requires; outside service-policy mode these are
  also scopes the origin held at emission (and, when revalidating, still holds); in service-policy mode they
  are covered by the capabilities pinned in the snapshot and the origin is recorded as the actor.
\<close>

theorem effective_authority_never_expands:
  assumes "effective_principal resolver now origin authority = Inr p"
  shows "\<exists>mode required. parse_mode_json (the (map_of authority ''mode'')) = Inr mode \<and>
    string_list (the (map_of authority ''required_scopes'')) = Inr required \<and>
    set (scopes p) = set required \<and> p_tenant_id p = p_tenant_id origin \<and> credential_ref p = None \<and>
    (mode \<noteq> ServicePolicy \<longrightarrow> set required \<subseteq> set (scopes origin) \<and> subject_id p = subject_id origin) \<and>
    (mode = Snapshot \<longrightarrow> snapshot_age_exceeded now origin authority = Inr False) \<and>
    (mode = Revalidate \<longrightarrow> (\<exists>resolve current. resolver = Some resolve \<and>
       resolve origin (frozenset required) mode = Inr current \<and> set required \<subseteq> set current)) \<and>
    (mode = ServicePolicy \<longrightarrow> actor_id p = Some (subject_id origin) \<and>
       (\<exists>cs. string_list (the (map_of authority ''service_capabilities'')) = Inr cs \<and> set required \<subseteq> set cs))"
proof -
  from assms obtain m r mode required where m: "map_of authority ''mode'' = Some m" "parse_mode_json m = Inr mode"
    and r: "map_of authority ''required_scopes'' = Some r" "string_list r = Inr required"
    by (auto simp: effective_principal_def and_then_Inr_iff authority_item_def split: option.splits)
  show ?thesis
  proof (cases mode)
    case Snapshot
    then have age: "snapshot_age_exceeded now origin authority = Inr False"
      and p: "attenuate origin (frozenset required) (fs_inter (scopes origin) (frozenset required)) = Inr p"
      using assms m r by (auto simp: effective_principal_def and_then_Inr_iff authority_item_def Let_def split: if_splits)
    show ?thesis using Snapshot m r age attenuate_Inr [OF p] by auto
  next
    case Revalidate
    then obtain resolve current where res: "resolver = Some resolve" "resolve origin (frozenset required) mode = Inr current"
      and p: "attenuate origin (frozenset required) (fs_inter (fs_inter (frozenset current) (scopes origin)) (frozenset required)) = Inr p"
      using assms m r by (auto simp: effective_principal_def and_then_Inr_iff authority_item_def Let_def split: option.splits)
    show ?thesis using Revalidate m r res attenuate_Inr [OF p] by auto
  next
    case ServicePolicy
    then obtain policy caps cs where c: "map_of authority ''service_capabilities'' = Some caps" "string_list caps = Inr cs"
      and sub: "set (frozenset required) \<subseteq> set (fs_inter (frozenset cs) (frozenset required))"
      and p: "service_principal now origin policy (fs_inter (frozenset cs) (frozenset required)) = Inr p"
      using assms m r by (auto simp: effective_principal_def and_then_Inr_iff authority_item_def Let_def
          split: option.splits json.splits if_splits)
    show ?thesis using ServicePolicy m r c sub service_principal_Inr [OF p] by auto
  qed
qed

definition sample_authority :: "(string \<times> json) list" where
  "sample_authority = [(''mode'', JStr ''snapshot''), (''required_scopes'', JList [JStr ''orders.read'']),
     (''service_policy'', JNull), (''service_capabilities'', JNull), (''maximum_snapshot_age_seconds'', JInt 60)]"

theorem effective_authority_never_expands_witness:
  "\<exists>p. effective_principal None (Aware 5) (sample_principal 9 [''orders.read'', ''orders.write'']) sample_authority = Inr p \<and>
     set (scopes p) = {''orders.read''} \<and> p_tenant_id p = 9"
proof -
  let ?e = "effective_principal None (Aware 5) (sample_principal 9 [''orders.read'', ''orders.write'']) sample_authority"
  have "returns ?e" by code_simp
  then obtain p where p: "?e = Inr p" by (auto simp: returns_iff)
  have "string_list (the (map_of sample_authority ''required_scopes'')) = Inr [''orders.read'']"
    by (simp add: sample_authority_def string_list_def)
  with effective_authority_never_expands [OF p] p show ?thesis by (auto simp: sample_principal_def)
qed

text \<open>
  A delivery is executed by the handler registered for its snapshot's destination key and its own route
  version, under the effective principal, and the context variable is restored whether the handler returns,
  raises or times out. When preparation fails the handler is not called.
\<close>

lemma execute_runs_registered_handler:
  "snd (execute g resolver fparse stack now invoke c ctx) = ctx \<and>
    (case prepare_execution g resolver fparse stack now c of
       Inl e \<Rightarrow> fst (execute g resolver fparse stack now invoke c ctx) = Inl e
     | Inr (h, x, limit) \<Rightarrow>
         (\<exists>destination key. map_of (c_route_snapshot c) ''destination'' = Some (JObj destination) \<and>
            map_of destination ''key'' = Some (JStr key) \<and>
            map_of (reg_handlers g) (key, dr_route_version (c_delivery c)) = Some h) \<and> reg_frozen g \<and>
         p_tenant_id (x_principal x) = en_tenant_id (er_principal (c_event c)) \<and>
         fst (execute g resolver fparse stack now invoke c ctx) = fst (invoke h x limit (Some (x_principal x))))"
proof (cases "prepare_execution g resolver fparse stack now c")
  case (Inl e)
  then show ?thesis by (simp add: execute_def)
next
  case (Inr y)
  then obtain h x limit where y: "prepare_execution g resolver fparse stack now c = Inr (h, x, limit)" by (cases y) auto
  from y obtain destination authority key origin where
      d: "snapshot_object (c_route_snapshot c) ''destination'' ''Handler delivery snapshot is invalid.'' = Inr destination"
    and k: "(case map_of destination ''key'' of Some (JStr k) \<Rightarrow> Inr k | _ \<Rightarrow> config_error ''Handler destination is invalid.'') = Inr key"
    and h: "resolve_handler key (dr_route_version (c_delivery c)) g = Inr h"
    and o: "from_envelope (er_principal (c_event c)) = Inr origin"
    and e: "effective_principal resolver now origin authority = Inr (x_principal x)"
    unfolding prepare_execution_def Let_def effect_context_post_init_def
    by (auto simp: and_then_Inr_iff split: if_splits)
  have "map_of (c_route_snapshot c) ''destination'' = Some (JObj destination)"
    using d by (auto simp: snapshot_object_def split: option.splits json.splits)
  moreover have "map_of destination ''key'' = Some (JStr key)" using k by (auto split: option.splits json.splits)
  moreover have "map_of (reg_handlers g) (key, dr_route_version (c_delivery c)) = Some h" "reg_frozen g"
    using h by (auto simp: resolve_handler_def split: option.splits if_splits)
  moreover have "p_tenant_id (x_principal x) = en_tenant_id (er_principal (c_event c))"
    using effective_authority_tenant [OF e] o by (auto simp: from_envelope_def principal_post_init_Inr principal_of_envelope_def)
  ultimately show ?thesis
    using y by (auto simp: execute_def principal_context_def bind_principal_def reset_principal_def Let_def split: prod.splits)
qed

end
