(* ===== verification/Observability.thy ===== *)
theory Observability
  imports Python_Time
begin

text \<open>
  \<^verbatim>\<open>observability/events.py\<close>, \<^verbatim>\<open>protocols.py\<close>, \<^verbatim>\<open>delegation.py\<close> and the attribute selection of \<^verbatim>\<open>otel.py\<close>: the
  bounded runtime event vocabulary, the trace lineage kept apart from metric labels, and the safe recording of
  events. A telemetry backend is a function from the event to a result.
\<close>

section \<open>Kinds and lineage\<close>

datatype runtime_event_kind =
    PUBLISHED | CLAIMED | ATTEMPTED | RETRY_SCHEDULED | SUCCEEDED | DEAD | LEASE_LOST | RECONCILED | REPLAYED
  | WEBHOOK_ATTEMPTED | WEBHOOK_PAUSED | WEBHOOK_PRUNED | WEBHOOK_SECRET_CHANGED
  | TASKIQ_PREPARED | TASKIQ_ENQUEUED | TASKIQ_EXECUTED
  | COMMAND_STARTED | COMMAND_COMPLETED | COMMAND_REPLAYED | COMMAND_CONFLICT | COMMAND_PRUNED
  | DELEGATION_ISSUED | DELEGATION_ALLOWED | DELEGATION_DENIED
  | BACKLOG_OBSERVED | CONTROL_PLANE_FAILED

fun kind_value :: "runtime_event_kind \<Rightarrow> string" where
  "kind_value PUBLISHED = ''published''"
| "kind_value CLAIMED = ''claimed''"
| "kind_value ATTEMPTED = ''attempted''"
| "kind_value RETRY_SCHEDULED = ''retry_scheduled''"
| "kind_value SUCCEEDED = ''succeeded''"
| "kind_value DEAD = ''dead''"
| "kind_value LEASE_LOST = ''lease_lost''"
| "kind_value RECONCILED = ''reconciled''"
| "kind_value REPLAYED = ''replayed''"
| "kind_value WEBHOOK_ATTEMPTED = ''webhook_attempted''"
| "kind_value WEBHOOK_PAUSED = ''webhook_paused''"
| "kind_value WEBHOOK_PRUNED = ''webhook_pruned''"
| "kind_value WEBHOOK_SECRET_CHANGED = ''webhook_secret_changed''"
| "kind_value TASKIQ_PREPARED = ''taskiq_prepared''"
| "kind_value TASKIQ_ENQUEUED = ''taskiq_enqueued''"
| "kind_value TASKIQ_EXECUTED = ''taskiq_executed''"
| "kind_value COMMAND_STARTED = ''command_started''"
| "kind_value COMMAND_COMPLETED = ''command_completed''"
| "kind_value COMMAND_REPLAYED = ''command_replayed''"
| "kind_value COMMAND_CONFLICT = ''command_conflict''"
| "kind_value COMMAND_PRUNED = ''command_pruned''"
| "kind_value DELEGATION_ISSUED = ''delegation_issued''"
| "kind_value DELEGATION_ALLOWED = ''delegation_allowed''"
| "kind_value DELEGATION_DENIED = ''delegation_denied''"
| "kind_value BACKLOG_OBSERVED = ''backlog_observed''"
| "kind_value CONTROL_PLANE_FAILED = ''control_plane_failed''"

record trace_lineage =
  tl_event_id :: "uuid option"
  tl_delivery_id :: "uuid option"
  tl_attempt_id :: "uuid option"
  tl_replay_of :: "uuid option"
  tl_handoff_id :: "uuid option"
  tl_command_id :: "uuid option"
  tl_delegation_id :: "uuid option"
  tl_traceparent :: "string option"

definition no_lineage :: trace_lineage where
  "no_lineage = \<lparr>tl_event_id = None, tl_delivery_id = None, tl_attempt_id = None, tl_replay_of = None,
     tl_handoff_id = None, tl_command_id = None, tl_delegation_id = None, tl_traceparent = None\<rparr>"

definition lineage_post_init :: "trace_lineage \<Rightarrow> trace_lineage result" where
  "lineage_post_init l =
     (case tl_traceparent l of
        Some tp \<Rightarrow> if length tp > 256 \<or> has_control tp
                    then config_error ''Runtime trace lineage parent is invalid.'' else Inr l
      | None \<Rightarrow> Inr l)"

definition lineage_attributes :: "trace_lineage \<Rightarrow> (string \<times> string) list" where
  "lineage_attributes l =
     List.map_filter (\<lambda>(name, v). map_option (\<lambda>u. (name, uuid_str u)) v)
       [(''event.id'', tl_event_id l), (''delivery.id'', tl_delivery_id l), (''attempt.id'', tl_attempt_id l),
        (''replay.of'', tl_replay_of l), (''handoff.id'', tl_handoff_id l), (''command.id'', tl_command_id l),
        (''delegation.id'', tl_delegation_id l)] @
     (case tl_traceparent l of Some tp \<Rightarrow> [(''trace.parent'', tp)] | None \<Rightarrow> [])"

section \<open>Events\<close>

datatype attribute = AStr string | AInt int | AFloat pyfloat | ABool bool

record runtime_event =
  re_kind :: runtime_event_kind
  re_occurred_at :: py_datetime
  re_attributes :: "(string \<times> attribute) list"
  re_lineage :: trace_lineage

definition attribute_name :: "string \<Rightarrow> bool" where
  "attribute_name = head_tail_match is_lower
     (\<lambda>c. is_lower c \<or> is_digit c \<or> c = CHR ''_'' \<or> c = CHR ''.'') 63"

definition allowed_attributes :: "string list" where
  "allowed_attributes =
     [''attempt.number'', ''authorization.result'', ''auto_paused'', ''backlog.age.seconds'', ''capability'',
      ''destination.count'', ''destination.kind'', ''duration'', ''duration.ms'', ''executed'', ''failure.code'',
      ''outcome'', ''pruned.count'', ''reconciled.count'', ''state'']"

definition forbidden_words :: "string list" where
  "forbidden_words =
     [''payload'', ''body'', ''authorization'', ''cookie'', ''credential'', ''password'', ''secret'', ''token'', ''api_key'']"

text \<open>
  The search for \<^verbatim>\<open>(^|[._])(word)([._]|$)\<close> without regard to case: at the start or after a separator, one of
  the words followed by a separator or the end (\<^verbatim>\<open>$\<close> also matches before a final line feed).
\<close>

definition word_here :: "string \<Rightarrow> string \<Rightarrow> bool" where
  "word_here s w \<longleftrightarrow> take (length w) (lower s) = w \<and>
     (case drop (length w) s of
        [] \<Rightarrow> True
      | c # cs \<Rightarrow> c = CHR ''.'' \<or> c = CHR ''_'' \<or> (c = CHR 10 \<and> cs = []))"

fun forbidden_from :: "bool \<Rightarrow> string \<Rightarrow> bool" where
  "forbidden_from boundary [] = (boundary \<and> list_ex (word_here []) forbidden_words)"
| "forbidden_from boundary (c # cs) =
     (boundary \<and> list_ex (word_here (c # cs)) forbidden_words \<or>
      forbidden_from (c = CHR ''.'' \<or> c = CHR ''_'') cs)"

definition forbidden :: "string \<Rightarrow> bool" where
  "forbidden s = forbidden_from True s"

definition check_attribute :: "string \<times> attribute \<Rightarrow> (string \<times> attribute) result" where
  "check_attribute kv =
     (case kv of (key, v) \<Rightarrow>
        if \<not> attribute_name key \<or> forbidden key \<or> key \<notin> set allowed_attributes
        then config_error ''Runtime event contains an unsafe attribute.''
        else (case v of
                AFloat f \<Rightarrow> if is_finite f then Inr kv else config_error ''Runtime event attribute must be finite.''
              | AStr s \<Rightarrow> if length s > 256 then config_error ''Runtime event attribute is oversized.'' else Inr kv
              | _ \<Rightarrow> Inr kv))"

definition runtime_event_post_init :: "runtime_event \<Rightarrow> runtime_event result" where
  "runtime_event_post_init e =
     (if \<not> is_aware (re_occurred_at e) then config_error ''Runtime event time must be timezone-aware.''
      else if length (re_attributes e) > 32 then config_error ''Runtime event has too many attributes.''
      else and_then (traverse check_attribute (re_attributes e)) (\<lambda>normalized.
             Inr (e\<lparr>re_attributes := normalized\<rparr>)))"

text \<open>\<^verbatim>\<open>record_safely\<close>: a backend's exception never reaches the caller.\<close>

definition record_safely :: "(runtime_event \<Rightarrow> unit result) \<Rightarrow> runtime_event \<Rightarrow> unit result" where
  "record_safely sink e = (case sink e of Inr _ \<Rightarrow> Inr () | Inl _ \<Rightarrow> Inr ())"

section \<open>Metric labels and span attributes\<close>

definition metric_labels :: "string list" where
  "metric_labels =
     [''authorization.result'', ''auto_paused'', ''capability'', ''destination.kind'', ''outcome'', ''state'']"

definition prefixed :: "string \<Rightarrow> string" where
  "prefixed k = ''fastapi_effects.'' @ k"

definition metric_attributes :: "runtime_event \<Rightarrow> (string \<times> attribute) list" where
  "metric_attributes e =
     dict_merge [(''fastapi_effects.event.kind'', AStr (kind_value (re_kind e)))]
       (map (\<lambda>(k, v). (prefixed k, v)) (filter (\<lambda>(k, v). k \<in> set metric_labels) (re_attributes e)))"

definition span_attributes :: "runtime_event \<Rightarrow> (string \<times> attribute) list" where
  "span_attributes e =
     dict_merge (dict_merge (metric_attributes e) (map (\<lambda>(k, v). (prefixed k, v)) (re_attributes e)))
       (map (\<lambda>(k, v). (prefixed k, AStr v)) (lineage_attributes (re_lineage e)))"

section \<open>Delegation telemetry\<close>

datatype audit_outcome = ISSUED | ALLOWED | DENIED | KEY_ROTATED | KEY_REVOKED

fun audit_value :: "audit_outcome \<Rightarrow> string" where
  "audit_value ISSUED = ''issued''"
| "audit_value ALLOWED = ''allowed''"
| "audit_value DENIED = ''denied''"
| "audit_value KEY_ROTATED = ''key_rotated''"
| "audit_value KEY_REVOKED = ''key_revoked''"

fun audit_kind :: "audit_outcome \<Rightarrow> runtime_event_kind option" where
  "audit_kind ISSUED = Some DELEGATION_ISSUED"
| "audit_kind ALLOWED = Some DELEGATION_ALLOWED"
| "audit_kind DENIED = Some DELEGATION_DENIED"
| "audit_kind _ = None"

text \<open>\<^verbatim>\<open>DelegationTelemetrySink.record\<close> on the fields of the audit event it reads.\<close>

definition delegation_record ::
  "(runtime_event \<Rightarrow> unit result) \<Rightarrow> py_datetime \<Rightarrow> audit_outcome \<Rightarrow> uuid option \<Rightarrow> unit result" where
  "delegation_record sink occurred_at outcome token_id =
     (case audit_kind outcome of
        None \<Rightarrow> Inr ()
      | Some kind \<Rightarrow>
          and_then (lineage_post_init (no_lineage\<lparr>tl_delegation_id := token_id\<rparr>)) (\<lambda>l.
          and_then (runtime_event_post_init
                      \<lparr>re_kind = kind, re_occurred_at = occurred_at,
                       re_attributes = [(''authorization.result'', AStr (audit_value outcome)), (''capability'', AStr ''delegation'')],
                       re_lineage = l\<rparr>) (record_safely sink)))"

section \<open>Properties\<close>

lemma check_attribute_Inr [result_simps]:
  "check_attribute (k, v) = Inr kv \<longleftrightarrow>
     kv = (k, v) \<and> attribute_name k \<and> \<not> forbidden k \<and> k \<in> set allowed_attributes \<and>
     (\<forall>f. v = AFloat f \<longrightarrow> is_finite f) \<and> (\<forall>s. v = AStr s \<longrightarrow> length s \<le> 256)"
  by (cases v) (auto simp: check_attribute_def)

lemma list_all2_same: "list_all2 (\<lambda>x y. y = x \<and> Q x) xs ys \<longleftrightarrow> ys = xs \<and> list_all Q xs"
  by (induction xs arbitrary: ys) (auto simp: list_all2_Cons1)

lemma traverse_same:
  assumes "\<And>x y. f x = Inr y \<Longrightarrow> y = x"
  shows "traverse f xs = Inr ys \<longleftrightarrow> ys = xs \<and> (\<forall>x\<in>set xs. f x = Inr x)"
proof -
  have "(\<lambda>x y. f x = Inr y) = (\<lambda>x y. y = x \<and> f x = Inr x)" using assms by (intro ext iffI) blast+
  then show ?thesis unfolding traverse_Inr_iff by (simp only: list_all2_same list_all_iff)
qed

lemma runtime_event_post_init_Inr:
  "runtime_event_post_init e = Inr e' \<longleftrightarrow>
     e' = e \<and> is_aware (re_occurred_at e) \<and> length (re_attributes e) \<le> 32 \<and>
     (\<forall>kv\<in>set (re_attributes e). check_attribute kv = Inr kv)"
proof -
  have "traverse check_attribute xs = Inr ys \<longleftrightarrow> ys = xs \<and> (\<forall>x\<in>set xs. check_attribute x = Inr x)" for xs ys
    by (rule traverse_same) (auto simp: check_attribute_Inr split_paired_all)
  then show ?thesis by (auto simp: runtime_event_post_init_def and_then_Inr_iff)
qed

text \<open>The words are whole segments: every word occurrence between separators is found.\<close>

lemma take_lower_word: "length s = length w \<Longrightarrow> take (length w) (lower (s @ t)) = lower s"
  by (simp add: lower_def)

lemma forbidden_segment:
  assumes "lower w \<in> set forbidden_words" and "pre = [] \<or> last pre = CHR ''.'' \<or> last pre = CHR ''_''"
    and "post = [] \<or> hd post = CHR ''.'' \<or> hd post = CHR ''_''"
  shows "forbidden (pre @ w @ post)"
proof -
  have here: "word_here (w @ post) (lower w)"
    using assms(3) take_lower_word [of w "lower w" post] by (cases post) (auto simp: word_here_def lower_def)
  have base: "forbidden_from True (w @ post)"
    using here assms(1) by (cases "w @ post") (auto simp: list_ex_iff)
  have "forbidden_from b (pre @ w @ post)" if "pre = [] \<longrightarrow> b" "pre = [] \<or> last pre = CHR ''.'' \<or> last pre = CHR ''_''" for b
    using that
  proof (induction pre arbitrary: b)
    case Nil
    then show ?case using base by simp
  next
    case (Cons c cs)
    then show ?case by (cases cs) auto
  qed
  then show ?thesis using assms(2) by (simp add: forbidden_def)
qed

text \<open>
  Runtime events are bounded and free of secrets: an event is accepted exactly when its time is aware and
  it has at most 32 attributes, all of them allow-listed, finite and of at most 256 characters, and none with a
  forbidden word as a segment of its name; it is then stored as given.
\<close>

lemma runtime_event_allow_list:
  "runtime_event_post_init e = Inr e' \<longleftrightarrow>
     e' = e \<and> is_aware (re_occurred_at e) \<and> length (re_attributes e) \<le> 32 \<and>
     list_all (\<lambda>(k, v). k \<in> set allowed_attributes \<and> \<not> forbidden k \<and>
        (case v of AFloat f \<Rightarrow> is_finite f | AStr s \<Rightarrow> length s \<le> 256 | _ \<Rightarrow> True)) (re_attributes e)"
proof -
  have names: "list_all attribute_name allowed_attributes" by code_simp
  have one: "check_attribute (k, v) = Inr (k, v) \<longleftrightarrow> k \<in> set allowed_attributes \<and> \<not> forbidden k \<and>
      (case v of AFloat f \<Rightarrow> is_finite f | AStr s \<Rightarrow> length s \<le> 256 | _ \<Rightarrow> True)" for k v
    using names by (cases v) (auto simp: check_attribute_Inr list_all_iff)
  show ?thesis unfolding runtime_event_post_init_Inr list_all_iff using one by auto
qed

lemma map_filter_keys: "fst ` set (List.map_filter (\<lambda>(n, v). map_option (\<lambda>u. (n, g u)) v) kvs) \<subseteq> fst ` set kvs"
  by (induction kvs) (auto simp: List.map_filter_simps split: option.splits)

definition lineage_names :: "string list" where
  "lineage_names = [''event.id'', ''delivery.id'', ''attempt.id'', ''replay.of'', ''handoff.id'', ''command.id'',
     ''delegation.id'', ''trace.parent'']"

lemma lineage_attribute_names: "fst ` set (lineage_attributes l) \<subseteq> set lineage_names"
  unfolding lineage_attributes_def set_append image_Un
  by (intro Un_least order_trans [OF map_filter_keys]) (auto simp: lineage_names_def split: option.splits)

lemma set_filtered_keys:
  "fst ` set (map (\<lambda>(k, v). (prefixed k, v)) (filter (\<lambda>(k, v). k \<in> set L) kvs)) \<subseteq> prefixed ` set L"
  by auto

text \<open>
  Metric labels have low cardinality: the labels derived from an event are its kind and members of the fixed
  label list; no trace identifier of the lineage ever becomes a label.
\<close>

lemma metric_labels_low_cardinality:
  "set (map fst (metric_attributes e)) \<subseteq> set (''fastapi_effects.event.kind'' # map prefixed metric_labels) \<and>
   set (map fst (metric_attributes e)) \<inter> set (map (prefixed \<circ> fst) (lineage_attributes (re_lineage e))) = {} \<and>
   metric_attributes (e\<lparr>re_lineage := l\<rparr>) = metric_attributes e"
proof -
  have "fst ` set (metric_attributes e) \<subseteq> {''fastapi_effects.event.kind''} \<union> prefixed ` set metric_labels"
    unfolding metric_attributes_def
    by (rule order_trans [OF image_mono [OF set_dict_merge]], unfold image_Un, rule Un_mono)
       (simp, rule set_filtered_keys)
  then have sub: "set (map fst (metric_attributes e)) \<subseteq> insert ''fastapi_effects.event.kind'' (prefixed ` set metric_labels)"
    by simp
  have lin: "set (map (prefixed \<circ> fst) (lineage_attributes m)) \<subseteq> prefixed ` set lineage_names" for m
    using lineage_attribute_names [of m] by auto
  have "list_all (\<lambda>k. k \<notin> set (map prefixed lineage_names)) (''fastapi_effects.event.kind'' # map prefixed metric_labels)"
    by code_simp
  then have "insert ''fastapi_effects.event.kind'' (prefixed ` set metric_labels) \<inter> prefixed ` set lineage_names = {}"
    by (auto simp: list_all_iff)
  with sub lin [of "re_lineage e"]
  have "set (map fst (metric_attributes e)) \<inter> set (map (prefixed \<circ> fst) (lineage_attributes (re_lineage e))) = {}" by blast
  moreover have "metric_attributes (e\<lparr>re_lineage := l\<rparr>) = metric_attributes e" by (simp add: metric_attributes_def)
  ultimately show ?thesis using sub by simp
qed

text \<open>
  Delegation decisions never reach telemetry: the attribute \<^verbatim>\<open>authorization.result\<close> of the adapter is allow-listed
  and at the same time matched by the forbidden-word pattern, so recording an issued, allowed or denied delegation
  raises a configuration error and the backend is not called.
\<close>

lemma delegation_telemetry_always_rejected:
  assumes "outcome \<in> {ISSUED, ALLOWED, DENIED}"
  shows "''authorization.result'' \<in> set allowed_attributes \<and>
    (\<exists>m. delegation_record sink occurred_at outcome token_id = config_error m)"
proof -
  have "forbidden ''authorization.result''" by code_simp
  then have "\<exists>m. check_attribute (''authorization.result'', v) = config_error m" for v
    by (simp add: check_attribute_def)
  then have "\<exists>m. runtime_event_post_init \<lparr>re_kind = k, re_occurred_at = t,
      re_attributes = (''authorization.result'', v) # kvs, re_lineage = l\<rparr> = config_error m" for k t v kvs l
    by (simp add: runtime_event_post_init_def) (metis and_then.simps(1))
  then have "\<exists>m. delegation_record sink occurred_at outcome token_id = config_error m"
    if "audit_kind outcome = Some k" for k
    using that by (simp add: delegation_record_def lineage_post_init_def no_lineage_def) (metis and_then.simps(1))
  moreover have "\<exists>k. audit_kind outcome = Some k" using assms by auto
  ultimately show ?thesis by (auto simp: allowed_attributes_def)
qed

end
