(* ===== verification/Relay.thy ===== *)
theory Relay
  imports Lease_Properties Observability
begin

text \<open>
  \<^verbatim>\<open>postgres/relay.py\<close>: the polling relay. Its configuration, one execution of a claim with the classification of
  the sink's failures, one polling cycle and the supervising loop. A database transaction may also be answered by a
  fault of the connection or by its timeout, given as an argument; it is then rolled back. The runtime events handed
  to the telemetry backend are returned in order. Cancellation of a running cycle during shutdown is not modelled.
\<close>

section \<open>Configuration\<close>

record relay_config =
  rc_batch_size :: int
  rc_per_tenant :: int
  rc_concurrency :: int
  rc_poll_interval_seconds :: pyfloat
  rc_reconcile_batch_size :: int
  rc_control_plane_timeout_seconds :: pyfloat
  rc_finalization_timeout_seconds :: pyfloat
  rc_shutdown_grace_seconds :: pyfloat

definition default_relay_config :: relay_config where
  "default_relay_config = \<lparr>rc_batch_size = 50, rc_per_tenant = 5, rc_concurrency = 20,
     rc_poll_interval_seconds = Fin 1, rc_reconcile_batch_size = 100,
     rc_control_plane_timeout_seconds = Fin 10, rc_finalization_timeout_seconds = Fin 10,
     rc_shutdown_grace_seconds = Fin 30\<rparr>"

definition bounded_seconds :: "pyfloat \<Rightarrow> rat \<Rightarrow> unit result" where
  "bounded_seconds v maximum =
     ensure (is_finite v \<and> \<not> the_fin v \<le> 0 \<and> \<not> maximum < the_fin v) ValueError"

definition relay_config_post_init :: "relay_config \<Rightarrow> unit result" where
  "relay_config_post_init cfg =
     (if list_ex (\<lambda>v. v < 1) [rc_batch_size cfg, rc_per_tenant cfg, rc_concurrency cfg, rc_reconcile_batch_size cfg]
      then Inl ValueError
      else and_then (bounded_seconds (rc_poll_interval_seconds cfg) 60) (\<lambda>_.
           and_then (bounded_seconds (rc_control_plane_timeout_seconds cfg) 300) (\<lambda>_.
           and_then (bounded_seconds (rc_finalization_timeout_seconds cfg) 300) (\<lambda>_.
           bounded_seconds (rc_shutdown_grace_seconds cfg) 300))))"

section \<open>Finalising one claim\<close>

datatype disposition = Completed | Deferred

text \<open>The two reports of the relay; building an event may itself raise.\<close>

definition claim_lineage :: "claimed \<Rightarrow> trace_lineage" where
  "claim_lineage c = no_lineage\<lparr>tl_event_id := Some (er_event_id (c_event c)),
     tl_delivery_id := Some (dr_delivery_id (c_delivery c)), tl_attempt_id := Some (ar_attempt_id (c_attempt c)),
     tl_replay_of := dr_replay_of (c_delivery c), tl_traceparent := er_traceparent (c_event c)\<rparr>"

definition report :: "runtime_event_kind \<Rightarrow> (string \<times> attribute) list \<Rightarrow> trace_lineage \<Rightarrow> py_datetime \<Rightarrow> runtime_event list \<times> unit result" where
  "report kind attrs lineage now =
     (case and_then (lineage_post_init lineage) (\<lambda>l.
             runtime_event_post_init \<lparr>re_kind = kind, re_occurred_at = now, re_attributes = attrs, re_lineage = l\<rparr>) of
        Inl e \<Rightarrow> ([], Inl e)
      | Inr ev \<Rightarrow> ([ev], Inr ()))"

definition record_control_failure :: "string \<Rightarrow> claimed option \<Rightarrow> py_datetime \<Rightarrow> runtime_event list \<times> unit result" where
  "record_control_failure failure_code subject now =
     report CONTROL_PLANE_FAILED
       [(''failure.code'', AStr failure_code),
        (''destination.kind'', AStr (case subject of Some k \<Rightarrow> dr_destination_kind (c_delivery k) | None \<Rightarrow> ''control''))]
       (case subject of Some k \<Rightarrow> claim_lineage k | None \<Rightarrow> no_lineage) now"

definition record_lease_lost :: "claimed \<Rightarrow> py_datetime \<Rightarrow> runtime_event list \<times> unit result" where
  "record_lease_lost c now =
     report LEASE_LOST [(''destination.kind'', AStr (dr_destination_kind (c_delivery c)))] (claim_lineage c) now"

text \<open>The samples one finalisation transaction draws, and the fault that may end it instead.\<close>

record finaliser =
  f_fault :: "exn option"
  f_now :: py_datetime
  f_clock :: "nat \<Rightarrow> py_datetime"
  f_uniform :: "rat \<Rightarrow> rat \<Rightarrow> pyfloat"
  f_reported_at :: py_datetime

definition remaining_claim_seconds :: "claimed \<Rightarrow> py_datetime \<Rightarrow> rat result" where
  "remaining_claim_seconds c now =
     (case (map_of (c_route_snapshot c) ''retry'', dr_lease_expires_at (c_delivery c)) of
        (Some (JObj retry), Some expires) \<Rightarrow>
          and_then (policy_from_dict retry) (\<lambda>policy.
            remaining_attempt_seconds policy (dr_created_at (c_delivery c)) (ar_started_at (c_attempt c)) expires now None)
      | _ \<Rightarrow> config_error ''Claim attempt deadline is invalid.'')"

definition relay_fail :: "finaliser \<Rightarrow> claimed \<Rightarrow> delivery_error \<Rightarrow> 'x db_scheme \<Rightarrow> 'x db_scheme \<times> delivery_state result" where
  "relay_fail f c err db =
     (case f_fault f of
        Some e \<Rightarrow> (db, Inl e)
      | None \<Rightarrow> fail False c err (f_now f)
                  (case err of RetryableDeliveryError _ _ ra \<Rightarrow> ra | PermanentDeliveryError _ _ \<Rightarrow> None)
                  (f_clock f) (f_uniform f) db)"

definition relay_succeed :: "finaliser \<Rightarrow> claimed \<Rightarrow> 'x db_scheme \<Rightarrow> 'x db_scheme \<times> int result" where
  "relay_succeed f c db =
     (case f_fault f of
        Some e \<Rightarrow> (db, Inl e)
      | None \<Rightarrow> succeed False c (f_now f) (f_clock f 0) db)"

text \<open>The exception handlers shared by success and failure: a lost lease and reviewed outages are reported.\<close>

definition absorb :: "finaliser \<Rightarrow> claimed \<Rightarrow> 'd \<times> 'a result \<Rightarrow> 'd \<times> runtime_event list \<times> unit result" where
  "absorb f c outcome =
     (case outcome of
        (db, Inr _) \<Rightarrow> (db, [], Inr ())
      | (db, Inl e) \<Rightarrow>
          (db, case e of
             LeaseLost _ \<Rightarrow> record_lease_lost c (f_reported_at f)
           | TimeoutError \<Rightarrow> record_control_failure ''database.finalization_timeout'' (Some c) (f_reported_at f)
           | _ \<Rightarrow> if is_transient_database_connection_error e
                  then record_control_failure ''database.transient'' (Some c) (f_reported_at f) else ([], Inl e)))"

definition fail_safely :: "finaliser \<Rightarrow> claimed \<Rightarrow> delivery_error \<Rightarrow> 'x db_scheme \<Rightarrow> 'x db_scheme \<times> runtime_event list \<times> unit result" where
  "fail_safely f c err db = absorb f c (relay_fail f c err db)"

definition authorization_failure :: delivery_error where
  "authorization_failure = PermanentDeliveryError ''authorization.denied'' ''Delivery authority was denied.''"

definition timeout_failure :: delivery_error where
  "timeout_failure = RetryableDeliveryError ''execution.timeout'' ''Delivery execution exceeded its timeout.'' None"

definition unclassified_failure :: delivery_error where
  "unclassified_failure =
     RetryableDeliveryError ''execution.failed'' ''Delivery execution failed without safe classification.'' None"

text \<open>\<open>sink c limit\<close> is what the sink answers within its time limit.\<close>

definition run_sink :: "(claimed \<Rightarrow> rat \<Rightarrow> disposition option result) \<Rightarrow> py_datetime \<Rightarrow> claimed \<Rightarrow> disposition option result" where
  "run_sink sink now c =
     and_then (remaining_claim_seconds c now) (\<lambda>limit.
       if limit \<le> 0 then Inl TimeoutError else sink c limit)"

definition execute_claim ::
  "(claimed \<Rightarrow> rat \<Rightarrow> disposition option result) \<Rightarrow> py_datetime \<Rightarrow> finaliser \<Rightarrow> claimed \<Rightarrow> 'x db_scheme \<Rightarrow>
     'x db_scheme \<times> runtime_event list \<times> unit result" where
  "execute_claim sink now f c db =
     (case run_sink sink now c of
        Inr disposition \<Rightarrow>
          if disposition = Some Deferred then (db, [], Inr ()) else absorb f c (relay_succeed f c db)
      | Inl e \<Rightarrow>
          (case e of
             DeliveryFailure err \<Rightarrow> fail_safely f c err db
           | AuthorizationDenied \<Rightarrow> fail_safely f c authorization_failure db
           | AuthorizationExpired \<Rightarrow> fail_safely f c authorization_failure db
           | TimeoutError \<Rightarrow> fail_safely f c timeout_failure db
           | ConfigurationError _ \<Rightarrow> (db, [], Inl e)
           | DBAPIError _ \<Rightarrow>
               if is_transient_database_error e then (db, record_control_failure ''database.transient'' (Some c) (f_reported_at f))
               else (db, [], Inl e)
           | _ \<Rightarrow> fail_safely f c unclassified_failure db))"

section \<open>One polling cycle\<close>

text \<open>
  The claims of a cycle run concurrently; each ends in one transaction, so a cycle is a sequence of finalisations
  in some order. An error that escapes one claim cancels the claims still running, and the task group raises it
  wrapped in an exception group, which no later handler classifies.
\<close>

fun run_claims ::
  "(claimed \<Rightarrow> rat \<Rightarrow> disposition option result) \<Rightarrow> (claimed \<Rightarrow> py_datetime \<times> finaliser) \<Rightarrow> claimed list \<Rightarrow> 'x db_scheme \<Rightarrow>
     'x db_scheme \<times> runtime_event list \<times> unit result" where
  "run_claims sink samples [] db = (db, [], Inr ())"
| "run_claims sink samples (c # cs) db =
     (case execute_claim sink (fst (samples c)) (snd (samples c)) c db of
        (db1, evs, Inl e) \<Rightarrow> (db1, evs, Inl OtherException)
      | (db1, evs, Inr _) \<Rightarrow> (case run_claims sink samples cs db1 of (db2, evs', r) \<Rightarrow> (db2, evs @ evs', r)))"

text \<open>
  What a cycle draws: whether a stop was requested at its two checks, the fault that may end its two control
  transactions, clock samples, identifiers, foreign row locks, and the order in which its claims end.
\<close>

record cycle =
  y_stop :: "nat \<Rightarrow> bool"
  y_fault :: "nat \<Rightarrow> exn option"
  y_now :: "nat \<Rightarrow> py_datetime"
  y_reconcile_clock :: "nat \<Rightarrow> py_datetime"
  y_claim_clock :: "nat \<Rightarrow> py_datetime"
  y_fresh :: "nat \<Rightarrow> uuid"
  y_locked :: "nat \<Rightarrow> uuid \<times> uuid \<Rightarrow> bool"
  y_order :: "claimed list \<Rightarrow> claimed list"
  y_samples :: "claimed \<Rightarrow> py_datetime \<times> finaliser"

definition control_operation :: "exn option \<Rightarrow> ('d \<Rightarrow> 'd \<times> 'a result) \<Rightarrow> 'd \<Rightarrow> 'd \<times> 'a result" where
  "control_operation fault operation db = (case fault of Some e \<Rightarrow> (db, Inl e) | None \<Rightarrow> operation db)"

definition relay_reconcile :: "relay_config \<Rightarrow> cycle \<Rightarrow> 'x db_scheme \<Rightarrow> 'x db_scheme \<times> nat result" where
  "relay_reconcile cfg y =
     control_operation (y_fault y 0)
       (reconcile_expired False (rc_reconcile_batch_size cfg) (y_now y 0) (y_reconcile_clock y) (y_locked y 0))"

definition relay_claim :: "relay_config \<Rightarrow> cycle \<Rightarrow> 'x db_scheme \<Rightarrow> 'x db_scheme \<times> claimed list result" where
  "relay_claim cfg y =
     control_operation (y_fault y 1)
       (claim False (min (rc_batch_size cfg) (rc_concurrency cfg)) (rc_per_tenant cfg) (y_now y 1)
          (y_claim_clock y) (y_fresh y) (y_locked y 1))"

definition run_once ::
  "relay_config \<Rightarrow> (claimed \<Rightarrow> rat \<Rightarrow> disposition option result) \<Rightarrow> cycle \<Rightarrow> 'x db_scheme \<Rightarrow>
     'x db_scheme \<times> runtime_event list \<times> nat result" where
  "run_once cfg sink y db =
     (if y_stop y 0 then (db, [], Inr 0)
      else case relay_reconcile cfg y db of
        (db1, Inl e) \<Rightarrow> (db1, [], Inl e)
      | (db1, Inr _) \<Rightarrow>
          if y_stop y 1 then (db1, [], Inr 0)
          else (case relay_claim cfg y db1 of
              (db2, Inl e) \<Rightarrow> (db2, [], Inl e)
            | (db2, Inr claims) \<Rightarrow>
                (case run_claims sink (y_samples y) (y_order y claims) db2 of
                   (db3, evs, Inl e) \<Rightarrow> (db3, evs, Inl e)
                 | (db3, evs, Inr _) \<Rightarrow> (db3, evs, Inr (length claims)))))"

text \<open>\<^verbatim>\<open>_finish_cycle\<close>: what the supervising loop does with the result of a cycle.\<close>

definition finish_cycle :: "'a result \<Rightarrow> py_datetime \<Rightarrow> runtime_event list \<times> unit result" where
  "finish_cycle r now =
     (case r of
        Inr _ \<Rightarrow> ([], Inr ())
      | Inl TimeoutError \<Rightarrow> record_control_failure ''database.control_timeout'' None now
      | Inl e \<Rightarrow> if is_transient_database_connection_error e
                 then record_control_failure ''database.transient'' None now else ([], Inl e))"

text \<open>The loop of \<^verbatim>\<open>run\<close>, for the cycles that complete before a stop is requested.\<close>

fun relay_run ::
  "relay_config \<Rightarrow> (claimed \<Rightarrow> rat \<Rightarrow> disposition option result) \<Rightarrow> (cycle \<times> py_datetime) list \<Rightarrow> 'x db_scheme \<Rightarrow>
     'x db_scheme \<times> runtime_event list \<times> unit result" where
  "relay_run cfg sink [] db = (db, [], Inr ())"
| "relay_run cfg sink ((y, now) # ys) db =
     (case run_once cfg sink y db of
        (db1, evs, r) \<Rightarrow>
          (case finish_cycle r now of
             (evs1, Inl e) \<Rightarrow> (db1, evs @ evs1, Inl e)
           | (evs1, Inr _) \<Rightarrow> (case relay_run cfg sink ys db1 of (db2, evs2, r2) \<Rightarrow> (db2, evs @ evs1 @ evs2, r2))))"

section \<open>Refinement\<close>

lemma absorb_fst: "fst (absorb f c (db, r)) = db"
  by (simp add: absorb_def split: sum.split)

lemma relay_fail_moves: "lease_inv db \<Longrightarrow> lease_move\<^sup>*\<^sup>* db (fst (relay_fail f c err db))"
  unfolding relay_fail_def by (auto split: option.splits intro: fail_moves [OF _ surjective_pairing])

lemma relay_succeed_moves: "lease_inv db \<Longrightarrow> lease_move\<^sup>*\<^sup>* db (fst (relay_succeed f c db))"
  unfolding relay_succeed_def by (auto split: option.splits intro: succeed_moves [OF _ surjective_pairing])

lemma fail_safely_moves: "lease_inv db \<Longrightarrow> lease_move\<^sup>*\<^sup>* db (fst (fail_safely f c err db))"
  unfolding fail_safely_def using relay_fail_moves [of db f c err] by (metis absorb_fst prod.collapse)

lemma absorb_succeed_moves: "lease_inv db \<Longrightarrow> lease_move\<^sup>*\<^sup>* db (fst (absorb f c (relay_succeed f c db)))"
  using relay_succeed_moves [of db f c] by (metis absorb_fst prod.collapse)

lemma execute_claim_moves:
  assumes "lease_inv db"
  shows "lease_move\<^sup>*\<^sup>* db (fst (execute_claim sink now f c db))"
  using fail_safely_moves [OF assms] absorb_succeed_moves [OF assms]
  by (auto simp: execute_claim_def split: sum.splits exn.splits)

lemma run_claims_moves: "lease_inv db \<Longrightarrow> lease_move\<^sup>*\<^sup>* db (fst (run_claims sink samples cs db))"
proof (induction cs arbitrary: db)
  case (Cons c cs)
  obtain db1 evs r where e: "execute_claim sink (fst (samples c)) (snd (samples c)) c db = (db1, evs, r)"
    by (cases "execute_claim sink (fst (samples c)) (snd (samples c)) c db") auto
  have mv: "lease_move\<^sup>*\<^sup>* db db1"
    using execute_claim_moves [OF Cons.prems, of sink "fst (samples c)" "snd (samples c)" c] e by simp
  have "lease_move\<^sup>*\<^sup>* db1 (fst (run_claims sink samples cs db1))"
    using Cons.IH [OF lease.inv_steps [OF mv Cons.prems]] .
  with mv show ?case using e by (cases r) (auto split: prod.splits)
qed simp

lemma reconcile_one_tokens:
  assumes "reconcile_one t d db = Inr db'"
  shows "set (map a_lease_token (attempts db')) \<subseteq> set (map a_lease_token (attempts db)) \<and>
    length (deliveries db') = length (deliveries db)"
proof -
  from assms obtain el policy db1 where
    one: "(case List.find (live_attempt d) (attempts db) of None \<Rightarrow> Inr db
           | Some a \<Rightarrow> update_attempt (abandoned_attempt el t a) db) = Inr db1"
    and two: "update_delivery (reconciled_row el policy t d) db1 = Inr db'"
    by (auto simp: reconcile_one_def and_then_Inr_iff Let_def)
  have "set (map a_lease_token (attempts db1)) \<subseteq> set (map a_lease_token (attempts db)) \<and> deliveries db1 = deliveries db"
  proof (cases "List.find (live_attempt d) (attempts db)")
    case (Some a)
    then have "a \<in> set (attempts db)" by (auto dest: find_SomeD)
    moreover have "a_lease_token (abandoned_attempt el t a) = a_lease_token a"
      by (simp add: abandoned_attempt_def failed_attempt_def)
    ultimately show ?thesis using one Some by (auto simp: update_attempt_Inr set_update_where)
  qed (use one in simp)
  with two show ?thesis by (simp add: update_delivery_Inr)
qed

lemma reconcile_loop_tokens:
  "reconcile_loop now clock ds n db = Inr (db', m) \<Longrightarrow>
     set (map a_lease_token (attempts db')) \<subseteq> set (map a_lease_token (attempts db)) \<and>
     length (deliveries db') = length (deliveries db)"
proof (induction ds arbitrary: n db)
  case (Cons d ds)
  then obtain t db1 where "reconcile_one t d db = Inr db1" "reconcile_loop now clock ds (Suc n) db1 = Inr (db', m)"
    by (auto simp: and_then_Inr_iff)
  then show ?case using Cons.IH reconcile_one_tokens by fastforce
qed simp

lemma reconcile_keeps_fresh:
  assumes "reconcile_expired busy batch now clock locked db = (db', r)"
    and "fresh_tokens fresh 0 (2 * length (deliveries db)) db"
  shows "fresh_tokens fresh 0 (2 * length (deliveries db')) db'"
proof (cases r)
  case (Inr n)
  then have "set (map a_lease_token (attempts db')) \<subseteq> set (map a_lease_token (attempts db)) \<and>
      length (deliveries db') = length (deliveries db)"
    using assms(1) reconcile_loop_tokens
    by (fastforce simp: reconcile_expired_def transaction_cases and_then_Inr_iff)
  then show ?thesis using assms(2) unfolding fresh_tokens_def by auto
next
  case (Inl e)
  then have "db' = db" using assms(1) by (auto simp: reconcile_expired_def transaction_cases)
  with assms(2) show ?thesis by simp
qed

lemma relay_reconcile_moves:
  assumes "lease_inv db" and "relay_reconcile cfg y db = (db', r)"
  shows "lease_move\<^sup>*\<^sup>* db db'" and "fresh_tokens fresh 0 (2 * length (deliveries db)) db \<Longrightarrow> fresh_tokens fresh 0 (2 * length (deliveries db')) db'"
  using assms reconcile_moves reconcile_keeps_fresh
  unfolding relay_reconcile_def control_operation_def by (auto split: option.splits)

lemma relay_claim_moves:
  assumes "lease_inv db" and "fresh_tokens (y_fresh y) 0 (2 * length (deliveries db)) db" and "relay_claim cfg y db = (db', r)"
  shows "lease_move\<^sup>*\<^sup>* db db'"
  using assms claim_moves unfolding relay_claim_def control_operation_def by (auto split: option.splits)

lemma claim_loop_length:
  "claim_loop now batch per fresh ds n counts claims db = Inr (db', claims') \<Longrightarrow> int (length claims) \<le> batch \<Longrightarrow>
     int (length claims') \<le> batch"
proof (induction ds arbitrary: n counts claims db)
  case (Cons d ds)
  then show ?case by (auto simp: and_then_Inr_iff split: if_splits)
qed simp

lemma claim_length: "claim busy batch per now clock fresh locked db = (db', Inr claims) \<Longrightarrow> int (length claims) \<le> batch"
  using claim_loop_length [of _ batch]
  by (fastforce simp: claim_def transaction_cases claim_body_def and_then_Inr_iff result_simps lease_positive_def)

lemma run_once_moves:
  assumes inv: "lease_inv db" and f: "fresh_tokens (y_fresh y) 0 (2 * length (deliveries db)) db"
  shows "lease_move\<^sup>*\<^sup>* db (fst (run_once cfg sink y db))"
proof -
  obtain db1 r1 where one: "relay_reconcile cfg y db = (db1, r1)" by fastforce
  note m1 = relay_reconcile_moves(1) [OF inv one] and f1 = relay_reconcile_moves(2) [OF inv one f]
  have i1: "lease_inv db1" using lease.inv_steps [OF m1 inv] .
  obtain db2 r2 where two: "relay_claim cfg y db1 = (db2, r2)" by fastforce
  note m2 = relay_claim_moves [OF i1 f1 two]
  have i2: "lease_inv db2" using lease.inv_steps [OF m2 i1] .
  have m3: "lease_move\<^sup>*\<^sup>* db2 (fst (run_claims sink (y_samples y) cs db2))" for cs by (rule run_claims_moves [OF i2])
  have m13: "lease_move\<^sup>*\<^sup>* db (fst (run_claims sink (y_samples y) cs db2))" for cs
    by (rule rtranclp_trans [OF rtranclp_trans [OF m1 m2] m3])
  have m12: "lease_move\<^sup>*\<^sup>* db db2" by (rule rtranclp_trans [OF m1 m2])
  show ?thesis
    using m1 m12 m13 by (auto simp: run_once_def one two split: sum.splits prod.splits) (metis fst_conv)+
qed

section \<open>Reports\<close>

text \<open>What a constructed claim provides, and the clock: the values the reports are built from are within bounds.\<close>

definition reportable :: "finaliser \<Rightarrow> claimed \<Rightarrow> bool" where
  "reportable f c \<longleftrightarrow> is_aware (f_reported_at f) \<and> stable_key (dr_destination_kind (c_delivery c)) \<and>
     (case er_traceparent (c_event c) of None \<Rightarrow> True | Some tp \<Rightarrow> length tp \<le> 256 \<and> \<not> has_control tp)"

lemma attribute_allowed:
  "k \<in> {''failure.code'', ''destination.kind''} \<Longrightarrow> length s \<le> 256 \<Longrightarrow> check_attribute (k, AStr s) = Inr (k, AStr s)"
proof -
  have "list_all (\<lambda>k. attribute_name k \<and> \<not> forbidden k \<and> k \<in> set allowed_attributes) [''failure.code'', ''destination.kind'']"
    by code_simp
  then show "k \<in> {''failure.code'', ''destination.kind''} \<Longrightarrow> length s \<le> 256 \<Longrightarrow> ?thesis"
    by (auto simp: check_attribute_Inr)
qed

lemma stable_key_length: "stable_key s \<Longrightarrow> length s \<le> 256"
  using head_tail_match_length unfolding stable_key_def by fastforce

lemma claim_lineage_ok: "reportable f c \<Longrightarrow> lineage_post_init (claim_lineage c) = Inr (claim_lineage c)"
  by (auto simp: reportable_def lineage_post_init_def claim_lineage_def no_lineage_def split: option.splits)

lemma lease_lost_reported:
  assumes "reportable f c"
  shows "record_lease_lost c (f_reported_at f) =
    ([\<lparr>re_kind = LEASE_LOST, re_occurred_at = f_reported_at f,
       re_attributes = [(''destination.kind'', AStr (dr_destination_kind (c_delivery c)))], re_lineage = claim_lineage c\<rparr>], Inr ())"
  using assms
  by (simp add: record_lease_lost_def report_def claim_lineage_ok [OF assms] runtime_event_post_init_def
      attribute_allowed stable_key_length reportable_def)

lemma control_failure_reported:
  assumes "reportable f c" and "length cd \<le> 256"
  shows "record_control_failure cd (Some c) (f_reported_at f) =
    ([\<lparr>re_kind = CONTROL_PLANE_FAILED, re_occurred_at = f_reported_at f,
       re_attributes = [(''failure.code'', AStr cd), (''destination.kind'', AStr (dr_destination_kind (c_delivery c)))],
       re_lineage = claim_lineage c\<rparr>], Inr ())"
  using assms
  by (simp add: record_control_failure_def report_def claim_lineage_ok [OF assms(1)] runtime_event_post_init_def
      attribute_allowed stable_key_length reportable_def)

lemma cycle_failure_reported:
  assumes "is_aware now" and "length cd \<le> 256"
  shows "snd (record_control_failure cd None now) = Inr ()"
  using assms
  by (simp add: record_control_failure_def report_def lineage_post_init_def no_lineage_def runtime_event_post_init_def
      attribute_allowed)

section \<open>Properties\<close>

text \<open>The classified failure that each exception of a sink is recorded as; configuration and database errors are not.\<close>

fun classified :: "exn \<Rightarrow> delivery_error option" where
  "classified (DeliveryFailure err) = Some err"
| "classified AuthorizationDenied = Some authorization_failure"
| "classified AuthorizationExpired = Some authorization_failure"
| "classified TimeoutError = Some timeout_failure"
| "classified (ConfigurationError m) = None"
| "classified (DBAPIError d) = None"
| "classified e = Some unclassified_failure"

lemma execute_claim_failure:
  "run_sink sink now c = Inl e \<Longrightarrow> classified e = Some err \<Longrightarrow> execute_claim sink now f c db = fail_safely f c err db"
  by (cases e) (auto simp: execute_claim_def)

lemma execute_claim_unclassified:
  "run_sink sink now c = Inl e \<Longrightarrow> classified e = None \<Longrightarrow> fst (execute_claim sink now f c db) = db"
  by (cases e) (auto simp: execute_claim_def)

lemma execute_claim_success:
  "run_sink sink now c = Inr d \<Longrightarrow> d \<noteq> Some Deferred \<Longrightarrow> execute_claim sink now f c db = absorb f c (relay_succeed f c db)"
  by (simp add: execute_claim_def)

lemma absorb_Inr: "absorb f c (db, Inr x) = (db, [], Inr ())"
  by (simp add: absorb_def)

lemma relay_succeed_cases:
  obtains (ok) db' t where "relay_succeed f c db = (db', Inr t)" "succeed False c (f_now f) (f_clock f 0) db = (db', Inr t)"
  | (raised) e where "relay_succeed f c db = (db, Inl e)"
proof (cases "relay_succeed f c db")
  case (Pair db' r)
  then show ?thesis
    using that by (cases r) (auto simp: relay_succeed_def succeed_def transaction_cases split: option.splits)
qed

definition retry_after_of :: "delivery_error \<Rightarrow> int option" where
  "retry_after_of err = (case err of RetryableDeliveryError _ _ ra \<Rightarrow> ra | PermanentDeliveryError _ _ \<Rightarrow> None)"

lemma relay_fail_cases:
  obtains (ok) db' st where "relay_fail f c err db = (db', Inr st)"
    "fail False c err (f_now f) (retry_after_of err) (f_clock f) (f_uniform f) db = (db', Inr st)"
  | (raised) e where "relay_fail f c err db = (db, Inl e)"
proof (cases "relay_fail f c err db")
  case (Pair db' r)
  then show ?thesis
    using that by (cases r) (auto simp: relay_fail_def retry_after_of_def fail_def transaction_cases split: option.splits)
qed

lemma execute_claim_cases:
  obtains (success) d where "run_sink sink now c = Inr d" "d \<noteq> Some Deferred"
      "execute_claim sink now f c db = absorb f c (relay_succeed f c db)"
  | (failure) e err where "run_sink sink now c = Inl e" "classified e = Some err"
      "execute_claim sink now f c db = fail_safely f c err db"
  | (untouched) evs r where "execute_claim sink now f c db = (db, evs, r)"
proof (cases "run_sink sink now c")
  case (Inr d)
  then show ?thesis using that by (cases "d = Some Deferred") (auto simp: execute_claim_def)
next
  case (Inl e)
  show ?thesis
  proof (cases "classified e")
    case None
    then have "fst (execute_claim sink now f c db) = db" by (rule execute_claim_unclassified [OF Inl])
    then show ?thesis using that(3) by (metis prod.collapse)
  qed (use that(2) [OF Inl _ execute_claim_failure [OF Inl]] in blast)
qed

text \<open>
  Executing a claim ends in at most one transaction. When it changes the database, it does so by exactly one
  returned success, for a sink that was given a positive time budget and completed, or by exactly one returned
  failure with the reviewed classification of what the sink raised; nothing is raised or reported then. An
  execution that raises has changed nothing.
\<close>

lemma execute_claim_single_transaction:
  assumes "execute_claim sink now f c db = (db', evs, r)" and "db' \<noteq> db"
  shows "r = Inr () \<and> evs = [] \<and>
    ((\<exists>d limit t. 0 < limit \<and> remaining_claim_seconds c now = Inr limit \<and> sink c limit = Inr d \<and> d \<noteq> Some Deferred \<and>
        succeed False c (f_now f) (f_clock f 0) db = (db', Inr t)) \<or>
     (\<exists>e err st. run_sink sink now c = Inl e \<and> classified e = Some err \<and>
        fail False c err (f_now f) (retry_after_of err) (f_clock f) (f_uniform f) db = (db', Inr st)))"
proof (cases rule: execute_claim_cases [of sink now c f db])
  case (success d)
  show ?thesis
  proof (cases rule: relay_succeed_cases [of f c db])
    case (ok db1 t)
    moreover obtain limit where "0 < limit" "remaining_claim_seconds c now = Inr limit" "sink c limit = Inr d"
      using success(1) by (auto simp: run_sink_def and_then_Inr_iff split: if_splits)
    ultimately show ?thesis using assms(1) success by (auto simp: absorb_Inr)
  next
    case (raised e)
    then have "db' = db" using assms(1) success absorb_fst [of f c db "Inl e"] by (metis fst_conv)
    with assms(2) show ?thesis by simp
  qed
next
  case (failure e err)
  show ?thesis
  proof (cases rule: relay_fail_cases [of f c err db])
    case (ok db1 st)
    then show ?thesis using assms(1) failure by (auto simp: fail_safely_def absorb_Inr)
  next
    case (raised e)
    then have "db' = db" using assms(1) failure absorb_fst [of f c db "Inl e"] unfolding fail_safely_def by (metis fst_conv)
    with assms(2) show ?thesis by simp
  qed
next
  case (untouched evs r)
  then show ?thesis using assms by simp
qed

definition sample_finaliser :: "exn option \<Rightarrow> int \<Rightarrow> finaliser" where
  "sample_finaliser fault t = \<lparr>f_fault = fault, f_now = Aware t, f_clock = (\<lambda>_. Aware t),
     f_uniform = (\<lambda>lo hi. Fin hi), f_reported_at = Aware t\<rparr>"

lemma sample_executes:
  "execute_claim (\<lambda>_ _. Inr None) (Aware 22) (sample_finaliser None 25) sample_claimed sample_db2 = (sample_db3, [], Inr ())"
  by code_simp

lemma absorb_reports:
  assumes "reportable f c" and "(\<exists>i. e = LeaseLost i) \<or> e = TimeoutError \<or> is_transient_database_connection_error e"
  shows "\<exists>ev. absorb f c (db, Inl e) = (db, [ev], Inr ()) \<and> re_lineage ev = claim_lineage c \<and>
      re_kind ev = (if \<exists>i. e = LeaseLost i then LEASE_LOST else CONTROL_PLANE_FAILED)"
  using assms(2) by (cases e) (auto simp: absorb_def lease_lost_reported [OF assms(1)] control_failure_reported [OF assms(1)])

lemma finish_cycle_raises:
  assumes "is_aware now" and "finish_cycle r now = (evs, Inl e)"
  shows "r = Inl e \<and> e \<noteq> TimeoutError \<and> \<not> is_transient_database_connection_error e"
proof (cases r)
  case (Inl e1)
  have "snd (finish_cycle r now) = Inr ()" if "e1 = TimeoutError \<or> is_transient_database_connection_error e1"
    using that Inl cycle_failure_reported [OF assms(1)] by (cases e1) (simp_all add: finish_cycle_def)
  moreover have "finish_cycle r now = ([], Inl e1)" if "e1 \<noteq> TimeoutError" "\<not> is_transient_database_connection_error e1"
    using that Inl by (cases e1) (simp_all add: finish_cycle_def)
  ultimately show ?thesis using assms(2) Inl by (metis Inl_Inr_False Pair_inject snd_conv sum.inject(1))
qed (use assms in \<open>simp add: finish_cycle_def\<close>)

text \<open>
  A lost lease and a reviewed outage never escape the relay: when the finalisation of a claim raises
  LeaseLost, runs into its timeout or meets a transient connection failure, the execution returns, has changed
  nothing, and reports exactly one event that carries the identifiers of the claim.
\<close>

lemma lost_lease_reported_not_raised:
  assumes "reportable f c" and "run_sink sink now c = Inr d \<and> d \<noteq> Some Deferred \<and> snd (relay_succeed f c db) = Inl e \<or>
      run_sink sink now c = Inl e0 \<and> classified e0 = Some err \<and> snd (relay_fail f c err db) = Inl e"
    and "(\<exists>i. e = LeaseLost i) \<or> e = TimeoutError \<or> is_transient_database_connection_error e"
  shows "\<exists>ev. execute_claim sink now f c db = (db, [ev], Inr ()) \<and> re_lineage ev = claim_lineage c \<and>
    re_kind ev = (if \<exists>i. e = LeaseLost i then LEASE_LOST else CONTROL_PLANE_FAILED)"
  using assms(2)
proof (elim disjE conjE)
  assume *: "run_sink sink now c = Inr d" "d \<noteq> Some Deferred" "snd (relay_succeed f c db) = Inl e"
  then have "relay_succeed f c db = (db, Inl e)" by (cases rule: relay_succeed_cases [of f c db]) auto
  then show ?thesis unfolding execute_claim_success [OF *(1,2)] by (simp only:) (rule absorb_reports [OF assms(1,3)])
next
  assume *: "run_sink sink now c = Inl e0" "classified e0 = Some err" "snd (relay_fail f c err db) = Inl e"
  then have "relay_fail f c err db = (db, Inl e)" by (cases rule: relay_fail_cases [of f c err db]) auto
  then show ?thesis unfolding execute_claim_failure [OF *(1,2)] fail_safely_def
    by (simp only:) (rule absorb_reports [OF assms(1,3)])
qed


definition sample_cycle :: cycle where
  "sample_cycle = \<lparr>y_stop = (\<lambda>_. False), y_fault = (\<lambda>_. None), y_now = (\<lambda>_. Aware 20), y_reconcile_clock = (\<lambda>_. Aware 20),
     y_claim_clock = (\<lambda>_. Aware 20), y_fresh = sample_fresh, y_locked = (\<lambda>_ _. False), y_order = id,
     y_samples = (\<lambda>_. (Aware 22, sample_finaliser None 25))\<rparr>"


text \<open>
  The supervising loop survives reviewed outages: an error that ends it is neither the timeout of a control
  transaction nor a transient connection failure.
\<close>

lemma relay_survives_transient_outages:
  assumes "list_all (\<lambda>(y, now). is_aware now) ys" and "relay_run cfg sink ys db = (db', evs, Inl e)"
  shows "e \<noteq> TimeoutError \<and> \<not> is_transient_database_connection_error e"
  using assms
proof (induction ys arbitrary: db db' evs)
  case (Cons yn ys)
  obtain y now where yn: "yn = (y, now)" by fastforce
  obtain db1 evs1 r where once: "run_once cfg sink y db = (db1, evs1, r)" by (metis prod_cases3)
  have now: "is_aware now" using Cons.prems(1) yn by simp
  obtain evs2 r2 where fin: "finish_cycle r now = (evs2, r2)" by fastforce
  show ?case
  proof (cases r2)
    case (Inl e')
    then have "e = e'" using Cons.prems(2) yn once fin by simp
    moreover have "e' \<noteq> TimeoutError \<and> \<not> is_transient_database_connection_error e'"
      using finish_cycle_raises [OF now] fin Inl by blast
    ultimately show ?thesis by simp
  next
    case (Inr u)
    then show ?thesis using Cons yn once fin by (auto split: prod.splits)
  qed
qed simp

end
