(* ===== verification/Python_Base64.thy ===== *)
theory Python_Base64
  imports Errors
begin

text \<open>
  \<^verbatim>\<open>base64.b64encode\<close> and the strict decoder behind \<^verbatim>\<open>base64.b64decode(..., validate=True)\<close> (\<^verbatim>\<open>binascii.a2b_base64\<close> with
  \<^verbatim>\<open>strict_mode\<close>): the decoder's states are the position in a group of four symbols, the bits left over, the number of padding
  symbols, and whether padding has started. It does not require the unused bits of the last symbol to be zero.
\<close>

section \<open>Symbols\<close>

definition b64_alphabet :: string where
  "b64_alphabet = ''ABCDEFGHIJKLMNOPQRSTUVWXYZabcdefghijklmnopqrstuvwxyz0123456789+/''"

definition b64_symbol :: "int \<Rightarrow> char" where
  "b64_symbol n = b64_alphabet ! nat n"

definition b64_value :: "char \<Rightarrow> int option" where
  "b64_value c = map_of (zip b64_alphabet (map int [0..<64])) c"

definition octet :: "char \<Rightarrow> int" where
  "octet c = of_char c"

definition octet_char :: "int \<Rightarrow> char" where
  "octet_char n = char_of n"

lemma octet_bounds: "0 \<le> octet c" "octet c < 256"
  by (cases c; simp add: octet_def of_char_def)+

lemma octet_char_octet [simp]: "octet_char (octet c) = c"
  by (simp add: octet_def octet_char_def)

lemma b64_alphabet_facts: "length b64_alphabet = 64" "distinct b64_alphabet" "CHR ''='' \<notin> set b64_alphabet"
  by (simp_all add: b64_alphabet_def)

lemma b64_value_symbol: "0 \<le> n \<Longrightarrow> n < 64 \<Longrightarrow> b64_value (b64_symbol n) = Some n"
  unfolding b64_value_def b64_symbol_def
  by (subst map_of_zip_nth) (auto simp: b64_alphabet_facts nth_map)

lemma b64_symbol_in: "0 \<le> n \<Longrightarrow> n < 64 \<Longrightarrow> b64_symbol n \<in> set b64_alphabet"
  by (simp add: b64_symbol_def b64_alphabet_facts)

lemma b64_symbol_no_pad: "0 \<le> n \<Longrightarrow> n < 64 \<Longrightarrow> b64_symbol n \<noteq> CHR ''=''"
  using b64_symbol_in b64_alphabet_facts(3) by metis

section \<open>Encoding and decoding\<close>

text \<open>The symbols of the data, without padding.\<close>

fun b64_body :: "bytes \<Rightarrow> string" where
  "b64_body [] = []"
| "b64_body [a] = [b64_symbol (octet a div 4), b64_symbol (octet a mod 4 * 16)]"
| "b64_body [a, b] =
     [b64_symbol (octet a div 4), b64_symbol (octet a mod 4 * 16 + octet b div 16), b64_symbol (octet b mod 16 * 4)]"
| "b64_body (a # b # c # rest) =
     [b64_symbol (octet a div 4), b64_symbol (octet a mod 4 * 16 + octet b div 16),
      b64_symbol (octet b mod 16 * 4 + octet c div 64), b64_symbol (octet c mod 64)] @ b64_body rest"

definition b64_padding :: "string \<Rightarrow> string" where
  "b64_padding s = replicate ((4 - length s mod 4) mod 4) (CHR ''='')"

definition b64encode :: "bytes \<Rightarrow> string" where
  "b64encode bs = b64_body bs @ b64_padding (b64_body bs)"

fun a2b_strict :: "nat \<Rightarrow> int \<Rightarrow> nat \<Rightarrow> bool \<Rightarrow> string \<Rightarrow> bytes result" where
  "a2b_strict quad left pads started [] = (if quad = 0 then Inr [] else Inl ValueError)"
| "a2b_strict quad left pads started (c # cs) =
     (if c = CHR ''=''
      then if 2 \<le> quad \<and> 4 \<le> quad + Suc pads then (if cs \<noteq> [] then Inl ValueError else Inr [])
           else a2b_strict quad left (if 2 \<le> quad then Suc pads else pads) True cs
      else case b64_value c of
        None \<Rightarrow> Inl ValueError
      | Some v \<Rightarrow>
          if started then Inl ValueError
          else if quad = 0 then a2b_strict 1 v 0 started cs
          else if quad = 1 then and_then (a2b_strict 2 (v mod 16) 0 started cs) (\<lambda>bs. Inr (octet_char (left * 4 + v div 16) # bs))
          else if quad = 2 then and_then (a2b_strict 3 (v mod 4) 0 started cs) (\<lambda>bs. Inr (octet_char (left * 16 + v div 4) # bs))
          else and_then (a2b_strict 0 0 0 started cs) (\<lambda>bs. Inr (octet_char (left * 64 + v) # bs)))"

definition b64decode :: "string \<Rightarrow> bytes result" where
  "b64decode s = (if take 1 s = ''='' then Inl ValueError else a2b_strict 0 0 0 False s)"

section \<open>Round trip\<close>

lemma digit_split:
  assumes "0 \<le> (q :: int)" "q < m"
  shows "(p * m + q) div m = p" "(p * m + q) mod m = q"
  using assms by simp_all

lemma octet_digits:
  "0 \<le> octet a div 4" "octet a div 4 < 64" "0 \<le> octet a div 16" "octet a div 16 < 16" "0 \<le> octet a div 64" "octet a div 64 < 4"
  "0 \<le> octet a mod 4" "octet a mod 4 < 4" "0 \<le> octet a mod 16" "octet a mod 16 < 16" "0 \<le> octet a mod 64" "octet a mod 64 < 64"
  using octet_bounds [of a] by auto

lemma octet_parts:
  "0 \<le> octet a mod 4 * 16 + octet b div 16" "octet a mod 4 * 16 + octet b div 16 < 64"
  "0 \<le> octet b mod 16 * 4 + octet c div 64" "octet b mod 16 * 4 + octet c div 64 < 64"
  "0 \<le> octet a mod 4 * 16" "octet a mod 4 * 16 < 64" "0 \<le> octet b mod 16 * 4" "octet b mod 16 * 4 < 64"
  using octet_digits [of a] octet_digits [of b] octet_digits [of c] by linarith+

lemma octet_low [simp]:
  "(octet a mod 4 * 16 + octet b div 16) div 16 = octet a mod 4" "(octet a mod 4 * 16 + octet b div 16) mod 16 = octet b div 16"
  "(octet b mod 16 * 4 + octet c div 64) div 4 = octet b mod 16" "(octet b mod 16 * 4 + octet c div 64) mod 4 = octet c div 64"
  by (rule digit_split; rule octet_digits)+

lemma octet_joins:
  "octet a div 4 * 4 + octet a mod 4 = octet a" "octet b div 16 * 16 + octet b mod 16 = octet b" "octet c div 64 * 64 + octet c mod 64 = octet c"
  by (rule div_mult_mod_eq)+

lemmas b64_symbols = b64_value_symbol b64_symbol_no_pad octet_digits octet_parts octet_joins

lemma b64_padding_short: "b64_padding [] = []" "b64_padding [a, b] = ''==''" "b64_padding [a, b, c] = ''=''"
  by (simp_all add: b64_padding_def numeral_2_eq_2)

lemma a2b_body: "a2b_strict 0 0 0 False (b64_body bs @ b64_padding (b64_body bs)) = Inr bs"
proof (induction bs rule: b64_body.induct)
  case (4 a b c rest')
  have "b64_padding (b64_body (a # b # c # rest')) = b64_padding (b64_body rest')" by (simp add: b64_padding_def)
  with 4 show ?case by (simp add: b64_symbols)
qed (simp_all add: b64_symbols b64_padding_short)

theorem b64_roundtrip: "b64decode (b64encode bs) = Inr bs"
proof -
  have "take 1 (b64encode bs) \<noteq> ''=''"
    by (cases bs rule: b64_body.cases) (auto simp: b64encode_def b64_padding_def b64_symbols)
  then show ?thesis using a2b_body [of bs] by (simp add: b64decode_def b64encode_def)
qed

lemma b64encode_inj: "b64encode x = b64encode y \<Longrightarrow> x = y"
  by (drule arg_cong [where f = b64decode]) (simp only: b64_roundtrip sum.inject)

end
