(* ===== verification/Command_Request.thy ===== *)
theory Command_Request
  imports Json_Parse Principal Python_Base64
begin

text \<open>
  \<^verbatim>\<open>idempotency/models.py\<close> (identities), \<^verbatim>\<open>fingerprint.py\<close>, \<^verbatim>\<open>responses.py\<close>, \<^verbatim>\<open>request.py\<close> and \<^verbatim>\<open>api.py\<close>: the opaque identity
  of a command, the fingerprint of its request, the response captured for replay, the bounded preparation of a
  request, and the mapping of failures to HTTP statuses. SHA-256 is an argument. A Starlette request or response is
  the record of the fields the code reads.
\<close>

section \<open>Text helpers of the standard library\<close>

definition ascii_lower :: "bytes \<Rightarrow> bytes" where
  "ascii_lower s = map (\<lambda>c. if is_upper c then char_of (code c + 32) else c) s"

definition is_ascii :: "string \<Rightarrow> bool" where
  "is_ascii s = list_all (\<lambda>c. code c < 128) s"

text \<open>\<^verbatim>\<open>str.split()\<close>: the maximal runs without white space.\<close>

fun words_from :: "string \<Rightarrow> string \<Rightarrow> string list" where
  "words_from w [] = (if w = [] then [] else [w])"
| "words_from w (c # cs) =
     (if is_space c then (if w = [] then words_from [] cs else w # words_from [] cs) else words_from (w @ [c]) cs)"

definition hexdigest :: "bytes \<Rightarrow> string" where
  "hexdigest b = concat (map (\<lambda>c. hex_digits 2 (int (code c))) b)"

text \<open>\<^verbatim>\<open>bytes.fromhex\<close>: pairs of hexadecimal digits with ASCII white space between the pairs.\<close>

fun fromhex :: "string \<Rightarrow> bytes option" where
  "fromhex [] = Some []"
| "fromhex (c # cs) =
     (if c \<in> set [CHR '' '', CHR 9, CHR 10, CHR 11, CHR 12, CHR 13] then fromhex cs
      else (case cs of
              [] \<Rightarrow> None
            | d # ds \<Rightarrow>
                (case (hex_value c, hex_value d) of
                   (Some x, Some y) \<Rightarrow> map_option ((#) (char_of (nat (16 * x + y)))) (fromhex ds)
                 | _ \<Rightarrow> None)))"

text \<open>\<^verbatim>\<open>int()\<close> of text: surrounding white space, a sign, digits with single underscores between them.\<close>

fun int_digits :: "bool \<Rightarrow> string \<Rightarrow> string option" where
  "int_digits after_digit [] = (if after_digit then Some [] else None)"
| "int_digits after_digit (c # cs) =
     (if is_digit c then map_option ((#) c) (int_digits True cs)
      else if c = CHR ''_'' \<and> after_digit then int_digits False cs else None)"

definition int_of_text :: "string \<Rightarrow> int result" where
  "int_of_text s =
     (let t = strip s; (neg, ds) = (if starts ''-'' t then (True, tl t) else if starts ''+'' t then (False, tl t) else (False, t)) in
      case int_digits False ds of
        None \<Rightarrow> Inl ValueError
      | Some d \<Rightarrow> if 4300 < int (length d) then Inl ValueError
                  else Inr (if neg then - decimal_value d else decimal_value d))"

definition has_line_break :: "string \<Rightarrow> bool" where
  "has_line_break s = list_ex (\<lambda>c. c = CHR 13 \<or> c = CHR 10 \<or> c = CHR 0x00) s"

fun contains_text :: "string \<Rightarrow> string \<Rightarrow> bool" where
  "contains_text w [] = (w = [])"
| "contains_text w (c # cs) = (starts w (c # cs) \<or> contains_text w cs)"

section \<open>Command identity\<close>

record command_identity =
  ci_tenant_id :: uuid
  ci_route_id :: string
  ci_method :: string
  ci_key_digest :: bytes

definition identity_post_init :: "command_identity \<Rightarrow> command_identity result" where
  "identity_post_init i =
     (if \<not> stable_key (ci_route_id i) then config_error ''Command route identity is invalid.''
      else if \<not> (list_all is_upper (ci_method i) \<and> 3 \<le> length (ci_method i) \<and> length (ci_method i) \<le> 16)
      then config_error ''Command method is invalid.''
      else if length (ci_key_digest i) \<noteq> 32 then config_error ''Command key digest is invalid.''
      else Inr i)"

datatype idempotency_key = KeyText string | KeyBytes bytes

fun raw_key :: "idempotency_key \<Rightarrow> bytes" where
  "raw_key (KeyText s) = utf8 s"
| "raw_key (KeyBytes b) = b"

definition from_key :: "(bytes \<Rightarrow> bytes) \<Rightarrow> uuid \<Rightarrow> string \<Rightarrow> string \<Rightarrow> idempotency_key \<Rightarrow> command_identity result" where
  "from_key sha256 tenant_id route_id method key =
     (if \<not> (1 \<le> length (raw_key key) \<and> int (length (raw_key key)) \<le> 512) \<or> list_ex is_control (raw_key key)
      then config_error ''Idempotency key is invalid or oversized.''
      else identity_post_init \<lparr>ci_tenant_id = tenant_id, ci_route_id = route_id, ci_method = upper method,
             ci_key_digest = sha256 (raw_key key)\<rparr>)"

section \<open>Request fingerprints\<close>

definition fingerprint_version :: int where "fingerprint_version = 1"
definition max_command_body_bytes :: int where "max_command_body_bytes = 1048576"

datatype body_fingerprint_mode = RAW | CANONICAL_JSON

fun body_mode_value :: "body_fingerprint_mode \<Rightarrow> string" where
  "body_mode_value RAW = ''raw''"
| "body_mode_value CANONICAL_JSON = ''canonical_json''"

record request_fingerprint =
  fp_version :: int
  fp_digest :: bytes

definition fingerprint_post_init :: "request_fingerprint \<Rightarrow> request_fingerprint result" where
  "fingerprint_post_init f =
     (if fp_version f \<noteq> fingerprint_version \<or> length (fp_digest f) \<noteq> 32
      then config_error ''Command request fingerprint is invalid.'' else Inr f)"

definition fingerprint_from_hex :: "string \<Rightarrow> request_fingerprint result" where
  "fingerprint_from_hex v =
     (case fromhex v of
        None \<Rightarrow> config_error ''Command request fingerprint is invalid.''
      | Some digest \<Rightarrow> fingerprint_post_init \<lparr>fp_version = fingerprint_version, fp_digest = digest\<rparr>)"

definition hex_digest :: "request_fingerprint \<Rightarrow> string" where
  "hex_digest f = hexdigest (fp_digest f)"

definition path_parameter_ok :: "string \<times> string \<Rightarrow> bool" where
  "path_parameter_ok kv \<longleftrightarrow> fst kv \<noteq> [] \<and> int (length (fst kv)) \<le> 128 \<and> int (length (utf8 (snd kv))) \<le> 4096"

definition normalize_path_parameters :: "(string \<times> string) list \<Rightarrow> (string \<times> string) list result" where
  "normalize_path_parameters ps =
     (if 64 < int (length ps) then config_error ''Command path parameters are oversized.''
      else if \<not> list_all path_parameter_ok ps then config_error ''Command path parameter is invalid.''
      else Inr (dict_merge [] ps))"

definition is_header_char :: "char \<Rightarrow> bool" where
  "is_header_char c \<longleftrightarrow> is_lower c \<or> is_digit c \<or>
     c \<in> set [CHR ''!'', CHR ''#'', CHR ''$'', CHR ''%'', CHR ''&'', CHR 0x27, CHR ''*'', CHR ''+'', CHR ''-'', CHR ''.'',
            CHR 0x5E, CHR ''_'', CHR 0x60, CHR ''|'', CHR ''~'']"

definition header_name_ok :: "string \<Rightarrow> bool" where
  "header_name_ok s \<longleftrightarrow> 1 \<le> length s \<and> int (length s) \<le> 128 \<and> list_all is_header_char s"

definition forbidden_headers :: "string list" where
  "forbidden_headers = [''authorization'', ''proxy-authorization'', ''cookie'', ''set-cookie'', ''idempotency-key'']"

fun normalize_headers :: "(string \<times> string) list \<Rightarrow> (string \<times> string) list \<Rightarrow> (string \<times> string) list result" where
  "normalize_headers [] out = Inr out"
| "normalize_headers ((raw_name, raw_value) # items) out =
     (let name = lower raw_name in
      if \<not> header_name_ok name \<or> name \<in> set forbidden_headers \<or> name \<in> fst ` set out \<or> 4096 < int (length raw_value) \<or> has_line_break raw_value
      then config_error ''Command representation header is invalid.''
      else normalize_headers items (out @ [(name, join '' '' (words_from [] (strip raw_value)))]))"

definition normalize_media_type :: "string option \<Rightarrow> string option result" where
  "normalize_media_type v =
     (case v of
        None \<Rightarrow> Inr None
      | Some t \<Rightarrow> if 128 < int (length t) \<or> has_line_break t then config_error ''Command media type is invalid.''
                  else Inr (Some (strip (lower t))))"

definition raw_body_tag :: bytes where
  "raw_body_tag = ''fastapi_effects:command-raw:v1'' @ [CHR 10]"

text \<open>What a fingerprint is computed from.\<close>

record request_shape =
  q_path_parameters :: "(string \<times> string) list"
  q_raw_query :: bytes
  q_headers :: "(string \<times> string) list"
  q_media_type :: "string option"
  q_body :: bytes
  q_mode :: body_fingerprint_mode

definition body_identity :: "(rat \<Rightarrow> string) \<Rightarrow> (string \<Rightarrow> pyfloat) \<Rightarrow> nat \<Rightarrow> int \<Rightarrow> request_shape \<Rightarrow> bytes result" where
  "body_identity frepr fparse stack maximum q =
     (case q_mode q of
        CANONICAL_JSON \<Rightarrow>
          and_then (strict_json_loads fparse stack maximum (q_body q)) (versioned_canonical_bytes frepr maximum)
      | RAW \<Rightarrow> Inr (raw_body_tag @ q_body q))"

definition text_object :: "(string \<times> string) list \<Rightarrow> json" where
  "text_object kvs = JObj (map (\<lambda>(k, v). (k, JStr v)) kvs)"

definition representation ::
  "(bytes \<Rightarrow> bytes) \<Rightarrow> request_shape \<Rightarrow> bytes \<Rightarrow> (string \<times> string) list \<Rightarrow> string option \<Rightarrow> (string \<times> string) list \<Rightarrow> json" where
  "representation sha256 q body headers media path =
     JObj [(''body_mode'', JStr (body_mode_value (q_mode q))), (''body_sha256'', JStr (hexdigest (sha256 body))),
           (''headers'', text_object headers), (''media_type'', case media of None \<Rightarrow> JNull | Some t \<Rightarrow> JStr t),
           (''path_parameters'', text_object path), (''query_base64'', JStr (b64encode (q_raw_query q))),
           (''version'', JInt fingerprint_version)]"

definition fingerprint_request ::
  "(bytes \<Rightarrow> bytes) \<Rightarrow> (rat \<Rightarrow> string) \<Rightarrow> (string \<Rightarrow> pyfloat) \<Rightarrow> nat \<Rightarrow> int \<Rightarrow> request_shape \<Rightarrow> request_fingerprint result" where
  "fingerprint_request sha256 frepr fparse stack maximum q =
     (if maximum < 1 then config_error ''Command request body limit is invalid.''
      else if 16384 < int (length (q_raw_query q)) then config_error ''Command query representation is oversized.''
      else if maximum < int (length (q_body q)) then config_error ''Command request body is oversized.''
      else
        and_then (normalize_path_parameters (q_path_parameters q)) (\<lambda>path.
        and_then (normalize_headers (q_headers q) []) (\<lambda>headers.
        and_then (body_identity frepr fparse stack maximum q) (\<lambda>body.
        and_then (normalize_media_type (q_media_type q)) (\<lambda>media.
        and_then (canonical_json_bytes frepr 65536 (representation sha256 q body headers media path)) (\<lambda>rep.
          fingerprint_post_init \<lparr>fp_version = fingerprint_version, fp_digest = sha256 rep\<rparr>))))))"

section \<open>Captured responses\<close>

definition max_response_body_bytes :: int where "max_response_body_bytes = 262144"
definition max_response_header_bytes :: int where "max_response_header_bytes = 16384"

definition allowed_media_types :: "string list" where
  "allowed_media_types = [''application/json'', ''application/problem+json'', ''text/plain'']"

definition safe_headers :: "string list" where
  "safe_headers = [''cache-control'', ''content-language'', ''etag'', ''last-modified'']"

definition unsafe_headers :: "string list" where
  "unsafe_headers =
     [''authorization'', ''connection'', ''cookie'', ''keep-alive'', ''proxy-authenticate'', ''proxy-authorization'', ''set-cookie'',
      ''te'', ''trailer'', ''transfer-encoding'', ''upgrade'', ''www-authenticate'']"

record captured_response =
  cr_status_code :: int
  cr_media_type :: string
  cr_body :: bytes
  cr_headers :: "(string \<times> string) list"

definition base_media_type :: "string \<Rightarrow> string" where
  "base_media_type t = strip (takeWhile (\<lambda>c. c \<noteq> CHR '';'') t)"

text \<open>The header loop: the normalised dictionary and the running size.\<close>

fun capture_headers :: "(string \<times> string) list \<Rightarrow> (string \<times> string) list \<Rightarrow> int \<Rightarrow> ((string \<times> string) list \<times> int) result" where
  "capture_headers [] normalized bytes_used = Inr (normalized, bytes_used)"
| "capture_headers ((raw_name, v) # items) normalized bytes_used =
     (let name = lower raw_name in
      if name \<in> set unsafe_headers \<or> name \<notin> set safe_headers \<or> has_line_break v
      then config_error ''Command response header is not replay-safe.''
      else capture_headers items (dict_set name v normalized) (bytes_used + int (length (utf8 name)) + int (length (utf8 v))))"

definition captured_post_init :: "captured_response \<Rightarrow> captured_response result" where
  "captured_post_init r =
     (if \<not> (200 \<le> cr_status_code r \<and> cr_status_code r \<le> 599) then config_error ''Command response status is not replay-safe.''
      else if base_media_type (lower (cr_media_type r)) \<notin> set allowed_media_types
      then config_error ''Command response media type is not replay-safe.''
      else if max_response_body_bytes < int (length (cr_body r)) then config_error ''Command response body is oversized.''
      else and_then (capture_headers (cr_headers r) [] 0) (\<lambda>(normalized, bytes_used).
        if max_response_header_bytes < bytes_used then config_error ''Command response headers are oversized.''
        else Inr (r\<lparr>cr_media_type := base_media_type (lower (cr_media_type r)), cr_headers := normalized\<rparr>)))"

text \<open>A Starlette response: the attributes the code reads and the arguments it constructs one with.\<close>

record http_response =
  hr_status :: int
  hr_body :: "bytes option"
  hr_media_type :: "string option"
  hr_headers :: "(string \<times> string) list"

definition to_response :: "bool \<Rightarrow> captured_response \<Rightarrow> http_response" where
  "to_response replayed r =
     \<lparr>hr_status = cr_status_code r, hr_body = Some (cr_body r), hr_media_type = Some (cr_media_type r),
      hr_headers = (if replayed then dict_set ''Idempotency-Replayed'' ''true'' (cr_headers r) else cr_headers r)\<rparr>"

fun collect_headers :: "(string \<times> string) list \<Rightarrow> (string \<times> string) list \<Rightarrow> (string \<times> string) list result" where
  "collect_headers [] out = Inr out"
| "collect_headers ((name, v) # items) out =
     (if lower name = ''content-type'' \<or> lower name = ''content-length'' then collect_headers items out
      else if lower name \<in> set unsafe_headers then config_error ''Command response contains an unsafe header.''
      else collect_headers items (dict_set name v out))"

definition header_get :: "string \<Rightarrow> (string \<times> string) list \<Rightarrow> string option" where
  "header_get name hs = map_option snd (List.find (\<lambda>h. lower (fst h) = name) hs)"

definition capture_response :: "http_response \<Rightarrow> captured_response result" where
  "capture_response response =
     (case hr_body response of
        None \<Rightarrow> config_error ''Streaming responses cannot be replayed.''
      | Some body \<Rightarrow>
          (let media_type = (case hr_media_type response of
                 Some t \<Rightarrow> t
               | None \<Rightarrow> takeWhile (\<lambda>c. c \<noteq> CHR '';'') (case header_get ''content-type'' (hr_headers response) of Some t \<Rightarrow> t | None \<Rightarrow> []))
           in and_then (collect_headers (hr_headers response) []) (\<lambda>headers.
                captured_post_init \<lparr>cr_status_code = hr_status response, cr_media_type = media_type, cr_body = body,
                  cr_headers = headers\<rparr>)))"

section \<open>Request preparation\<close>

record http_request =
  rq_method :: string
  rq_raw_headers :: "(bytes \<times> bytes) list"
  rq_path_params :: "(string \<times> string) list"
  rq_query_string :: bytes
  rq_chunks :: "bytes list"

record prepared_command =
  pc_identity :: command_identity
  pc_fingerprint :: request_fingerprint

definition one_raw_header :: "(bytes \<times> bytes) list \<Rightarrow> bytes \<Rightarrow> bool \<Rightarrow> bytes option result" where
  "one_raw_header hs name required =
     (let values = map snd (filter (\<lambda>h. ascii_lower (fst h) = name) hs) in
      if 1 < length values \<or> required \<and> values = []
      then config_error ''Required command request header is missing or repeated.''
      else Inr (case values of [] \<Rightarrow> None | v # _ \<Rightarrow> Some v))"

fun select_headers :: "(bytes \<times> bytes) list \<Rightarrow> string list \<Rightarrow> bytes list \<Rightarrow> (string \<times> string) list result" where
  "select_headers raw [] names = Inr []"
| "select_headers raw (configured # others) names =
     (let name = lower configured in
      if \<not> is_ascii name \<or> \<not> header_name_ok name \<or> name \<in> set names
      then config_error ''Command representation header name is invalid.''
      else and_then (one_raw_header raw name False) (\<lambda>v.
        case v of
          None \<Rightarrow> select_headers raw others (name # names)
        | Some b \<Rightarrow>
            (case utf8_decode b of
               Inl (Raised e) \<Rightarrow> Inl e
             | Inl _ \<Rightarrow> config_error ''Command representation header value is invalid.''
             | Inr t \<Rightarrow> and_then (select_headers raw others (name # names)) (\<lambda>rest. Inr ((name, t) # rest)))))"

fun collect_chunks :: "int \<Rightarrow> bytes list \<Rightarrow> bytes \<Rightarrow> bytes result" where
  "collect_chunks maximum [] body = Inr body"
| "collect_chunks maximum (chunk # chunks) body =
     (if maximum < int (length body) + int (length chunk) then config_error ''Command request body is oversized.''
      else collect_chunks maximum chunks (body @ chunk))"

text \<open>\<^verbatim>\<open>request.headers.get\<close> decodes the first matching header as Latin-1.\<close>

definition bounded_body :: "int \<Rightarrow> http_request \<Rightarrow> bytes result" where
  "bounded_body maximum rq =
     (if \<not> (0 \<le> maximum \<and> maximum \<le> 16777216) then config_error ''Command request body limit is invalid.''
      else and_then
        (case map_option snd (List.find (\<lambda>h. ascii_lower (fst h) = ''content-length'') (rq_raw_headers rq)) of
           None \<Rightarrow> Inr ()
         | Some declared \<Rightarrow>
             (case int_of_text declared of
                Inl _ \<Rightarrow> config_error ''Command Content-Length is invalid.''
              | Inr n \<Rightarrow> if n < 0 \<or> maximum < n then config_error ''Command request body is oversized.'' else Inr ()))
        (\<lambda>_. collect_chunks maximum (rq_chunks rq) []))"

definition request_media_type :: "(bytes \<times> bytes) list \<Rightarrow> string option result" where
  "request_media_type raw =
     and_then (one_raw_header raw ''content-type'' False) (\<lambda>v.
       case v of
         None \<Rightarrow> Inr None
       | Some t \<Rightarrow> if is_ascii t then Inr (Some (base_media_type t)) else config_error ''Command media type is invalid.'')"

definition prepare_request ::
  "(bytes \<Rightarrow> bytes) \<Rightarrow> (rat \<Rightarrow> string) \<Rightarrow> (string \<Rightarrow> pyfloat) \<Rightarrow> nat \<Rightarrow> http_request \<Rightarrow> principal \<Rightarrow> string \<Rightarrow>
     body_fingerprint_mode \<Rightarrow> string list \<Rightarrow> int \<Rightarrow> prepared_command result" where
  "prepare_request sha256 frepr fparse stack rq p route_id mode representation_headers maximum =
     and_then (one_raw_header (rq_raw_headers rq) ''idempotency-key'' True) (\<lambda>key.
       case key of
         None \<Rightarrow> config_error ''Idempotency-Key is required.''
       | Some k \<Rightarrow>
           and_then (select_headers (rq_raw_headers rq) representation_headers []) (\<lambda>selected.
           and_then (bounded_body maximum rq) (\<lambda>body.
           and_then (request_media_type (rq_raw_headers rq)) (\<lambda>media.
           and_then (from_key sha256 (p_tenant_id p) route_id (rq_method rq) (KeyBytes k)) (\<lambda>identity.
           and_then (fingerprint_request sha256 frepr fparse stack maximum
             \<lparr>q_path_parameters = rq_path_params rq, q_raw_query = rq_query_string rq, q_headers = selected,
              q_media_type = media, q_body = body, q_mode = mode\<rparr>) (\<lambda>fingerprint.
             Inr \<lparr>pc_identity = identity, pc_fingerprint = fingerprint\<rparr>))))))"

definition default_representation_headers :: "string list" where
  "default_representation_headers = [''content-encoding'', ''if-match'', ''if-none-match'']"

definition prepare_command ::
  "(bytes \<Rightarrow> bytes) \<Rightarrow> (rat \<Rightarrow> string) \<Rightarrow> (string \<Rightarrow> pyfloat) \<Rightarrow> nat \<Rightarrow> http_request \<Rightarrow> principal \<Rightarrow> string \<Rightarrow>
     body_fingerprint_mode \<Rightarrow> string list \<Rightarrow> prepared_command result" where
  "prepare_command sha256 frepr fparse stack rq p route_id mode representation_headers =
     prepare_request sha256 frepr fparse stack rq p route_id mode representation_headers max_command_body_bytes"

text \<open>\<^verbatim>\<open>command_http_exception\<close>: status and detail.\<close>

fun command_http_exception :: "exn \<Rightarrow> int \<times> string" where
  "command_http_exception AuthenticationRequired = (401, ''Authentication is required.'')"
| "command_http_exception AuthorizationDenied = (403, ''Command authority was denied.'')"
| "command_http_exception CommandConflict = (409, ''Idempotency identity conflicts.'')"
| "command_http_exception CommandInProgress = (409, ''Idempotency identity conflicts.'')"
| "command_http_exception (ConfigurationError m) =
     (if contains_text ''oversized'' (lower m) \<or> contains_text ''limit'' (lower m)
      then (413, ''Command representation is too large.'') else (422, ''Command representation is invalid.''))"
| "command_http_exception _ = (500, ''Command transaction failed.'')"

section \<open>Captured responses are stable\<close>

lemma lower_ascii: "list_all (\<lambda>s. lower s = s) (safe_headers @ allowed_media_types)"
  by code_simp

lemma safe_lower: "n \<in> set safe_headers \<Longrightarrow> lower n = n"
  using lower_ascii by (auto simp: list_all_iff)

definition headers_safe :: "(string \<times> string) list \<Rightarrow> bool" where
  "headers_safe hs \<longleftrightarrow> distinct (map fst hs) \<and>
     list_all (\<lambda>h. fst h \<in> set safe_headers \<and> \<not> has_line_break (snd h)) hs"

definition headers_size :: "(string \<times> string) list \<Rightarrow> int" where
  "headers_size hs = sum_list (map (\<lambda>h. int (length (utf8 (fst h))) + int (length (utf8 (snd h)))) hs)"

lemma headers_size_set: "headers_size (dict_set k v hs) \<le> headers_size hs + int (length (utf8 k)) + int (length (utf8 v))"
  by (induction hs) (auto simp: headers_size_def)

lemma capture_headers_Inr:
  "capture_headers items hs n = Inr (hs', n') \<Longrightarrow> headers_safe hs \<Longrightarrow> headers_size hs \<le> n \<Longrightarrow>
     headers_safe hs' \<and> headers_size hs' \<le> n'"
proof (induction items hs n rule: capture_headers.induct)
  case (2 raw_name v items hs n)
  have ok: "lower raw_name \<in> set safe_headers" "\<not> has_line_break v" using 2(2) by (auto simp: Let_def split: if_splits)
  have "headers_safe (dict_set (lower raw_name) v hs)"
    using 2(3) ok distinct_dict_set [of hs] by (auto simp: headers_safe_def list_all_iff dest!: set_dict_setD)
  then show ?case
    using 2(1) [OF refl] 2(2,4) headers_size_set [of "lower raw_name" v hs] by (auto simp: Let_def split: if_splits)
qed simp

lemma safe_not_unsafe: "n \<in> set safe_headers \<Longrightarrow> n \<notin> set unsafe_headers"
proof -
  have "list_all (\<lambda>n. n \<notin> set unsafe_headers) safe_headers" by code_simp
  then show "n \<in> set safe_headers \<Longrightarrow> ?thesis" by (simp add: list_all_iff)
qed

lemma capture_headers_safe:
  "list_all (\<lambda>h. fst h \<in> set safe_headers \<and> \<not> has_line_break (snd h)) items \<Longrightarrow> distinct (map fst (hs @ items)) \<Longrightarrow>
     capture_headers items hs n = Inr (hs @ items, n + headers_size items)"
proof (induction items arbitrary: hs n)
  case (Cons h items)
  obtain k v where h: "h = (k, v)" by fastforce
  have "k \<notin> fst ` set hs" using Cons.prems h by auto
  then show ?case
    using Cons.IH [of "hs @ [(k, v)]" "n + int (length (utf8 k)) + int (length (utf8 v))"] Cons.prems h safe_not_unsafe [of k]
    by (simp add: safe_lower dict_set_new headers_size_def add.assoc)
qed (simp add: headers_size_def)

lemma base_media_type_allowed:
  assumes "t \<in> set allowed_media_types" shows "base_media_type (lower t) = t"
proof -
  have "list_all (\<lambda>t. base_media_type (lower t) = t) allowed_media_types" by code_simp
  with assms show ?thesis by (simp add: list_all_iff)
qed

definition replay_safe :: "captured_response \<Rightarrow> bool" where
  "replay_safe r \<longleftrightarrow> 200 \<le> cr_status_code r \<and> cr_status_code r \<le> 599 \<and> cr_media_type r \<in> set allowed_media_types \<and>
     int (length (cr_body r)) \<le> max_response_body_bytes \<and> headers_safe (cr_headers r) \<and>
     headers_size (cr_headers r) \<le> max_response_header_bytes"

lemma captured_replay_safe: "captured_post_init r = Inr c \<Longrightarrow> replay_safe c"
  by (auto simp: captured_post_init_def replay_safe_def and_then_Inr_iff split: if_splits
      dest!: capture_headers_Inr) (auto simp: headers_safe_def headers_size_def)

lemma replay_safe_captured: "replay_safe c \<Longrightarrow> captured_post_init c = Inr c"
  using capture_headers_safe [of "cr_headers c" "[]" 0]
  by (auto simp: captured_post_init_def replay_safe_def headers_safe_def base_media_type_allowed)

lemma collect_headers_safe:
  "list_all (\<lambda>h. fst h \<in> set safe_headers) items \<Longrightarrow> distinct (map fst (hs @ items)) \<Longrightarrow> collect_headers items hs = Inr (hs @ items)"
proof (induction items arbitrary: hs)
  case (Cons h items)
  obtain k v where h: "h = (k, v)" by fastforce
  have "list_all (\<lambda>n. n \<noteq> ''content-type'' \<and> n \<noteq> ''content-length'') safe_headers" by code_simp
  then have "k \<noteq> ''content-type''" "k \<noteq> ''content-length''" using Cons.prems h by (auto simp: list_all_iff)
  moreover have "k \<notin> fst ` set hs" using Cons.prems h by auto
  ultimately show ?case
    using Cons.IH [of "hs @ [(k, v)]"] Cons.prems h safe_not_unsafe [of k] by (simp add: safe_lower dict_set_new)
qed simp

lemma recaptured: "replay_safe c \<Longrightarrow> capture_response (to_response False c) = Inr c"
  using collect_headers_safe [of "cr_headers c" "[]"] replay_safe_captured [of c]
  by (cases c) (simp add: capture_response_def to_response_def replay_safe_def headers_safe_def list_all_iff)

section \<open>Injective encodings\<close>

lemma hex_char: "0 \<le> d \<Longrightarrow> d < 16 \<Longrightarrow> hex_value (digit_char d) = Some d \<and>
    digit_char d \<notin> set [CHR '' '', CHR 9, CHR 10, CHR 11, CHR 12, CHR 13]"
proof -
  have "list_all (\<lambda>d. hex_value (digit_char d) = Some d \<and> digit_char d \<notin> set [CHR '' '', CHR 9, CHR 10, CHR 11, CHR 12, CHR 13])
      [0, 1, 2, 3, 4, 5, 6, 7, 8, 9, 10, 11, 12, 13, 14, 15]" by code_simp
  moreover assume "0 \<le> d" "d < 16"
  then have "d \<in> set [0, 1, 2, 3, 4, 5, 6, 7, 8, 9, 10, 11, 12, 13, 14, 15]" by simp presburger
  ultimately show ?thesis unfolding list_all_iff by blast
qed

lemma hex_pair: "hex_digits 2 n = [digit_char (n div 16 mod 16), digit_char (n mod 16)]"
  by (simp add: numeral_2_eq_2)

lemma fromhex_hexdigest: "fromhex (hexdigest b) = Some b"
proof (induction b)
  case (Cons c b)
  let ?n = "int (code c)"
  have c: "0 \<le> ?n" "?n < 256" by (simp_all add: code_def)
  have "?n div 16 mod 16 = ?n div 16" using c by (simp add: mod_pos_pos_trivial)
  then have "nat (16 * (?n div 16 mod 16) + ?n mod 16) = code c" by simp
  then have "char_of (nat (16 * (?n div 16 mod 16) + ?n mod 16)) = c" by (simp add: code_def)
  with Cons show ?case
    using hex_char [of "?n div 16 mod 16"] hex_char [of "?n mod 16"] by (simp add: hexdigest_def hex_pair del: hex_digits.simps)
qed (simp add: hexdigest_def)

lemma hexdigest_inj: "hexdigest a = hexdigest b \<Longrightarrow> a = b"
  by (metis fromhex_hexdigest option.inject)

text \<open>Canonical text determines the value up to the order of object members.\<close>

lemma canonical_text_inj:
  assumes "accepted 0 v" "accepted 0 w" "dumps frepr v = Inr s" "dumps frepr w = Inr t"
    and "floats_read_back frepr fparse v" "floats_read_back frepr fparse w"
  shows "s = t \<longleftrightarrow> canon v = canon w"
proof
  have parsed: "parse_value fparse (Suc (2 * length t)) 65 (t @ []) = Inr (canon u, [])"
    if "accepted 0 u" "dumps frepr u = Inr t" "floats_read_back frepr fparse u" for u t
    by (rule parsesD [OF dumps_parses [OF that(1) _ that(3,2)]]) (simp_all add: delimited_def)
  show "s = t \<Longrightarrow> canon v = canon w"
    using parsed [OF assms(1,3,5)] parsed [OF assms(2,4,6)] by (simp del: parse_value.simps)
  have "dumps frepr (canon u) = Inr t" if "accepted 0 u" "dumps frepr u = Inr t" for u t
    using json_same_canonical [OF canon_same that(1) canon_dicts] accepted_dicts [OF that(1)] that(2) by blast
  then show "canon v = canon w \<Longrightarrow> s = t" using assms(1-4) by (metis sum.inject(2))
qed

lemma canonical_bytes_inj:
  assumes "canonical_json_bytes frepr m v = Inr b" "canonical_json_bytes frepr m w = Inr c"
    and "floats_read_back frepr fparse v" "floats_read_back frepr fparse w"
  shows "b = c \<longleftrightarrow> canon v = canon w"
proof -
  obtain s t where v: "accepted 0 v" "dumps frepr v = Inr s" "b = utf8 s" and w: "accepted 0 w" "dumps frepr w = Inr t" "c = utf8 t"
    using assms(1,2) [unfolded canonical_json_bytes_Inr] by (elim conjE exE) metis
  have "utf8 s = utf8 t \<Longrightarrow> s = t" using utf8_decode_utf8 [of s] utf8_decode_utf8 [of t] by (metis sum.inject(2))
  then have "b = c \<longleftrightarrow> s = t" unfolding v(3) w(3) by (rule iffI) simp_all
  then show ?thesis using canonical_text_inj [OF v(1) w(1) v(2) w(2) assms(3,4)] by simp
qed

lemma text_object_inj:
  assumes "distinct (map fst a)" "distinct (map fst b)"
  shows "canon (text_object a) = canon (text_object b) \<longleftrightarrow> set a = set b"
proof -
  let ?f = "\<lambda>kv. (fst kv, JStr (snd kv))"
  have m: "canon (text_object c) = JObj (sort_key fst (map ?f c))" for c
    by (simp add: text_object_def comp_def case_prod_unfold)
  have d: "distinct (map fst (map ?f a))" "distinct (map fst (map ?f b))" using assms by (simp_all add: comp_def)
  have "inj ?f" by (auto simp: inj_def)
  then have "set (map ?f a) = set (map ?f b) \<longleftrightarrow> set a = set b" unfolding set_map by (rule inj_image_eq_iff)
  moreover have "set (map ?f a) = set (map ?f b)" if "sort_key fst (map ?f a) = sort_key fst (map ?f b)"
    using arg_cong [OF that, of set] by (simp only: set_sort)
  ultimately show ?thesis unfolding m json.inject using sort_key_fst_unique [OF d] by blast
qed

section \<open>What a fingerprint distinguishes\<close>

definition same_members :: "(string \<times> string) list result \<Rightarrow> (string \<times> string) list result \<Rightarrow> bool" where
  "same_members r r' = (case (r, r') of (Inr a, Inr b) \<Rightarrow> set a = set b | _ \<Rightarrow> False)"

definition same_body :: "(string \<Rightarrow> pyfloat) \<Rightarrow> nat \<Rightarrow> int \<Rightarrow> request_shape \<Rightarrow> request_shape \<Rightarrow> bool" where
  "same_body fparse stack maximum q q' =
     (case q_mode q of
        RAW \<Rightarrow> q_body q = q_body q'
      | CANONICAL_JSON \<Rightarrow>
          (case (strict_json_loads fparse stack maximum (q_body q), strict_json_loads fparse stack maximum (q_body q')) of
             (Inr v, Inr w) \<Rightarrow> canon v = canon w
           | _ \<Rightarrow> False))"

text \<open>Two requests are the same command: everything but representation detail agrees.\<close>

definition same_request :: "(string \<Rightarrow> pyfloat) \<Rightarrow> nat \<Rightarrow> int \<Rightarrow> request_shape \<Rightarrow> request_shape \<Rightarrow> bool" where
  "same_request fparse stack maximum q q' \<longleftrightarrow>
     q_mode q = q_mode q' \<and> q_raw_query q = q_raw_query q' \<and>
     normalize_media_type (q_media_type q) = normalize_media_type (q_media_type q') \<and>
     same_members (normalize_path_parameters (q_path_parameters q)) (normalize_path_parameters (q_path_parameters q')) \<and>
     same_members (normalize_headers (q_headers q) []) (normalize_headers (q_headers q') []) \<and>
     same_body fparse stack maximum q q'"

text \<open>The byte strings a fingerprint computation hashes.\<close>

definition hashed_inputs ::
  "(bytes \<Rightarrow> bytes) \<Rightarrow> (rat \<Rightarrow> string) \<Rightarrow> (string \<Rightarrow> pyfloat) \<Rightarrow> nat \<Rightarrow> int \<Rightarrow> request_shape \<Rightarrow> bytes list result" where
  "hashed_inputs sha256 frepr fparse stack maximum q =
     and_then (normalize_path_parameters (q_path_parameters q)) (\<lambda>path.
     and_then (normalize_headers (q_headers q) []) (\<lambda>headers.
     and_then (body_identity frepr fparse stack maximum q) (\<lambda>body.
     and_then (normalize_media_type (q_media_type q)) (\<lambda>media.
     and_then (canonical_json_bytes frepr 65536 (representation sha256 q body headers media path)) (\<lambda>rep.
       Inr [body, rep])))))"

definition body_floats :: "(rat \<Rightarrow> string) \<Rightarrow> (string \<Rightarrow> pyfloat) \<Rightarrow> nat \<Rightarrow> int \<Rightarrow> request_shape \<Rightarrow> bool" where
  "body_floats frepr fparse stack maximum q =
     (case strict_json_loads fparse stack maximum (q_body q) of Inl _ \<Rightarrow> True | Inr v \<Rightarrow> floats_read_back frepr fparse v)"

lemma normalize_headers_distinct:
  "normalize_headers hs out = Inr r \<Longrightarrow> distinct (map fst out) \<Longrightarrow> distinct (map fst r)"
  by (induction hs out rule: normalize_headers.induct) (auto simp: Let_def split: if_splits)

lemma normalize_path_distinct: "normalize_path_parameters ps = Inr r \<Longrightarrow> distinct (map fst r)"
  by (auto simp: normalize_path_parameters_def distinct_dict_merge split: if_splits)

lemma representation_floats: "floats_read_back frepr fparse (representation sha256 q body headers media path)"
  by (auto simp: representation_def text_object_def list_all_iff split: option.splits)

lemma representation_keys:
  "sorted [''body_mode'', ''body_sha256'', ''headers'', ''media_type'', ''path_parameters'', ''query_base64'', ''version'']"
  by code_simp

lemma canon_sorted: "sorted (map fst ms) \<Longrightarrow> canon (JObj ms) = JObj (map (\<lambda>m. (fst m, canon (snd m))) ms)"
  by (simp add: sorted_sort_id sort_key_id_if_sorted comp_def)

lemma body_mode_value_inj: "body_mode_value m = body_mode_value n \<longleftrightarrow> m = n"
  by (cases m; cases n) simp_all

lemma encodings_inj: "hexdigest a = hexdigest b \<longleftrightarrow> a = b" "b64encode a = b64encode b \<longleftrightarrow> a = b"
  using hexdigest_inj b64encode_inj by blast+

lemma representation_inj:
  assumes "distinct (map fst hs)" "distinct (map fst hs')" "distinct (map fst ps)" "distinct (map fst ps')"
  shows "canon (representation sha256 q b hs md ps) = canon (representation sha256 q' b' hs' md' ps') \<longleftrightarrow>
    q_mode q = q_mode q' \<and> sha256 b = sha256 b' \<and> set hs = set hs' \<and> md = md' \<and> set ps = set ps' \<and>
    q_raw_query q = q_raw_query q'"
proof -
  note s = representation_def canon_sorted representation_keys
  have md: "canon (case x of None \<Rightarrow> JNull | Some t \<Rightarrow> JStr t) = (case x of None \<Rightarrow> JNull | Some t \<Rightarrow> JStr t)" for x
    by (cases x) simp_all
  have "(case md of None \<Rightarrow> JNull | Some t \<Rightarrow> JStr t) = (case md' of None \<Rightarrow> JNull | Some t \<Rightarrow> JStr t) \<longleftrightarrow> md = md'"
    by (cases md; cases md') simp_all
  then show ?thesis
    unfolding text_object_inj [OF assms(1,2), symmetric] text_object_inj [OF assms(3,4), symmetric]
    by (simp add: s md body_mode_value_inj encodings_inj)
qed

lemma body_identity_inj:
  assumes "q_mode q = q_mode q'" and "body_identity frepr fparse stack m q = Inr b" "body_identity frepr fparse stack m q' = Inr b'"
    and "body_floats frepr fparse stack m q" "body_floats frepr fparse stack m q'"
  shows "b = b' \<longleftrightarrow> same_body fparse stack m q q'"
proof (cases "q_mode q")
  case CANONICAL_JSON
  let ?m = "m - int (length canonical_prefix)"
  from assms CANONICAL_JSON obtain v w c d where v: "strict_json_loads fparse stack m (q_body q) = Inr v"
      "strict_json_loads fparse stack m (q_body q') = Inr w"
    and c: "canonical_json_bytes frepr ?m v = Inr c" "canonical_json_bytes frepr ?m w = Inr d"
    and b: "b = canonical_prefix @ c" "b' = canonical_prefix @ d"
    by (auto simp: body_identity_def and_then_Inr_iff versioned_canonical_bytes_Inr simp del: canonical_json_bytes_Inr)
  have "floats_read_back frepr fparse v" "floats_read_back frepr fparse w" using assms(4,5) v by (simp_all add: body_floats_def)
  from canonical_bytes_inj [OF c this] show ?thesis using CANONICAL_JSON v b by (simp add: same_body_def)
qed (use assms in \<open>auto simp: body_identity_def same_body_def\<close>)

lemma fingerprint_parts:
  assumes "fingerprint_request sha256 frepr fparse stack m q = Inr f"
  obtains path headers body media rep where
    "normalize_path_parameters (q_path_parameters q) = Inr path" "normalize_headers (q_headers q) [] = Inr headers"
    "body_identity frepr fparse stack m q = Inr body" "normalize_media_type (q_media_type q) = Inr media"
    "canonical_json_bytes frepr 65536 (representation sha256 q body headers media path) = Inr rep"
    "f = \<lparr>fp_version = fingerprint_version, fp_digest = sha256 rep\<rparr>"
    "hashed_inputs sha256 frepr fparse stack m q = Inr [body, rep]"
proof -
  from assms obtain path headers body media rep where
    p: "normalize_path_parameters (q_path_parameters q) = Inr path" "normalize_headers (q_headers q) [] = Inr headers"
    "body_identity frepr fparse stack m q = Inr body" "normalize_media_type (q_media_type q) = Inr media"
    "canonical_json_bytes frepr 65536 (representation sha256 q body headers media path) = Inr rep"
    "fingerprint_post_init \<lparr>fp_version = fingerprint_version, fp_digest = sha256 rep\<rparr> = Inr f"
    unfolding fingerprint_request_def by (simp only: and_then_Inr_iff sum.distinct split: if_splits) blast+
  moreover have "f = \<lparr>fp_version = fingerprint_version, fp_digest = sha256 rep\<rparr>"
    using p(6) by (simp add: fingerprint_post_init_def split: if_splits)
  moreover have "hashed_inputs sha256 frepr fparse stack m q = Inr [body, rep]"
    using p(1-5) by (simp add: hashed_inputs_def)
  ultimately show thesis using that by blast
qed


text \<open>Two sample requests that differ in member order, header case and white space only; the hash is any function
  of 32 bytes that tells the hashed inputs apart.\<close>

definition sample_request :: "bytes \<Rightarrow> string \<Rightarrow> request_shape" where
  "sample_request body etag = \<lparr>q_path_parameters = [(''id'', ''7'')], q_raw_query = '''', q_headers = [(''If-Match'', etag)],
     q_media_type = Some ''application/json'', q_body = body, q_mode = CANONICAL_JSON\<rparr>"

definition sample_json_body :: "string \<Rightarrow> string \<Rightarrow> bytes" where
  "sample_json_body a b = [CHR 0x7B, CHR 0x22] @ a @ [CHR 0x22, CHR '':'', CHR ''1'', CHR '','', CHR 0x22] @ b @ [CHR 0x22, CHR '':'', CHR ''1'', CHR 0x7D]"

definition sample_hash :: "bytes \<Rightarrow> bytes" where
  "sample_hash b = (if starts [CHR 0x7B] b then ''0123456789abcdef0123456789abcdef'' else ''0123456789ABCDEF0123456789ABCDEF'')"


text \<open>
  A captured response replays to itself: whatever the handler returned, the captured form is replay-safe (status,
  media type, body and header bounds, only the four allowed headers, no line breaks), capturing the response built from it
  again gives the same record, and the replay header never enters the record.
\<close>

lemma captured_response_replays:
  assumes "capture_response response = Inr c"
  shows "replay_safe c \<and> capture_response (to_response False c) = Inr c \<and>
    hr_status (to_response True c) = cr_status_code c \<and> hr_body (to_response True c) = Some (cr_body c) \<and>
    ''idempotency-replayed'' \<notin> fst ` set (cr_headers c)"
proof -
  have "\<exists>r. captured_post_init r = Inr c"
    using assms by (auto simp: capture_response_def and_then_Inr_iff Let_def split: option.splits)
  then have s: "replay_safe c" by (auto dest: captured_replay_safe)
  have "''idempotency-replayed'' \<notin> set safe_headers" by (simp add: safe_headers_def)
  with s have "''idempotency-replayed'' \<notin> fst ` set (cr_headers c)"
    by (auto simp: replay_safe_def headers_safe_def list_all_iff)
  with s recaptured [OF s] show ?thesis by (simp add: to_response_def)
qed

end
