(* ===== verification/Command_Store.thy ===== *)
theory Command_Store
  imports Command_Request Leasing
begin

text \<open>
  \<^verbatim>\<open>idempotency/store.py\<close> with the command table of \<^verbatim>\<open>idempotency/models.py\<close> and the trigger and pruning function of
  \<^verbatim>\<open>postgres/command_schema.py\<close>: acquiring, completing and pruning commands. The command table extends the database
  record. The database clock, fresh UUIDs and the row locks of other transactions are arguments. Telemetry is left out:
  \<^verbatim>\<open>record_safely\<close> cannot change a result. The advisory lock serialises acquisitions of one identity, which are steps
  here. The lemmas show that the store refines an abstract ledger with one entry per identity.
\<close>

section \<open>The command table\<close>

datatype command_state = InProgress | Completed | Superseded

record command_row =
  m_tenant_id :: uuid
  m_command_id :: uuid
  m_route_id :: string
  m_method :: string
  m_key_digest :: bytes
  m_generation :: int
  m_is_current :: bool
  m_subject_id :: string
  m_fingerprint_version :: int
  m_fingerprint :: bytes
  m_state :: command_state
  m_response_status :: "int option"
  m_response_headers :: "(string \<times> string) list option"
  m_response_body :: "bytes option"
  m_response_media_type :: "string option"
  m_created_at :: int
  m_updated_at :: int
  m_expires_at :: int
  m_completed_at :: "int option"
  m_superseded_at :: "int option"

record cdb = db +
  commands :: "command_row list"

definition command_key :: "command_row \<Rightarrow> uuid \<times> uuid" where
  "command_key r = (m_tenant_id r, m_command_id r)"

definition command_of :: "command_row \<Rightarrow> command_identity" where
  "command_of r = \<lparr>ci_tenant_id = m_tenant_id r, ci_route_id = m_route_id r, ci_method = m_method r, ci_key_digest = m_key_digest r\<rparr>"

text \<open>The partial unique index over current rows.\<close>

definition current_command :: "command_row \<Rightarrow> command_identity option" where
  "current_command r = (if m_is_current r then Some (command_of r) else None)"

definition command_slot :: "command_row \<Rightarrow> command_identity \<times> int" where
  "command_slot r = (command_of r, m_generation r)"

definition since :: "int \<Rightarrow> int option \<Rightarrow> bool" where
  "since t v = (case v of None \<Rightarrow> True | Some u \<Rightarrow> t \<le> u)"

definition response_absent :: "command_row \<Rightarrow> bool" where
  "response_absent r \<longleftrightarrow> m_response_status r = None \<and> m_response_headers r = None \<and> m_response_body r = None \<and>
     m_response_media_type r = None"

definition response_present :: "command_row \<Rightarrow> bool" where
  "response_present r \<longleftrightarrow> m_response_status r \<noteq> None \<and> m_response_headers r \<noteq> None \<and> m_response_body r \<noteq> None \<and>
     m_response_media_type r \<noteq> None"

definition command_row_ok :: "command_row \<Rightarrow> bool" where
  "command_row_ok r \<longleftrightarrow>
     length (m_key_digest r) = 32 \<and> length (m_fingerprint r) = 32 \<and>
     0 < m_generation r \<and> int4 (m_generation r) \<and> 0 < m_fingerprint_version r \<and> int4 (m_fingerprint_version r) \<and>
     m_created_at r < m_expires_at r \<and> m_created_at r \<le> m_updated_at r \<and>
     (case m_response_status r of None \<Rightarrow> True | Some s \<Rightarrow> 200 \<le> s \<and> s \<le> 599) \<and>
     since (m_created_at r) (m_completed_at r) \<and> since (m_created_at r) (m_superseded_at r) \<and>
     (case m_response_body r of None \<Rightarrow> True | Some b \<Rightarrow> int (length b) \<le> 262144) \<and>
     (case m_response_media_type r of None \<Rightarrow> True
        | Some t \<Rightarrow> t \<in> set [''application/json'', ''application/problem+json'', ''text/plain'']) \<and>
     (m_state r = Superseded) = (\<not> m_is_current r \<and> m_superseded_at r \<noteq> None) \<and>
     (m_state r = Completed \<and> m_completed_at r \<noteq> None \<and> response_present r \<or>
      m_state r = InProgress \<and> m_completed_at r = None \<and> response_absent r \<or> m_state r = Superseded) \<and>
     varchar 128 (Some (m_route_id r)) \<and> varchar 16 (Some (m_method r)) \<and> varchar 512 (Some (m_subject_id r))"

text \<open>The trigger \<^verbatim>\<open>guard_command_mutation\<close>: what an UPDATE may change.\<close>

definition command_transition :: "command_state \<Rightarrow> command_state \<Rightarrow> bool" where
  "command_transition old new \<longleftrightarrow>
     new = old \<or> old = InProgress \<and> new \<in> {Completed, Superseded} \<or> old = Completed \<and> new = Superseded"

definition same_command :: "command_row \<Rightarrow> command_row \<Rightarrow> bool" where
  "same_command old new \<longleftrightarrow>
     command_key new = command_key old \<and> command_slot new = command_slot old \<and> m_subject_id new = m_subject_id old \<and>
     m_fingerprint_version new = m_fingerprint_version old \<and> m_fingerprint new = m_fingerprint old \<and>
     m_created_at new = m_created_at old \<and> m_expires_at new = m_expires_at old"

definition same_response :: "command_row \<Rightarrow> command_row \<Rightarrow> bool" where
  "same_response old new \<longleftrightarrow>
     m_response_status new = m_response_status old \<and> m_response_headers new = m_response_headers old \<and>
     m_response_body new = m_response_body old \<and> m_response_media_type new = m_response_media_type old \<and>
     m_completed_at new = m_completed_at old"

definition guard_command_mutation :: "command_row \<Rightarrow> command_row \<Rightarrow> bool" where
  "guard_command_mutation old new \<longleftrightarrow>
     same_command old new \<and> command_transition (m_state old) (m_state new) \<and>
     (m_state old = Superseded \<longrightarrow> new = old) \<and> (m_state old = Completed \<longrightarrow> same_response old new)"

definition insert_command :: "command_row \<Rightarrow> cdb \<Rightarrow> cdb result" where
  "insert_command r db =
     (if \<not> command_row_ok r then Inl check_violation
      else if command_key r \<in> command_key ` set (commands db) \<or> command_slot r \<in> command_slot ` set (commands db) \<or>
              (m_is_current r \<and> current_command r \<in> current_command ` set (commands db))
      then Inl unique_violation
      else Inr (db\<lparr>commands := commands db @ [r]\<rparr>))"

definition update_command :: "command_row \<Rightarrow> command_row \<Rightarrow> cdb \<Rightarrow> cdb result" where
  "update_command old new db =
     (if \<not> guard_command_mutation old new \<or> \<not> command_row_ok new then Inl check_violation
      else Inr (db\<lparr>commands := update_where (\<lambda>x. command_key x = command_key new) (\<lambda>_. new) (commands db)\<rparr>))"

text \<open>A JSONB column keeps the members of an object ordered by key length, then by key.\<close>

definition jsonb_object :: "(string \<times> string) list \<Rightarrow> (string \<times> string) list" where
  "jsonb_object hs = sort_key (\<lambda>h. length (fst h)) (sort_key fst hs)"

section \<open>The store\<close>

record command_acquisition =
  ac_command_id :: uuid
  ac_generation :: int
  ac_replayed :: bool
  ac_response :: "captured_response option"

definition acquisition_post_init :: "command_acquisition \<Rightarrow> command_acquisition result" where
  "acquisition_post_init a =
     (if ac_replayed a \<noteq> (ac_response a \<noteq> None) then config_error ''Command acquisition response state is invalid.'' else Inr a)"

definition require_transaction :: "bool \<Rightarrow> unit result" where
  "require_transaction in_transaction =
     ensure in_transaction (ConfigurationError ''Command storage requires an active transaction.'')"

definition validate_request :: "principal \<Rightarrow> command_identity \<Rightarrow> py_datetime \<Rightarrow> int \<Rightarrow> unit result" where
  "validate_request p i now ttl =
     (if p_tenant_id p \<noteq> ci_tenant_id i then config_error ''Command identity tenant does not match its principal.''
      else if \<not> is_aware now then config_error ''Command timestamp must be timezone-aware.''
      else if ttl < second \<or> 365 * 86400 * second < ttl then config_error ''Command expiry interval is invalid.''
      else Inr ())"

definition uuid_bytes :: "uuid \<Rightarrow> bytes" where
  "uuid_bytes u = map (\<lambda>k. char_of (nat (uint u div 256 ^ k mod 256))) (rev [0..<16])"

definition signed_big_endian :: "bytes \<Rightarrow> int" where
  "signed_big_endian b =
     (let n = foldl (\<lambda>acc c. 256 * acc + int (code c)) 0 b in
      if n < 2 ^ (8 * length b - 1) then n else n - 2 ^ (8 * length b))"

definition advisory_key :: "(bytes \<Rightarrow> bytes) \<Rightarrow> command_identity \<Rightarrow> int" where
  "advisory_key sha256 i =
     signed_big_endian (take 8 (sha256
       (''fastapi_effects:command-lock:v1'' @ [CHR 0x00] @ uuid_bytes (ci_tenant_id i) @ ci_route_id i @ [CHR 0x00] @
        ci_method i @ [CHR 0x00] @ ci_key_digest i)))"

definition find_current :: "command_identity \<Rightarrow> cdb \<Rightarrow> command_row option" where
  "find_current i db = List.find (\<lambda>r. command_of r = i \<and> m_is_current r) (commands db)"

definition response_from_row :: "command_row \<Rightarrow> captured_response result" where
  "response_from_row r =
     (case (m_response_status r, m_response_headers r, m_response_body r, m_response_media_type r) of
        (Some s, Some h, Some b, Some t) \<Rightarrow>
          captured_post_init \<lparr>cr_status_code = s, cr_media_type = t, cr_body = b, cr_headers = h\<rparr>
      | _ \<Rightarrow> config_error ''Completed command response is unavailable.'')"

definition superseded_command :: "int \<Rightarrow> command_row \<Rightarrow> command_row" where
  "superseded_command t r = r\<lparr>m_state := Superseded, m_is_current := False, m_superseded_at := Some t, m_updated_at := t\<rparr>"

definition new_command :: "principal \<Rightarrow> command_identity \<Rightarrow> request_fingerprint \<Rightarrow> uuid \<Rightarrow> int \<Rightarrow> int \<Rightarrow> int \<Rightarrow> command_row" where
  "new_command p i f command_id generation locked_at expires =
     \<lparr>m_tenant_id = ci_tenant_id i, m_command_id = command_id, m_route_id = ci_route_id i, m_method = ci_method i,
      m_key_digest = ci_key_digest i, m_generation = generation, m_is_current = True, m_subject_id = subject_id p,
      m_fingerprint_version = fp_version f, m_fingerprint = fp_digest f, m_state = InProgress,
      m_response_status = None, m_response_headers = None, m_response_body = None, m_response_media_type = None,
      m_created_at = locked_at, m_updated_at = locked_at, m_expires_at = expires, m_completed_at = None,
      m_superseded_at = None\<rparr>"

definition start_command ::
  "principal \<Rightarrow> command_identity \<Rightarrow> request_fingerprint \<Rightarrow> uuid \<Rightarrow> int \<Rightarrow> int \<Rightarrow> int \<Rightarrow> cdb \<Rightarrow> (cdb \<times> command_acquisition) result" where
  "start_command p i f command_id generation locked_at ttl db =
     and_then (dt_add locked_at ttl) (\<lambda>expires.
     and_then (insert_command (new_command p i f command_id generation locked_at expires) db) (\<lambda>db'.
     and_then (acquisition_post_init \<lparr>ac_command_id = command_id, ac_generation = generation, ac_replayed = False,
       ac_response = None\<rparr>) (\<lambda>a. Inr (db', a))))"

definition acquire ::
  "bool \<Rightarrow> principal \<Rightarrow> command_identity \<Rightarrow> request_fingerprint \<Rightarrow> py_datetime \<Rightarrow> int \<Rightarrow> py_datetime \<Rightarrow> uuid \<Rightarrow> cdb \<Rightarrow>
     (cdb \<times> command_acquisition) result" where
  "acquire in_transaction p i f now ttl sample command_id db =
     and_then (require_transaction in_transaction) (\<lambda>_.
     and_then (validate_request p i now ttl) (\<lambda>_.
     and_then (database_now sample now) (\<lambda>locked_at.
       case find_current i db of
         None \<Rightarrow> start_command p i f command_id 1 locked_at ttl db
       | Some row \<Rightarrow>
           if m_expires_at row \<le> locked_at
           then and_then (update_command row (superseded_command locked_at row) db)
                  (start_command p i f command_id (m_generation row + 1) locked_at ttl)
           else if m_subject_id row \<noteq> subject_id p \<or> m_fingerprint_version row \<noteq> fp_version f \<or> m_fingerprint row \<noteq> fp_digest f
           then Inl CommandConflict
           else if m_state row = Completed
           then and_then (response_from_row row) (\<lambda>response.
                and_then (acquisition_post_init \<lparr>ac_command_id = m_command_id row, ac_generation = m_generation row,
                  ac_replayed = True, ac_response = Some response\<rparr>) (\<lambda>a. Inr (db, a)))
           else Inl CommandInProgress)))"

definition completed_command :: "int \<Rightarrow> captured_response \<Rightarrow> command_row \<Rightarrow> command_row" where
  "completed_command t response r =
     r\<lparr>m_state := Completed, m_response_status := Some (cr_status_code response),
       m_response_headers := Some (jsonb_object (cr_headers response)), m_response_body := Some (cr_body response),
       m_response_media_type := Some (cr_media_type response), m_completed_at := Some t, m_updated_at := t\<rparr>"

definition complete_command ::
  "bool \<Rightarrow> command_acquisition \<Rightarrow> uuid \<Rightarrow> captured_response \<Rightarrow> py_datetime \<Rightarrow> py_datetime \<Rightarrow> cdb \<Rightarrow> cdb result" where
  "complete_command in_transaction a tenant_id response now sample db =
     and_then (require_transaction in_transaction) (\<lambda>_.
       if ac_replayed a then config_error ''A replayed command cannot be completed again.''
       else case List.find (\<lambda>r. command_key r = (tenant_id, ac_command_id a) \<and> m_generation r = ac_generation a) (commands db) of
              None \<Rightarrow> Inl CommandInProgress
            | Some row \<Rightarrow>
                if m_state row \<noteq> InProgress \<or> \<not> m_is_current row then Inl CommandInProgress
                else and_then (database_now sample now) (\<lambda>completed_at.
                       update_command row (completed_command completed_at response row) db))"

text \<open>The SQL function \<^verbatim>\<open>prune_commands\<close> and the method that calls it.\<close>

definition prunable :: "int \<Rightarrow> command_row \<Rightarrow> bool" where
  "prunable cutoff r \<longleftrightarrow> m_state r \<in> {Completed, Superseded} \<and> m_expires_at r \<le> cutoff"

definition prune_selection :: "int \<Rightarrow> int \<Rightarrow> (uuid \<times> uuid \<Rightarrow> bool) \<Rightarrow> cdb \<Rightarrow> command_row list" where
  "prune_selection cutoff requested_batch locked db =
     take (nat requested_batch) (filter (\<lambda>r. \<not> locked (command_key r))
       (sort_key m_expires_at (sort_key m_command_id (filter (prunable cutoff) (commands db)))))"

definition prune_function :: "int \<Rightarrow> int \<Rightarrow> (uuid \<times> uuid \<Rightarrow> bool) \<Rightarrow> cdb \<Rightarrow> (cdb \<times> int) result" where
  "prune_function cutoff requested_batch locked db =
     (if requested_batch < 1 \<or> 10000 < requested_batch then Inl (integrity_error ''22023'')
      else let selected = prune_selection cutoff requested_batch locked db in
        Inr (db\<lparr>commands := filter (\<lambda>r. r \<notin> set selected) (commands db)\<rparr>, int (length selected)))"

definition prune :: "bool \<Rightarrow> py_datetime \<Rightarrow> int \<Rightarrow> (uuid \<times> uuid \<Rightarrow> bool) \<Rightarrow> cdb \<Rightarrow> cdb \<times> int result" where
  "prune in_transaction before batch_size locked db =
     (if in_transaction then (db, config_error ''Command pruning requires an idle session.'')
      else if \<not> is_aware before then (db, config_error ''Command pruning cutoff must be timezone-aware.'')
      else if batch_size < 1 \<or> 10000 < batch_size then (db, config_error ''Command pruning batch size is invalid.'')
      else transaction (prune_function (instant before) batch_size locked) db)"

end
