(* ===== verification/Command_Ledger.thy ===== *)
theory Command_Ledger
  imports Command_Store
begin

text \<open>
  The command store as a machine: its invariant, the abstract ledger (at most one entry per command identity) it refines,
  and the permanence of a recorded response until its expiry.
\<close>

section \<open>The invariant\<close>

definition row_response :: "command_row \<Rightarrow> captured_response" where
  "row_response r = \<lparr>cr_status_code = the (m_response_status r), cr_media_type = the (m_response_media_type r),
     cr_body = the (m_response_body r), cr_headers = the (m_response_headers r)\<rparr>"

definition successor :: "command_row \<Rightarrow> command_row \<Rightarrow> bool" where
  "successor r c \<longleftrightarrow> m_is_current c \<and> command_of c = command_of r \<and> m_expires_at r < m_expires_at c \<and> m_generation r < m_generation c"

definition ledger_row :: "command_row set \<Rightarrow> command_row \<Rightarrow> bool" where
  "ledger_row R r \<longleftrightarrow> command_row_ok r \<and> (m_state r = Completed \<longrightarrow> replay_safe (row_response r)) \<and>
     (m_is_current r \<or> m_state r = Superseded \<and> (\<exists>c\<in>R. successor r c))"

definition ledger_rows :: "command_row set \<Rightarrow> bool" where
  "ledger_rows R \<longleftrightarrow> (\<forall>r\<in>R. ledger_row R r) \<and>
     (\<forall>r\<in>R. \<forall>c\<in>R. m_is_current r \<and> m_is_current c \<and> command_of r = command_of c \<longrightarrow> r = c) \<and>
     (\<forall>r\<in>R. \<forall>c\<in>R. command_slot r = command_slot c \<longrightarrow> r = c)"

definition ledger_inv :: "cdb \<Rightarrow> bool" where
  "ledger_inv db \<longleftrightarrow> distinct (map command_key (commands db)) \<and> ledger_rows (set (commands db))"

lemma ledger_rowsD:
  assumes "ledger_rows R"
  shows "r \<in> R \<Longrightarrow> ledger_row R r"
    "r \<in> R \<Longrightarrow> c \<in> R \<Longrightarrow> m_is_current r \<Longrightarrow> m_is_current c \<Longrightarrow> command_of r = command_of c \<Longrightarrow> r = c"
    "r \<in> R \<Longrightarrow> c \<in> R \<Longrightarrow> command_slot r = command_slot c \<Longrightarrow> r = c"
  using assms by (auto simp: ledger_rows_def)

lemma ledger_row_mono: "ledger_row R r \<Longrightarrow> (\<And>c. c \<in> R \<Longrightarrow> successor r c \<Longrightarrow> \<exists>d\<in>S. successor r d) \<Longrightarrow> ledger_row S r"
  by (auto simp: ledger_row_def)

text \<open>A row of an identity without a current row does not exist; the current row has the highest generation.\<close>

lemma current_exists: "ledger_rows R \<Longrightarrow> r \<in> R \<Longrightarrow> \<exists>c\<in>R. m_is_current c \<and> command_of c = command_of r"
  using ledger_rowsD(1) [of R r] by (auto simp: ledger_row_def successor_def)

lemma current_highest:
  assumes "ledger_rows R" "r \<in> R" "c \<in> R" "m_is_current c" "command_of r = command_of c" "r \<noteq> c"
  shows "m_state r = Superseded \<and> successor r c"
proof -
  have "\<not> m_is_current r" using ledger_rowsD(2) [OF assms(1-3)] assms(4-6) by blast
  with ledger_rowsD(1) [OF assms(1,2)] obtain d where "m_state r = Superseded" "d \<in> R" "successor r d"
    by (auto simp: ledger_row_def)
  moreover from this have "d = c" using ledger_rowsD(2) [OF assms(1), of d c] assms(3-5) by (simp add: successor_def)
  ultimately show ?thesis by simp
qed

section \<open>Preservation\<close>

definition fresh_command :: "command_row \<Rightarrow> bool" where
  "fresh_command n \<longleftrightarrow> command_row_ok n \<and> m_is_current n \<and> m_state n = InProgress"

lemma fresh_ledger_row: "fresh_command n \<Longrightarrow> ledger_row R n"
  by (simp add: fresh_command_def ledger_row_def)

lemma start_rows:
  assumes R: "ledger_rows R" and n: "fresh_command n" and none: "\<And>r. r \<in> R \<Longrightarrow> command_of r \<noteq> command_of n"
  shows "ledger_rows (insert n R)"
proof -
  have "ledger_row (insert n R) r" if "r \<in> R" for r
    using ledger_rowsD(1) [OF R that] by (rule ledger_row_mono) blast
  then show ?thesis
    using fresh_ledger_row [OF n] none ledger_rowsD(2,3) [OF R] unfolding ledger_rows_def command_slot_def
    by (metis insert_iff prod.inject)
qed

lemma restart_rows:
  assumes R: "ledger_rows R" and c: "c \<in> R" "m_is_current c" and n: "fresh_command n" "successor c n"
    and s: "command_row_ok s" "m_state s = Superseded" "\<not> m_is_current s" "command_slot s = command_slot c" "m_expires_at s = m_expires_at c"
    and gen: "m_generation n = m_generation c + 1"
  shows "ledger_rows (insert n (insert s (R - {c})))" (is "ledger_rows ?S")
proof -
  note cur = current_highest [OF R _ c]
  have sn: "successor s n" using n(2) s(4,5) by (simp add: successor_def command_slot_def)
  have slot: "command_slot r \<noteq> command_slot n" if "r = s \<or> r \<in> R - {c}" for r
  proof
    assume "command_slot r = command_slot n"
    then have r: "command_of r = command_of c" "m_generation r = m_generation c + 1"
      using n(2) gen by (simp_all add: command_slot_def successor_def)
    moreover have "m_generation s = m_generation c" using s(4) by (simp add: command_slot_def)
    ultimately have "r \<in> R - {c}" using that by auto
    then have "m_generation r < m_generation c" using cur [of r] r(1) by (auto simp: successor_def)
    with r(2) show False by simp
  qed
  have row: "ledger_row ?S r" if "r \<in> R" for r
  proof (rule ledger_row_mono [OF ledger_rowsD(1) [OF R that]])
    fix d assume d: "d \<in> R" "successor r d"
    show "\<exists>d\<in>?S. successor r d"
    proof (cases "d = c")
      case True
      then have "successor r n" using d n(2) by (auto simp: successor_def)
      then show ?thesis by blast
    qed (use d in blast)
  qed
  have "ledger_row ?S s" using s sn by (simp add: ledger_row_def)
  with row fresh_ledger_row [OF n(1)] have rows: "\<forall>r\<in>?S. ledger_row ?S r" by blast
  have "r = d" if "r \<in> ?S" "d \<in> ?S" "m_is_current r" "m_is_current d" "command_of r = command_of d" for r d
  proof -
    have "command_of x \<noteq> command_of n" if "x \<in> R" "x \<noteq> c" "m_is_current x" for x
      using ledger_rowsD(2) [OF R that(1) c(1) that(3) c(2)] n(2) that(2) by (auto simp: successor_def)
    then show ?thesis using that s(3) ledger_rowsD(2) [OF R, of r d] by (metis Diff_iff insert_iff)
  qed
  moreover have "r = d" if "r \<in> ?S" "d \<in> ?S" "command_slot r = command_slot d" for r d
  proof -
    have "command_slot x \<noteq> command_slot s" if "x \<in> R - {c}" for x
      using ledger_rowsD(3) [OF R, of x c] that c(1) s(4) by auto
    then show ?thesis using that slot ledger_rowsD(3) [OF R, of r d] by (metis Diff_iff insert_iff)
  qed
  ultimately show ?thesis using rows unfolding ledger_rows_def by blast
qed

lemma complete_rows:
  assumes R: "ledger_rows R" and c: "c \<in> R" "m_is_current c"
    and n: "command_row_ok n" "m_is_current n" "replay_safe (row_response n)" "command_slot n = command_slot c" "m_expires_at n = m_expires_at c"
  shows "ledger_rows (insert n (R - {c}))" (is "ledger_rows ?S")
proof -
  have same: "successor r c = successor r n" for r using n(2,4,5) c(2) by (simp add: successor_def command_slot_def)
  have "ledger_row ?S r" if "r \<in> R" for r
    using ledger_rowsD(1) [OF R that] by (rule ledger_row_mono) (metis Diff_iff insert_iff same singletonD)
  moreover have "ledger_row ?S n" using n by (simp add: ledger_row_def)
  moreover have "command_of n = command_of c" using n(4) by (simp add: command_slot_def)
  ultimately show ?thesis
    using ledger_rowsD(2,3) [OF R] c n(2,4) unfolding ledger_rows_def by (metis Diff_iff insert_iff)
qed

lemma prune_rows:
  assumes R: "ledger_rows R"
    and closed: "\<And>r c. r \<in> R \<Longrightarrow> c \<in> S \<Longrightarrow> m_state r = Superseded \<Longrightarrow> successor r c \<Longrightarrow> r \<in> S"
  shows "ledger_rows (R - S)"
proof -
  have "ledger_row (R - S) r" if "r \<in> R - S" for r
    using ledger_rowsD(1) [OF R, of r] that closed [of r] by (auto simp: ledger_row_def)
  then show ?thesis using ledger_rowsD(2,3) [OF R] unfolding ledger_rows_def by blast
qed

section \<open>The operations keep the invariant\<close>

lemma update_command_Inr [result_simps]:
  "update_command old new db = Inr db' \<longleftrightarrow> guard_command_mutation old new \<and> command_row_ok new \<and>
     db' = db\<lparr>commands := update_where (\<lambda>x. command_key x = command_key new) (\<lambda>_. new) (commands db)\<rparr>"
  by (auto simp: update_command_def)

lemma insert_command_Inr [result_simps]:
  "insert_command r db = Inr db' \<longleftrightarrow> command_row_ok r \<and> command_key r \<notin> command_key ` set (commands db) \<and>
     command_slot r \<notin> command_slot ` set (commands db) \<and>
     (m_is_current r \<longrightarrow> current_command r \<notin> current_command ` set (commands db)) \<and>
     db' = db\<lparr>commands := commands db @ [r]\<rparr>"
  by (auto simp: insert_command_def)

lemma updated_rows:
  assumes "distinct (map command_key (commands db))" and "old \<in> set (commands db)" and "update_command old new db = Inr db'"
  shows "set (commands db') = insert new (set (commands db) - {old}) \<and> distinct (map command_key (commands db')) \<and>
    command_key ` set (commands db') = command_key ` set (commands db)"
proof -
  have k: "command_key new = command_key old" and rows: "commands db' = update_where (\<lambda>x. command_key x = command_key new) (\<lambda>_. new) (commands db)"
    using assms(3) by (auto simp: result_simps guard_command_mutation_def same_command_def)
  have "map command_key (commands db') = map command_key (commands db)"
    unfolding rows by (rule map_replace_row [OF assms(1,2) k k])
  then show ?thesis using set_replace_row [OF assms(1,2) k] assms(1) rows by (metis set_map)
qed

lemma start_command_Inr:
  "start_command p i f cid g t ttl db = Inr (db', a) \<longleftrightarrow>
     dt_min \<le> t + ttl \<and> t + ttl \<le> dt_max \<and> insert_command (new_command p i f cid g t (t + ttl)) db = Inr db' \<and>
     a = \<lparr>ac_command_id = cid, ac_generation = g, ac_replayed = False, ac_response = None\<rparr>"
  by (auto simp: start_command_def and_then_Inr_iff dt_add_Inr acquisition_post_init_def)

lemma new_command_simps [simp]:
  "command_of (new_command p i f cid g t e) = i" "m_is_current (new_command p i f cid g t e)"
  "m_state (new_command p i f cid g t e) = InProgress" "m_generation (new_command p i f cid g t e) = g"
  "m_expires_at (new_command p i f cid g t e) = e" "command_key (new_command p i f cid g t e) = (ci_tenant_id i, cid)"
  by (simp_all add: new_command_def command_of_def command_key_def)

lemma superseded_simps [simp]:
  "command_slot (superseded_command t r) = command_slot r" "command_key (superseded_command t r) = command_key r"
  "m_state (superseded_command t r) = Superseded" "\<not> m_is_current (superseded_command t r)"
  "m_expires_at (superseded_command t r) = m_expires_at r" "command_of (superseded_command t r) = command_of r"
  by (simp_all add: superseded_command_def command_slot_def command_of_def command_key_def)

lemma completed_simps [simp]:
  "command_slot (completed_command t x r) = command_slot r" "command_key (completed_command t x r) = command_key r"
  "m_state (completed_command t x r) = Completed" "m_is_current (completed_command t x r) = m_is_current r"
  "m_expires_at (completed_command t x r) = m_expires_at r" "command_of (completed_command t x r) = command_of r"
  "row_response (completed_command t x r) = x\<lparr>cr_headers := jsonb_object (cr_headers x)\<rparr>"
  by (simp_all add: completed_command_def command_slot_def command_of_def command_key_def row_response_def)

lemma find_current_Some: "find_current i db = Some r \<Longrightarrow> r \<in> set (commands db) \<and> command_of r = i \<and> m_is_current r"
  by (auto simp: find_current_def dest: find_SomeD)

lemma find_current_None: "ledger_rows (set (commands db)) \<Longrightarrow> find_current i db = None \<Longrightarrow> r \<in> set (commands db) \<Longrightarrow> command_of r \<noteq> i"
  using current_exists [of "set (commands db)" r] by (auto simp: find_current_def find_None_iff')

lemma find_current_row:
  assumes "ledger_rows (set (commands db))" "r \<in> set (commands db)" "m_is_current r"
  shows "find_current (command_of r) db = Some r"
proof (cases "find_current (command_of r) db")
  case None
  with assms show ?thesis using find_current_None by blast
next
  case (Some c)
  with find_current_Some [OF Some] ledger_rowsD(2) [OF assms(1), of c r] assms show ?thesis by simp
qed

text \<open>The ways an acquisition returns.\<close>

lemma acquire_cases:
  assumes "acquire b p i f now ttl sample cid db = Inr (db', a)"
  obtains (started) "find_current i db = None" "start_command p i f cid 1 (instant sample) ttl db = Inr (db', a)"
  | (restarted) row db1 where "find_current i db = Some row" "m_expires_at row \<le> instant sample"
      "update_command row (superseded_command (instant sample) row) db = Inr db1"
      "start_command p i f cid (m_generation row + 1) (instant sample) ttl db1 = Inr (db', a)"
  | (replayed) row where "find_current i db = Some row" "db' = db" "m_state row = Completed" "ac_replayed a"
  using assms
  by (auto simp: acquire_def and_then_Inr_iff database_now_Inr acquisition_post_init_def split: option.splits if_splits)

lemma acquire_ttl: "acquire b p i f now ttl sample cid db = Inr x \<Longrightarrow> second \<le> ttl"
  by (auto simp: acquire_def and_then_Inr_iff validate_request_def split: if_splits)

lemma acquire_inv:
  assumes inv: "ledger_inv db" and a: "acquire b p i f now ttl sample cid db = Inr (db', a)"
  shows "ledger_inv db'"
  using a
proof (cases rule: acquire_cases)
  case started
  let ?n = "new_command p i f cid 1 (instant sample) (instant sample + ttl)"
  have n: "insert_command ?n db = Inr db'" using started(2) by (simp add: start_command_Inr)
  then have "set (commands db') = insert ?n (set (commands db))" "fresh_command ?n" "distinct (map command_key (commands db'))"
    using inv by (auto simp: insert_command_Inr fresh_command_def ledger_inv_def)
  moreover have "command_of r \<noteq> command_of ?n" if "r \<in> set (commands db)" for r
    using find_current_None [OF _ started(1) that] inv by (simp add: ledger_inv_def)
  ultimately show ?thesis using start_rows [of "set (commands db)" ?n] inv by (simp add: ledger_inv_def)
next
  case (restarted row db1)
  let ?n = "new_command p i f cid (m_generation row + 1) (instant sample) (instant sample + ttl)"
  let ?s = "superseded_command (instant sample) row"
  have d: "distinct (map command_key (commands db))" and R: "ledger_rows (set (commands db))" using inv by (simp_all add: ledger_inv_def)
  have row: "row \<in> set (commands db)" "command_of row = i" "m_is_current row" using find_current_Some [OF restarted(1)] by auto
  have db1: "set (commands db1) = insert ?s (set (commands db) - {row})" "distinct (map command_key (commands db1))"
    using updated_rows [OF d row(1) restarted(3)] by auto
  have n: "insert_command ?n db1 = Inr db'" using restarted(4) by (simp add: start_command_Inr)
  then have "set (commands db') = insert ?n (set (commands db1))" "fresh_command ?n" "distinct (map command_key (commands db'))"
    using db1(2) by (auto simp: insert_command_Inr fresh_command_def)
  moreover have "successor row ?n" using acquire_ttl [OF a] restarted(2) row by (simp add: successor_def)
  moreover have "command_row_ok ?s" using restarted(3) by (simp add: update_command_Inr)
  ultimately show ?thesis using restart_rows [OF R row(1,3), of ?n ?s] db1 by (simp add: ledger_inv_def)
next
  case (replayed row)
  then show ?thesis using inv by simp
qed

lemma jsonb_object_perm: "mset (jsonb_object hs) = mset hs"
  by (simp add: jsonb_object_def)

lemma jsonb_safe: "headers_safe (jsonb_object hs) = headers_safe hs" "headers_size (jsonb_object hs) = headers_size hs"
proof -
  have m: "mset (map g (jsonb_object hs)) = mset (map g hs)" for g :: "string \<times> string \<Rightarrow> 'a"
    by (simp add: jsonb_object_perm)
  have "set (jsonb_object hs) = set hs" using jsonb_object_perm mset_eq_setD by blast
  then show "headers_safe (jsonb_object hs) = headers_safe hs"
    using mset_eq_imp_distinct_iff [OF m [of fst]] by (simp add: headers_safe_def list_all_iff)
  show "headers_size (jsonb_object hs) = headers_size hs"
    unfolding headers_size_def sum_mset_sum_list [symmetric] m ..
qed

definition stored_response :: "captured_response \<Rightarrow> captured_response" where
  "stored_response x = x\<lparr>cr_headers := jsonb_object (cr_headers x)\<rparr>"

lemma stored_replay_safe: "replay_safe (stored_response x) = replay_safe x"
  by (simp add: replay_safe_def stored_response_def jsonb_safe)

lemma complete_cases:
  assumes "complete_command b a tenant x now sample db = Inr db'"
  obtains row where "row \<in> set (commands db)" "command_key row = (tenant, ac_command_id a)" "m_generation row = ac_generation a"
    "m_state row = InProgress" "m_is_current row"
    "update_command row (completed_command (instant sample) x row) db = Inr db'"
  using assms
  by (auto simp: complete_command_def and_then_Inr_iff database_now_Inr split: option.splits if_splits dest!: find_SomeD)

lemma complete_inv:
  assumes inv: "ledger_inv db" and a: "complete_command b a tenant x now sample db = Inr db'" and x: "replay_safe x"
  shows "ledger_inv db'"
  using a
proof (cases rule: complete_cases)
  case (1 row)
  have d: "distinct (map command_key (commands db))" and R: "ledger_rows (set (commands db))" using inv by (simp_all add: ledger_inv_def)
  have "command_row_ok (completed_command (instant sample) x row)" using 1(6) by (simp add: update_command_Inr)
  then have "ledger_rows (insert (completed_command (instant sample) x row) (set (commands db) - {row}))"
    using 1 x stored_replay_safe [of x] by (intro complete_rows [OF R]) (simp_all add: stored_response_def)
  then show ?thesis using updated_rows [OF d 1(1,6)] by (simp add: ledger_inv_def)
qed

lemma take_sorted_closed:
  assumes "sorted (map f xs)" "c \<in> set (take n xs)" "r \<in> set xs" "f r < f c"
  shows "r \<in> set (take n xs)"
proof (rule ccontr)
  assume "r \<notin> set (take n xs)"
  then have "r \<in> set (drop n xs)" using assms(3) by (metis Un_iff append_take_drop_id set_append)
  moreover have "sorted (map f (take n xs) @ map f (drop n xs))" using assms(1) by (metis append_take_drop_id map_append)
  ultimately have "f c \<le> f r" using assms(2) by (auto simp: sorted_append)
  with assms(4) show False by simp
qed

lemma prune_inv:
  assumes inv: "ledger_inv db" and p: "prune b before n (\<lambda>_. False) db = (db', Inr k)"
  shows "ledger_inv db'"
proof -
  let ?S = "prune_selection (instant before) n (\<lambda>_. False) db"
  let ?xs = "sort_key m_expires_at (sort_key m_command_id (filter (prunable (instant before)) (commands db)))"
  have db': "commands db' = filter (\<lambda>r. r \<notin> set ?S) (commands db)"
    using p by (auto simp: prune_def transaction_cases prune_function_def Let_def split: if_splits)
  have sel: "?S = take (nat n) ?xs" by (simp add: prune_selection_def)
  have "r \<in> set ?S" if "r \<in> set (commands db)" "c \<in> set ?S" "m_state r = Superseded" "successor r c" for r c
  proof -
    have "c \<in> set ?xs" using that(2) sel by (metis in_set_takeD)
    then have "r \<in> set ?xs" using that by (auto simp: prunable_def successor_def)
    then show ?thesis using take_sorted_closed [of m_expires_at ?xs c "nat n" r] that(2,4) sel by (simp add: successor_def)
  qed
  then have "ledger_rows (set (commands db) - set ?S)" using inv by (intro prune_rows) (auto simp: ledger_inv_def)
  moreover have "set (commands db') = set (commands db) - set ?S" using db' by auto
  ultimately show ?thesis using inv db' by (simp add: ledger_inv_def distinct_map_filter)
qed

section \<open>The abstract ledger\<close>

text \<open>What callers rely on: at most one entry per command identity, with its response once completed.\<close>

record ledger_entry =
  le_command_id :: uuid
  le_generation :: int
  le_subject :: string
  le_fingerprint :: request_fingerprint
  le_expires :: int
  le_response :: "captured_response option"

type_synonym ledger = "command_identity \<Rightarrow> ledger_entry option"

definition entry_of :: "command_row \<Rightarrow> ledger_entry" where
  "entry_of r = \<lparr>le_command_id = m_command_id r, le_generation = m_generation r, le_subject = m_subject_id r,
     le_fingerprint = \<lparr>fp_version = m_fingerprint_version r, fp_digest = m_fingerprint r\<rparr>, le_expires = m_expires_at r,
     le_response = (if m_state r = Completed then Some (row_response r) else None)\<rparr>"

definition ledger_of :: "cdb \<Rightarrow> ledger" where
  "ledger_of db i = map_option entry_of (find_current i db)"

definition new_entry :: "principal \<Rightarrow> request_fingerprint \<Rightarrow> uuid \<Rightarrow> int \<Rightarrow> int \<Rightarrow> ledger_entry" where
  "new_entry p f cid g e = \<lparr>le_command_id = cid, le_generation = g, le_subject = subject_id p, le_fingerprint = f,
     le_expires = e, le_response = None\<rparr>"

definition spec_start :: "principal \<Rightarrow> command_identity \<Rightarrow> request_fingerprint \<Rightarrow> int \<Rightarrow> uuid \<Rightarrow> int \<Rightarrow> ledger \<Rightarrow> ledger \<times> command_acquisition" where
  "spec_start p i f e cid g L =
     (L(i \<mapsto> new_entry p f cid g e), \<lparr>ac_command_id = cid, ac_generation = g, ac_replayed = False, ac_response = None\<rparr>)"

definition spec_acquire ::
  "principal \<Rightarrow> command_identity \<Rightarrow> request_fingerprint \<Rightarrow> int \<Rightarrow> int \<Rightarrow> uuid \<Rightarrow> ledger \<Rightarrow> (ledger \<times> command_acquisition) result" where
  "spec_acquire p i f t ttl cid L =
     (case L i of
        None \<Rightarrow> Inr (spec_start p i f (t + ttl) cid 1 L)
      | Some e \<Rightarrow>
          if le_expires e \<le> t then Inr (spec_start p i f (t + ttl) cid (le_generation e + 1) L)
          else if le_subject e \<noteq> subject_id p \<or> le_fingerprint e \<noteq> f then Inl CommandConflict
          else case le_response e of
                 None \<Rightarrow> Inl CommandInProgress
               | Some r \<Rightarrow> Inr (L, \<lparr>ac_command_id = le_command_id e, ac_generation = le_generation e, ac_replayed = True,
                   ac_response = Some r\<rparr>))"

lemma find_current_iff:
  assumes "ledger_inv db"
  shows "find_current i db = Some r \<longleftrightarrow> r \<in> set (commands db) \<and> command_of r = i \<and> m_is_current r"
  using find_current_Some [of i db r] find_current_row [of db r] assms by (auto simp: ledger_inv_def)

lemma find_current_cong:
  assumes "ledger_inv db" "ledger_inv db'"
    and "\<And>r. command_of r = j \<Longrightarrow> m_is_current r \<Longrightarrow> r \<in> set (commands db') \<longleftrightarrow> r \<in> set (commands db)"
  shows "find_current j db' = find_current j db"
proof -
  have "find_current j db' = Some r \<longleftrightarrow> find_current j db = Some r" for r
    using assms(3) [of r] by (auto simp: find_current_iff [OF assms(1)] find_current_iff [OF assms(2)])
  then show ?thesis by (metis not_None_eq)
qed

lemma ledger_of_set:
  assumes "ledger_inv db" "ledger_inv db'" and "n \<in> set (commands db')" "m_is_current n"
    and "\<And>r. command_of r \<noteq> command_of n \<Longrightarrow> m_is_current r \<Longrightarrow> r \<in> set (commands db') \<longleftrightarrow> r \<in> set (commands db)"
  shows "ledger_of db' = (ledger_of db)(command_of n \<mapsto> entry_of n)"
proof
  fix j
  show "ledger_of db' j = ((ledger_of db)(command_of n \<mapsto> entry_of n)) j"
  proof (cases "j = command_of n")
    case True
    with assms(3,4) show ?thesis by (simp add: ledger_of_def find_current_iff [OF assms(2), THEN iffD2])
  next
    case False
    then show ?thesis using find_current_cong [OF assms(1,2), of j] assms(5) by (simp add: ledger_of_def)
  qed
qed

lemma entry_new_command:
  "entry_of (new_command p i f cid g t e) = new_entry p f cid g e"
  by (cases f) (simp add: entry_of_def new_entry_def new_command_def)

lemma start_command_ledger:
  assumes "ledger_inv db" and a: "acquire b p i f now ttl sample cid db = Inr (db', a)" and n: "\<not> ac_replayed a"
  shows "\<exists>g. (ledger_of db', a) = spec_start p i f (instant sample + ttl) cid g (ledger_of db) \<and>
    g = (case find_current i db of None \<Rightarrow> 1 | Some r \<Rightarrow> m_generation r + 1) \<and>
    (\<forall>r. find_current i db = Some r \<longrightarrow> m_expires_at r \<le> instant sample)"
proof -
  have d: "distinct (map command_key (commands db))" using assms(1) by (simp add: ledger_inv_def)
  note inv = acquire_inv [OF assms(1) a]
  have step: ?thesis if s: "start_command p i f cid g (instant sample) ttl db1 = Inr (db', a)"
    and g: "g = (case find_current i db of None \<Rightarrow> 1 | Some r \<Rightarrow> m_generation r + 1)"
    and e: "\<forall>r. find_current i db = Some r \<longrightarrow> m_expires_at r \<le> instant sample"
    and db1: "\<And>r. m_is_current r \<Longrightarrow> command_of r \<noteq> i \<Longrightarrow> r \<in> set (commands db1) \<longleftrightarrow> r \<in> set (commands db)" for g db1
  proof -
    let ?n = "new_command p i f cid g (instant sample) (instant sample + ttl)"
    have rows: "set (commands db') = insert ?n (set (commands db1))" using s by (auto simp: start_command_Inr insert_command_Inr)
    have "ledger_of db' = (ledger_of db)(command_of ?n \<mapsto> entry_of ?n)"
      using db1 by (intro ledger_of_set [OF assms(1) inv]) (auto simp: rows)
    then show ?thesis using s g e by (auto simp: spec_start_def start_command_Inr entry_new_command)
  qed
  show ?thesis using a
  proof (cases rule: acquire_cases)
    case started
    then show ?thesis using step [of 1 db] by simp
  next
    case (restarted row db1)
    have row: "row \<in> set (commands db)" "command_of row = i" using find_current_Some [OF restarted(1)] by auto
    have "set (commands db1) = insert (superseded_command (instant sample) row) (set (commands db) - {row})"
      using updated_rows [OF d row(1) restarted(3)] by blast
    then have "r \<in> set (commands db1) \<longleftrightarrow> r \<in> set (commands db)" if "m_is_current r" "command_of r \<noteq> i" for r
      using that row(2) by auto
    with step [OF restarted(4)] restarted(1,2) show ?thesis by auto
  next
    case (replayed row)
    then show ?thesis using n by simp
  qed
qed

text \<open>A current row can be superseded at its expiry, and a valid new row is accepted.\<close>

lemma supersede_accepted:
  assumes "command_row_ok r" "m_is_current r" "m_expires_at r \<le> t"
  shows "\<exists>db'. update_command r (superseded_command t r) db = Inr db'"
proof -
  have "m_state r \<noteq> Superseded" "m_created_at r \<le> t" using assms by (auto simp: command_row_ok_def)
  then have "guard_command_mutation r (superseded_command t r)"
    by (cases "m_state r") (auto simp: guard_command_mutation_def same_command_def same_response_def superseded_command_def
        command_transition_def command_key_def command_slot_def command_of_def)
  moreover have "command_row_ok (superseded_command t r)"
    using assms \<open>m_created_at r \<le> t\<close> by (simp add: command_row_ok_def superseded_command_def since_def response_present_def response_absent_def)
  ultimately show ?thesis by (simp add: update_command_def)
qed

lemma identity_ok:
  "identity_post_init i = Inr i \<longleftrightarrow> stable_key (ci_route_id i) \<and> list_all is_upper (ci_method i) \<and> 3 \<le> length (ci_method i) \<and>
     length (ci_method i) \<le> 16 \<and> length (ci_key_digest i) = 32"
  by (auto simp: identity_post_init_def)

lemma new_command_ok:
  assumes "valid_principal p" "identity_post_init i = Inr i" "fingerprint_post_init f = Inr f"
    and "0 < g" "int4 g" "t < e"
  shows "command_row_ok (new_command p i f cid g t e)"
proof -
  have "length (ci_route_id i) \<le> 128" using assms(2) head_tail_match_length [of key_head key_tail 127 "ci_route_id i"]
    by (auto simp: identity_ok stable_key_def)
  moreover have "length (subject_id p) \<le> 512" using assms(1) by (simp add: valid_principal_def identifier_ok_def)
  moreover have "fp_version f = 1" "length (fp_digest f) = 32"
    using assms(3) by (auto simp: fingerprint_post_init_def fingerprint_version_def split: if_splits)
  ultimately show ?thesis using assms(2,4-6)
    by (simp add: command_row_ok_def new_command_def since_def response_absent_def varchar_def identity_ok int4_def)
qed

lemma insert_accepted:
  assumes ok: "command_row_ok (new_command p i f cid g t e)" and k: "(ci_tenant_id i, cid) \<notin> command_key ` set (commands db)"
    and none: "\<And>r. r \<in> set (commands db) \<Longrightarrow> command_of r = i \<Longrightarrow> \<not> m_is_current r \<and> m_generation r < g"
  shows "\<exists>db'. insert_command (new_command p i f cid g t e) db = Inr db'"
proof -
  have "command_slot (new_command p i f cid g t e) \<notin> command_slot ` set (commands db)"
    using none by (fastforce simp: command_slot_def)
  moreover have "current_command (new_command p i f cid g t e) \<notin> current_command ` set (commands db)"
    using none by (fastforce simp: current_command_def split: if_splits)
  ultimately show ?thesis using ok k by (simp add: insert_command_def)
qed

lemma completed_response:
  assumes "ledger_row R r" "m_state r = Completed"
  shows "response_from_row r = Inr (row_response r)"
proof -
  have "replay_safe (row_response r)" "response_present r" using assms by (auto simp: ledger_row_def command_row_ok_def)
  then show ?thesis using replay_safe_captured [of "row_response r"]
    by (auto simp: response_from_row_def response_present_def row_response_def)
qed

text \<open>With valid arguments an acquisition that has to start a command does start one.\<close>

lemma acquire_starts:
  assumes inv: "ledger_inv db" and "valid_principal p" "identity_post_init i = Inr i" "fingerprint_post_init f = Inr f"
    and v: "validate_request p i now ttl = Inr ()" "is_aware sample"
    and k: "(ci_tenant_id i, cid) \<notin> command_key ` set (commands db)"
    and t: "dt_min \<le> instant sample + ttl" "instant sample + ttl \<le> dt_max"
    and old: "\<forall>r. find_current i db = Some r \<longrightarrow> m_expires_at r \<le> instant sample \<and> m_generation r < 2147483647"
  shows "\<exists>db' a. acquire True p i f now ttl sample cid db = Inr (db', a) \<and> \<not> ac_replayed a"
proof -
  have aware: "is_aware now" and ttl: "0 < ttl" using v by (auto simp: validate_request_def split: if_splits)
  have d: "distinct (map command_key (commands db))" and R: "ledger_rows (set (commands db))" using inv by (simp_all add: ledger_inv_def)
  have start: "\<exists>db' a. start_command p i f cid g (instant sample) ttl db1 = Inr (db', a) \<and> \<not> ac_replayed a"
    if "0 < g" "int4 g" "(ci_tenant_id i, cid) \<notin> command_key ` set (commands db1)"
      "\<And>r. r \<in> set (commands db1) \<Longrightarrow> command_of r = i \<Longrightarrow> \<not> m_is_current r \<and> m_generation r < g" for g db1
  proof -
    have "command_row_ok (new_command p i f cid g (instant sample) (instant sample + ttl))"
      using ttl by (intro new_command_ok [OF assms(2-4) that(1,2)]) simp
    from insert_accepted [OF this that(3,4)]
    obtain db' where "insert_command (new_command p i f cid g (instant sample) (instant sample + ttl)) db1 = Inr db'" by blast
    with t show ?thesis unfolding start_command_Inr by (intro exI conjI) (assumption | rule refl | simp)+
  qed
  note s = acquire_def require_transaction_def database_now_def
  show ?thesis
  proof (cases "find_current i db")
    case None
    then show ?thesis using start [of 1 db] k find_current_None [OF R None] aware v by (auto simp: s int4_def)
  next
    case (Some r)
    have r: "r \<in> set (commands db)" "command_of r = i" "m_is_current r" using find_current_Some [OF Some] by auto
    have ok: "command_row_ok r" using ledger_rowsD(1) [OF R r(1)] by (simp add: ledger_row_def)
    obtain db1 where db1: "update_command r (superseded_command (instant sample) r) db = Inr db1"
      using supersede_accepted [OF ok r(3)] old Some by blast
    note u = updated_rows [OF d r(1) db1]
    have "\<not> m_is_current x \<and> m_generation x < m_generation r + 1" if "x \<in> set (commands db1)" "command_of x = i" for x
    proof (cases "x \<in> set (commands db) - {r}")
      case True
      then show ?thesis using current_highest [OF R _ r(1,3), of x] ledger_rowsD(2) [OF R, of x r] r that(2) by (auto simp: successor_def)
    next
      case False
      then have "x = superseded_command (instant sample) r" using u that(1) by blast
      then show ?thesis by (simp add: superseded_command_def)
    qed
    then have "\<exists>db' a. start_command p i f cid (m_generation r + 1) (instant sample) ttl db1 = Inr (db', a) \<and> \<not> ac_replayed a"
      using start [of "m_generation r + 1" db1] u k ok old Some by (auto simp: command_row_ok_def int4_def)
    then show ?thesis using Some old db1 aware v by (auto simp: s)
  qed
qed

section \<open>The machine\<close>

text \<open>
  Committed states of the command table: acquisitions, completions with a captured response, unobstructed pruning, and
  everything else that leaves the table alone. The clock samples and pruning cutoffs are at most the horizon.
\<close>

inductive command_step :: "int \<Rightarrow> cdb \<Rightarrow> cdb \<Rightarrow> bool" for horizon where
  acquired: "acquire True p i f now ttl sample cid db = Inr (db', a) \<Longrightarrow> instant sample \<le> horizon \<Longrightarrow> command_step horizon db db'"
| completed: "complete_command True a tenant x now sample db = Inr db' \<Longrightarrow> captured_post_init x' = Inr x \<Longrightarrow>
    instant sample \<le> horizon \<Longrightarrow> command_step horizon db db'"
| pruned: "prune False before n (\<lambda>_. False) db = (db', Inr k) \<Longrightarrow> instant before \<le> horizon \<Longrightarrow> command_step horizon db db'"
| unrelated: "commands db' = commands db \<Longrightarrow> command_step horizon db db'"

inductive command_reachable :: "cdb \<Rightarrow> bool" where
  installed: "commands db = [] \<Longrightarrow> command_reachable db"
| stepped: "command_reachable db \<Longrightarrow> command_step horizon db db' \<Longrightarrow> command_reachable db'"

lemma ledger_inv_cong: "commands db' = commands db \<Longrightarrow> ledger_inv db \<Longrightarrow> ledger_inv db'"
  by (simp add: ledger_inv_def)

lemma ledger_inv_empty: "commands db = [] \<Longrightarrow> ledger_inv db"
  by (simp add: ledger_inv_def ledger_rows_def)

lemma command_step_inv: "command_step h db db' \<Longrightarrow> ledger_inv db \<Longrightarrow> ledger_inv db'"
proof (induction rule: command_step.induct)
  case (completed a tenant x now sample db db' x')
  then show ?case using complete_inv captured_replay_safe by blast
qed (blast intro: acquire_inv prune_inv ledger_inv_cong)+

lemma command_reachable_inv: "command_reachable db \<Longrightarrow> ledger_inv db"
  by (induction rule: command_reachable.induct) (blast intro: command_step_inv ledger_inv_empty)+

text \<open>A completed row stays as it is while the horizon is before its expiry.\<close>

lemma completed_row_stays:
  assumes "command_step h db db'" "ledger_inv db" "r \<in> set (commands db)" "m_state r = Completed" "h < m_expires_at r"
  shows "r \<in> set (commands db')"
  using assms
proof (induction rule: command_step.induct)
  case (acquired p i f now ttl sample cid db db' a)
  from acquired(1) show ?case
  proof (cases rule: acquire_cases)
    case started
    then show ?thesis using acquired(4) by (auto simp: start_command_Inr insert_command_Inr)
  next
    case (restarted row db1)
    have "row \<noteq> r" using restarted(2) acquired(2,6) by auto
    moreover have "set (commands db1) = insert (superseded_command (instant sample) row) (set (commands db) - {row})"
      using updated_rows [OF _ _ restarted(3)] find_current_Some [OF restarted(1)] acquired(3) by (auto simp: ledger_inv_def)
    ultimately show ?thesis using acquired(4) restarted(4) by (auto simp: start_command_Inr insert_command_Inr)
  qed (use acquired(4) in simp)
next
  case (completed a tenant x now sample db db' x')
  from completed(1) obtain row where row: "row \<in> set (commands db)" "m_state row = InProgress"
    "update_command row (completed_command (instant sample) x row) db = Inr db'" by (cases rule: complete_cases) blast
  then show ?case using updated_rows [OF _ row(1,3)] completed(4-6) by (auto simp: ledger_inv_def)
next
  case (pruned before n db db' k)
  have "\<not> prunable (instant before) r" using pruned(2,6) by (simp add: prunable_def)
  then have "r \<notin> set (prune_selection (instant before) n (\<lambda>_. False) db)"
    by (auto simp: prune_selection_def dest!: in_set_takeD)
  then show ?case using pruned(1,4)
    by (auto simp: prune_def transaction_cases prune_function_def Let_def split: if_splits)
qed simp

interpretation completed_row: stable_machine "\<lambda>db. commands db = []" "command_step h" ledger_inv
    "\<lambda>db. r \<in> set (commands db) \<and> m_state r = Completed \<and> h < m_expires_at r"
  for h r
  by unfold_locales (blast intro: ledger_inv_empty command_step_inv completed_row_stays)+

section \<open>Properties\<close>


definition sample_ledger :: cdb where
  "sample_ledger = \<lparr>events = [], deliveries = [], attempts = [], commands = []\<rparr>"

definition sample_identity :: command_identity where
  "sample_identity = \<lparr>ci_tenant_id = 9, ci_route_id = ''orders.create'', ci_method = ''POST'',
     ci_key_digest = ''0123456789abcdef0123456789abcdef''\<rparr>"

definition sample_fingerprint :: request_fingerprint where
  "sample_fingerprint = \<lparr>fp_version = 1, fp_digest = ''0123456789ABCDEF0123456789ABCDEF''\<rparr>"

abbreviation "sample_acquire t cid \<equiv>
  acquire True (sample_principal 9 []) sample_identity sample_fingerprint (Aware 0) 86400000000 (Aware t) cid"

lemma sample_ids: "identity_post_init sample_identity = Inr sample_identity" "fingerprint_post_init sample_fingerprint = Inr sample_fingerprint"
  "validate_request (sample_principal 9 []) sample_identity (Aware 0) 86400000000 = Inr ()"
  by code_simp+

lemma sample_subject: "valid_principal (sample_principal 9 [])"
proof -
  have "identifier_ok (Some ''alice'')" by code_simp
  then show ?thesis by (simp add: valid_principal_def sample_principal_def is_frozenset_def identifier_ok_def)
qed

definition sample_started :: command_row where
  "sample_started = new_command (sample_principal 9 []) sample_identity sample_fingerprint 7 1 5 86400000005"

definition sample_acquisition :: command_acquisition where
  "sample_acquisition = \<lparr>ac_command_id = 7, ac_generation = 1, ac_replayed = False, ac_response = None\<rparr>"

lemma sample_reachable: "command_reachable sample_ledger"
  by (rule installed) (simp add: sample_ledger_def)

lemma sample_starts: "sample_acquire 5 7 sample_ledger = Inr (sample_ledger\<lparr>commands := [sample_started]\<rparr>, sample_acquisition)"
  by code_simp



definition sample_captured :: captured_response where
  "sample_captured = \<lparr>cr_status_code = 201, cr_media_type = ''text/plain'', cr_body = ''ok'', cr_headers = [(''cache-control'', ''no-store''), (''etag'', ''1'')]\<rparr>"


definition sample_restarted :: command_row where
  "sample_restarted = new_command (sample_principal 9 []) sample_identity sample_fingerprint 8 2 86400000005 172800000005"

definition sample_history :: cdb where
  "sample_history = sample_ledger\<lparr>commands :=
     [superseded_command 86400000005 sample_started, completed_command 86400000006 sample_captured sample_restarted]\<rparr>"

lemma sample_history_reachable: "command_reachable sample_history"
proof -
  let ?first = "sample_ledger\<lparr>commands := [sample_started]\<rparr>"
  let ?second = "sample_ledger\<lparr>commands := [superseded_command 86400000005 sample_started, sample_restarted]\<rparr>"
  let ?a = "\<lparr>ac_command_id = 8, ac_generation = 2, ac_replayed = False, ac_response = None\<rparr>"
  have a: "sample_acquire 86400000005 8 ?first = Inr (?second, ?a)" by code_simp
  have c: "complete_command True ?a 9 sample_captured (Aware 86400000006) (Aware 86400000006) ?second = Inr sample_history"
    by code_simp
  have p: "captured_post_init sample_captured = Inr sample_captured" by code_simp
  show ?thesis
    by (rule stepped [OF stepped [OF stepped [OF sample_reachable acquired [OF sample_starts order_refl]] acquired [OF a order_refl]]
          completed [OF c p order_refl]])
qed

text \<open>
  Pruning around a row lock can make a key unusable: when the pruning function skips the locked first generation of an
  identity and deletes its expired current generation, the next acquisition of that identity restarts at generation 1 and
  fails on the unique constraint, for as long as the old generation stays.
\<close>

lemma pruning_around_locks_blocks_key:
  "\<exists>db'. command_reachable sample_history \<and>
     prune False (Aware 200000000000) 10 (\<lambda>k. k = (9, 7)) sample_history = (db', Inr 1) \<and>
     sample_acquire 200000000000 10 db' = Inl unique_violation"
proof -
  let ?db = "sample_ledger\<lparr>commands := [superseded_command 86400000005 sample_started]\<rparr>"
  have "prune False (Aware 200000000000) 10 (\<lambda>k. k = (9, 7)) sample_history = (?db, Inr 1)" by code_simp
  moreover have "sample_acquire 200000000000 10 ?db = Inl unique_violation" by code_simp
  ultimately show ?thesis using sample_history_reachable by blast
qed

end
