(* ===== verification/Command_Context.thy ===== *)
theory Command_Context
  imports Command_Ledger Unit_Of_Work
begin

text \<open>
  \<^verbatim>\<open>idempotency/command.py\<close>: the context manager that owns the transaction of a command. Its world is that of the unit of
  work with the command table in the database. Faults of the database, clock samples and fresh UUIDs are arguments.
\<close>

section \<open>State\<close>

record cworld =
  cw_db :: cdb
  cw_work :: "cdb option"
  cw_marker :: "nat option"
  cw_settings :: "(string \<times> string) list"
  cw_context :: context_var

record command_context =
  cc_id :: nat
  cc_principal :: principal
  cc_identity :: command_identity
  cc_fingerprint :: request_fingerprint
  cc_effect_store :: bool
  cc_routes :: "route_spec list"
  cc_providers :: "route_provider list"
  cc_ttl :: int
  cc_transaction :: bool
  cc_token :: "context_var option"
  cc_acquisition :: "command_acquisition option"
  cc_completed :: bool

definition command_cleanup :: "command_context \<Rightarrow> cworld \<Rightarrow> command_context \<times> cworld" where
  "command_cleanup c w =
     (c\<lparr>cc_token := None, cc_acquisition := None, cc_completed := False\<rparr>,
      w\<lparr>cw_context := (case cc_token c of None \<Rightarrow> cw_context w | Some token \<Rightarrow> reset_principal token (cw_context w)),
        cw_marker := (if cw_marker w = Some (cc_id c) then None else cw_marker w)\<rparr>)"

definition command_end_transaction :: "cdb \<Rightarrow> cworld \<Rightarrow> cworld" where
  "command_end_transaction db w = w\<lparr>cw_db := db, cw_work := None, cw_settings := []\<rparr>"

definition command_abort :: "command_context \<Rightarrow> cworld \<Rightarrow> command_context \<times> cworld" where
  "command_abort c w =
     (let (c1, w1) = command_cleanup c w in (c1\<lparr>cc_transaction := False\<rparr>, command_end_transaction (cw_db w1) w1))"

definition require_acquisition :: "command_context \<Rightarrow> command_acquisition result" where
  "require_acquisition c =
     (if \<not> cc_transaction c then config_error ''CommandContext is not active.''
      else case cc_acquisition c of None \<Rightarrow> config_error ''CommandContext is not active.'' | Some a \<Rightarrow> Inr a)"

section \<open>Entering and leaving\<close>

text \<open>What entering reads from outside: the faults, the application clock, the database clock and a fresh UUID.\<close>

record entry_inputs =
  en_begin_fault :: "exn option"
  en_settings_fault :: "exn option"
  en_now :: py_datetime
  en_sample :: py_datetime
  en_command_id :: uuid

definition command_aenter :: "entry_inputs \<Rightarrow> command_context \<Rightarrow> cworld \<Rightarrow> command_context \<times> cworld \<times> unit result" where
  "command_aenter en c w =
     (if cc_transaction c \<or> cw_marker w \<noteq> None
      then (c, w, config_error ''Nested FastAPIEffects transaction ownership is not allowed.'')
      else if cw_work w \<noteq> None
      then (c, w, config_error ''CommandContext requires an idle session and owns the outer transaction.'')
      else if ci_tenant_id (cc_identity c) \<noteq> p_tenant_id (cc_principal c)
      then (c, w, config_error ''Command identity tenant does not match its principal.'')
      else let c1 = c\<lparr>cc_transaction := True\<rparr> in
        case en_begin_fault en of
          Some e \<Rightarrow> (let (c2, w2) = command_abort c1 w in (c2, w2, Inl e))
        | None \<Rightarrow>
            let (bound, token) = bind_principal (cc_principal c) (cw_context w);
                w1 = w\<lparr>cw_work := Some (cw_db w), cw_marker := Some (cc_id c), cw_context := bound\<rparr>;
                c2 = c1\<lparr>cc_token := Some token\<rparr>
            in case en_settings_fault en of
                 Some e \<Rightarrow> (let (c3, w3) = command_abort c2 w1 in (c3, w3, Inl e))
               | None \<Rightarrow>
                   let w2 = w1\<lparr>cw_settings := [(''fastapi_effects.tenant_id'', uuid_str (p_tenant_id (cc_principal c))),
                                            (''fastapi_effects.subject_id'', subject_id (cc_principal c))]\<rparr>
                   in case acquire True (cc_principal c) (cc_identity c) (cc_fingerprint c) (en_now en) (cc_ttl c) (en_sample en)
                             (en_command_id en) (cw_db w) of
                        Inl e \<Rightarrow> (let (c3, w3) = command_abort c2 w2 in (c3, w3, Inl e))
                      | Inr (db, a) \<Rightarrow> (c2\<lparr>cc_acquisition := Some a\<rparr>, w2\<lparr>cw_work := Some db\<rparr>, Inr ()))"

definition completion_missing :: exn where
  "completion_missing = ConfigurationError ''A new command requires complete() before successful context exit.''"

text \<open>The transaction ends first; the clean-up follows in the \<^verbatim>\<open>finally\<close> block; the missing completion is raised last.\<close>

definition command_leave :: "exn option \<Rightarrow> exn option \<Rightarrow> command_context \<Rightarrow> cworld \<Rightarrow> command_context \<times> cworld \<times> unit result" where
  "command_leave raised fault c w =
     (let (w1, r) = (case (raised, fault) of
            (None, None) \<Rightarrow> (command_end_transaction (case cw_work w of None \<Rightarrow> cw_db w | Some db \<Rightarrow> db) w, Inr ())
          | (None, Some e) \<Rightarrow> (command_end_transaction (cw_db w) w, Inl e)
          | (Some _, _) \<Rightarrow> (command_end_transaction (cw_db w) w, Inr ()));
          (c2, w2) = command_cleanup c w1
      in (c2\<lparr>cc_transaction := False\<rparr>, w2, r))"

definition command_aexit :: "exn option \<Rightarrow> exn option \<Rightarrow> command_context \<Rightarrow> cworld \<Rightarrow> command_context \<times> cworld \<times> unit result" where
  "command_aexit raised fault c w =
     (if \<not> cc_transaction c then (c, w, Inr ())
      else if raised \<noteq> None then command_leave raised fault c w
      else case require_acquisition c of
             Inl e \<Rightarrow> (c, w, Inl e)
           | Inr a \<Rightarrow>
               if \<not> ac_replayed a \<and> \<not> cc_completed c
               then (let (c1, w1, r) = command_leave (Some completion_missing) fault c w in
                     (c1, w1, and_then r (\<lambda>_. Inl completion_missing)))
               else command_leave None fault c w)"

section \<open>Inside the context\<close>

definition command_complete ::
  "captured_response + http_response \<Rightarrow> py_datetime \<Rightarrow> py_datetime \<Rightarrow> command_context \<Rightarrow> cworld \<Rightarrow>
     command_context \<times> cworld \<times> captured_response result" where
  "command_complete response now sample c w =
     (case and_then (require_acquisition c) (\<lambda>a.
           if ac_replayed a then config_error ''A replayed command cannot be completed again.''
           else if cc_completed c then config_error ''Command completion may only occur once.''
           else and_then (case response of Inl captured \<Rightarrow> Inr captured | Inr other \<Rightarrow> capture_response other) (\<lambda>captured.
                and_then (complete_command (cw_work w \<noteq> None) a (p_tenant_id (cc_principal c)) captured now sample
                    (case cw_work w of None \<Rightarrow> cw_db w | Some db \<Rightarrow> db)) (\<lambda>db. Inr (db, captured)))) of
        Inl e \<Rightarrow> (c, w, Inl e)
      | Inr (db, captured) \<Rightarrow> (c\<lparr>cc_completed := True\<rparr>, w\<lparr>cw_work := Some db\<rparr>, Inr captured))"

definition command_emit ::
  "(rat \<Rightarrow> string) \<Rightarrow> (bytes \<Rightarrow> bytes) \<Rightarrow> event \<Rightarrow> string option \<Rightarrow> string option \<Rightarrow> int \<Rightarrow> (nat \<Rightarrow> uuid) \<Rightarrow> command_context \<Rightarrow> cworld \<Rightarrow>
     cworld \<times> event_record result" where
  "command_emit frepr sha256 e dedupe_namespace dedupe_key now fresh c w =
     (case and_then (require_acquisition c) (\<lambda>a.
           and_then (ensure (\<not> ac_replayed a) (ConfigurationError ''A replayed command cannot emit new effect intent.'')) (\<lambda>_.
           and_then (ensure (cc_effect_store c) (ConfigurationError ''No transactional effect store is configured.'')) (\<lambda>_.
           and_then (emit_identity dedupe_namespace dedupe_key) (\<lambda>identity.
           and_then (provided_routes (cc_providers c) e) (\<lambda>dynamic.
           and_then (unique_routes (matching_routes (cc_routes c) (ev_type e) @ dynamic)) (\<lambda>routes.
             store_publish frepr sha256 (cc_principal c) e routes now fresh
               (map_option namespace identity) (map_option dedupe_key_text identity)
               (case cw_work w of None \<Rightarrow> cw_db w | Some db \<Rightarrow> db))))))) of
        Inl err \<Rightarrow> (w, Inl err)
      | Inr (db', record) \<Rightarrow> (w\<lparr>cw_work := Some db'\<rparr>, Inr record))"

definition replay_response :: "command_context \<Rightarrow> http_response result" where
  "replay_response c =
     and_then (require_acquisition c) (\<lambda>a.
       case ac_response a of
         None \<Rightarrow> config_error ''The command does not have a replay response.''
       | Some response \<Rightarrow> Inr (to_response True response))"

section \<open>The body of a command\<close>

text \<open>Business writes leave the command table alone: it is owned by the library.\<close>

datatype command_action =
    CWrite "cdb \<Rightarrow> cdb"
  | CEmit event "string option" "string option" int "nat \<Rightarrow> uuid"
  | CComplete "captured_response + http_response" py_datetime py_datetime
  | CRaise exn

definition run_command_action ::
  "(rat \<Rightarrow> string) \<Rightarrow> (bytes \<Rightarrow> bytes) \<Rightarrow> command_action \<Rightarrow> command_context \<Rightarrow> cworld \<Rightarrow> command_context \<times> cworld \<times> unit result" where
  "run_command_action frepr sha256 act c w =
     (case act of
        CWrite f \<Rightarrow> (c, w\<lparr>cw_work := map_option f (cw_work w)\<rparr>, Inr ())
      | CEmit e ns k now fresh \<Rightarrow>
          (let (w', r) = command_emit frepr sha256 e ns k now fresh c w in (c, w', and_then r (\<lambda>_. Inr ())))
      | CComplete response now sample \<Rightarrow>
          (let (c', w', r) = command_complete response now sample c w in (c', w', and_then r (\<lambda>_. Inr ())))
      | CRaise e \<Rightarrow> (c, w, Inl e))"

fun run_command_actions ::
  "(rat \<Rightarrow> string) \<Rightarrow> (bytes \<Rightarrow> bytes) \<Rightarrow> command_action list \<Rightarrow> command_context \<Rightarrow> cworld \<Rightarrow> command_context \<times> cworld \<times> unit result" where
  "run_command_actions frepr sha256 [] c w = (c, w, Inr ())"
| "run_command_actions frepr sha256 (act # acts) c w =
     (case run_command_action frepr sha256 act c w of
        (c', w', Inl e) \<Rightarrow> (c', w', Inl e)
      | (c', w', Inr _) \<Rightarrow> run_command_actions frepr sha256 acts c' w')"

definition run_command ::
  "(rat \<Rightarrow> string) \<Rightarrow> (bytes \<Rightarrow> bytes) \<Rightarrow> entry_inputs \<Rightarrow> exn option \<Rightarrow> command_action list \<Rightarrow> command_context \<Rightarrow> cworld \<Rightarrow>
     command_context \<times> cworld \<times> unit result" where
  "run_command frepr sha256 en fault acts c w =
     (case command_aenter en c w of
        (c1, w1, Inl e) \<Rightarrow> (c1, w1, Inl e)
      | (c1, w1, Inr _) \<Rightarrow>
          (case run_command_actions frepr sha256 acts c1 w1 of
             (c2, w2, Inl e) \<Rightarrow> (let (c3, w3, _) = command_aexit (Some e) fault c2 w2 in (c3, w3, Inl e))
           | (c2, w2, Inr _) \<Rightarrow> command_aexit None fault c2 w2))"

section \<open>Lemmas\<close>

definition idle_context :: "command_context \<Rightarrow> bool" where
  "idle_context c \<longleftrightarrow> \<not> cc_transaction c \<and> cc_token c = None \<and> cc_acquisition c = None \<and> \<not> cc_completed c"

definition idle_cworld :: "cworld \<Rightarrow> bool" where
  "idle_cworld w \<longleftrightarrow> cw_work w = None \<and> cw_marker w = None \<and> cw_settings w = []"

definition entered_context :: "command_acquisition \<Rightarrow> bool \<Rightarrow> cworld \<Rightarrow> command_context \<Rightarrow> command_context" where
  "entered_context a b w c = c\<lparr>cc_transaction := True, cc_token := Some (cw_context w), cc_acquisition := Some a, cc_completed := b\<rparr>"

abbreviation "acquire_for en c \<equiv> acquire True (cc_principal c) (cc_identity c) (cc_fingerprint c) (en_now en) (cc_ttl c) (en_sample en) (en_command_id en)"

lemma command_aenter_idle:
  assumes "idle_context c" "idle_cworld w" "command_aenter en c w = (c1, w1, r)"
  shows "(case r of
      Inl _ \<Rightarrow> c1 = c \<and> w1 = w
    | Inr _ \<Rightarrow> \<exists>db a. acquire_for en c (cw_db w) = Inr (db, a) \<and> c1 = entered_context a False w c \<and>
        cw_db w1 = cw_db w \<and> cw_work w1 = Some db \<and> cw_marker w1 = Some (cc_id c) \<and> cw_context w1 = Some (cc_principal c))"
  using assms
  by (cases c; cases w)
     (auto simp: command_aenter_def idle_context_def idle_cworld_def bind_principal_def command_abort_def command_cleanup_def
        command_end_transaction_def reset_principal_def entered_context_def Let_def split: option.splits sum.splits if_splits prod.splits)

lemma insert_deliveries_commands: "insert_deliveries ds db = Inr db' \<Longrightarrow> commands db' = commands (db :: cdb)"
  by (induction ds arbitrary: db) (fastforce simp: and_then_Inr_iff insert_delivery_Inr)+

lemma publish_commands:
  assumes "publish frepr sha256 p e routes now fresh d db = Inr (db', rec)"
  shows "commands db' = commands (db :: cdb)"
  using assms
  by (auto simp: publish_def insert_event_returning_def and_then_Inr_iff insert_event_Inr split: if_splits option.splits
      dest!: insert_deliveries_commands)

lemma command_emit_frame:
  assumes "command_emit frepr sha256 e ns k now fresh c w = (w', r)" and "cw_work w = Some db"
  shows "\<exists>db'. w' = w\<lparr>cw_work := Some db'\<rparr> \<and> commands db' = commands db"
proof -
  have "commands db' = commands db" if "store_publish frepr sha256 p e routes now fresh n m db = Inr (db', rec)" for p routes n m db' rec
    using that by (auto simp: store_publish_def and_then_Inr_iff split: option.splits dest: publish_commands)
  moreover have "w' = w \<or> (\<exists>p routes n m db' rec. store_publish frepr sha256 p e routes now fresh n m db = Inr (db', rec) \<and>
      w' = w\<lparr>cw_work := Some db'\<rparr>)"
    using assms unfolding command_emit_def by (auto simp: and_then_Inr_iff split: sum.splits prod.splits) blast
  moreover have "w = w\<lparr>cw_work := Some db\<rparr>" using assms(2) by (cases w) simp
  ultimately show ?thesis by metis
qed

text \<open>The state between entering and leaving: the command table is the acquired one, with the command completed or not.\<close>

definition command_progress :: "command_acquisition \<Rightarrow> uuid \<Rightarrow> bool \<Rightarrow> command_row list \<Rightarrow> command_row list \<Rightarrow> bool" where
  "command_progress a tenant b rows rows' \<longleftrightarrow>
     (if b then \<not> ac_replayed a \<and> (\<exists>x now sample db db'. commands db = rows \<and> complete_command True a tenant x now sample db = Inr db' \<and>
                                       commands db' = rows')
      else rows' = rows)"

definition in_body :: "command_acquisition \<Rightarrow> command_row list \<Rightarrow> cworld \<Rightarrow> command_context \<Rightarrow> command_context \<Rightarrow> cworld \<Rightarrow> bool" where
  "in_body a rows w0 c0 c w \<longleftrightarrow> (\<exists>b db. c = entered_context a b w0 c0 \<and> cw_db w = cw_db w0 \<and> cw_marker w = Some (cc_id c0) \<and>
     cw_work w = Some db \<and> command_progress a (p_tenant_id (cc_principal c0)) b rows (commands db))"

definition keeps_commands :: "command_action \<Rightarrow> bool" where
  "keeps_commands act \<longleftrightarrow> (\<forall>f db. act = CWrite f \<longrightarrow> commands (f db) = commands db)"

lemma entered_simps [simp]:
  "cc_transaction (entered_context a b w c)" "cc_acquisition (entered_context a b w c) = Some a"
  "cc_completed (entered_context a b w c) = b" "cc_principal (entered_context a b w c) = cc_principal c"
  "require_acquisition (entered_context a b w c) = Inr a" "(entered_context a b w c)\<lparr>cc_completed := b'\<rparr> = entered_context a b' w c"
  by (simp_all add: entered_context_def require_acquisition_def)

lemma command_complete_body:
  assumes "in_body a rows w0 c0 c w" and "command_complete x now sample c w = (c', w', r)"
  shows "in_body a rows w0 c0 c' w'"
proof (cases r)
  case (Inl e)
  then have "c' = c" "w' = w" using assms(2) by (auto simp: command_complete_def split: sum.splits prod.splits)
  then show ?thesis using assms(1) by simp
next
  case (Inr y)
  obtain b db where c: "c = entered_context a b w0 c0" and w: "cw_db w = cw_db w0" "cw_marker w = Some (cc_id c0)" "cw_work w = Some db"
    and p: "command_progress a (p_tenant_id (cc_principal c0)) b rows (commands db)"
    using assms(1) by (auto simp: in_body_def)
  obtain db' z where b: "\<not> ac_replayed a" "\<not> b" and z: "complete_command True a (p_tenant_id (cc_principal c0)) z now sample db = Inr db'"
    and eq: "c' = entered_context a True w0 c0" "w' = w\<lparr>cw_work := Some db'\<rparr>"
    using assms(2) Inr c w(3) by (auto simp: command_complete_def and_then_Inr_iff split: sum.splits if_splits)
  have "commands db = rows" using p b by (simp add: command_progress_def)
  with z b have "command_progress a (p_tenant_id (cc_principal c0)) True rows (commands db')"
    unfolding command_progress_def if_True by blast
  then show ?thesis using eq w by (auto simp: in_body_def)
qed

lemma run_command_action_body:
  assumes "in_body a rows w0 c0 c w" and "run_command_action frepr sha256 act c w = (c', w', r)" and "keeps_commands act"
  shows "in_body a rows w0 c0 c' w'"
proof (cases act)
  case (CWrite f)
  then show ?thesis using assms by (auto simp: run_command_action_def in_body_def keeps_commands_def)
next
  case (CEmit e ns k now fresh)
  then obtain q where q: "command_emit frepr sha256 e ns k now fresh c w = (w', q)" "c' = c"
    using assms(2) by (auto simp: run_command_action_def split: prod.splits)
  obtain db where "cw_work w = Some db" using assms(1) by (auto simp: in_body_def)
  with command_emit_frame [OF q(1) this] q(2) assms(1) show ?thesis by (auto simp: in_body_def)
next
  case (CComplete x now sample)
  then obtain q where "command_complete x now sample c w = (c', w', q)"
    using assms(2) by (auto simp: run_command_action_def split: prod.splits)
  then show ?thesis using command_complete_body assms(1) by blast
next
  case (CRaise e)
  then show ?thesis using assms by (simp add: run_command_action_def)
qed

lemma run_command_actions_body:
  "in_body a rows w0 c0 c w \<Longrightarrow> run_command_actions frepr sha256 acts c w = (c', w', r) \<Longrightarrow> list_all keeps_commands acts \<Longrightarrow>
     in_body a rows w0 c0 c' w'"
proof (induction acts arbitrary: c w)
  case (Cons act acts)
  obtain c1 w1 r1 where s: "run_command_action frepr sha256 act c w = (c1, w1, r1)" by (metis prod.exhaust)
  have "in_body a rows w0 c0 c1 w1" using run_command_action_body [OF Cons.prems(1) s] Cons.prems(3) by simp
  then show ?case using Cons.IH [of c1 w1] Cons.prems(2,3) s by (cases r1) auto
qed simp

lemma command_leave_entered:
  assumes "idle_context c0" "idle_cworld w0" "cw_db w = cw_db w0" "cw_marker w = Some (cc_id c0)" "cw_work w = Some db"
  shows "command_leave raised fault (entered_context a b w0 c0) w =
    (c0, w\<lparr>cw_db := (if raised = None \<and> fault = None then db else cw_db w0), cw_work := None, cw_settings := [],
       cw_context := cw_context w0, cw_marker := None\<rparr>,
     if raised = None then (case fault of None \<Rightarrow> Inr () | Some e \<Rightarrow> Inl e) else Inr ())"
  using assms
  by (cases c0; cases w0; cases w)
     (auto simp: command_leave_def idle_context_def idle_cworld_def command_cleanup_def command_end_transaction_def
        reset_principal_def entered_context_def split: option.splits)

lemma acquired_in_progress:
  assumes "acquire b p i f now ttl sample cid db = Inr (db1, a)" "\<not> ac_replayed a" "distinct (map command_key (commands db))"
    and "q \<in> set (commands db1)" "m_state q = InProgress" "q \<notin> set (commands db)"
  shows "command_key q = (ci_tenant_id i, ac_command_id a)"
  using assms(1)
proof (cases rule: acquire_cases)
  case started
  then show ?thesis using assms(4,6) by (auto simp: start_command_Inr insert_command_Inr)
next
  case (restarted row db2)
  have "set (commands db2) = insert (superseded_command (instant sample) row) (set (commands db) - {row})"
    using updated_rows [OF assms(3) _ restarted(3)] find_current_Some [OF restarted(1)] by blast
  then show ?thesis using restarted(4) assms(4-6) by (auto simp: start_command_Inr insert_command_Inr)
qed (use assms(2) in simp)

lemma progress_completed:
  assumes inv: "ledger_inv db" and acq: "acquire_for en c db = Inr (db1, a)" "\<not> ac_replayed a"
    and t: "ci_tenant_id (cc_identity c) = p_tenant_id (cc_principal c)"
    and p: "command_progress a (p_tenant_id (cc_principal c)) True (commands db1) rows"
  shows "(\<exists>r\<in>set rows. command_key r = (p_tenant_id (cc_principal c), ac_command_id a) \<and> m_state r = Completed) \<and>
    (\<forall>q\<in>set rows. m_state q = InProgress \<longrightarrow> q \<in> set (commands db))"
proof -
  from p obtain x now sample db2 db3 where db2: "commands db2 = commands db1" and rows: "commands db3 = rows"
    and "complete_command True a (p_tenant_id (cc_principal c)) x now sample db2 = Inr db3"
    by (auto simp: command_progress_def)
  from this(3) obtain row where row: "row \<in> set (commands db2)" "command_key row = (p_tenant_id (cc_principal c), ac_command_id a)"
    "update_command row (completed_command (instant sample) x row) db2 = Inr db3" by (cases rule: complete_cases) blast
  have inv1: "distinct (map command_key (commands db1))" using acquire_inv [OF inv acq(1)] by (simp add: ledger_inv_def)
  note u = updated_rows [OF _ row(1,3), unfolded db2 rows, OF inv1]
  have "q \<in> set (commands db)" if q: "q \<in> set rows" "m_state q = InProgress" for q
  proof (rule ccontr)
    assume n: "q \<notin> set (commands db)"
    have "q \<noteq> completed_command (instant sample) x row" using q(2) by (metis completed_simps(3) command_state.distinct(1))
    then have "q \<in> set (commands db1)" "q \<noteq> row" using q(1) u by blast+
    moreover have "command_key q = command_key row"
      using acquired_in_progress [OF acq _ calculation(1) q(2) n] inv row(2) t by (simp add: ledger_inv_def)
    ultimately show False using unique_row [OF inv1, of row q] row(1) db2 by simp
  qed
  moreover have "completed_command (instant sample) x row \<in> set rows" using u by blast
  ultimately show ?thesis using row(2) by (auto intro!: bexI [of _ "completed_command (instant sample) x row"])
qed

section \<open>Properties\<close>

text \<open>
  C17. A command is all or nothing: whatever the body does and wherever the database fails, afterwards the session is
  idle, the previous principal is bound again and the context is as before. When the block raises, the database is unchanged.
  When it returns, either the command was a replay and the command table is unchanged, or the acquired command is
  committed as completed together with everything the body wrote; no command is ever left in progress.
\<close>

theorem command_all_or_nothing:
  assumes "idle_context c" and "idle_cworld w" and "command_reachable (cw_db w)" and "list_all keeps_commands acts"
    and "run_command frepr sha256 en fault acts c w = (c', w', r)"
  shows "c' = c \<and> idle_cworld w' \<and> cw_context w' = cw_context w \<and>
    (case r of
       Inl e \<Rightarrow> cw_db w' = cw_db w
     | Inr _ \<Rightarrow> (case acquire_for en c (cw_db w) of
           Inl _ \<Rightarrow> False
         | Inr (db, a) \<Rightarrow>
          if ac_replayed a then commands (cw_db w') = commands (cw_db w)
          else (\<exists>q\<in>set (commands (cw_db w')). command_key q = (p_tenant_id (cc_principal c), ac_command_id a) \<and> m_state q = Completed) \<and>
               (\<forall>q\<in>set (commands (cw_db w')). m_state q = InProgress \<longrightarrow> q \<in> set (commands (cw_db w)))))"
proof -
  obtain c1 w1 r1 where enter: "command_aenter en c w = (c1, w1, r1)" by (metis prod.exhaust)
  note e = command_aenter_idle [OF assms(1,2) enter]
  show ?thesis
  proof (cases r1)
    case (Inl err)
    then show ?thesis using e assms(2,5) enter by (auto simp: run_command_def)
  next
    case (Inr u)
    obtain db a where acq: "acquire_for en c (cw_db w) = Inr (db, a)" and c1: "c1 = entered_context a False w c"
      and w1: "cw_db w1 = cw_db w" "cw_work w1 = Some db" "cw_marker w1 = Some (cc_id c)" using e Inr by auto
    have t: "ci_tenant_id (cc_identity c) = p_tenant_id (cc_principal c)"
      using acq by (auto simp: acquire_def and_then_Inr_iff validate_request_def split: if_splits)
    obtain c2 w2 r2 where body: "run_command_actions frepr sha256 acts c1 w1 = (c2, w2, r2)" by (metis prod.exhaust)
    have "in_body a (commands db) w c c1 w1" using c1 w1 by (auto simp: in_body_def command_progress_def)
    from run_command_actions_body [OF this body assms(4)] obtain b db2 where c2: "c2 = entered_context a b w c"
      and w2: "cw_db w2 = cw_db w" "cw_marker w2 = Some (cc_id c)" "cw_work w2 = Some db2"
      and p: "command_progress a (p_tenant_id (cc_principal c)) b (commands db) (commands db2)" by (auto simp: in_body_def)
    note leave = command_leave_entered [OF assms(1,2) w2]
    have replay: "commands db = commands (cw_db w)" if "ac_replayed a"
      using acq that by (cases rule: acquire_cases) (auto simp: start_command_Inr)
    have progress: "if ac_replayed a then commands db2 = commands (cw_db w)
        else b \<longrightarrow> (\<exists>q\<in>set (commands db2). command_key q = (p_tenant_id (cc_principal c), ac_command_id a) \<and> m_state q = Completed) \<and>
          (\<forall>q\<in>set (commands db2). m_state q = InProgress \<longrightarrow> q \<in> set (commands (cw_db w)))"
      using p replay progress_completed [OF command_reachable_inv [OF assms(3)] acq _ t, of "commands db2"]
      by (cases b) (auto simp: command_progress_def)
    have run: "run_command frepr sha256 en fault acts c w = (case r2 of
        Inl x \<Rightarrow> (let (c3, w3, _) = command_aexit (Some x) fault c2 w2 in (c3, w3, Inl x)) | Inr _ \<Rightarrow> command_aexit None fault c2 w2)"
      using enter Inr body by (auto simp: run_command_def split: sum.splits)
    show ?thesis
      using assms(5) progress acq unfolding run c2
      by (cases r2; cases fault) (auto simp: command_aexit_def leave idle_cworld_def Let_def split: if_splits)
  qed
qed

definition sample_context :: command_context where
  "sample_context = \<lparr>cc_id = 1, cc_principal = sample_principal 9 [], cc_identity = sample_identity, cc_fingerprint = sample_fingerprint,
     cc_effect_store = False, cc_routes = [], cc_providers = [], cc_ttl = 86400000000, cc_transaction = False, cc_token = None,
     cc_acquisition = None, cc_completed = False\<rparr>"

definition sample_cworld :: cworld where
  "sample_cworld = \<lparr>cw_db = sample_ledger, cw_work = None, cw_marker = None, cw_settings = [], cw_context = None\<rparr>"

definition sample_entry :: entry_inputs where
  "sample_entry = \<lparr>en_begin_fault = None, en_settings_fault = None, en_now = Aware 0, en_sample = Aware 5, en_command_id = 7\<rparr>"

theorem command_all_or_nothing_witness:
  "\<exists>w' q. run_command (\<lambda>_. []) (\<lambda>_. []) sample_entry None [CComplete (Inl sample_captured) (Aware 6) (Aware 6)] sample_context sample_cworld =
     (sample_context, w', Inr ()) \<and> idle_cworld w' \<and> q \<in> set (commands (cw_db w')) \<and> m_state q = Completed"
proof -
  let ?r = "run_command (\<lambda>_. []) (\<lambda>_. []) sample_entry None [CComplete (Inl sample_captured) (Aware 6) (Aware 6)] sample_context sample_cworld"
  have "snd (snd ?r) = Inr ()" by code_simp
  then obtain c' w' where r: "?r = (c', w', Inr ())" by (cases ?r) auto
  have idle: "idle_context sample_context" "idle_cworld sample_cworld" "command_reachable (cw_db sample_cworld)"
    using sample_reachable by (simp_all add: idle_context_def idle_cworld_def sample_context_def sample_cworld_def)
  have acq: "acquire_for sample_entry sample_context (cw_db sample_cworld) =
      Inr (sample_ledger\<lparr>commands := [sample_started]\<rparr>, sample_acquisition)" by code_simp
  have "list_all keeps_commands [CComplete (Inl sample_captured) (Aware 6) (Aware 6)]" by (simp add: keeps_commands_def)
  from command_all_or_nothing [OF idle this r] r show ?thesis unfolding acq by (auto simp: sample_acquisition_def)
qed

end
