(* ===== verification/Taskiq_Store.thy ===== *)
theory Taskiq_Store
  imports Lease_Machine
begin

text \<open>
  \<^verbatim>\<open>executors/taskiq/store.py\<close> with its table (\<^verbatim>\<open>models.py\<close>) and envelope (\<^verbatim>\<open>envelope.py\<close>): the durable handoff of a leased
  attempt to a broker, its fenced execution and its recovery, each as one transaction over the lease tables and the
  handoff table. Clock samples, fresh UUIDs, the jitter source and row locks of other workers are arguments. The two audit columns
  \<^verbatim>\<open>principal\<close> and \<^verbatim>\<open>event_metadata\<close>, which are written once and never read, are left out.
\<close>

section \<open>Envelopes\<close>

record handoff_envelope =
  v_tenant_id :: uuid
  v_handoff_id :: uuid
  v_delivery_id :: uuid
  v_attempt_id :: uuid
  v_task_id :: string
  v_handoff_token :: uuid
  v_schema_version :: int

definition task_prefix :: string where "task_prefix = ''fastapi_effects_''"

definition handoff_envelope_post_init :: "handoff_envelope \<Rightarrow> handoff_envelope result" where
  "handoff_envelope_post_init v =
     (if take (length task_prefix) (v_task_id v) \<noteq> task_prefix \<or> 128 < int (length (v_task_id v))
      then config_error ''Taskiq task identity is invalid.''
      else if v_schema_version v \<noteq> 1 then config_error ''Taskiq handoff envelope revision is unsupported.''
      else Inr v)"

definition stable_task_id :: "uuid \<Rightarrow> string" where
  "stable_task_id attempt_id = task_prefix @ uuid_hex attempt_id"

section \<open>The handoff table\<close>

datatype handoff_state = Prepared | Enqueued | Executing | HandoffSucceeded | HandoffRetryWait | HandoffDead

definition handoff_finished :: "handoff_state \<Rightarrow> bool" where
  "handoff_finished s \<longleftrightarrow> s = HandoffSucceeded \<or> s = HandoffRetryWait \<or> s = HandoffDead"

record handoff_row =
  h_tenant_id :: uuid
  h_handoff_id :: uuid
  h_delivery_id :: uuid
  h_attempt_id :: uuid
  h_task_id :: string
  h_handoff_token :: uuid
  h_state :: handoff_state
  h_route_snapshot :: "(string \<times> json) list"
  h_route_snapshot_bytes :: bytes
  h_execution_token :: "uuid option"
  h_execution_deadline :: "int option"
  h_execution_count :: int
  h_prepared_at :: int
  h_enqueued_at :: "int option"
  h_started_at :: "int option"
  h_finished_at :: "int option"
  h_updated_at :: int
  h_failure_code :: "string option"
  h_failure_summary :: "string option"

record tdb = db +
  handoffs :: "handoff_row list"

definition handoff_key :: "handoff_row \<Rightarrow> uuid \<times> uuid" where
  "handoff_key r = (h_tenant_id r, h_handoff_id r)"

definition handoff_slot :: "handoff_row \<Rightarrow> uuid \<times> uuid \<times> uuid" where
  "handoff_slot r = (h_tenant_id r, h_delivery_id r, h_attempt_id r)"

definition handoff_row_ok :: "handoff_row \<Rightarrow> bool" where
  "handoff_row_ok r \<longleftrightarrow>
     0 \<le> h_execution_count r \<and> int4 (h_execution_count r) \<and>
     (h_state r = Executing) = (h_execution_token r \<noteq> None \<and> h_execution_deadline r \<noteq> None) \<and>
     (h_state r = Prepared \<and> h_enqueued_at r = None \<or>
      h_state r \<in> {Enqueued, Executing, HandoffSucceeded} \<and> h_enqueued_at r \<noteq> None \<or> h_state r \<in> {HandoffRetryWait, HandoffDead}) \<and>
     handoff_finished (h_state r) = (h_finished_at r \<noteq> None) \<and>
     (if h_state r \<in> {HandoffRetryWait, HandoffDead} then h_failure_code r \<noteq> None \<and> h_failure_summary r \<noteq> None
      else h_failure_code r = None \<and> h_failure_summary r = None) \<and>
     varchar 128 (Some (h_task_id r)) \<and> varchar 128 (h_failure_code r)"

definition insert_handoff :: "handoff_row \<Rightarrow> tdb \<Rightarrow> tdb result" where
  "insert_handoff r db =
     (if \<not> handoff_row_ok r then Inl check_violation
      else if handoff_key r \<in> handoff_key ` set (handoffs db) \<or> handoff_slot r \<in> handoff_slot ` set (handoffs db) \<or>
              h_task_id r \<in> h_task_id ` set (handoffs db)
      then Inl unique_violation
      else if \<not> delivery_exists (h_tenant_id r) (h_delivery_id r) db \<or>
              (h_tenant_id r, h_attempt_id r) \<notin> attempt_key ` set (attempts db)
      then Inl foreign_key_violation
      else Inr (db\<lparr>handoffs := handoffs db @ [r]\<rparr>))"

definition update_handoff :: "handoff_row \<Rightarrow> tdb \<Rightarrow> tdb result" where
  "update_handoff r db =
     (if \<not> handoff_row_ok r then Inl check_violation
      else Inr (db\<lparr>handoffs := update_where (\<lambda>x. handoff_key x = handoff_key r) (\<lambda>_. r) (handoffs db)\<rparr>))"

section \<open>Records and helpers\<close>

record handoff_record =
  hr_tenant_id :: uuid
  hr_handoff_id :: uuid
  hr_delivery_id :: uuid
  hr_attempt_id :: uuid
  hr_task_id :: string
  hr_state :: handoff_state
  hr_execution_count :: int
  hr_prepared_at :: int
  hr_updated_at :: int

record executing_handoff =
  x_record :: handoff_record
  x_claim :: claimed
  x_execution_token :: uuid
  x_execution_deadline :: int

definition handoff_record_of :: "handoff_row \<Rightarrow> handoff_record" where
  "handoff_record_of r =
     \<lparr>hr_tenant_id = h_tenant_id r, hr_handoff_id = h_handoff_id r, hr_delivery_id = h_delivery_id r,
      hr_attempt_id = h_attempt_id r, hr_task_id = h_task_id r, hr_state = h_state r,
      hr_execution_count = h_execution_count r, hr_prepared_at = h_prepared_at r, hr_updated_at = h_updated_at r\<rparr>"

definition envelope_of :: "handoff_row \<Rightarrow> handoff_envelope result" where
  "envelope_of r = handoff_envelope_post_init
     \<lparr>v_tenant_id = h_tenant_id r, v_handoff_id = h_handoff_id r, v_delivery_id = h_delivery_id r, v_attempt_id = h_attempt_id r,
      v_task_id = h_task_id r, v_handoff_token = h_handoff_token r, v_schema_version = 1\<rparr>"

definition require_idle_handoff :: "bool \<Rightarrow> unit result" where
  "require_idle_handoff busy = ensure (\<not> busy) (ConfigurationError ''Taskiq handoff operation requires an idle session.'')"

definition clear_execution :: "handoff_row \<Rightarrow> handoff_row" where
  "clear_execution r = r\<lparr>h_execution_token := None, h_execution_deadline := None\<rparr>"

definition set_failed :: "delivery_state \<Rightarrow> int \<Rightarrow> string \<Rightarrow> string \<Rightarrow> handoff_row \<Rightarrow> handoff_row" where
  "set_failed outcome now c summary r =
     clear_execution (r\<lparr>h_state := (if outcome = RetryWait then HandoffRetryWait else HandoffDead), h_finished_at := Some now,
       h_updated_at := now, h_failure_code := Some c, h_failure_summary := Some summary\<rparr>)"

definition default_failure_summary :: string where
  "default_failure_summary = ''Taskiq handoff failed before completion.''"

definition locked_for_envelope :: "handoff_envelope \<Rightarrow> tdb \<Rightarrow> handoff_row result" where
  "locked_for_envelope v db =
     (case List.find (\<lambda>r. handoff_key r = (v_tenant_id v, v_handoff_id v) \<and> h_delivery_id r = v_delivery_id v \<and>
                          h_attempt_id r = v_attempt_id v \<and> h_task_id r = v_task_id v \<and> h_handoff_token r = v_handoff_token v) (handoffs db) of
        None \<Rightarrow> config_error ''Taskiq handoff envelope was rejected.''
      | Some r \<Rightarrow> Inr r)"

definition find_handoff :: "uuid \<Rightarrow> uuid \<Rightarrow> tdb \<Rightarrow> handoff_row option" where
  "find_handoff tenant i db = List.find (\<lambda>r. handoff_key r = (tenant, i)) (handoffs db)"

definition locked_execution :: "executing_handoff \<Rightarrow> tdb \<Rightarrow> handoff_row result" where
  "locked_execution x db =
     (case find_handoff (hr_tenant_id (x_record x)) (hr_handoff_id (x_record x)) db of
        None \<Rightarrow> Inl (LeaseLost (hr_delivery_id (x_record x)))
      | Some r \<Rightarrow> if h_state r \<noteq> Executing \<or> h_execution_token r \<noteq> Some (x_execution_token x)
                  then Inl (LeaseLost (hr_delivery_id (x_record x))) else Inr r)"

definition claim_for_row :: "handoff_row \<Rightarrow> tdb \<Rightarrow> claimed result" where
  "claim_for_row r db =
     (case (find_delivery (h_tenant_id r) (h_delivery_id r) db, find_attempt (h_tenant_id r) (h_attempt_id r) db) of
        (Some d, Some a) \<Rightarrow>
          if d_state d \<noteq> Leased \<or> d_lease_token d = None \<or> a_delivery_id a \<noteq> h_delivery_id r \<or>
             d_lease_token d \<noteq> Some (a_lease_token a) \<or> a_outcome a \<noteq> Started
          then Inl (LeaseLost (h_delivery_id r))
          else (case find_event (h_tenant_id r) (d_event_id d) db of
                  None \<Rightarrow> config_error ''Taskiq handoff event no longer exists.''
                | Some e \<Rightarrow>
                    and_then (event_from_row e) (\<lambda>event.
                    and_then (delivery_from_row d) (\<lambda>delivery.
                    and_then (attempt_from_row a) (\<lambda>attempt.
                      Inr \<lparr>c_event = event, c_delivery = delivery, c_attempt = attempt, c_route_snapshot = h_route_snapshot r\<rparr>))))
      | _ \<Rightarrow> Inl (LeaseLost (h_delivery_id r)))"

section \<open>Preparing and enqueueing\<close>

definition prepared_row :: "claimed \<Rightarrow> uuid \<Rightarrow> uuid \<Rightarrow> int \<Rightarrow> handoff_row" where
  "prepared_row c handoff_id handoff_token prepared_at =
     \<lparr>h_tenant_id = dr_tenant_id (c_delivery c), h_handoff_id = handoff_id, h_delivery_id = dr_delivery_id (c_delivery c),
      h_attempt_id = ar_attempt_id (c_attempt c), h_task_id = stable_task_id (ar_attempt_id (c_attempt c)),
      h_handoff_token = handoff_token, h_state = Prepared, h_route_snapshot = c_route_snapshot c,
      h_route_snapshot_bytes = dr_route_snapshot (c_delivery c), h_execution_token = None, h_execution_deadline = None,
      h_execution_count = 0, h_prepared_at = prepared_at, h_enqueued_at = None, h_started_at = None, h_finished_at = None,
      h_updated_at = prepared_at, h_failure_code = None, h_failure_summary = None\<rparr>"

definition prepare :: "bool \<Rightarrow> claimed \<Rightarrow> py_datetime \<Rightarrow> py_datetime \<Rightarrow> uuid \<Rightarrow> uuid \<Rightarrow> tdb \<Rightarrow> tdb \<times> handoff_envelope result" where
  "prepare busy c now sample handoff_id handoff_token db =
     (case transaction (\<lambda>db.
       and_then (require_idle_handoff busy) (\<lambda>_.
       and_then (database_now sample now) (\<lambda>prepared_at.
         let row = prepared_row c handoff_id handoff_token prepared_at;
             conflict = (handoff_slot row \<in> handoff_slot ` set (handoffs db))
         in and_then (if conflict then (if handoff_row_ok row then Inr db else Inl check_violation) else insert_handoff row db) (\<lambda>db1.
            case List.find (\<lambda>r. handoff_slot r = handoff_slot row) (handoffs db1) of
              None \<Rightarrow> config_error ''Taskiq handoff preparation conflicted.''
            | Some r \<Rightarrow> if conflict \<and> h_state r \<noteq> Prepared then config_error ''Taskiq handoff preparation conflicted.''
                        else Inr (db1, r))))) db of
        (db1, r) \<Rightarrow> (db1, and_then r envelope_of))"

definition mark_enqueued :: "bool \<Rightarrow> handoff_envelope \<Rightarrow> py_datetime \<Rightarrow> py_datetime \<Rightarrow> tdb \<Rightarrow> tdb \<times> handoff_record result" where
  "mark_enqueued busy v now sample =
     transaction (\<lambda>db.
       and_then (require_idle_handoff busy) (\<lambda>_.
       and_then (locked_for_envelope v db) (\<lambda>row.
       and_then (database_now sample now) (\<lambda>enqueued_at.
         if h_state row \<noteq> Prepared \<and> h_enqueued_at row \<noteq> None then Inr (db, handoff_record_of row)
         else
           let row1 = row\<lparr>h_state := (if h_state row \<noteq> Prepared then h_state row else Enqueued), h_enqueued_at := Some enqueued_at,
             h_updated_at := enqueued_at\<rparr>
           in and_then (update_handoff row1 db) (\<lambda>db1. Inr (db1, handoff_record_of row1))))))"

definition enqueue_failure :: delivery_error where
  "enqueue_failure = RetryableDeliveryError ''executor.enqueue_failed'' ''Taskiq broker enqueue did not complete.'' None"

definition enqueue_failed ::
  "bool \<Rightarrow> handoff_envelope \<Rightarrow> py_datetime \<Rightarrow> (nat \<Rightarrow> py_datetime) \<Rightarrow> (rat \<Rightarrow> rat \<Rightarrow> pyfloat) \<Rightarrow> tdb \<Rightarrow> tdb \<times> handoff_record result" where
  "enqueue_failed busy v now clock uniform =
     transaction (\<lambda>db.
       and_then (require_idle_handoff busy) (\<lambda>_.
       and_then (locked_for_envelope v db) (\<lambda>row.
         if h_state row \<noteq> Prepared then Inr (db, handoff_record_of row)
         else
           and_then (claim_for_row row db) (\<lambda>c.
           and_then (fail_in_transaction True c enqueue_failure now None (clock 0) uniform db) (\<lambda>(db1, outcome).
           and_then (database_now (clock 1) now) (\<lambda>failed_at.
             let row1 = set_failed outcome failed_at ''executor.enqueue_failed'' default_failure_summary row in
             and_then (update_handoff row1 db1) (\<lambda>db2. Inr (db2, handoff_record_of row1))))))))"

section \<open>Executing\<close>

definition handoff_policy :: "claimed \<Rightarrow> retry_policy result" where
  "handoff_policy c =
     (case map_of (c_route_snapshot c) ''retry'' of
        Some (JObj d) \<Rightarrow> policy_from_dict d
      | _ \<Rightarrow> config_error ''Taskiq retry snapshot is invalid.'')"

definition admission_failure :: delivery_error where
  "admission_failure = RetryableDeliveryError ''executor.execution_timeout''
     ''Taskiq handoff exceeded the parent attempt deadline before admission.'' None"

definition executing_row :: "uuid \<Rightarrow> int \<Rightarrow> int \<Rightarrow> handoff_row \<Rightarrow> handoff_row" where
  "executing_row token deadline locked_at r =
     r\<lparr>h_state := Executing, h_enqueued_at := (case h_enqueued_at r of None \<Rightarrow> Some locked_at | Some t \<Rightarrow> Some t),
       h_execution_token := Some token, h_execution_deadline := Some deadline, h_execution_count := h_execution_count r + 1,
       h_started_at := Some locked_at, h_updated_at := locked_at\<rparr>"

text \<open>The part of \<^verbatim>\<open>claim_execution\<close> after the claim was rebuilt: the budget, then admission.\<close>

definition admit_execution ::
  "handoff_row \<Rightarrow> claimed \<Rightarrow> int \<Rightarrow> int \<Rightarrow> (nat \<Rightarrow> py_datetime) \<Rightarrow> (rat \<Rightarrow> rat \<Rightarrow> pyfloat) \<Rightarrow> uuid \<Rightarrow> tdb \<Rightarrow>
     (tdb \<times> executing_handoff option) result" where
  "admit_execution row c selected_at execution_timeout clock uniform token db =
     and_then (database_now (clock 1) (Aware selected_at)) (\<lambda>locked_at.
       case dr_lease_expires_at (c_delivery c) of
         None \<Rightarrow> Inl (LeaseLost (h_delivery_id row))
       | Some lease_deadline \<Rightarrow>
           and_then (handoff_policy c) (\<lambda>policy.
           and_then (remaining_attempt_seconds policy (dr_created_at (c_delivery c)) (ar_started_at (c_attempt c)) lease_deadline
               (Aware locked_at) (Some (Fin (total_seconds execution_timeout)))) (\<lambda>remaining.
             if remaining \<le> 0
             then and_then (fail_in_transaction True c admission_failure (Aware locked_at) None (clock 2) uniform db) (\<lambda>(db1, outcome).
                  and_then (update_handoff (set_failed outcome locked_at (err_code admission_failure) (err_summary admission_failure) row) db1)
                    (\<lambda>db2. Inr (db2, None)))
             else and_then (timedelta_float remaining) (\<lambda>budget.
                  and_then (dt_add locked_at budget) (\<lambda>deadline.
                    let row1 = executing_row token deadline locked_at row in
                    and_then (update_handoff row1 db) (\<lambda>db1.
                      Inr (db1, Some \<lparr>x_record = handoff_record_of row1, x_claim = c, x_execution_token = token,
                                      x_execution_deadline = deadline\<rparr>)))))))"

definition claim_execution ::
  "bool \<Rightarrow> handoff_envelope \<Rightarrow> py_datetime \<Rightarrow> int \<Rightarrow> (nat \<Rightarrow> py_datetime) \<Rightarrow> (rat \<Rightarrow> rat \<Rightarrow> pyfloat) \<Rightarrow> uuid \<Rightarrow> tdb \<Rightarrow>
     tdb \<times> executing_handoff option result" where
  "claim_execution busy v now execution_timeout clock uniform token =
     transaction (\<lambda>db.
       and_then (require_idle_handoff busy) (\<lambda>_.
       and_then (ensure (0 < execution_timeout \<and> execution_timeout \<le> 3600 * second) (ConfigurationError ''Taskiq execution timeout is invalid.'')) (\<lambda>_.
       and_then (locked_for_envelope v db) (\<lambda>row.
       and_then (database_now (clock 0) now) (\<lambda>locked_at.
         if handoff_finished (h_state row) then Inr (db, None)
         else if h_state row = Executing \<and> (case h_execution_deadline row of None \<Rightarrow> False | Some e \<Rightarrow> locked_at < e) then Inr (db, None)
         else
           (case claim_for_row row db of
              Inl (LeaseLost _) \<Rightarrow>
                and_then (update_handoff (set_failed Dead locked_at ''executor.stale_attempt''
                    ''Taskiq handoff no longer owns the parent delivery attempt.'' row) db) (\<lambda>db1. Inr (db1, None))
            | Inl e \<Rightarrow> Inl e
            | Inr c \<Rightarrow> admit_execution row c locked_at execution_timeout clock uniform token db))))))"

section \<open>Finalising and recovering\<close>

definition finalize_success :: "bool \<Rightarrow> executing_handoff \<Rightarrow> py_datetime \<Rightarrow> py_datetime \<Rightarrow> tdb \<Rightarrow> tdb \<times> handoff_record result" where
  "finalize_success busy x now sample =
     transaction (\<lambda>db.
       and_then (require_idle_handoff busy) (\<lambda>_.
       and_then (locked_execution x db) (\<lambda>row.
       and_then (succeed_in_transaction True (x_claim x) now sample db) (\<lambda>(db1, finished_at).
         let row1 = clear_execution (row\<lparr>h_state := HandoffSucceeded, h_finished_at := Some finished_at, h_updated_at := finished_at\<rparr>) in
         and_then (update_handoff row1 db1) (\<lambda>db2. Inr (db2, handoff_record_of row1))))))"

definition error_retry_after :: "delivery_error \<Rightarrow> int option" where
  "error_retry_after e = (case e of RetryableDeliveryError _ _ r \<Rightarrow> r | PermanentDeliveryError _ _ \<Rightarrow> None)"

definition finalize_failure ::
  "bool \<Rightarrow> executing_handoff \<Rightarrow> delivery_error \<Rightarrow> py_datetime \<Rightarrow> (nat \<Rightarrow> py_datetime) \<Rightarrow> (rat \<Rightarrow> rat \<Rightarrow> pyfloat) \<Rightarrow> tdb \<Rightarrow> tdb \<times> handoff_record result" where
  "finalize_failure busy x err now clock uniform =
     transaction (\<lambda>db.
       and_then (require_idle_handoff busy) (\<lambda>_.
       and_then (locked_execution x db) (\<lambda>row.
       and_then (fail_in_transaction True (x_claim x) err now (error_retry_after err) (clock 0) uniform db) (\<lambda>(db1, outcome).
       and_then (database_now (clock 1) now) (\<lambda>finished_at.
         let row1 = set_failed outcome finished_at (err_code err) (err_summary err) row in
         and_then (update_handoff row1 db1) (\<lambda>db2. Inr (db2, handoff_record_of row1)))))))"

definition expiry_failure :: delivery_error where
  "expiry_failure = RetryableDeliveryError ''executor.handoff_expired'' ''Taskiq handoff expired before fenced completion.'' None"

definition recoverable :: "int \<Rightarrow> int \<Rightarrow> handoff_row \<Rightarrow> bool" where
  "recoverable selection_time cutoff r \<longleftrightarrow>
     h_state r \<in> {Prepared, Enqueued} \<and> h_updated_at r \<le> cutoff \<or>
     h_state r = Executing \<and> (case h_execution_deadline r of None \<Rightarrow> False | Some e \<Rightarrow> e \<le> selection_time)"

definition recovery_batch :: "int \<Rightarrow> int \<Rightarrow> int \<Rightarrow> (uuid \<times> uuid \<Rightarrow> bool) \<Rightarrow> tdb \<Rightarrow> handoff_row list" where
  "recovery_batch selection_time cutoff batch_size locked db =
     take (nat batch_size) (filter (\<lambda>r. \<not> locked (handoff_key r))
       (sort_key h_updated_at (filter (recoverable selection_time cutoff) (handoffs db))))"

text \<open>One recovered handoff; a lost lease leaves the parent delivery to lease reconciliation.\<close>

definition recover_one ::
  "py_datetime \<Rightarrow> (nat \<Rightarrow> py_datetime) \<Rightarrow> (nat \<Rightarrow> rat \<Rightarrow> rat \<Rightarrow> pyfloat) \<Rightarrow> nat \<Rightarrow> handoff_row \<Rightarrow> tdb \<Rightarrow> tdb result" where
  "recover_one now clock uniform n row db =
     and_then (case and_then (claim_for_row row db) (\<lambda>c.
                    fail_in_transaction True c expiry_failure now None (clock (2 * n + 1)) (uniform n) db) of
                 Inl (LeaseLost _) \<Rightarrow> Inr (db, Dead)
               | Inl e \<Rightarrow> Inl e
               | Inr r \<Rightarrow> Inr r) (\<lambda>(db1, outcome).
     and_then (database_now (clock (2 * n + 2)) now) (\<lambda>recovered_at.
       update_handoff (set_failed outcome recovered_at ''executor.handoff_expired'' default_failure_summary row) db1))"

fun recover_loop ::
  "py_datetime \<Rightarrow> (nat \<Rightarrow> py_datetime) \<Rightarrow> (nat \<Rightarrow> rat \<Rightarrow> rat \<Rightarrow> pyfloat) \<Rightarrow> handoff_row list \<Rightarrow> nat \<Rightarrow> tdb \<Rightarrow> (tdb \<times> int) result" where
  "recover_loop now clock uniform [] n db = Inr (db, int n)"
| "recover_loop now clock uniform (row # rows) n db =
     and_then (recover_one now clock uniform n row db) (recover_loop now clock uniform rows (Suc n))"

definition recover_expired ::
  "bool \<Rightarrow> py_datetime \<Rightarrow> int \<Rightarrow> int \<Rightarrow> (nat \<Rightarrow> py_datetime) \<Rightarrow> (nat \<Rightarrow> rat \<Rightarrow> rat \<Rightarrow> pyfloat) \<Rightarrow> (uuid \<times> uuid \<Rightarrow> bool) \<Rightarrow> tdb \<Rightarrow>
     tdb \<times> int result" where
  "recover_expired busy now enqueue_timeout batch_size clock uniform locked =
     transaction (\<lambda>db.
       and_then (require_idle_handoff busy) (\<lambda>_.
       and_then (ensure (1 \<le> batch_size \<and> batch_size \<le> 10000) (ConfigurationError ''Taskiq recovery batch size is invalid.'')) (\<lambda>_.
       and_then (ensure (0 < enqueue_timeout) (ConfigurationError ''Taskiq enqueue timeout is invalid.'')) (\<lambda>_.
       and_then (database_now (clock 0) now) (\<lambda>selection_time.
       and_then (dt_add selection_time (- enqueue_timeout)) (\<lambda>cutoff.
         recover_loop now clock uniform (recovery_batch selection_time cutoff batch_size locked db) 0 db))))))"

definition handoff_for_id :: "uuid \<Rightarrow> uuid \<Rightarrow> tdb \<Rightarrow> handoff_record option" where
  "handoff_for_id tenant i db = map_option handoff_record_of (find_handoff tenant i db)"

end
