(* ===== verification/Taskiq_Safety.thy ===== *)
theory Taskiq_Safety
  imports Taskiq_Store Lease_Properties
begin

text \<open>
  The handoff protocol as a machine over the lease machine: every operation is a sequence of lease moves and writes of single
  handoff rows, the writes only move a handoff forward, and a handoff succeeds only with its parent attempt.
\<close>

section \<open>The abstract machine\<close>

text \<open>How one row may change while the clock is at most the horizon.\<close>

definition execution_of :: "uuid \<Rightarrow> int \<Rightarrow> handoff_row \<Rightarrow> bool" where
  "execution_of token deadline r \<longleftrightarrow> h_state r = Executing \<and> h_execution_token r = Some token \<and> h_execution_deadline r = Some deadline"

definition row_evolves :: "int \<Rightarrow> handoff_row \<Rightarrow> handoff_row \<Rightarrow> bool" where
  "row_evolves horizon r r' \<longleftrightarrow>
     handoff_key r' = handoff_key r \<and> handoff_slot r' = handoff_slot r \<and> h_task_id r' = h_task_id r \<and> h_handoff_token r' = h_handoff_token r \<and>
     (handoff_finished (h_state r) \<longrightarrow> h_state r' = h_state r) \<and>
     (\<forall>t e. execution_of t e r \<longrightarrow> horizon < e \<longrightarrow> execution_of t e r' \<or> handoff_finished (h_state r'))"

definition attempt_succeeded :: "handoff_row \<Rightarrow> tdb \<Rightarrow> bool" where
  "attempt_succeeded r db \<longleftrightarrow>
     (\<exists>a\<in>set (attempts db). attempt_key a = (h_tenant_id r, h_attempt_id r) \<and> a_outcome a = AttemptSucceeded)"

inductive handoff_move :: "int \<Rightarrow> tdb \<Rightarrow> tdb \<Rightarrow> bool" for horizon where
  lease_only: "lease_move db db' \<Longrightarrow> handoff_move horizon db db'"
| created: "insert_handoff r db = Inr db' \<Longrightarrow> h_state r = Prepared \<Longrightarrow> handoff_move horizon db db'"
| written: "r \<in> set (handoffs db) \<Longrightarrow> row_evolves horizon r r' \<Longrightarrow> update_handoff r' db = Inr db' \<Longrightarrow>
    (h_state r' = HandoffSucceeded \<longrightarrow> h_state r = HandoffSucceeded \<or> attempt_succeeded r db) \<Longrightarrow> handoff_move horizon db db'"

definition handoff_inv :: "tdb \<Rightarrow> bool" where
  "handoff_inv db \<longleftrightarrow> lease_inv db \<and> distinct (map handoff_key (handoffs db)) \<and>
     (\<forall>r\<in>set (handoffs db). handoff_row_ok r \<and> (h_state r = HandoffSucceeded \<longrightarrow> attempt_succeeded r db))"

lemma row_evolves_refl: "row_evolves h r r"
  by (simp add: row_evolves_def)

lemma row_evolves_trans: "row_evolves h r s \<Longrightarrow> row_evolves h s t \<Longrightarrow> row_evolves h r t"
  unfolding row_evolves_def by metis

lemma update_handoff_Inr [result_simps]:
  "update_handoff r db = Inr db' \<longleftrightarrow> handoff_row_ok r \<and>
     db' = db\<lparr>handoffs := update_where (\<lambda>x. handoff_key x = handoff_key r) (\<lambda>_. r) (handoffs db)\<rparr>"
  by (auto simp: update_handoff_def)

lemma insert_handoff_Inr [result_simps]:
  "insert_handoff r db = Inr db' \<longleftrightarrow> handoff_row_ok r \<and> handoff_key r \<notin> handoff_key ` set (handoffs db) \<and>
     handoff_slot r \<notin> handoff_slot ` set (handoffs db) \<and> h_task_id r \<notin> h_task_id ` set (handoffs db) \<and>
     delivery_exists (h_tenant_id r) (h_delivery_id r) db \<and> (h_tenant_id r, h_attempt_id r) \<in> attempt_key ` set (attempts db) \<and>
     db' = db\<lparr>handoffs := handoffs db @ [r]\<rparr>"
  by (auto simp: insert_handoff_def)

text \<open>The lease tables and the handoff table do not interfere.\<close>

lemma lease_move_handoffs: "lease_move db db' \<Longrightarrow> handoffs db' = handoffs (db :: tdb)"
  by (induction rule: lease_move.induct)
     (auto simp: insert_event_Inr insert_delivery_Inr insert_attempt_Inr update_delivery_Inr update_attempt_Inr)

lemma statements_with_handoffs:
  fixes db db' :: tdb
  shows "insert_event e db = Inr db' \<Longrightarrow> insert_event e (db\<lparr>handoffs := h\<rparr>) = Inr (db'\<lparr>handoffs := h\<rparr>)"
    "insert_delivery d db = Inr db' \<Longrightarrow> insert_delivery d (db\<lparr>handoffs := h\<rparr>) = Inr (db'\<lparr>handoffs := h\<rparr>)"
    "insert_attempt a db = Inr db' \<Longrightarrow> insert_attempt a (db\<lparr>handoffs := h\<rparr>) = Inr (db'\<lparr>handoffs := h\<rparr>)"
    "update_delivery d db = Inr db' \<Longrightarrow> update_delivery d (db\<lparr>handoffs := h\<rparr>) = Inr (db'\<lparr>handoffs := h\<rparr>)"
    "update_attempt a db = Inr db' \<Longrightarrow> update_attempt a (db\<lparr>handoffs := h\<rparr>) = Inr (db'\<lparr>handoffs := h\<rparr>)"
  by (auto simp: insert_event_Inr insert_delivery_Inr insert_attempt_Inr update_delivery_Inr update_attempt_Inr
      event_exists_def delivery_exists_def)

lemma lease_move_with_handoffs:
  fixes db db' :: tdb
  assumes "lease_move db db'"
  shows "lease_move (db\<lparr>handoffs := h\<rparr>) (db'\<lparr>handoffs := h\<rparr>)"
  using assms
proof cases
  case (store_event e)
  then show ?thesis by (blast intro: lease_move.store_event statements_with_handoffs)
next
  case (store_delivery d)
  then show ?thesis by (blast intro: lease_move.store_delivery statements_with_handoffs)
next
  case (lease d token now expires db1 i)
  from lease_move.lease [OF _ _ _ statements_with_handoffs(4) [OF lease(4), of h] statements_with_handoffs(3) [OF lease(5), of h]]
  show ?thesis using lease(1-3) by simp
next
  case (expire d now)
  from lease_move.expire [OF _ _ statements_with_handoffs(4) [OF expire(3), of h]] show ?thesis using expire(1,2) by simp
next
  case (settle d a a' db1 d')
  show ?thesis
    by (rule lease_move.settle [OF _ _ _ settle(4-6) statements_with_handoffs(5) [OF settle(7)] settle(8-12) statements_with_handoffs(4) [OF settle(13)]])
       (use settle(1-3) in simp_all)
qed

lemma lease_inv_with_handoffs: "lease_inv (db\<lparr>handoffs := h\<rparr>) = lease_inv (db :: tdb)"
  by (simp add: lease_inv_def schema_ok_def leases_matched_def attempts_matched_def numbers_bounded_def quotas_kept_def
      event_exists_def delivery_exists_def)

section \<open>The invariant is kept\<close>

lemma written_rows:
  assumes "distinct (map handoff_key (handoffs db))" "r \<in> set (handoffs db)" "handoff_key r' = handoff_key r" "update_handoff r' db = Inr db'"
  shows "set (handoffs db') = insert r' (set (handoffs db) - {r})" and "distinct (map handoff_key (handoffs db'))"
    and "handoff_row_ok r'" and "db'\<lparr>handoffs := handoffs db\<rparr> = db" and "attempts db' = attempts db" and "lease_inv db' = lease_inv db"
proof -
  have rows: "handoffs db' = update_where (\<lambda>x. handoff_key x = handoff_key r') (\<lambda>_. r') (handoffs db)" and ok: "handoff_row_ok r'"
    and eq: "db' = db\<lparr>handoffs := handoffs db'\<rparr>" using assms(4) by (auto simp: update_handoff_Inr)
  show "set (handoffs db') = insert r' (set (handoffs db) - {r})" unfolding rows by (rule set_replace_row [OF assms(1-3)])
  show "distinct (map handoff_key (handoffs db'))"
    using map_replace_row [OF assms(1-3), of handoff_key] assms(1,3) rows by simp
  show "handoff_row_ok r'" by (rule ok)
  show "db'\<lparr>handoffs := handoffs db\<rparr> = db" by (subst eq) simp
  show "attempts db' = attempts db" by (subst eq) simp
  show "lease_inv db' = lease_inv db" by (subst eq) (rule lease_inv_with_handoffs)
qed

lemma attempt_succeeded_mono:
  "lease_inv db \<Longrightarrow> lease_move db db' \<Longrightarrow> attempt_succeeded r db \<Longrightarrow> attempt_succeeded r db'"
  unfolding attempt_succeeded_def using move_keeps_finished [of db db'] by (metis attempt_outcome.distinct(1))

lemma attempt_succeeded_slot: "handoff_slot r' = handoff_slot r \<Longrightarrow> attempt_succeeded r' db = attempt_succeeded r db"
  by (simp add: attempt_succeeded_def handoff_slot_def)

lemma handoff_move_inv:
  assumes inv: "handoff_inv db" and mv: "handoff_move h db db'"
  shows "handoff_inv db'"
  using mv
proof cases
  case lease_only
  have "handoffs db' = handoffs db" using lease_move_handoffs [OF lease_only] .
  then show ?thesis using inv move_inv [OF _ lease_only] attempt_succeeded_mono [OF _ lease_only] by (auto simp: handoff_inv_def)
next
  case (created r)
  have a: "attempts db' = attempts db" "lease_inv db' = lease_inv db" and rows: "handoffs db' = handoffs db @ [r]" "handoff_row_ok r"
    "handoff_key r \<notin> handoff_key ` set (handoffs db)"
    using created(1) lease_inv_with_handoffs [where db = db and h = "handoffs db @ [r]"] by (auto simp: insert_handoff_Inr)
  then have s: "attempt_succeeded q db' = attempt_succeeded q db" for q by (simp add: attempt_succeeded_def)
  show ?thesis using inv created(2) a(2) rows by (auto simp: handoff_inv_def s)
next
  case (written r r')
  have d: "distinct (map handoff_key (handoffs db))" and ok: "h_state r = HandoffSucceeded \<longrightarrow> attempt_succeeded r db"
    using inv written(1) by (auto simp: handoff_inv_def)
  have k: "handoff_key r' = handoff_key r" "handoff_slot r' = handoff_slot r" using written(2) by (auto simp: row_evolves_def)
  note w = written_rows [OF d written(1) k(1) written(3)]
  have s: "attempt_succeeded q db' = attempt_succeeded q db" for q using w(5) by (simp add: attempt_succeeded_def)
  have "h_state r' = HandoffSucceeded \<longrightarrow> attempt_succeeded r' db'"
    using written(4) ok s attempt_succeeded_slot [OF k(2)] by blast
  then show ?thesis using inv w(1-3,6) unfolding handoff_inv_def s by auto
qed

lemma handoff_inv_empty: "no_rows db \<and> handoffs db = [] \<Longrightarrow> handoff_inv db"
  by (simp add: handoff_inv_def lease_inv_empty)

interpretation handoff: invariant_machine "\<lambda>db. no_rows db \<and> handoffs db = []" "handoff_move h" handoff_inv for h
  by unfold_locales (blast intro: handoff_inv_empty handoff_move_inv)+

text \<open>Seen from the lease tables, handoff moves are lease moves.\<close>

lemma handoff_moves_lease:
  "(handoff_move h)\<^sup>*\<^sup>* db db' \<Longrightarrow> handoff_inv db \<Longrightarrow> lease_move\<^sup>*\<^sup>* db (db'\<lparr>handoffs := handoffs db\<rparr>)"
proof (induction rule: rtranclp_induct)
  case (step y z)
  let ?h = "handoffs db"
  have inv: "handoff_inv y" using handoff.inv_steps [OF step(1) step.prems] .
  from step(2) have "lease_move\<^sup>*\<^sup>* (y\<lparr>handoffs := ?h\<rparr>) (z\<lparr>handoffs := ?h\<rparr>)"
  proof cases
    case lease_only
    then show ?thesis using lease_move_with_handoffs by blast
  next
    case (created r)
    then show ?thesis by (auto simp: insert_handoff_Inr)
  next
    case (written r r')
    then show ?thesis by (auto simp: update_handoff_Inr)
  qed
  then show ?case using step.IH [OF step.prems] by (rule rtranclp_trans [rotated])
qed simp

definition handoffs_evolve :: "int \<Rightarrow> tdb \<Rightarrow> tdb \<Rightarrow> bool" where
  "handoffs_evolve h db db' \<longleftrightarrow> (\<forall>r\<in>set (handoffs db). \<exists>r'\<in>set (handoffs db'). row_evolves h r r')"

lemma handoff_move_evolves:
  assumes "handoff_inv db" "handoff_move h db db'"
  shows "handoffs_evolve h db db'"
  using assms(2)
proof cases
  case lease_only
  then show ?thesis using lease_move_handoffs [OF lease_only] row_evolves_refl by (auto simp: handoffs_evolve_def)
next
  case (created r)
  then have "handoffs db' = handoffs db @ [r]" by (simp add: insert_handoff_Inr)
  then show ?thesis unfolding handoffs_evolve_def using row_evolves_refl by auto
next
  case (written r r')
  have "set (handoffs db') = insert r' (set (handoffs db) - {r})"
    using written_rows(1) [OF _ written(1) _ written(3)] assms(1) written(2) by (auto simp: handoff_inv_def row_evolves_def)
  then show ?thesis using written(2) row_evolves_refl unfolding handoffs_evolve_def by (metis Diff_iff insert_iff singletonD)
qed

lemma handoff_moves_evolve: "(handoff_move h)\<^sup>*\<^sup>* db db' \<Longrightarrow> handoff_inv db \<Longrightarrow> handoffs_evolve h db db'"
proof (induction rule: rtranclp_induct)
  case base
  then show ?case using row_evolves_refl by (auto simp: handoffs_evolve_def)
next
  case (step y z)
  have "handoffs_evolve h y z" using handoff_move_evolves handoff.inv_steps [OF step(1) step.prems] step(2) by blast
  with step.IH [OF step.prems] show ?case unfolding handoffs_evolve_def using row_evolves_trans by blast
qed

section \<open>The operations are sequences of moves\<close>

lemma set_failed_simps [simp]:
  "handoff_key (set_failed o' t c m r) = handoff_key r" "handoff_slot (set_failed o' t c m r) = handoff_slot r"
  "h_task_id (set_failed o' t c m r) = h_task_id r" "h_handoff_token (set_failed o' t c m r) = h_handoff_token r" "handoff_finished (h_state (set_failed o' t c m r))"
  "h_state (set_failed o' t c m r) \<noteq> HandoffSucceeded"
  by (simp_all add: set_failed_def clear_execution_def handoff_key_def handoff_slot_def handoff_finished_def)

lemma set_failed_evolves: "\<not> handoff_finished (h_state r) \<Longrightarrow> row_evolves h r (set_failed o' t c m r)"
  by (simp add: row_evolves_def)

lemma failed_write:
  assumes "r \<in> set (handoffs db)" "\<not> handoff_finished (h_state r)" "update_handoff (set_failed o' t c m r) db = Inr db'"
  shows "handoff_move h db db'"
  using written [OF assms(1) set_failed_evolves [OF assms(2)] assms(3)] by simp

lemma fail_then_write:
  assumes "lease_inv db" "fail_in_transaction True cl err now ra s u db = Inr (db1, o')" "r \<in> set (handoffs db)"
    "\<not> handoff_finished (h_state r)" "update_handoff (set_failed o'' t c m r) db1 = Inr db2"
  shows "(handoff_move h)\<^sup>*\<^sup>* db db2"
proof -
  note mv = fail_in_transaction_move [OF assms(1,2)]
  have "r \<in> set (handoffs db1)" using lease_move_handoffs [OF mv] assms(3) by simp
  from failed_write [OF this assms(4,5)] have "handoff_move h db1 db2" .
  with lease_only [OF mv] show ?thesis by (meson converse_rtranclp_into_rtranclp r_into_rtranclp)
qed

lemma locked_for_envelope_Inr: "locked_for_envelope v db = Inr r \<Longrightarrow> r \<in> set (handoffs db) \<and> handoff_key r = (v_tenant_id v, v_handoff_id v)"
  by (auto simp: locked_for_envelope_def split: option.splits dest: find_SomeD)

lemma locked_execution_Inr:
  "locked_execution x db = Inr r \<Longrightarrow> r \<in> set (handoffs db) \<and> h_state r = Executing \<and> h_execution_token r = Some (x_execution_token x) \<and>
     handoff_key r = (hr_tenant_id (x_record x), hr_handoff_id (x_record x))"
  by (auto simp: locked_execution_def find_handoff_def split: option.splits if_splits dest: find_SomeD)

lemma prepare_moves: "prepare b c now s hid tok db = (db', r) \<Longrightarrow> (handoff_move h)\<^sup>*\<^sup>* db db'"
proof -
  assume p: "prepare b c now s hid tok db = (db', r)"
  let ?row = "prepared_row c hid tok (instant s)"
  have "db' = db \<or> insert_handoff ?row db = Inr db'"
    using p by (auto simp: prepare_def transaction_cases and_then_Inr_iff database_now_Inr Let_def split: prod.splits if_splits option.splits)
  moreover have "h_state ?row = Prepared" by (simp add: prepared_row_def)
  ultimately show ?thesis using created by blast
qed

lemma prepare_Inr:
  assumes "prepare b c now s hid tok db = (db', Inr v)"
  shows "\<exists>r\<in>set (handoffs db'). envelope_of r = Inr v \<and> handoff_slot r = handoff_slot (prepared_row c hid tok (instant s))"
proof -
  from assms obtain r where "envelope_of r = Inr v"
    "List.find (\<lambda>r. handoff_slot r = handoff_slot (prepared_row c hid tok (instant s))) (handoffs db') = Some r"
    by (auto simp: prepare_def transaction_cases and_then_Inr_iff database_now_Inr Let_def split: prod.splits if_splits option.splits)
  then show ?thesis by (auto dest!: find_SomeD)
qed

lemma mark_enqueued_moves: "mark_enqueued b v now s db = (db', r) \<Longrightarrow> (handoff_move h)\<^sup>*\<^sup>* db db'"
proof -
  assume p: "mark_enqueued b v now s db = (db', r)"
  let ?up = "\<lambda>row. row\<lparr>h_state := (if h_state row \<noteq> Prepared then h_state row else Enqueued), h_enqueued_at := Some (instant s), h_updated_at := instant s\<rparr>"
  have "db' = db \<or> (\<exists>row\<in>set (handoffs db). update_handoff (?up row) db = Inr db')"
    using p by (auto simp: mark_enqueued_def transaction_cases and_then_Inr_iff database_now_Inr Let_def split: if_splits
        dest!: locked_for_envelope_Inr)
  moreover have "row_evolves h row (?up row)" for row
    by (auto simp: row_evolves_def handoff_key_def handoff_slot_def handoff_finished_def execution_of_def)
  ultimately show ?thesis using written [where horizon = h] by (fastforce split: if_splits)
qed

lemma enqueue_failed_moves:
  assumes "handoff_inv db" "enqueue_failed b v now clock u db = (db', r)"
  shows "(handoff_move h)\<^sup>*\<^sup>* db db'"
proof (cases "db' = db")
  case False
  then obtain row c db1 o' where row: "locked_for_envelope v db = Inr row" "h_state row = Prepared"
    and f: "fail_in_transaction True c enqueue_failure now None (clock 0) u db = Inr (db1, o')"
    and w: "update_handoff (set_failed o' (instant (clock 1)) ''executor.enqueue_failed'' default_failure_summary row) db1 = Inr db'"
    using assms(2) by (auto simp: enqueue_failed_def transaction_cases and_then_Inr_iff database_now_Inr Let_def split: if_splits)
  have "\<not> handoff_finished (h_state row)" using row(2) by (simp add: handoff_finished_def)
  then show ?thesis using fail_then_write [OF _ f _ _ w] locked_for_envelope_Inr [OF row(1)] assms(1) by (simp add: handoff_inv_def)
qed simp

lemma executing_row_evolves:
  assumes "\<not> handoff_finished (h_state r)" "\<And>t e. execution_of t e r \<Longrightarrow> e \<le> h"
  shows "row_evolves h r (executing_row token deadline t r)"
  using assms by (force simp: row_evolves_def executing_row_def handoff_key_def handoff_slot_def)

lemma admit_execution_cases:
  assumes "admit_execution row c sel timeout clock u token db = Inr (db', res)"
  obtains (admitted) deadline t where "update_handoff (executing_row token deadline t row) db = Inr db'"
      "res = Some \<lparr>x_record = handoff_record_of (executing_row token deadline t row), x_claim = c, x_execution_token = token,
         x_execution_deadline = deadline\<rparr>"
  | (refused) db1 o' t where "fail_in_transaction True c admission_failure (Aware t) None (clock 2) u db = Inr (db1, o')" "res = None"
      "update_handoff (set_failed o' t (err_code admission_failure) (err_summary admission_failure) row) db1 = Inr db'"
proof -
  from assms obtain t lease policy remaining where
    body: "(if remaining \<le> 0
             then and_then (fail_in_transaction True c admission_failure (Aware t) None (clock 2) u db) (\<lambda>(db1, outcome).
                  and_then (update_handoff (set_failed outcome t (err_code admission_failure) (err_summary admission_failure) row) db1)
                    (\<lambda>db2. Inr (db2, None)))
             else and_then (timedelta_float remaining) (\<lambda>budget.
                  and_then (dt_add t budget) (\<lambda>deadline.
                    let row1 = executing_row token deadline t row in
                    and_then (update_handoff row1 db) (\<lambda>db1.
                      Inr (db1, Some \<lparr>x_record = handoff_record_of row1, x_claim = c, x_execution_token = token,
                                      x_execution_deadline = deadline\<rparr>))))) = Inr (db', res)"
    unfolding admit_execution_def and_then_Inr_iff [of "database_now (clock 1) (Aware sel)"]
    by (cases "dr_lease_expires_at (c_delivery c)")
       (auto simp only: option.case sum.distinct and_then_Inr_iff [of "handoff_policy c"] and_then_Inr_iff [of "remaining_attempt_seconds p a b d e f" for p a b d e f])
  show thesis
  proof (cases "remaining \<le> 0")
    case True
    with body show thesis by (auto simp: and_then_Inr_iff intro: refused)
  next
    case False
    with body show thesis by (auto simp: and_then_Inr_iff Let_def intro: admitted)
  qed
qed

lemma claim_execution_Inr:
  assumes "claim_execution b v now timeout clock u token db = (db', Inr res)"
  obtains (unchanged) "db' = db" "res = None"
  | (stale) row t c m where "locked_for_envelope v db = Inr row" "\<not> handoff_finished (h_state row)" "res = None"
      "update_handoff (set_failed Dead t c m row) db = Inr db'"
  | (admission) row c where "locked_for_envelope v db = Inr row" "\<not> handoff_finished (h_state row)" "claim_for_row row db = Inr c"
      "\<not> (h_state row = Executing \<and> (case h_execution_deadline row of None \<Rightarrow> False | Some e \<Rightarrow> instant (clock 0) < e))"
      "admit_execution row c (instant (clock 0)) timeout clock u token db = Inr (db', res)"
proof -
  from assms obtain row where row: "locked_for_envelope v db = Inr row"
    and body: "(if handoff_finished (h_state row) then Inr (db, None)
         else if h_state row = Executing \<and> (case h_execution_deadline row of None \<Rightarrow> False | Some e \<Rightarrow> instant (clock 0) < e) then Inr (db, None)
         else
           (case claim_for_row row db of
              Inl (LeaseLost _) \<Rightarrow>
                and_then (update_handoff (set_failed Dead (instant (clock 0)) ''executor.stale_attempt''
                    ''Taskiq handoff no longer owns the parent delivery attempt.'' row) db) (\<lambda>db1. Inr (db1, None))
            | Inl e \<Rightarrow> Inl e
            | Inr c \<Rightarrow> admit_execution row c (instant (clock 0)) timeout clock u token db)) = Inr (db', res)"
    unfolding claim_execution_def transaction_cases by (auto simp only: and_then_Inr_iff database_now_Inr sum.distinct sum.inject)
  show thesis
  proof (cases "handoff_finished (h_state row) \<or> h_state row = Executing \<and> (case h_execution_deadline row of None \<Rightarrow> False | Some e \<Rightarrow> instant (clock 0) < e)")
    case True
    with body show thesis by (auto split: if_splits intro: unchanged)
  next
    case False
    show thesis
    proof (cases "claim_for_row row db")
      case (Inl e)
      with False body row show thesis by (cases e) (auto simp: and_then_Inr_iff intro: stale)
    next
      case (Inr c)
      with False body row show thesis by (intro admission) auto
    qed
  qed
qed

lemma claim_execution_moves:
  assumes inv: "handoff_inv db" and p: "claim_execution b v now timeout clock u token db = (db', r)" and t: "instant (clock 0) \<le> h"
  shows "(handoff_move h)\<^sup>*\<^sup>* db db'"
proof (cases r)
  case (Inl e)
  then show ?thesis using p by (auto simp: claim_execution_def transaction_cases)
next
  case (Inr res)
  from p [unfolded Inr] show ?thesis
  proof (cases rule: claim_execution_Inr)
    case (stale row t c m)
    then show ?thesis using failed_write locked_for_envelope_Inr by blast
  next
    case (admission row c)
    have row: "row \<in> set (handoffs db)" using locked_for_envelope_Inr [OF admission(1)] by blast
    from admission(5) show ?thesis
    proof (cases rule: admit_execution_cases)
      case (admitted deadline t')
      have "row_evolves h row (executing_row token deadline t' row)"
        using admission(2,4) t by (intro executing_row_evolves) (auto simp: execution_of_def)
      moreover have "h_state (executing_row token deadline t' row) \<noteq> HandoffSucceeded" by (simp add: executing_row_def)
      ultimately show ?thesis using written [OF row _ admitted(1)] by blast
    next
      case (refused db1 o' t')
      then show ?thesis using fail_then_write [OF _ refused(1) row admission(2) refused(3)] inv by (simp add: handoff_inv_def)
    qed
  qed simp
qed

text \<open>An execution that was handed out belongs to the row it names.\<close>

definition issued_for :: "executing_handoff \<Rightarrow> handoff_row \<Rightarrow> bool" where
  "issued_for x r \<longleftrightarrow> handoff_key r = (hr_tenant_id (x_record x), hr_handoff_id (x_record x)) \<and>
     (ar_tenant_id (c_attempt (x_claim x)), ar_attempt_id (c_attempt (x_claim x))) = (h_tenant_id r, h_attempt_id r)"

definition issued :: "executing_handoff \<Rightarrow> tdb \<Rightarrow> bool" where
  "issued x db \<longleftrightarrow> (\<exists>r\<in>set (handoffs db). issued_for x r)"

lemma issued_for_evolves: "issued_for x r \<Longrightarrow> row_evolves h r r' \<Longrightarrow> issued_for x r'"
  by (auto simp: issued_for_def row_evolves_def handoff_slot_def)

lemma issued_moves: "(handoff_move h)\<^sup>*\<^sup>* db db' \<Longrightarrow> handoff_inv db \<Longrightarrow> issued x db \<Longrightarrow> issued x db'"
  using handoff_moves_evolve issued_for_evolves unfolding issued_def handoffs_evolve_def by metis

lemma attempt_from_row_ids:
  "attempt_from_row a = Inr x \<Longrightarrow> ar_tenant_id x = a_tenant_id a \<and> ar_attempt_id x = a_attempt_id a"
  by (auto simp: attempt_from_row_def attempt_record_post_init_def and_then_Inr_iff split: if_splits)

lemma claim_for_row_ids:
  "claim_for_row r db = Inr c \<Longrightarrow> ar_tenant_id (c_attempt c) = h_tenant_id r \<and> ar_attempt_id (c_attempt c) = h_attempt_id r"
  by (auto simp: claim_for_row_def and_then_Inr_iff split: option.splits if_splits dest!: find_attempt_Some attempt_from_row_ids)

lemma claim_execution_issues:
  assumes inv: "handoff_inv db" and p: "claim_execution b v now timeout clock u token db = (db', Inr (Some x))"
  shows "\<exists>r\<in>set (handoffs db'). issued_for x r \<and> execution_of (x_execution_token x) (x_execution_deadline x) r \<and> handoff_key r = (v_tenant_id v, v_handoff_id v)"
  using p
proof (cases rule: claim_execution_Inr)
  case (admission row c)
  note row = locked_for_envelope_Inr [OF admission(1)]
  from admission(5) show ?thesis
  proof (cases rule: admit_execution_cases)
    case (admitted deadline t)
    let ?r = "executing_row token deadline t row"
    have k: "handoff_key ?r = handoff_key row" by (simp add: executing_row_def handoff_key_def)
    have "?r \<in> set (handoffs db')" using written_rows(1) [OF _ _ k admitted(1)] row inv by (auto simp: handoff_inv_def)
    moreover have "issued_for x ?r"
      using admitted(2) claim_for_row_ids [OF admission(3)] by (simp add: issued_for_def handoff_record_of_def handoff_key_def executing_row_def)
    moreover have "execution_of (x_execution_token x) (x_execution_deadline x) ?r"
      using admitted(2) by (simp add: execution_of_def executing_row_def)
    ultimately show ?thesis using row k by metis
  qed simp
qed simp_all

lemma succeed_marks_attempt:
  assumes inv: "lease_inv db" and ok: "succeed_in_transaction True c now s db = Inr (db', t)"
  shows "\<exists>a\<in>set (attempts db'). attempt_key a = (ar_tenant_id (c_attempt c), ar_attempt_id (c_attempt c)) \<and> a_outcome a = AttemptSucceeded"
proof -
  from ok obtain d a db1 where rows: "locked_active_rows c now s db = Inr (d, a, t)"
    and upa: "update_attempt (a\<lparr>a_outcome := AttemptSucceeded, a_finished_at := Some t\<rparr>) db = Inr db1"
    and upd: "update_delivery (clear_lease t (d\<lparr>d_state := Succeeded\<rparr>)) db1 = Inr db'"
    by (auto simp: succeed_in_transaction_def and_then_Inr_iff split: option.splits if_splits)
  note r = locked_active_rows_Inr [OF rows]
  let ?a = "a\<lparr>a_outcome := AttemptSucceeded, a_finished_at := Some t\<rparr>"
  have "set (attempts db1) = insert ?a (set (attempts db) - {a})"
    using update_attempt_rows(1) [OF lease_inv_schema [OF inv] _ _ upa] r by (auto simp: same_attempt_def attempt_key_def attempt_slot_def)
  then have "?a \<in> set (attempts db')" using upd by (auto simp: update_delivery_Inr)
  then show ?thesis using r by (intro bexI [of _ ?a]) (simp_all add: attempt_key_def)
qed

lemma finalize_success_moves:
  assumes inv: "handoff_inv db" and x: "issued x db" and p: "finalize_success b x now s db = (db', r)"
  shows "(handoff_move h)\<^sup>*\<^sup>* db db'"
proof (cases "\<exists>e. r = Inl e")
  case True
  then show ?thesis using p by (auto simp: finalize_success_def transaction_cases)
next
  case False
  let ?up = "\<lambda>row t. clear_execution (row\<lparr>h_state := HandoffSucceeded, h_finished_at := Some t, h_updated_at := t\<rparr>)"
  obtain row db1 t where lk: "locked_execution x db = Inr row" and f: "succeed_in_transaction True (x_claim x) now s db = Inr (db1, t)"
    and w: "update_handoff (?up row t) db1 = Inr db'"
    using p False by (auto simp: finalize_success_def transaction_cases and_then_Inr_iff Let_def)
  note row = locked_execution_Inr [OF lk]
  have li: "lease_inv db" and d: "distinct (map handoff_key (handoffs db))" using inv by (simp_all add: handoff_inv_def)
  note mv = succeed_in_transaction_move [OF li f]
  obtain q where q: "q \<in> set (handoffs db)" "issued_for x q" using x by (auto simp: issued_def)
  have "q = row" using unique_row [OF d _ q(1), of row] row q(2) by (simp add: issued_for_def)
  then have "attempt_succeeded row db1" using succeed_marks_attempt [OF li f] q(2) by (simp add: attempt_succeeded_def issued_for_def)
  moreover have "row_evolves h row (?up row t)"
    using row by (simp add: row_evolves_def clear_execution_def handoff_key_def handoff_slot_def handoff_finished_def)
  moreover have "row \<in> set (handoffs db1)" using row lease_move_handoffs [OF mv] by simp
  ultimately have "handoff_move h db1 db'" using written [OF _ _ w] by blast
  with lease_only [OF mv] show ?thesis by (meson converse_rtranclp_into_rtranclp r_into_rtranclp)
qed

lemma finalize_failure_moves:
  assumes inv: "handoff_inv db" and p: "finalize_failure b x err now clock u db = (db', r)"
  shows "(handoff_move h)\<^sup>*\<^sup>* db db'"
proof (cases "\<exists>e. r = Inl e")
  case True
  then show ?thesis using p by (auto simp: finalize_failure_def transaction_cases)
next
  case False
  obtain row db1 o' t where lk: "locked_execution x db = Inr row"
    and f: "fail_in_transaction True (x_claim x) err now (error_retry_after err) (clock 0) u db = Inr (db1, o')"
    and w: "update_handoff (set_failed o' t (err_code err) (err_summary err) row) db1 = Inr db'"
    using p False by (auto simp: finalize_failure_def transaction_cases and_then_Inr_iff Let_def)
  note row = locked_execution_Inr [OF lk]
  then show ?thesis using fail_then_write [OF _ f _ _ w] inv by (simp add: handoff_inv_def handoff_finished_def)
qed

lemma recover_one_moves:
  assumes inv: "handoff_inv db" and p: "recover_one now clock u n row db = Inr db'" and row: "row \<in> set (handoffs db)" "\<not> handoff_finished (h_state row)"
  shows "(handoff_move h)\<^sup>*\<^sup>* db db' \<and> set (handoffs db) - {row} \<subseteq> set (handoffs db')"
proof -
  from p obtain db1 o' t where r: "(case and_then (claim_for_row row db) (\<lambda>c.
                    fail_in_transaction True c expiry_failure now None (clock (2 * n + 1)) (u n) db) of
                 Inl (LeaseLost _) \<Rightarrow> Inr (db, Dead) | Inl e \<Rightarrow> Inl e | Inr r \<Rightarrow> Inr r) = Inr (db1, o')"
    and w: "update_handoff (set_failed o' t ''executor.handoff_expired'' default_failure_summary row) db1 = Inr db'"
    by (auto simp: recover_one_def and_then_Inr_iff)
  have d: "distinct (map handoff_key (handoffs db))" and li: "lease_inv db" using inv by (simp_all add: handoff_inv_def)
  consider "db1 = db" | c where "fail_in_transaction True c expiry_failure now None (clock (2 * n + 1)) (u n) db = Inr (db1, o')"
    using r by (auto simp: and_then_Inr_iff split: sum.splits exn.splits)
  then have "(handoff_move h)\<^sup>*\<^sup>* db db' \<and> handoffs db1 = handoffs db"
  proof cases
    case 1
    then show ?thesis using failed_write [OF row w [unfolded 1]] by blast
  next
    case 2
    then show ?thesis using fail_then_write [OF li 2 row w] lease_move_handoffs [OF fail_in_transaction_move [OF li 2]] by blast
  qed
  then show ?thesis using written_rows(1) [OF _ _ _ w, of row] d row(1) by auto
qed

lemma recover_loop_moves:
  assumes "handoff_inv db" "recover_loop now clock u rows n db = Inr (db', m)" "distinct rows"
    "\<forall>r\<in>set rows. r \<in> set (handoffs db) \<and> \<not> handoff_finished (h_state r)"
  shows "(handoff_move h)\<^sup>*\<^sup>* db db' \<and> m = int n + int (length rows)"
  using assms
proof (induction rows arbitrary: n db)
  case (Cons row rows)
  from Cons.prems(2) obtain db1 where one: "recover_one now clock u n row db = Inr db1"
    and rest: "recover_loop now clock u rows (Suc n) db1 = Inr (db', m)" by (auto simp: and_then_Inr_iff)
  have mv: "(handoff_move h)\<^sup>*\<^sup>* db db1" and keep: "set (handoffs db) - {row} \<subseteq> set (handoffs db1)"
    using recover_one_moves [OF Cons.prems(1) one] Cons.prems(4) by auto
  have "\<forall>r\<in>set rows. r \<in> set (handoffs db1) \<and> \<not> handoff_finished (h_state r)" using Cons.prems(3,4) keep by auto
  from Cons.IH [OF handoff.inv_steps [OF mv Cons.prems(1)] rest _ this] Cons.prems(3) mv show ?case by auto
qed simp

lemma recover_expired_moves:
  assumes inv: "handoff_inv db" and p: "recover_expired b now timeout batch clock u locked db = (db', r)"
  shows "(handoff_move h)\<^sup>*\<^sup>* db db'"
proof (cases "\<exists>e. r = Inl e")
  case True
  then show ?thesis using p by (auto simp: recover_expired_def transaction_cases)
next
  case False
  obtain cutoff m where l: "recover_loop now clock u (recovery_batch (instant (clock 0)) cutoff batch locked db) 0 db = Inr (db', m)"
    using p False by (auto simp: recover_expired_def transaction_cases and_then_Inr_iff database_now_Inr)
  let ?rows = "recovery_batch (instant (clock 0)) cutoff batch locked db"
  have "distinct (handoffs db)" using inv by (auto simp: handoff_inv_def distinct_map)
  then have "distinct ?rows" by (simp add: recovery_batch_def)
  moreover have "\<forall>r\<in>set ?rows. r \<in> set (handoffs db) \<and> \<not> handoff_finished (h_state r)"
    by (auto simp: recovery_batch_def recoverable_def handoff_finished_def dest!: in_set_takeD)
  ultimately show ?thesis using recover_loop_moves [OF inv l] by blast
qed

section \<open>The machine\<close>

text \<open>
  States carry the executions handed out so far: only those are finalised. Every operation is one transaction, returned or
  raised; lease steps of other components are interleaved freely.
\<close>

inductive taskiq_step :: "int \<Rightarrow> tdb \<times> executing_handoff list \<Rightarrow> tdb \<times> executing_handoff list \<Rightarrow> bool" for horizon where
  prepares: "prepare b c now s hid tok db = (db', r) \<Longrightarrow> taskiq_step horizon (db, xs) (db', xs)"
| enqueues: "mark_enqueued b v now s db = (db', r) \<Longrightarrow> taskiq_step horizon (db, xs) (db', xs)"
| gives_up: "enqueue_failed b v now clock u db = (db', r) \<Longrightarrow> taskiq_step horizon (db, xs) (db', xs)"
| executes: "claim_execution b v now timeout clock u token db = (db', r) \<Longrightarrow> instant (clock 0) \<le> horizon \<Longrightarrow>
    taskiq_step horizon (db, xs) (db', case r of Inr (Some x) \<Rightarrow> x # xs | _ \<Rightarrow> xs)"
| succeeds: "finalize_success b x now s db = (db', r) \<Longrightarrow> x \<in> set xs \<Longrightarrow> taskiq_step horizon (db, xs) (db', xs)"
| fails: "finalize_failure b x err now clock u db = (db', r) \<Longrightarrow> x \<in> set xs \<Longrightarrow> taskiq_step horizon (db, xs) (db', xs)"
| recovers: "recover_expired b now timeout batch clock us locked db = (db', r) \<Longrightarrow> taskiq_step horizon (db, xs) (db', xs)"
| leases: "lease_move db db' \<Longrightarrow> taskiq_step horizon (db, xs) (db', xs)"

definition taskiq_inv :: "tdb \<times> executing_handoff list \<Rightarrow> bool" where
  "taskiq_inv s \<longleftrightarrow> handoff_inv (fst s) \<and> (\<forall>x\<in>set (snd s). issued x (fst s))"

lemma taskiq_step_moves:
  assumes "taskiq_step h s t" "taskiq_inv s"
  shows "(handoff_move h)\<^sup>*\<^sup>* (fst s) (fst t)"
  using assms
proof (induction rule: taskiq_step.induct)
  case (leases db db' xs)
  then show ?case using lease_only by auto
qed (auto simp: taskiq_inv_def intro: prepare_moves mark_enqueued_moves enqueue_failed_moves claim_execution_moves
      finalize_success_moves finalize_failure_moves recover_expired_moves)

lemma taskiq_step_inv:
  assumes "taskiq_step h s t" "taskiq_inv s"
  shows "taskiq_inv t"
proof -
  note mv = taskiq_step_moves [OF assms]
  have inv: "handoff_inv (fst t)" using handoff.inv_steps [OF mv] assms(2) by (simp add: taskiq_inv_def)
  have old: "issued x (fst t)" if "x \<in> set (snd s)" for x
    using issued_moves [OF mv] assms(2) that by (simp add: taskiq_inv_def)
  have "issued x (fst t)" if "x \<in> set (snd t)" "x \<notin> set (snd s)" for x
    using assms(1) that
  proof cases
    case (executes b v now timeout clock u token db db' r xs)
    then have "r = Inr (Some x)" using that by (auto split: sum.splits option.splits)
    then show ?thesis using claim_execution_issues [of db b v now timeout clock u token db' x] executes assms(2)
      by (auto simp: taskiq_inv_def issued_def)
  qed simp_all
  then show ?thesis using inv old unfolding taskiq_inv_def by blast
qed

interpretation taskiq: invariant_machine "\<lambda>s. no_rows (fst s) \<and> handoffs (fst s) = [] \<and> snd s = []" "taskiq_step h" taskiq_inv for h
  by unfold_locales (simp add: taskiq_inv_def handoff_inv_empty, rule taskiq_step_inv)

lemma taskiq_steps_moves:
  "(taskiq_step h)\<^sup>*\<^sup>* s t \<Longrightarrow> taskiq_inv s \<Longrightarrow> (handoff_move h)\<^sup>*\<^sup>* (fst s) (fst t)"
proof (induction rule: rtranclp_induct)
  case (step y z)
  have "(handoff_move h)\<^sup>*\<^sup>* (fst y) (fst z)" using taskiq_step_moves [OF step(2)] taskiq.inv_steps [OF step(1) step.prems] by blast
  then show ?case using step.IH [OF step.prems] by auto
qed simp

section \<open>Properties\<close>

text \<open>
  C4. Handing work to a broker does not weaken the lease protocol: from an empty schema, whatever prepares, enqueues,
  executions, finalisations, recoveries and lease steps happen, the lease invariant (one running attempt per leased delivery, attempt
  quota) holds, the lease tables move only by lease moves, and a handoff is recorded as succeeded only together with the
  success of the very attempt it was prepared for.
\<close>

theorem taskiq_refines_lease_machine:
  assumes "no_rows db0" and "handoffs db0 = []" and "(taskiq_step horizon)\<^sup>*\<^sup>* (db0, []) (db, xs)"
  shows "lease_inv db \<and> lease_move\<^sup>*\<^sup>* db0 (db\<lparr>handoffs := []\<rparr>) \<and>
    (\<forall>r\<in>set (handoffs db). h_state r = HandoffSucceeded \<longrightarrow> attempt_succeeded r db)"
proof -
  have i0: "taskiq_inv (db0, [])" using assms(1,2) by (simp add: taskiq_inv_def handoff_inv_empty)
  have "taskiq_inv (db, xs)" using taskiq.inv_steps [OF assms(3) i0] .
  moreover have "lease_move\<^sup>*\<^sup>* db0 (db\<lparr>handoffs := []\<rparr>)"
    using handoff_moves_lease [OF taskiq_steps_moves [OF assms(3) i0]] i0 assms(2) by (simp add: taskiq_inv_def)
  ultimately show ?thesis by (auto simp: taskiq_inv_def handoff_inv_def)
qed

definition sample_tdb :: "event_row list \<Rightarrow> delivery_row list \<Rightarrow> attempt_row list \<Rightarrow> handoff_row list \<Rightarrow> tdb" where
  "sample_tdb es ds as hs = \<lparr>events = es, deliveries = ds, attempts = as, handoffs = hs\<rparr>"

abbreviation "sample_leased_tdb \<equiv> sample_tdb [sample_event_row] [sample_leased_row] [sample_attempt_row]"

definition sample_handoff :: handoff_row where
  "sample_handoff = prepared_row sample_claimed 400 401 21"

definition sample_execution :: executing_handoff where
  "sample_execution = \<lparr>x_record = handoff_record_of (executing_row 402 60000020 22 sample_handoff), x_claim = sample_claimed,
     x_execution_token = 402, x_execution_deadline = 60000020\<rparr>"

definition sample_envelope :: handoff_envelope where
  "sample_envelope = projr (envelope_of sample_handoff)"

lemma sample_leases: "lease_move\<^sup>*\<^sup>* (sample_tdb [] [] [] []) (sample_leased_tdb [])"
proof -
  have e: "insert_event sample_event_row (sample_tdb [] [] [] []) = Inr (sample_tdb [sample_event_row] [] [] [])" by code_simp
  have d: "insert_delivery sample_delivery_row (sample_tdb [sample_event_row] [] [] []) = Inr (sample_tdb [sample_event_row] [sample_delivery_row] [] [])"
    "d_state sample_delivery_row = Pending" "d_attempts_started sample_delivery_row = 0" by code_simp+
  have u: "update_delivery (leased_row 20 120000020 200 sample_delivery_row) (sample_tdb [sample_event_row] [sample_delivery_row] [] []) =
      Inr (sample_tdb [sample_event_row] [sample_leased_row] [] [])"
    "insert_attempt (started_attempt 20 200 201 sample_delivery_row) (sample_tdb [sample_event_row] [sample_leased_row] [] []) =
      Inr (sample_leased_tdb [])" by code_simp+
  have "lease_move (sample_tdb [sample_event_row] [sample_delivery_row] [] []) (sample_leased_tdb [])"
    using d(2) by (intro lease [OF _ _ _ u]) (simp_all add: sample_tdb_def waiting_def)
  with store_event [OF e] store_delivery [OF d] show ?thesis by (meson converse_rtranclp_into_rtranclp r_into_rtranclp)
qed

lemma lease_steps_taskiq: "lease_move\<^sup>*\<^sup>* db db' \<Longrightarrow> (taskiq_step h)\<^sup>*\<^sup>* (db, xs) (db', xs)"
  by (induction rule: rtranclp_induct) (auto intro: leases rtranclp.rtrancl_into_rtrancl)

lemma sample_prepares:
  "prepare False sample_claimed (Aware 21) (Aware 21) 400 401 (sample_leased_tdb []) = (sample_leased_tdb [sample_handoff], Inr sample_envelope)"
  by code_simp

lemma sample_handoff_executes:
  "claim_execution False sample_envelope (Aware 22) 60000000 (\<lambda>_. Aware 22) (\<lambda>_ _. Fin 0) 402 (sample_leased_tdb [sample_handoff]) =
     (sample_leased_tdb [executing_row 402 60000020 22 sample_handoff], Inr (Some sample_execution))"
  by code_simp

lemma sample_prepared_steps: "(taskiq_step 100)\<^sup>*\<^sup>* (sample_tdb [] [] [] [], []) (sample_leased_tdb [sample_handoff], [])"
  using lease_steps_taskiq [OF sample_leases] prepares [OF sample_prepares] by (rule rtranclp.rtrancl_into_rtrancl)

theorem taskiq_refines_lease_machine_witness:
  "\<exists>db r. (taskiq_step 100)\<^sup>*\<^sup>* (sample_tdb [] [] [] [], []) (db, [sample_execution]) \<and> handoffs db = [r] \<and> h_state r = HandoffSucceeded \<and>
     attempt_succeeded r db"
proof -
  let ?r = "finalize_success False sample_execution (Aware 25) (Aware 25) (sample_leased_tdb [executing_row 402 60000020 22 sample_handoff])"
  have "taskiq_step 100 (sample_leased_tdb [sample_handoff], []) (sample_leased_tdb [executing_row 402 60000020 22 sample_handoff], [sample_execution])"
    using executes [OF sample_handoff_executes, of 100] by simp
  with sample_prepared_steps have run: "(taskiq_step 100)\<^sup>*\<^sup>* (sample_tdb [] [] [] [], [])
      (sample_leased_tdb [executing_row 402 60000020 22 sample_handoff], [sample_execution])" by (rule rtranclp.rtrancl_into_rtrancl)
  have s: "map h_state (handoffs (fst ?r)) = [HandoffSucceeded]" by code_simp
  have "taskiq_step 100 (sample_leased_tdb [executing_row 402 60000020 22 sample_handoff], [sample_execution]) (fst ?r, [sample_execution])"
    by (rule succeeds [OF surjective_pairing]) simp
  with run have run: "(taskiq_step 100)\<^sup>*\<^sup>* (sample_tdb [] [] [] [], []) (fst ?r, [sample_execution])" by (rule rtranclp.rtrancl_into_rtrancl)
  have "no_rows (sample_tdb [] [] [] [])" "handoffs (sample_tdb [] [] [] []) = []" by (simp_all add: sample_tdb_def no_rows_def)
  from taskiq_refines_lease_machine [OF this run] s run show ?thesis by (cases "handoffs (fst ?r)") auto
qed

text \<open>
  C16. Execution of a handoff is fenced: after an execution has been handed out, and for as long as the database clock has
  not reached its deadline, a redelivered broker message never starts a second execution (the claim answers without one and
  changes nothing); and once the handoff is finished, by this or another worker or by recovery, finalising it with that execution is refused with a
  lost lease and changes nothing.
\<close>

theorem handoff_execution_fenced:
  assumes "taskiq_inv (db0, xs0)" and "claim_execution b v now timeout clock u token db0 = (db1, Inr (Some x))"
    and "(taskiq_step horizon)\<^sup>*\<^sup>* (db1, x # xs0) (db2, xs)" and "horizon < x_execution_deadline x"
    and "instant (clock2 0) \<le> horizon" and "is_aware (clock2 0)" and "is_aware now2"
    and "0 < timeout2" and "timeout2 \<le> 3600 * second" and "locked_for_envelope v db2 = Inr r"
  shows "claim_execution False v now2 timeout2 clock2 u2 token2 db2 = (db2, Inr None) \<and>
    (handoff_finished (h_state r) \<longrightarrow>
       finalize_success False x now2 s2 db2 = (db2, Inl (LeaseLost (hr_delivery_id (x_record x)))) \<and>
       finalize_failure False x err now2 clock2 u2 db2 = (db2, Inl (LeaseLost (hr_delivery_id (x_record x)))))"
proof -
  have step: "taskiq_step (instant (clock 0)) (db0, xs0) (db1, x # xs0)" using executes [OF assms(2) order_refl] by simp
  have inv1: "taskiq_inv (db1, x # xs0)" using taskiq_step_inv [OF step assms(1)] .
  have inv2: "taskiq_inv (db2, xs)" using taskiq.inv_steps [OF assms(3) inv1] .
  obtain q where q: "q \<in> set (handoffs db1)" "issued_for x q" "execution_of (x_execution_token x) (x_execution_deadline x) q"
      "handoff_key q = (v_tenant_id v, v_handoff_id v)"
    using claim_execution_issues [OF _ assms(2)] assms(1) by (auto simp: taskiq_inv_def)
  have "handoffs_evolve horizon db1 db2"
    using handoff_moves_evolve [OF taskiq_steps_moves [OF assms(3) inv1]] inv1 by (simp add: taskiq_inv_def)
  then obtain q' where q': "q' \<in> set (handoffs db2)" "row_evolves horizon q q'" using q(1) by (auto simp: handoffs_evolve_def)
  have d: "distinct (map handoff_key (handoffs db2))" using inv2 by (simp add: taskiq_inv_def handoff_inv_def)
  have row: "r \<in> set (handoffs db2)" "handoff_key r = (v_tenant_id v, v_handoff_id v)" using locked_for_envelope_Inr [OF assms(10)] by auto
  have "q' = r" using unique_row [OF d row(1) q'(1)] q' q(4) row(2) by (simp add: row_evolves_def)
  then have r: "execution_of (x_execution_token x) (x_execution_deadline x) r \<or> handoff_finished (h_state r)"
    using q'(2) q(3) assms(4) by (auto simp: row_evolves_def)
  have "claim_execution False v now2 timeout2 clock2 u2 token2 db2 = (db2, Inr None)"
    using r assms(4-10)
    by (auto simp: claim_execution_def transaction_def require_idle_handoff_def ensure_def database_now_def execution_of_def)
  moreover have "find_handoff (hr_tenant_id (x_record x)) (hr_handoff_id (x_record x)) db2 = Some r"
    using find_unique_key [OF d row(1)] row(2) q(2,4) by (simp add: find_handoff_def issued_for_def)
  then have "locked_execution x db2 = Inl (LeaseLost (hr_delivery_id (x_record x)))" if "handoff_finished (h_state r)"
    using that by (auto simp: locked_execution_def handoff_finished_def)
  ultimately show ?thesis
    by (simp add: finalize_success_def finalize_failure_def transaction_def require_idle_handoff_def ensure_def)
qed

theorem handoff_execution_fenced_witness:
  "claim_execution False sample_envelope (Aware 50) 60000000 (\<lambda>_. Aware 50) (\<lambda>_ _. Fin 0) 403
     (sample_leased_tdb [executing_row 402 60000020 22 sample_handoff]) =
   (sample_leased_tdb [executing_row 402 60000020 22 sample_handoff], Inr None)"
proof -
  have "taskiq_inv (sample_tdb [] [] [] [], [])"
    by (simp add: taskiq_inv_def handoff_inv_empty sample_tdb_def no_rows_def)
  then have inv: "taskiq_inv (sample_leased_tdb [sample_handoff], [])" using taskiq.inv_steps [OF sample_prepared_steps] by blast
  have l: "locked_for_envelope sample_envelope (sample_leased_tdb [executing_row 402 60000020 22 sample_handoff]) =
      Inr (executing_row 402 60000020 22 sample_handoff)" by code_simp
  from handoff_execution_fenced [OF inv sample_handoff_executes rtranclp.rtrancl_refl, of 100 "\<lambda>_. Aware 50" "Aware 50" 60000000] l
  show ?thesis by (simp add: sample_execution_def)
qed

end
