(* ===== verification/Python_Uuid.thy ===== *)
theory Python_Uuid
  imports Errors
begin

text \<open>
  \<^verbatim>\<open>uuid.UUID(text)\<close> of the standard library, which the envelopes that cross a broker or the network are read with: the
  accepted spellings (URN prefixes, braces, dashes anywhere, and whatever \<^verbatim>\<open>int(text, 16)\<close> accepts), and the round trip with
  \<^verbatim>\<open>str()\<close>.
\<close>

section \<open>Reading\<close>

text \<open>\<^verbatim>\<open>text.replace(pat, "")\<close>: every occurrence from the left, without overlap.\<close>

function remove_all :: "string \<Rightarrow> string \<Rightarrow> string" where
  "remove_all pat [] = []"
| "remove_all pat (c # cs) =
     (if pat \<noteq> [] \<and> take (length pat) (c # cs) = pat then remove_all pat (drop (length pat) (c # cs))
      else c # remove_all pat cs)"
  by pat_completeness auto
termination by (relation "measure (length \<circ> snd)") auto

definition strip_chars :: "(char \<Rightarrow> bool) \<Rightarrow> string \<Rightarrow> string" where
  "strip_chars p s = rev (dropWhile p (rev (dropWhile p s)))"

definition hex_digit :: "char \<Rightarrow> bool" where
  "hex_digit c \<longleftrightarrow> c \<in> set ''0123456789abcdefABCDEF''"

definition hex_digit_value :: "char \<Rightarrow> int" where
  "hex_digit_value c = (let n = (of_char c :: int) in if n < 58 then n - 48 else if n < 71 then n - 55 else n - 87)"

text \<open>The blanks \<^verbatim>\<open>int()\<close> skips, within Latin-1.\<close>

definition int_space :: "char \<Rightarrow> bool" where
  "int_space c \<longleftrightarrow> (of_char c :: int) \<in> {9, 10, 11, 12, 13, 32, 133, 160}"

fun double_underscore :: "string \<Rightarrow> bool" where
  "double_underscore (c # d # cs) \<longleftrightarrow> c = CHR ''_'' \<and> d = CHR ''_'' \<or> double_underscore (d # cs)"
| "double_underscore _ \<longleftrightarrow> False"

definition int_base16 :: "string \<Rightarrow> int result" where
  "int_base16 s =
     (let s1 = dropWhile int_space s;
          neg = (take 1 s1 = ''-'');
          s2 = (if take 1 s1 = ''-'' \<or> take 1 s1 = ''+'' then drop 1 s1 else s1);
          s3 = (if take 2 s2 = ''0x'' \<or> take 2 s2 = ''0X''
                then (if take 1 (drop 2 s2) = ''_'' then drop 3 s2 else drop 2 s2) else s2);
          body = takeWhile (\<lambda>c. hex_digit c \<or> c = CHR ''_'') s3;
          rest = dropWhile (\<lambda>c. hex_digit c \<or> c = CHR ''_'') s3
      in if body = [] \<or> hd body = CHR ''_'' \<or> last body = CHR ''_'' \<or> double_underscore body \<or> \<not> list_all int_space rest
         then Inl ValueError
         else let n = foldl (\<lambda>n c. 16 * n + hex_digit_value c) 0 (filter (\<lambda>c. c \<noteq> CHR ''_'') body)
              in Inr (if neg then - n else n))"

definition uuid_of_text :: "string \<Rightarrow> uuid result" where
  "uuid_of_text s =
     (let h = filter (\<lambda>c. c \<noteq> CHR ''-'')
                (strip_chars (\<lambda>c. c = CHR ''{'' \<or> c = CHR ''}'') (remove_all ''uuid:'' (remove_all ''urn:'' s)))
      in if length h \<noteq> 32 then Inl ValueError
         else and_then (int_base16 h) (\<lambda>n.
                if 0 \<le> n \<and> n < 340282366920938463463374607431768211456 then Inr (word_of_int n) else Inl ValueError))"

section \<open>Round trip\<close>

definition low_hex :: "char \<Rightarrow> bool" where
  "low_hex c \<longleftrightarrow> c \<in> set ''0123456789abcdef''"

lemma digit_char_low_hex:
  assumes "0 \<le> d" "d < 16"
  shows "low_hex (digit_char d) \<and> hex_digit_value (digit_char d) = d"
proof -
  have "\<forall>d\<in>set [0, 1, 2, 3, 4, 5, 6, 7, 8, 9, 10, 11, 12, 13, 14, 15]. low_hex (digit_char d) \<and> hex_digit_value (digit_char d) = d"
    by code_simp
  moreover have "d \<in> set [0, 1, 2, 3, 4, 5, 6, 7, 8, 9, 10, 11, 12, 13, 14, 15]" using assms by simp arith
  ultimately show ?thesis by blast
qed

lemma hex_digits_low_hex: "list_all low_hex (hex_digits w n)"
  by (induction w arbitrary: n) (auto simp: digit_char_low_hex)

lemma hex_digits_value: "0 \<le> n \<Longrightarrow> foldl (\<lambda>n c. 16 * n + hex_digit_value c) 0 (hex_digits w n) = n mod 16 ^ w"
proof (induction w arbitrary: n)
  case (Suc w)
  have "n mod 16 ^ Suc w = 16 * (n div 16 mod 16 ^ w) + n mod 16"
    using mod_mult2_eq [of "nat n" 16 "16 ^ w"] Suc.prems zmod_zmult2_eq [of "16 ^ w" n 16] by (simp add: mult.commute)
  with Suc show ?case by (simp add: digit_char_low_hex)
qed simp

lemma remove_all_absent: "hd pat \<notin> set s \<Longrightarrow> remove_all pat s = s"
proof (induction s)
  case (Cons c s)
  then show ?case by (cases pat) auto
qed simp

lemma strip_chars_absent: "list_all (\<lambda>c. \<not> p c) s \<Longrightarrow> strip_chars p s = s"
proof -
  have none: "list_all (\<lambda>c. \<not> p c) t \<Longrightarrow> dropWhile p t = t" for t by (cases t) auto
  assume "list_all (\<lambda>c. \<not> p c) s"
  then show ?thesis using none [of s] none [of "rev s"] by (simp add: strip_chars_def)
qed

lemma low_hex_facts:
  assumes "low_hex c"
  shows "hex_digit c" "c \<noteq> CHR ''_''" "c \<noteq> CHR ''-''" "c \<noteq> CHR ''+''" "c \<noteq> CHR ''x''" "c \<noteq> CHR ''X''" "c \<noteq> CHR ''u''" "c \<noteq> CHR ''{''"
    "c \<noteq> CHR ''}''" "\<not> int_space c"
  using assms by (auto simp: low_hex_def hex_digit_def int_space_def)

lemma double_underscore_absent: "list_all low_hex s \<Longrightarrow> \<not> double_underscore s"
  by (induction s rule: double_underscore.induct) (auto dest: low_hex_facts(2))

lemma int_base16_low_hex:
  assumes "list_all low_hex s" and "s \<noteq> []"
  shows "int_base16 s = Inr (foldl (\<lambda>n c. 16 * n + hex_digit_value c) 0 s)"
proof -
  have low: "low_hex c" if "c \<in> set s" for c using assms(1) that by (simp add: list_all_iff)
  obtain c cs where s: "s = c # cs" using assms(2) by (cases s) auto
  have hd: "low_hex c" using low s by simp
  have "dropWhile int_space s = s" using low_hex_facts(10) [OF hd] s by simp
  moreover have "take 1 s \<noteq> ''-''" "take 1 s \<noteq> ''+''" using low_hex_facts(3,4) [OF hd] s by auto
  moreover have "take 2 s \<noteq> ''0x''" "take 2 s \<noteq> ''0X''"
    using low [of "CHR ''x''"] low [of "CHR ''X''"] in_set_takeD [of _ 2 s] low_hex_facts(5) [of "CHR ''x''"] low_hex_facts(6) [of "CHR ''X''"]
    by (metis list.set_intros)+
  moreover have tw: "takeWhile (\<lambda>c. hex_digit c \<or> c = CHR ''_'') s = s" "dropWhile (\<lambda>c. hex_digit c \<or> c = CHR ''_'') s = []"
    using low low_hex_facts(1) by auto
  moreover have "hd s \<noteq> CHR ''_''" "last s \<noteq> CHR ''_''" "filter (\<lambda>c. c \<noteq> CHR ''_'') s = s"
    using low low_hex_facts(2) assms(2) by (auto simp: filter_id_conv)
  ultimately show ?thesis
    using double_underscore_absent [OF assms(1)] assms(2) by (simp add: int_base16_def Let_def tw)
qed

lemma filter_low_hex: "list_all low_hex s \<Longrightarrow> filter (\<lambda>c. c \<noteq> CHR ''-'') s = s"
  by (auto simp: filter_id_conv list_all_iff dest: low_hex_facts(3))

theorem uuid_text_roundtrip: "uuid_of_text (uuid_str u) = Inr u"
proof -
  let ?h = "uuid_hex u"
  have low: "list_all low_hex ?h" by (simp add: uuid_hex_def hex_digits_low_hex)
  have len: "length ?h = 32" by (simp add: uuid_hex_def)
  have parts: "low_hex c \<or> c = CHR ''-''" if "c \<in> set (uuid_str u)" for c
    using that low by (auto simp: uuid_str_def Let_def list_all_iff dest: in_set_takeD in_set_dropD)
  have "hd ''urn:'' \<notin> set (uuid_str u)" "hd ''uuid:'' \<notin> set (uuid_str u)"
    using parts [of "CHR ''u''"] low_hex_facts(7) [of "CHR ''u''"] by auto
  moreover have "list_all (\<lambda>c. \<not> (c = CHR ''{'' \<or> c = CHR ''}'')) (uuid_str u)"
    using parts low_hex_facts(8,9) by (fastforce simp: list_all_iff)
  moreover have "filter (\<lambda>c. c \<noteq> CHR ''-'') (uuid_str u) = ?h"
  proof -
    have "filter (\<lambda>c. c \<noteq> CHR ''-'') (take n (drop m ?h)) = take n (drop m ?h)" for n m
      using low by (intro filter_low_hex) (simp add: list_all_iff, meson in_set_takeD in_set_dropD)
    moreover have "filter (\<lambda>c. c \<noteq> CHR ''-'') (drop 20 ?h) = drop 20 ?h" "filter (\<lambda>c. c \<noteq> CHR ''-'') (take 8 ?h) = take 8 ?h"
      using low by (intro filter_low_hex; simp add: list_all_iff; meson in_set_takeD in_set_dropD)+
    moreover have "take 8 ?h @ take 4 (drop 8 ?h) @ take 4 (drop 12 ?h) @ take 4 (drop 16 ?h) @ drop 20 ?h = ?h"
      using append_take_drop_id [of 4 "drop 16 ?h"] append_take_drop_id [of 4 "drop 12 ?h"] append_take_drop_id [of 4 "drop 8 ?h"]
        append_take_drop_id [of 8 ?h] by simp
    ultimately show ?thesis by (simp add: uuid_str_def Let_def)
  qed
  moreover have "int_base16 ?h = Inr (uint u)"
  proof -
    have "uint u mod 16 ^ 32 = uint u" using uint_lt2p [of u] by simp
    moreover have "?h \<noteq> []" using len by auto
    ultimately show ?thesis using int_base16_low_hex [OF low] hex_digits_value [of "uint u" 32] by (simp add: uuid_hex_def)
  qed
  moreover have "uint u < 340282366920938463463374607431768211456" using uint_lt2p [of u] by simp
  ultimately show ?thesis using len by (simp add: uuid_of_text_def Let_def remove_all_absent strip_chars_absent)
qed

end
