(* ===== verification/Taskiq_Worker.thy ===== *)
theory Taskiq_Worker
  imports Taskiq_Safety Relay Python_Uuid
begin

text \<open>
  \<^verbatim>\<open>executors/taskiq/worker.py\<close>, \<^verbatim>\<open>adapter.py\<close>, \<^verbatim>\<open>recovery.py\<close> and the dictionary form of \<^verbatim>\<open>envelope.py\<close>: the delivery sink that hands a
  claimed attempt to the broker, the worker bridge that executes a broker message, and periodic recovery. Between two
  transactions of a run other processes may move the database (\<open>meanwhile\<close>); a transaction may be cut short by a failure, a
  timeout or a cancellation, before or after its commit (\<open>fault\<close>). The handler and the broker are parameters.
\<close>

section \<open>Envelopes as dictionaries\<close>

definition envelope_fields :: "string list" where
  "envelope_fields =
     [''schema_version'', ''tenant_id'', ''handoff_id'', ''delivery_id'', ''attempt_id'', ''task_id'', ''handoff_token'']"

definition envelope_to_dict :: "handoff_envelope \<Rightarrow> (string \<times> json) list" where
  "envelope_to_dict v =
     [(''schema_version'', JInt (v_schema_version v)), (''tenant_id'', JStr (uuid_str (v_tenant_id v))),
      (''handoff_id'', JStr (uuid_str (v_handoff_id v))), (''delivery_id'', JStr (uuid_str (v_delivery_id v))),
      (''attempt_id'', JStr (uuid_str (v_attempt_id v))), (''task_id'', JStr (v_task_id v)),
      (''handoff_token'', JStr (uuid_str (v_handoff_token v)))]"

definition uuid_item :: "(string \<times> json) list \<Rightarrow> string \<Rightarrow> uuid result" where
  "uuid_item d k = and_then (dict_item d k) (\<lambda>j. and_then (json_str j) uuid_of_text)"

definition read_envelope :: "(string \<times> json) list \<Rightarrow> handoff_envelope result" where
  "read_envelope d =
     and_then (dict_item d ''schema_version'') (\<lambda>version_value.
     and_then (dict_item d ''task_id'') (\<lambda>task_value.
     and_then (json_int version_value) (\<lambda>schema_version.
     and_then (json_str task_value) (\<lambda>task_id.
     and_then (uuid_item d ''tenant_id'') (\<lambda>tenant_id.
     and_then (uuid_item d ''handoff_id'') (\<lambda>handoff_id.
     and_then (uuid_item d ''delivery_id'') (\<lambda>delivery_id.
     and_then (uuid_item d ''attempt_id'') (\<lambda>attempt_id.
     and_then (uuid_item d ''handoff_token'') (\<lambda>handoff_token.
       handoff_envelope_post_init
         \<lparr>v_tenant_id = tenant_id, v_handoff_id = handoff_id, v_delivery_id = delivery_id, v_attempt_id = attempt_id,
          v_task_id = task_id, v_handoff_token = handoff_token, v_schema_version = schema_version\<rparr>)))))))))"

definition envelope_from_dict :: "(string \<times> json) list \<Rightarrow> handoff_envelope result" where
  "envelope_from_dict d =
     (if set (map fst d) \<noteq> set envelope_fields then config_error ''Taskiq handoff envelope fields are invalid.''
      else (case read_envelope d of
              Inl e \<Rightarrow> if e = KeyError \<or> e = TypeError \<or> e = ValueError
                       then config_error ''Taskiq handoff envelope is invalid.'' else Inl e
            | Inr v \<Rightarrow> Inr v))"

section \<open>Interrupted calls\<close>

text \<open>
  An awaited call ends with a result or is cancelled. A fault ends a transaction with an exception, or with a cancellation
  (\<open>None\<close>), and says whether the commit had happened.
\<close>

datatype 'a awaited = Interrupted | Ended "'a result"

type_synonym fault = "exn option \<times> bool"

definition with_fault :: "fault option \<Rightarrow> ('d \<Rightarrow> 'd \<times> 'a result) \<Rightarrow> 'd \<Rightarrow> 'd \<times> 'a awaited" where
  "with_fault f operation db =
     (case f of
        None \<Rightarrow> (case operation db of (db1, r) \<Rightarrow> (db1, Ended r))
      | Some (e, committed) \<Rightarrow>
          (if committed then fst (operation db) else db, case e of None \<Rightarrow> Interrupted | Some e' \<Rightarrow> Ended (Inl e')))"

section \<open>The delivery sink\<close>

record sink_run =
  k_now :: "nat \<Rightarrow> py_datetime"
  k_clock :: "nat \<Rightarrow> nat \<Rightarrow> py_datetime"
  k_fault :: "nat \<Rightarrow> fault option"
  k_uniform :: "rat \<Rightarrow> rat \<Rightarrow> pyfloat"
  k_handoff_id :: uuid
  k_handoff_token :: uuid
  k_meanwhile :: "tdb \<Rightarrow> tdb"
  k_expired :: bool

text \<open>The broker: given the task identifier and the message, the identifier of the task it created, if it tells.\<close>

type_synonym broker = "string \<Rightarrow> (string \<times> json) list \<Rightarrow> string option awaited"

definition handoff_lineage :: "handoff_envelope \<Rightarrow> trace_lineage" where
  "handoff_lineage v = no_lineage\<lparr>tl_delivery_id := Some (v_delivery_id v), tl_attempt_id := Some (v_attempt_id v),
     tl_handoff_id := Some (v_handoff_id v)\<rparr>"

definition sink_record :: "runtime_event_kind \<Rightarrow> handoff_envelope \<Rightarrow> py_datetime \<Rightarrow> string \<Rightarrow> unit result" where
  "sink_record kind v now state =
     snd (report kind [(''capability'', AStr ''taskiq''), (''state'', AStr state)] (handoff_lineage v) now)"

definition accepted_by_broker :: "handoff_envelope \<Rightarrow> string option result \<Rightarrow> bool" where
  "accepted_by_broker v r =
     (case r of Inl _ \<Rightarrow> False | Inr None \<Rightarrow> True | Inr (Some returned_id) \<Rightarrow> returned_id = v_task_id v)"

definition conclude_enqueue :: "sink_run \<Rightarrow> handoff_envelope \<Rightarrow> string option result \<Rightarrow> tdb \<Rightarrow> tdb \<times> disposition awaited" where
  "conclude_enqueue k v r db =
     (if accepted_by_broker v r
      then (case with_fault (k_fault k 1) (mark_enqueued False v (k_now k 2) (k_clock k 1 0)) db of
              (db1, Interrupted) \<Rightarrow> (db1, Interrupted)
            | (db1, Ended (Inl e)) \<Rightarrow> (db1, Ended (Inl e))
            | (db1, Ended (Inr _)) \<Rightarrow>
                (db1, Ended (and_then (sink_record TASKIQ_ENQUEUED v (k_now k 3) ''enqueued'') (\<lambda>_. Inr Deferred))))
      else (case with_fault (k_fault k 1) (enqueue_failed False v (k_now k 2) (k_clock k 1) (k_uniform k)) db of
              (db1, Interrupted) \<Rightarrow> (db1, Interrupted)
            | (db1, Ended (Inl e)) \<Rightarrow> (db1, Ended (Inl e))
            | (db1, Ended (Inr _)) \<Rightarrow> (db1, Ended (Inr Deferred))))"

text \<open>\<^verbatim>\<open>_execute\<close>: the database, the messages given to the broker, and the outcome.\<close>

definition sink_execute_inner ::
  "sink_run \<Rightarrow> broker \<Rightarrow> claimed \<Rightarrow> tdb \<Rightarrow> tdb \<times> (string \<times> json) list list \<times> disposition awaited" where
  "sink_execute_inner k kiq c db =
     (case with_fault (k_fault k 0) (prepare False c (k_now k 1) (k_clock k 0 0) (k_handoff_id k) (k_handoff_token k)) db of
        (db1, Interrupted) \<Rightarrow> (db1, [], Interrupted)
      | (db1, Ended (Inl e)) \<Rightarrow> (db1, [], Ended (Inl e))
      | (db1, Ended (Inr v)) \<Rightarrow>
          (case sink_record TASKIQ_PREPARED v (k_now k 1) ''prepared'' of
             Inl e \<Rightarrow> (db1, [], Ended (Inl e))
           | Inr _ \<Rightarrow>
               let message = envelope_to_dict v; db2 = k_meanwhile k db1 in
               (case kiq (v_task_id v) message of
                  Interrupted \<Rightarrow> (db2, [message], Interrupted)
                | Ended r \<Rightarrow> (case conclude_enqueue k v r db2 of (db3, outcome) \<Rightarrow> (db3, [message], outcome)))))"

definition sink_timeout :: "claimed \<Rightarrow> py_datetime \<Rightarrow> rat result" where
  "sink_timeout c now =
     (case (map_of (c_route_snapshot c) ''retry'', dr_lease_expires_at (c_delivery c)) of
        (Some (JObj retry), Some lease_expires_at) \<Rightarrow>
          and_then (policy_from_dict retry) (\<lambda>policy.
            remaining_attempt_seconds policy (dr_created_at (c_delivery c)) (ar_started_at (c_attempt c)) lease_expires_at now None)
      | _ \<Rightarrow> config_error ''Taskiq enqueue attempt deadline is invalid.'')"

text \<open>
  \<^verbatim>\<open>asyncio.timeout\<close> turns the cancellation it caused (\<open>k_expired\<close>) into a TimeoutError, which the sink answers like any other
  timeout; a cancellation from outside passes through.
\<close>

definition sink_execute ::
  "sink_run \<Rightarrow> broker \<Rightarrow> claimed \<Rightarrow> tdb \<Rightarrow> tdb \<times> (string \<times> json) list list \<times> disposition awaited" where
  "sink_execute k kiq c db =
     (case sink_timeout c (k_now k 0) of
        Inl e \<Rightarrow> (db, [], Ended (Inl e))
      | Inr timeout_seconds \<Rightarrow>
          if timeout_seconds \<le> 0 then (db, [], Ended (Inr Deferred))
          else (case sink_execute_inner k kiq c db of
                  (db1, ms, Interrupted) \<Rightarrow> (db1, ms, if k_expired k then Ended (Inr Deferred) else Interrupted)
                | (db1, ms, Ended (Inl TimeoutError)) \<Rightarrow> (db1, ms, Ended (Inr Deferred))
                | (db1, ms, Ended r) \<Rightarrow> (db1, ms, Ended r)))"

section \<open>The worker bridge\<close>

fun handoff_state_value :: "handoff_state \<Rightarrow> string" where
  "handoff_state_value Prepared = ''prepared''"
| "handoff_state_value Enqueued = ''enqueued''"
| "handoff_state_value Executing = ''executing''"
| "handoff_state_value HandoffSucceeded = ''succeeded''"
| "handoff_state_value HandoffRetryWait = ''retry_wait''"
| "handoff_state_value HandoffDead = ''dead''"

record worker_result =
  wr_handoff_id :: string
  wr_task_id :: string
  wr_status :: string
  wr_executed :: bool
  wr_execution_count :: int

definition worker_result_to_dict :: "worker_result \<Rightarrow> (string \<times> json) list" where
  "worker_result_to_dict y =
     [(''handoff_id'', JStr (wr_handoff_id y)), (''task_id'', JStr (wr_task_id y)), (''status'', JStr (wr_status y)),
      (''executed'', JBool (wr_executed y)), (''execution_count'', JInt (wr_execution_count y))]"

definition worker_result_of :: "handoff_record \<Rightarrow> bool \<Rightarrow> worker_result" where
  "worker_result_of r executed =
     \<lparr>wr_handoff_id = uuid_str (hr_handoff_id r), wr_task_id = hr_task_id r, wr_status = handoff_state_value (hr_state r),
      wr_executed = executed, wr_execution_count = hr_execution_count r\<rparr>"

definition worker_post_init :: "int \<Rightarrow> int \<Rightarrow> unit result" where
  "worker_post_init execution_timeout control_plane_timeout =
     ensure (0 < execution_timeout \<and> execution_timeout \<le> 3600 * second \<and> 0 < control_plane_timeout \<and> control_plane_timeout \<le> 300 * second)
       (ConfigurationError ''Taskiq worker operation budgets are invalid.'')"

record worker_run =
  w_execution_timeout :: int
  w_now :: "nat \<Rightarrow> py_datetime"
  w_clock :: "nat \<Rightarrow> nat \<Rightarrow> py_datetime"
  w_fault :: "nat \<Rightarrow> fault option"
  w_uniform :: "nat \<Rightarrow> rat \<Rightarrow> rat \<Rightarrow> pyfloat"
  w_token :: uuid
  w_meanwhile :: "nat \<Rightarrow> tdb \<Rightarrow> tdb"

definition worker_record :: "handoff_envelope \<Rightarrow> handoff_record \<Rightarrow> bool \<Rightarrow> py_datetime \<Rightarrow> unit result" where
  "worker_record v r executed now =
     snd (report TASKIQ_EXECUTED [(''capability'', AStr ''taskiq''), (''state'', AStr (handoff_state_value (hr_state r))), (''executed'', ABool executed)]
       (handoff_lineage v) now)"

definition worker_answer :: "worker_run \<Rightarrow> handoff_envelope \<Rightarrow> handoff_record \<Rightarrow> bool \<Rightarrow> worker_result awaited" where
  "worker_answer w v r executed =
     Ended (and_then (worker_record v r executed (w_now w 3)) (\<lambda>_. Inr (worker_result_of r executed)))"

text \<open>Looking up the handoff of a message, after it turned out that this worker does not own it.\<close>

definition answer_current ::
  "worker_run \<Rightarrow> nat \<Rightarrow> handoff_envelope \<Rightarrow> bool \<Rightarrow> string \<Rightarrow> tdb \<Rightarrow> worker_result awaited" where
  "answer_current w i v executed message db =
     (case w_fault w i of
        Some (None, _) \<Rightarrow> Interrupted
      | Some (Some e, _) \<Rightarrow> Ended (Inl e)
      | None \<Rightarrow> (case handoff_for_id (v_tenant_id v) (v_handoff_id v) db of
                   None \<Rightarrow> Ended (config_error message)
                 | Some r \<Rightarrow> worker_answer w v r executed))"

text \<open>
  The handler call within the time left: what it answered, and the claims it was called with. Subtracting a naive
  clock reading from the deadline raises TypeError inside the guarded block.
\<close>

definition run_executor ::
  "(claimed \<Rightarrow> rat \<Rightarrow> unit awaited) \<Rightarrow> py_datetime \<Rightarrow> executing_handoff \<Rightarrow> unit awaited \<times> claimed list" where
  "run_executor executor now x =
     (if \<not> is_aware now then (Ended (Inl TypeError), [])
      else let remaining = total_seconds (x_execution_deadline x - instant now) in
           if remaining \<le> 0 then (Ended (Inl TimeoutError), []) else (executor (x_claim x) remaining, [x_claim x]))"

definition executor_denied :: delivery_error where
  "executor_denied = PermanentDeliveryError ''executor.authorization_denied'' ''Taskiq handler authority was denied.''"

definition executor_timeout :: delivery_error where
  "executor_timeout = RetryableDeliveryError ''executor.execution_timeout''
     ''Taskiq handler exceeded its aggregate attempt deadline.'' None"

definition executor_failed :: delivery_error where
  "executor_failed = RetryableDeliveryError ''executor.execution_failed'' ''Taskiq handler failed without safe classification.'' None"

text \<open>The exception handlers: a classified failure, or the exception raised again.\<close>

definition classify_execution :: "exn \<Rightarrow> delivery_error result" where
  "classify_execution e =
     (case e of
        AuthorizationDenied \<Rightarrow> Inr executor_denied
      | AuthorizationExpired \<Rightarrow> Inr executor_denied
      | DeliveryFailure err \<Rightarrow> Inr err
      | TimeoutError \<Rightarrow> Inr executor_timeout
      | _ \<Rightarrow> if is_transient_database_error e then Inl e else Inr executor_failed)"

definition worker_finalize :: "worker_run \<Rightarrow> executing_handoff \<Rightarrow> delivery_error option \<Rightarrow> tdb \<Rightarrow> tdb \<times> handoff_record result" where
  "worker_finalize w x failure =
     (case failure of
        None \<Rightarrow> finalize_success False x (w_now w 2) (w_clock w 1 0)
      | Some err \<Rightarrow> finalize_failure False x err (w_now w 2) (w_clock w 1) (w_uniform w 1))"

definition conclude_execution ::
  "worker_run \<Rightarrow> handoff_envelope \<Rightarrow> executing_handoff \<Rightarrow> delivery_error option \<Rightarrow> tdb \<Rightarrow> tdb \<times> worker_result awaited" where
  "conclude_execution w v x failure db =
     (case with_fault (w_fault w 1) (worker_finalize w x failure) db of
        (db1, Interrupted) \<Rightarrow> (db1, Interrupted)
      | (db1, Ended (Inr r)) \<Rightarrow> (db1, worker_answer w v r True)
      | (db1, Ended (Inl (LeaseLost _))) \<Rightarrow>
          (let db2 = w_meanwhile w 1 db1
           in (db2, answer_current w 2 v True ''Taskiq stale finalization lost its handoff.'' db2))
      | (db1, Ended (Inl e)) \<Rightarrow> (db1, Ended (Inl e)))"

definition worker_execute ::
  "worker_run \<Rightarrow> (claimed \<Rightarrow> rat \<Rightarrow> unit awaited) \<Rightarrow> (string \<times> json) list \<Rightarrow> tdb \<Rightarrow>
     tdb \<times> claimed list \<times> worker_result awaited" where
  "worker_execute w executor message db =
     (case envelope_from_dict message of
        Inl e \<Rightarrow> (db, [], Ended (Inl e))
      | Inr v \<Rightarrow>
          (case with_fault (w_fault w 0) (claim_execution False v (w_now w 0) (w_execution_timeout w) (w_clock w 0) (w_uniform w 0) (w_token w)) db of
             (db1, Interrupted) \<Rightarrow> (db1, [], Interrupted)
           | (db1, Ended (Inl e)) \<Rightarrow> (db1, [], Ended (Inl e))
           | (db1, Ended (Inr None)) \<Rightarrow>
               (let db2 = w_meanwhile w 0 db1
                in (db2, [], answer_current w 1 v False ''Taskiq duplicate references no handoff.'' db2))
           | (db1, Ended (Inr (Some x))) \<Rightarrow>
               (let db2 = w_meanwhile w 0 db1 in
                case run_executor executor (w_now w 1) x of
                  (Interrupted, calls) \<Rightarrow> (db2, calls, Interrupted)
                | (Ended (Inr _), calls) \<Rightarrow> (case conclude_execution w v x None db2 of (db3, r) \<Rightarrow> (db3, calls, r))
                | (Ended (Inl e), calls) \<Rightarrow>
                    (case classify_execution e of
                       Inl e' \<Rightarrow> (db2, calls, Ended (Inl e'))
                     | Inr err \<Rightarrow> (case conclude_execution w v x (Some err) db2 of (db3, r) \<Rightarrow> (db3, calls, r))))))"

section \<open>Periodic recovery\<close>

definition taskiq_recovery_run_once ::
  "int \<Rightarrow> int \<Rightarrow> py_datetime \<Rightarrow> (nat \<Rightarrow> py_datetime) \<Rightarrow> (nat \<Rightarrow> rat \<Rightarrow> rat \<Rightarrow> pyfloat) \<Rightarrow> (uuid \<times> uuid \<Rightarrow> bool) \<Rightarrow> tdb \<Rightarrow> tdb \<times> int result" where
  "taskiq_recovery_run_once enqueue_timeout batch_size now clock uniform locked =
     recover_expired False now enqueue_timeout batch_size clock uniform locked"

section \<open>Lemmas\<close>

lemma envelope_post_init_Inr: "handoff_envelope_post_init v = Inr u \<Longrightarrow> u = v \<and> v_schema_version v = 1"
  by (auto simp: handoff_envelope_post_init_def split: if_splits)

lemma envelope_of_Inr:
  "envelope_of r = Inr v \<Longrightarrow> v_tenant_id v = h_tenant_id r \<and> v_handoff_id v = h_handoff_id r \<and> v_delivery_id v = h_delivery_id r \<and>
     v_attempt_id v = h_attempt_id r \<and> v_task_id v = h_task_id r \<and> v_handoff_token v = h_handoff_token r \<and> handoff_envelope_post_init v = Inr v"
  unfolding envelope_of_def using envelope_post_init_Inr by fastforce

lemma read_envelope_to_dict: "read_envelope (envelope_to_dict v) = handoff_envelope_post_init v"
  by (cases v) (simp add: read_envelope_def envelope_to_dict_def uuid_item_def dict_item_def uuid_text_roundtrip)

lemma envelope_reads_back: "handoff_envelope_post_init v = Inr v \<Longrightarrow> envelope_from_dict (envelope_to_dict v) = Inr v"
  unfolding envelope_from_dict_def read_envelope_to_dict by (simp add: envelope_to_dict_def envelope_fields_def)

lemma with_fault_cases:
  assumes "with_fault f operation db = (db1, y)"
  obtains (returned) r where "operation db = (db1, r)" "y = Ended r"
    | (cut) e c where "f = Some (e, c)" "db1 = (if c then fst (operation db) else db)"
        "y = (case e of None \<Rightarrow> Interrupted | Some e' \<Rightarrow> Ended (Inl e'))"
  using assms by (auto simp: with_fault_def split: option.splits prod.splits)

lemma with_fault_Inr: "with_fault f operation db = (db1, Ended (Inr r)) \<Longrightarrow> operation db = (db1, Inr r)"
  by (auto simp: with_fault_def split: option.splits prod.splits)

lemma with_fault_moves:
  assumes "with_fault f operation db = (db1, y)" and "\<And>db' r. operation db = (db', r) \<Longrightarrow> (handoff_move h)\<^sup>*\<^sup>* db db'"
  shows "(handoff_move h)\<^sup>*\<^sup>* db db1"
  using assms(1)
proof (cases rule: with_fault_cases)
  case (returned r)
  then show ?thesis using assms(2) by blast
next
  case (cut e c)
  then show ?thesis using assms(2) [OF surjective_pairing] by simp
qed

text \<open>What other processes do between the transactions of a run.\<close>

definition calm :: "int \<Rightarrow> (tdb \<Rightarrow> tdb) \<Rightarrow> bool" where
  "calm h f \<longleftrightarrow> (\<forall>db. handoff_inv db \<longrightarrow> (handoff_move h)\<^sup>*\<^sup>* db (f db))"

lemma calm_inv: "calm h f \<Longrightarrow> handoff_inv db \<Longrightarrow> (handoff_move h)\<^sup>*\<^sup>* db (f db) \<and> handoff_inv (f db)"
  unfolding calm_def using handoff.inv_steps by blast

text \<open>An answer reports the state of the handoff its message names.\<close>

definition handoff_of :: "handoff_envelope \<Rightarrow> tdb \<Rightarrow> handoff_row \<Rightarrow> bool" where
  "handoff_of v db r \<longleftrightarrow> r \<in> set (handoffs db) \<and> handoff_key r = (v_tenant_id v, v_handoff_id v)"

lemma handoff_of_unique: "handoff_inv db \<Longrightarrow> handoff_of v db r \<Longrightarrow> handoff_of v db q \<Longrightarrow> q = r"
  unfolding handoff_of_def handoff_inv_def using unique_row [of handoff_key "handoffs db" r q] by simp

lemma handoff_of_evolves:
  assumes "(handoff_move h)\<^sup>*\<^sup>* db db'" and "handoff_inv db" and "handoff_of v db r"
  obtains r' where "handoff_of v db' r'" "row_evolves h r r'"
proof -
  obtain r' where "r' \<in> set (handoffs db')" "row_evolves h r r'"
    using handoff_moves_evolve [OF assms(1,2)] assms(3) by (auto simp: handoffs_evolve_def handoff_of_def)
  with assms(3) show thesis by (intro that [of r']) (auto simp: handoff_of_def row_evolves_def)
qed

definition answers :: "handoff_envelope \<Rightarrow> tdb \<Rightarrow> worker_result \<Rightarrow> bool" where
  "answers v db y \<longleftrightarrow> (\<exists>r. handoff_of v db r \<and> y = worker_result_of (handoff_record_of r) (wr_executed y))"

lemma worker_answer_Inr: "worker_answer w v r e = Ended (Inr y) \<Longrightarrow> y = worker_result_of r e"
  by (auto simp: worker_answer_def and_then_Inr_iff)

lemma wr_executed_of [simp]: "wr_executed (worker_result_of r e) = e"
  by (simp add: worker_result_of_def)

lemma wr_status_of [simp]: "wr_status (worker_result_of r e) = handoff_state_value (hr_state r)" "hr_state (handoff_record_of q) = h_state q"
  by (simp_all add: worker_result_of_def handoff_record_of_def)

lemma answer_current_Inr:
  assumes "answer_current w i v e m db = Ended (Inr y)"
  shows "answers v db y \<and> wr_executed y = e"
proof -
  from assms obtain r where r: "find_handoff (v_tenant_id v) (v_handoff_id v) db = Some r" "worker_answer w v (handoff_record_of r) e = Ended (Inr y)"
    by (auto simp: answer_current_def handoff_for_id_def split: option.splits prod.splits)
  have "handoff_of v db r" using find_SomeD [OF r(1) [unfolded find_handoff_def]] by (simp add: handoff_of_def)
  moreover have "y = worker_result_of (handoff_record_of r) e" using worker_answer_Inr [OF r(2)] .
  ultimately show ?thesis by (auto simp: answers_def)
qed

lemma update_handoff_member:
  assumes "handoff_key q = handoff_key r" and "q \<in> set (handoffs db)" and "update_handoff r db = Inr db'"
  shows "r \<in> set (handoffs db')"
  using assms by (auto simp: update_handoff_Inr set_update_where)

lemma clear_execution_key [simp]: "handoff_key (clear_execution r) = handoff_key r"
  by (simp add: clear_execution_def handoff_key_def)

lemma finalised_record:
  assumes "locked_execution x db = Inr row" and "handoffs db1 = handoffs db" and "handoff_key row1 = handoff_key row"
    and "update_handoff row1 db1 = Inr db'"
  shows "row1 \<in> set (handoffs db') \<and> handoff_key row1 = (hr_tenant_id (x_record x), hr_handoff_id (x_record x))"
  using locked_execution_Inr [OF assms(1)] update_handoff_member [OF assms(3) [symmetric] _ assms(4)] assms(2,3) by simp

lemma worker_finalize_Inr:
  assumes inv: "handoff_inv db" and fin: "worker_finalize w x failure db = (db', Inr r)"
  shows "\<exists>q\<in>set (handoffs db'). handoff_key q = (hr_tenant_id (x_record x), hr_handoff_id (x_record x)) \<and> r = handoff_record_of q"
proof (cases failure)
  case None
  with fin obtain row db1 t where row: "locked_execution x db = Inr row"
    and s: "succeed_in_transaction True (x_claim x) (w_now w 2) (w_clock w 1 0) db = Inr (db1, t)"
    and up: "update_handoff (clear_execution (row\<lparr>h_state := HandoffSucceeded, h_finished_at := Some t, h_updated_at := t\<rparr>)) db1 = Inr db'"
    and r: "r = handoff_record_of (clear_execution (row\<lparr>h_state := HandoffSucceeded, h_finished_at := Some t, h_updated_at := t\<rparr>))"
    by (auto simp: worker_finalize_def finalize_success_def transaction_cases and_then_Inr_iff Let_def)
  have "handoffs db1 = handoffs db" using lease_move_handoffs [OF succeed_in_transaction_move [OF _ s]] inv by (simp add: handoff_inv_def)
  moreover have "handoff_key (clear_execution (row\<lparr>h_state := HandoffSucceeded, h_finished_at := Some t, h_updated_at := t\<rparr>)) = handoff_key row"
    by (simp add: handoff_key_def clear_execution_def)
  ultimately show ?thesis using finalised_record [OF row _ _ up] r by blast
next
  case (Some err)
  with fin obtain row db1 o' t where row: "locked_execution x db = Inr row"
    and f: "fail_in_transaction True (x_claim x) err (w_now w 2) (error_retry_after err) (w_clock w 1 0) (w_uniform w 1) db = Inr (db1, o')"
    and up: "update_handoff (set_failed o' t (err_code err) (err_summary err) row) db1 = Inr db'"
    and r: "r = handoff_record_of (set_failed o' t (err_code err) (err_summary err) row)"
    by (auto simp: worker_finalize_def finalize_failure_def transaction_cases and_then_Inr_iff Let_def)
  have "handoffs db1 = handoffs db" using lease_move_handoffs [OF fail_in_transaction_move [OF _ f]] inv by (simp add: handoff_inv_def)
  then show ?thesis using finalised_record [OF row _ set_failed_simps(1) up] r by blast
qed

lemma worker_finalize_moves:
  assumes "handoff_inv db" "issued x db" "worker_finalize w x failure db = (db', r)"
  shows "(handoff_move h)\<^sup>*\<^sup>* db db'"
  using assms finalize_success_moves [OF assms(1,2)] finalize_failure_moves [OF assms(1)]
  unfolding worker_finalize_def by (cases failure) auto

lemma conclude_execution_sound:
  assumes inv: "handoff_inv db" and x: "issued x db" and calm: "calm h (w_meanwhile w 1)"
    and key: "(hr_tenant_id (x_record x), hr_handoff_id (x_record x)) = (v_tenant_id v, v_handoff_id v)"
    and c: "conclude_execution w v x failure db = (db', r)"
  shows "(handoff_move h)\<^sup>*\<^sup>* db db' \<and> (\<forall>y. r = Ended (Inr y) \<longrightarrow> answers v db' y \<and> wr_executed y)"
proof -
  obtain db1 y where y: "with_fault (w_fault w 1) (worker_finalize w x failure) db = (db1, y)" by (cases "with_fault (w_fault w 1) (worker_finalize w x failure) db")
  have mv: "(handoff_move h)\<^sup>*\<^sup>* db db1" by (rule with_fault_moves [OF y worker_finalize_moves [OF inv x]])
  have inv1: "handoff_inv db1" using handoff.inv_steps [OF mv inv] .
  consider (ok) q where "y = Ended (Inr q)" | (lost) d where "y = Ended (Inl (LeaseLost d))"
    | (other) "db' = db1" "\<nexists>z. r = Ended (Inr z)"
    using c y unfolding conclude_execution_def by (cases y) (auto split: sum.splits exn.splits)
  then show ?thesis
  proof cases
    case ok
    then have "db' = db1" "r = worker_answer w v q True" using c y by (simp_all add: conclude_execution_def)
    moreover obtain row where "row \<in> set (handoffs db1)" "handoff_key row = (v_tenant_id v, v_handoff_id v)" "q = handoff_record_of row"
      using worker_finalize_Inr [OF inv with_fault_Inr [OF y [unfolded ok]]] key by auto
    ultimately show ?thesis using mv by (auto simp: answers_def handoff_of_def dest!: worker_answer_Inr)
  next
    case lost
    then have "db' = w_meanwhile w 1 db1" "r = answer_current w 2 v True ''Taskiq stale finalization lost its handoff.'' db'"
      using c y by (auto simp: conclude_execution_def Let_def)
    then show ?thesis using mv calm_inv [OF calm inv1] answer_current_Inr by auto
  qed (use mv in auto)
qed

lemma worker_execute_sound:
  assumes inv: "handoff_inv db" and calm: "calm h (w_meanwhile w 0)" "calm h (w_meanwhile w 1)" and t: "instant (w_clock w 0 0) \<le> h"
    and run: "worker_execute w executor m db = (db', calls, r)"
  shows "(handoff_move h)\<^sup>*\<^sup>* db db' \<and> length calls \<le> 1 \<and>
    (\<forall>y. r = Ended (Inr y) \<longrightarrow> (calls \<noteq> [] \<longrightarrow> wr_executed y) \<and> (\<exists>v. envelope_from_dict m = Inr v \<and> answers v db' y))"
proof (cases "envelope_from_dict m")
  case (Inl e)
  then show ?thesis using run by (auto simp: worker_execute_def)
next
  case (Inr v)
  let ?claim = "claim_execution False v (w_now w 0) (w_execution_timeout w) (w_clock w 0) (w_uniform w 0) (w_token w)"
  obtain db1 y where y: "with_fault (w_fault w 0) ?claim db = (db1, y)" by (cases "with_fault (w_fault w 0) ?claim db")
  have mv: "(handoff_move h)\<^sup>*\<^sup>* db db1" 
  proof (rule with_fault_moves [OF y])
    fix d q assume "?claim db = (d, q)"
    from claim_execution_moves [OF inv this t] show "(handoff_move h)\<^sup>*\<^sup>* db d" .
  qed
  have inv1: "handoff_inv db1" using handoff.inv_steps [OF mv inv] .
  note mid = calm_inv [OF calm(1) inv1]
  have mv2: "(handoff_move h)\<^sup>*\<^sup>* db (w_meanwhile w 0 db1)" using mv mid by (meson rtranclp_trans)
  consider (err) "db' = db1" "calls = []" "\<nexists>z. r = Ended (Inr z)" | (dup) "y = Ended (Inr None)" | (got) x where "y = Ended (Inr (Some x))"
    using run y Inr unfolding worker_execute_def by (cases y) (auto split: sum.splits option.splits)
  then show ?thesis
  proof cases
    case dup
    then have "db' = w_meanwhile w 0 db1" "calls = []" "r = answer_current w 1 v False ''Taskiq duplicate references no handoff.'' db'"
      using run y Inr by (auto simp: worker_execute_def Let_def)
    then show ?thesis using mv2 answer_current_Inr Inr by auto
  next
    case got
    obtain a b where a: "run_executor executor (w_now w 1) x = (a, b)" by (cases "run_executor executor (w_now w 1) x")
    have "length b \<le> 1" using a by (auto simp: run_executor_def Let_def split: if_splits)
    moreover have rest: "calls = b \<and> (db' = w_meanwhile w 0 db1 \<and> (\<nexists>z. r = Ended (Inr z)) \<or>
        (\<exists>f. conclude_execution w v x f (w_meanwhile w 0 db1) = (db', r)))"
      using run y Inr got a unfolding worker_execute_def by (cases a) (auto simp: Let_def split: sum.splits prod.splits)
    ultimately have len: "length calls \<le> 1" by simp
    note grant = claim_execution_issues [OF inv with_fault_Inr [OF y [unfolded got]]]
    then have "issued x db1" unfolding issued_def by blast
    then have x: "issued x (w_meanwhile w 0 db1)" using issued_moves [OF conjunct1 [OF mid] inv1] by blast
    have key: "(hr_tenant_id (x_record x), hr_handoff_id (x_record x)) = (v_tenant_id v, v_handoff_id v)"
      using grant by (auto simp: issued_for_def)
    show ?thesis
      using rest len mv2 conclude_execution_sound [OF conjunct2 [OF mid] x calm(2) key] Inr by (auto intro: rtranclp_trans)
  qed (use mv in auto)
qed

lemma finished_not_claimed:
  assumes inv: "handoff_inv db" and r: "handoff_of v db r" "handoff_finished (h_state r)"
    and c: "claim_execution False v now timeout clock u token db = (db', Inr res)"
  shows "db' = db \<and> res = None"
proof -
  have same: "row = r" if "locked_for_envelope v db = Inr row" for row
    using handoff_of_unique [OF inv r(1)] locked_for_envelope_Inr [OF that] by (simp add: handoff_of_def)
  from c show ?thesis by (cases rule: claim_execution_Inr) (use same r(2) in auto)
qed

lemma handoff_state_value_inject [simp]: "handoff_state_value s = handoff_state_value t \<longleftrightarrow> s = t"
  by (cases s; cases t) simp_all

definition terminal_statuses :: "string list" where
  "terminal_statuses = [''succeeded'', ''retry_wait'', ''dead'']"

lemma terminal_status: "handoff_state_value s \<in> set terminal_statuses \<longleftrightarrow> handoff_finished s"
  by (cases s) (simp_all add: terminal_statuses_def handoff_finished_def)

section \<open>Properties\<close>

definition sample_worker :: "int \<Rightarrow> worker_run" where
  "sample_worker t = \<lparr>w_execution_timeout = 60000000, w_now = (\<lambda>_. Aware t), w_clock = (\<lambda>_ _. Aware t), w_fault = (\<lambda>_. None),
     w_uniform = (\<lambda>_ _ _. Fin 0), w_token = 402, w_meanwhile = (\<lambda>_ db. db)\<rparr>"

lemma sample_worker_simps [simp]:
  "w_meanwhile (sample_worker t) i = (\<lambda>db. db)" "instant (w_clock (sample_worker t) i j) = t"
  by (simp_all add: sample_worker_def)

lemma calm_idle [simp]: "calm h (\<lambda>db. db)"
  by (simp add: calm_def)

lemma sample_handoff_inv: "handoff_inv (sample_leased_tdb [sample_handoff])"
proof -
  have "taskiq_inv (sample_tdb [] [] [] [], [])" by (simp add: taskiq_inv_def handoff_inv_empty sample_tdb_def no_rows_def)
  then show ?thesis using taskiq.inv_steps [OF sample_prepared_steps] by (auto simp: taskiq_inv_def)
qed

definition sample_result :: worker_result where
  "sample_result = \<lparr>wr_handoff_id = ''00000000-0000-0000-0000-000000000190'', wr_task_id = h_task_id sample_handoff,
     wr_status = ''succeeded'', wr_executed = True, wr_execution_count = 1\<rparr>"

abbreviation "sample_delivery \<equiv>
  worker_execute (sample_worker 22) (\<lambda>_ _. Ended (Inr ())) (envelope_to_dict sample_envelope) (sample_leased_tdb [sample_handoff])"

lemma sample_delivered: "snd sample_delivery = ([sample_claimed], Ended (Inr sample_result))"
  by code_simp

lemma sample_delivery_run: "sample_delivery = (fst sample_delivery, [sample_claimed], Ended (Inr sample_result))"
  using sample_delivered by (metis prod.collapse)

text \<open>
  C19. A worker's answer is truthful and its database effects stay inside the protocol: whatever faults cut its transactions
  short (before or after their commit), whatever other processes do in between, and however the handler ends, the database
  moves only by handoff moves, the handler is called at most once, and an answer reports the recorded state of the handoff that the message
  names; it says succeeded only if the parent attempt is recorded as succeeded.
\<close>

theorem worker_answers_truthfully:
  assumes "handoff_inv db" and "calm h (w_meanwhile w 0)" and "calm h (w_meanwhile w 1)" and "instant (w_clock w 0 0) \<le> h"
    and "worker_execute w executor m db = (db', calls, r)"
  shows "(handoff_move h)\<^sup>*\<^sup>* db db' \<and> handoff_inv db' \<and> length calls \<le> 1 \<and>
    (\<forall>y. r = Ended (Inr y) \<longrightarrow> (calls \<noteq> [] \<longrightarrow> wr_executed y) \<and>
      (\<exists>v row. envelope_from_dict m = Inr v \<and> handoff_of v db' row \<and> wr_status y = handoff_state_value (h_state row) \<and>
        (wr_status y = ''succeeded'' \<longrightarrow> attempt_succeeded row db')))"
proof -
  note sound = worker_execute_sound [OF assms]
  have inv: "handoff_inv db'" using handoff.inv_steps sound assms(1) by blast
  have "attempt_succeeded row db'" if "handoff_of v db' row" "handoff_state_value (h_state row) = ''succeeded''" for v row
  proof -
    have "h_state row = HandoffSucceeded" using that(2) handoff_state_value_inject [of _ HandoffSucceeded] by simp
    then show ?thesis using that(1) inv by (auto simp: handoff_of_def handoff_inv_def)
  qed
  with sound inv show ?thesis unfolding answers_def by (metis wr_status_of)
qed

theorem worker_answers_truthfully_witness:
  "\<exists>row. handoff_of sample_envelope (fst sample_delivery) row \<and> attempt_succeeded row (fst sample_delivery)"
proof -
  have e: "envelope_from_dict (envelope_to_dict sample_envelope) = Inr sample_envelope" by (rule envelope_reads_back) code_simp
  have "wr_status sample_result = ''succeeded''" by (simp add: sample_result_def)
  then show ?thesis
    using worker_answers_truthfully [OF sample_handoff_inv _ _ _ sample_delivery_run, of 100] e by auto
qed

text \<open>
  Redelivery is harmless: once a worker has answered a message with a terminal status, every later delivery of the same
  message, after any activity in between and by any worker, calls no handler, and if it answers, it answers the same status as not executed.
\<close>

lemma redelivered_message_not_executed:
  assumes "handoff_inv db" and "calm h (w_meanwhile w 0)" and "calm h (w_meanwhile w 1)" and "instant (w_clock w 0 0) \<le> h"
    and "worker_execute w executor m db = (db1, calls, Ended (Inr y))" and "wr_status y \<in> set terminal_statuses"
    and "(handoff_move h)\<^sup>*\<^sup>* db1 db2" and "calm h (w_meanwhile w2 0)"
    and "worker_execute w2 executor2 m db2 = (db3, calls2, r2)"
  shows "calls2 = [] \<and> (\<forall>y2. r2 = Ended (Inr y2) \<longrightarrow> wr_status y2 = wr_status y \<and> \<not> wr_executed y2)"
proof -
  note sound = worker_execute_sound [OF assms(1-5)]
  obtain v r where v: "envelope_from_dict m = Inr v" "handoff_of v db1 r" "wr_status y = handoff_state_value (h_state r)"
    using sound unfolding answers_def by (metis wr_status_of)
  have fin: "handoff_finished (h_state r)" using assms(6) v(3) terminal_status by simp
  have inv1: "handoff_inv db1" using handoff.inv_steps sound assms(1) by blast
  have inv2: "handoff_inv db2" using handoff.inv_steps [OF assms(7) inv1] .
  obtain r' where r': "handoff_of v db2 r'" "h_state r' = h_state r"
    using handoff_of_evolves [OF assms(7) inv1 v(2)] fin unfolding row_evolves_def by metis
  let ?claim = "claim_execution False v (w_now w2 0) (w_execution_timeout w2) (w_clock w2 0) (w_uniform w2 0) (w_token w2)"
  obtain db4 q where q: "with_fault (w_fault w2 0) ?claim db2 = (db4, q)" by (cases "with_fault (w_fault w2 0) ?claim db2")
  have none: "db4 = db2 \<and> z = None" if "q = Ended (Inr z)" for z
    using finished_not_claimed [OF inv2 r'(1)] r'(2) fin with_fault_Inr [OF q [unfolded that]] by simp
  note mid = calm_inv [OF assms(8) inv2]
  consider (err) "calls2 = []" "\<nexists>z. r2 = Ended (Inr z)"
    | (dup) "calls2 = []" "db3 = w_meanwhile w2 0 db2" "r2 = answer_current w2 1 v False ''Taskiq duplicate references no handoff.'' db3"
    using assms(9) q v(1) none unfolding worker_execute_def by (cases q) (auto simp: Let_def split: sum.splits)
  then show ?thesis
  proof cases
    case dup
    obtain r3 where r3: "handoff_of v db3 r3" "h_state r3 = h_state r'"
      using handoff_of_evolves [OF conjunct1 [OF mid] inv2 r'(1)] fin r'(2) dup(2) unfolding row_evolves_def by metis
    have "wr_status y2 = wr_status y \<and> \<not> wr_executed y2" if y2: "r2 = Ended (Inr y2)" for y2
    proof -
      obtain q3 where q3: "handoff_of v db3 q3" "wr_status y2 = handoff_state_value (h_state q3)" "\<not> wr_executed y2"
        using answer_current_Inr y2 dup(3) unfolding answers_def by (metis wr_status_of)
      have "q3 = r3" using handoff_of_unique [OF _ r3(1) q3(1)] mid dup(2) by simp
      then show ?thesis using q3 r3(2) r'(2) v(3) by simp
    qed
    then show ?thesis using dup(1) by blast
  qed auto
qed

section \<open>The message of the sink\<close>

definition envelope_matches :: "handoff_envelope \<Rightarrow> handoff_row \<Rightarrow> bool" where
  "envelope_matches v r \<longleftrightarrow> handoff_key r = (v_tenant_id v, v_handoff_id v) \<and> handoff_slot r = (v_tenant_id v, v_delivery_id v, v_attempt_id v) \<and>
     h_task_id r = v_task_id v \<and> h_handoff_token r = v_handoff_token v"

lemma matches_locked:
  assumes "r \<in> set (handoffs db)" and "envelope_matches v r"
  shows "\<exists>row. locked_for_envelope v db = Inr row"
proof -
  let ?P = "\<lambda>r. handoff_key r = (v_tenant_id v, v_handoff_id v) \<and> h_delivery_id r = v_delivery_id v \<and>
    h_attempt_id r = v_attempt_id v \<and> h_task_id r = v_task_id v \<and> h_handoff_token r = v_handoff_token v"
  have "?P r" using assms(2) by (simp add: envelope_matches_def handoff_slot_def)
  then have "List.find ?P (handoffs db) \<noteq> None" using assms(1) by (auto simp: find_None_iff)
  then show ?thesis by (auto simp: locked_for_envelope_def)
qed

lemma matches_admitted:
  assumes "r \<in> set (handoffs db)" and "envelope_matches v r" and "handoff_inv db" and "(handoff_move h)\<^sup>*\<^sup>* db db'"
  shows "\<exists>row. locked_for_envelope v db' = Inr row"
proof -
  obtain r' where "r' \<in> set (handoffs db')" "row_evolves h r r'"
    using handoff_moves_evolve [OF assms(4,3)] assms(1) by (auto simp: handoffs_evolve_def)
  moreover from this have "envelope_matches v r'" using assms(2) by (simp add: envelope_matches_def row_evolves_def)
  ultimately show ?thesis using matches_locked by blast
qed

lemma conclude_enqueue_moves:
  assumes "handoff_inv db" and "conclude_enqueue k v q db = (db', r)"
  shows "(handoff_move h)\<^sup>*\<^sup>* db db' \<and> (\<forall>d. r = Ended (Inr d) \<longrightarrow> d = Deferred)"
proof (cases "accepted_by_broker v q")
  case True
  obtain db1 y where y: "with_fault (k_fault k 1) (mark_enqueued False v (k_now k 2) (k_clock k 1 0)) db = (db1, y)"
    by (cases "with_fault (k_fault k 1) (mark_enqueued False v (k_now k 2) (k_clock k 1 0)) db")
  have "(handoff_move h)\<^sup>*\<^sup>* db db1" using with_fault_moves [OF y] mark_enqueued_moves by blast
  with True y assms(2) show ?thesis
    by (cases y) (auto simp: conclude_enqueue_def and_then_Inr_iff split: sum.splits)
next
  case False
  obtain db1 y where y: "with_fault (k_fault k 1) (enqueue_failed False v (k_now k 2) (k_clock k 1) (k_uniform k)) db = (db1, y)"
    by (cases "with_fault (k_fault k 1) (enqueue_failed False v (k_now k 2) (k_clock k 1) (k_uniform k)) db")
  have "(handoff_move h)\<^sup>*\<^sup>* db db1" using with_fault_moves [OF y] enqueue_failed_moves [OF assms(1)] by blast
  with False y assms(2) show ?thesis
    by (cases y) (auto simp: conclude_enqueue_def split: sum.splits)
qed

definition message_admitted :: "int \<Rightarrow> claimed \<Rightarrow> tdb \<Rightarrow> (string \<times> json) list \<Rightarrow> bool" where
  "message_admitted h c db m \<longleftrightarrow> (\<exists>v. envelope_from_dict m = Inr v \<and> v_attempt_id v = ar_attempt_id (c_attempt c) \<and>
     v_delivery_id v = dr_delivery_id (c_delivery c) \<and>
     (\<forall>db'. (handoff_move h)\<^sup>*\<^sup>* db db' \<longrightarrow> (\<exists>row. locked_for_envelope v db' = Inr row)))"

lemma prepared_message_admitted:
  assumes inv: "handoff_inv db1" and prep: "prepare False c now s hid tok db = (db1, Inr v)" and mv: "(handoff_move h)\<^sup>*\<^sup>* db1 db2"
  shows "message_admitted h c db2 (envelope_to_dict v)"
proof -
  obtain row where row: "row \<in> set (handoffs db1)" "envelope_of row = Inr v"
      "handoff_slot row = handoff_slot (prepared_row c hid tok (instant s))"
    using prepare_Inr [OF prep] by blast
  note v = envelope_of_Inr [OF row(2)]
  have m: "envelope_matches v row" using v by (simp add: envelope_matches_def handoff_key_def handoff_slot_def)
  have "v_attempt_id v = ar_attempt_id (c_attempt c)" "v_delivery_id v = dr_delivery_id (c_delivery c)"
    using v row(3) by (simp_all add: handoff_slot_def prepared_row_def)
  moreover have "\<exists>row. locked_for_envelope v db' = Inr row" if "(handoff_move h)\<^sup>*\<^sup>* db2 db'" for db'
    using matches_admitted [OF row(1) m inv rtranclp_trans [OF mv that]] .
  ultimately show ?thesis using envelope_reads_back v unfolding message_admitted_def by blast
qed

lemma sink_execute_inner_sound:
  assumes inv: "handoff_inv db" and calm: "calm h (k_meanwhile k)" and run: "sink_execute_inner k kiq c db = (db', ms, r)"
  shows "(handoff_move h)\<^sup>*\<^sup>* db db' \<and> length ms \<le> 1 \<and> (\<forall>d. r = Ended (Inr d) \<longrightarrow> d = Deferred) \<and> (\<forall>m\<in>set ms. message_admitted h c db' m)"
proof -
  let ?prep = "prepare False c (k_now k 1) (k_clock k 0 0) (k_handoff_id k) (k_handoff_token k)"
  obtain db1 y where y: "with_fault (k_fault k 0) ?prep db = (db1, y)" by (cases "with_fault (k_fault k 0) ?prep db")
  have mv: "(handoff_move h)\<^sup>*\<^sup>* db db1" using with_fault_moves [OF y] prepare_moves by blast
  have inv1: "handoff_inv db1" using handoff.inv_steps [OF mv inv] .
  note mid = calm_inv [OF calm inv1]
  consider (err) "db' = db1" "ms = []" "\<nexists>d. r = Ended (Inr d)"
    | (sent) v where "y = Ended (Inr v)" "ms = [envelope_to_dict v]"
        "db' = k_meanwhile k db1 \<and> r = Interrupted \<or> (\<exists>q. conclude_enqueue k v q (k_meanwhile k db1) = (db', r))"
    using run y unfolding sink_execute_inner_def
    by (cases y) (auto simp: Let_def split: sum.splits awaited.splits prod.splits)
  then show ?thesis
  proof cases
    case sent
    have end_mv: "(handoff_move h)\<^sup>*\<^sup>* (k_meanwhile k db1) db' \<and> (\<forall>d. r = Ended (Inr d) \<longrightarrow> d = Deferred)"
      using sent(3) conclude_enqueue_moves [OF conjunct2 [OF mid]] by auto
    then have mv1: "(handoff_move h)\<^sup>*\<^sup>* db1 db'" using mid by (meson rtranclp_trans)
    have "message_admitted h c db' (envelope_to_dict v)"
      using prepared_message_admitted [OF inv1 with_fault_Inr [OF y [unfolded sent(1)]] mv1] .
    with mv mv1 end_mv sent(2) show ?thesis by (auto intro: rtranclp_trans)
  qed (use mv in auto)
qed

text \<open>
  C20. The message given to the broker is always admitted: the sink calls the broker at most once, never completes the
  delivery itself, moves the database only by handoff moves, and the message it sends is read back as the envelope of the claimed attempt, which names
  a handoff of that attempt then and after any further activity, so that no worker rejects it.
\<close>

theorem enqueued_message_is_admitted:
  assumes "handoff_inv db" and "calm h (k_meanwhile k)" and "sink_execute k kiq c db = (db', ms, r)"
  shows "(handoff_move h)\<^sup>*\<^sup>* db db' \<and> length ms \<le> 1 \<and> (\<forall>d. r = Ended (Inr d) \<longrightarrow> d = Deferred) \<and>
    (\<forall>m\<in>set ms. \<exists>v. envelope_from_dict m = Inr v \<and> v_attempt_id v = ar_attempt_id (c_attempt c) \<and>
       v_delivery_id v = dr_delivery_id (c_delivery c) \<and>
       (\<forall>db''. (handoff_move h)\<^sup>*\<^sup>* db' db'' \<longrightarrow> (\<exists>row. locked_for_envelope v db'' = Inr row)))"
proof -
  obtain db1 ms1 r1 where i: "sink_execute_inner k kiq c db = (db1, ms1, r1)" by (cases "sink_execute_inner k kiq c db")
  have "db' = db \<and> ms = [] \<and> (\<forall>d. r = Ended (Inr d) \<longrightarrow> d = Deferred) \<or>
      db' = db1 \<and> ms = ms1 \<and> (\<forall>d. r = Ended (Inr d) \<longrightarrow> d = Deferred \<or> r1 = Ended (Inr d))"
    using assms(3) i unfolding sink_execute_def
    by (cases r1) (auto split: sum.splits if_splits exn.splits)
  then show ?thesis using sink_execute_inner_sound [OF assms(1,2) i] unfolding message_admitted_def by auto
qed

definition sample_sink :: sink_run where
  "sample_sink = \<lparr>k_now = (\<lambda>_. Aware 21), k_clock = (\<lambda>_ _. Aware 21), k_fault = (\<lambda>_. None), k_uniform = (\<lambda>_ _. Fin 0),
     k_handoff_id = 400, k_handoff_token = 401, k_meanwhile = (\<lambda>db. db), k_expired = False\<rparr>"

abbreviation "sample_enqueue \<equiv> sink_execute sample_sink (\<lambda>t _. Ended (Inr (Some t))) sample_claimed (sample_leased_tdb [])"

theorem enqueued_message_is_admitted_witness:
  "\<exists>v row. fst (snd sample_enqueue) = [envelope_to_dict v] \<and> locked_for_envelope v (fst sample_enqueue) = Inr row"
proof -
  have inv: "handoff_inv (sample_leased_tdb [])"
    using lease.inv_steps [OF sample_leases lease_inv_empty]
    by (simp add: handoff_inv_def sample_tdb_def no_rows_def)
  have ms: "fst (snd sample_enqueue) = [envelope_to_dict sample_envelope]" by code_simp
  have e: "envelope_from_dict (envelope_to_dict sample_envelope) = Inr sample_envelope" by (rule envelope_reads_back) code_simp
  have "calm 100 (k_meanwhile sample_sink)" by (simp add: sample_sink_def)
  moreover have "sample_enqueue = (fst sample_enqueue, [envelope_to_dict sample_envelope], snd (snd sample_enqueue))"
    using ms by (metis prod.collapse)
  ultimately show ?thesis using enqueued_message_is_admitted [OF inv] ms e by fastforce
qed

text \<open>
  The broker envelope survives its dictionary form: every envelope the constructor accepts is read back unchanged from the
  dictionary it is sent as; and whatever dictionary is accepted, it has exactly the seven fields and yields a valid envelope.
\<close>

lemma envelope_dict_roundtrip:
  "(handoff_envelope_post_init v = Inr v \<longrightarrow> envelope_from_dict (envelope_to_dict v) = Inr v) \<and>
   (envelope_from_dict d = Inr u \<longrightarrow> set (map fst d) = set envelope_fields \<and> handoff_envelope_post_init u = Inr u)"
proof -
  have "handoff_envelope_post_init u = Inr u" if "read_envelope d = Inr u"
    using that envelope_post_init_Inr unfolding read_envelope_def and_then_Inr_iff by metis
  then show ?thesis using envelope_reads_back by (auto simp: envelope_from_dict_def split: if_splits sum.splits)
qed

end
