(* ===== verification/Delegation_Claims.thy ===== *)
theory Delegation_Claims
  imports Principal Command_Request Python_Uuid Python_Base64
begin

text \<open>
  \<^verbatim>\<open>delegation/targets.py\<close>, \<^verbatim>\<open>models.py\<close>, \<^verbatim>\<open>encoding.py\<close> and \<^verbatim>\<open>audit.py\<close>: the canonical form of a request target, the claims of a
  delegation credential with their dictionary form, the token text, and audit events. Claim times are whole seconds on the wire:
  \<^verbatim>\<open>_epoch\<close> truncates the timestamp towards zero (exact before the year 2514, where a float still separates microseconds).
\<close>

section \<open>Request targets\<close>

definition method_tail :: "char \<Rightarrow> bool" where
  "method_tail c \<longleftrightarrow> is_upper c \<or> is_digit c \<or> c \<in> set ''!#$%&*+.^_`|~-'' \<or> c = CHR 0x27"

definition canonical_method :: "string \<Rightarrow> string result" where
  "canonical_method v =
     (if head_tail_match is_upper method_tail 31 v then Inr v else config_error ''Delegation HTTP method is invalid.'')"

definition unreserved :: "char \<Rightarrow> bool" where
  "unreserved c \<longleftrightarrow> is_alnum c \<or> c \<in> set ''-._~''"

definition escape_octet :: "char \<Rightarrow> char \<Rightarrow> int" where
  "escape_octet a b = 16 * hex_digit_value a + hex_digit_value b"

definition escaped :: "int \<Rightarrow> string" where
  "escaped n = CHR ''%'' # upper (hex_digits 2 n)"

text \<open>The octets that may not be written as an escape, and what an accepted escape is rewritten to.\<close>

definition unsafe_octet :: "int \<Rightarrow> bool" where
  "unsafe_octet n \<longleftrightarrow> octet_char n \<in> set [CHR ''/'', CHR 0x5C, CHR ''%''] \<or> n < 32 \<or> n = 127"

definition escape_piece :: "int \<Rightarrow> string" where
  "escape_piece n = (if unreserved (octet_char n) then [octet_char n] else escaped n)"

text \<open>The loop of \<^verbatim>\<open>canonical_target_path\<close>, on the text from the index on.\<close>

fun normalize_escapes :: "string \<Rightarrow> string result" where
  "normalize_escapes [] = Inr []"
| "normalize_escapes (c # cs) =
     (if c \<noteq> CHR ''%'' then and_then (normalize_escapes cs) (\<lambda>t. Inr (c # t))
      else case cs of
        a # b # rest \<Rightarrow>
          if \<not> hex_digit a \<or> \<not> hex_digit b then config_error ''Delegation target has malformed percent encoding.''
          else if unsafe_octet (escape_octet a b) then config_error ''Delegation target contains an unsafe encoded octet.''
          else and_then (normalize_escapes rest) (\<lambda>t. Inr (escape_piece (escape_octet a b) @ t))
      | _ \<Rightarrow> config_error ''Delegation target has malformed percent encoding.'')"

definition target_chars_ok :: "string \<Rightarrow> bool" where
  "target_chars_ok v \<longleftrightarrow> v \<noteq> [] \<and> int (length v) \<le> 2048 \<and> take 1 v = ''/'' \<and> take 2 v \<noteq> ''//'' \<and>
     list_all (\<lambda>c. c \<noteq> CHR 0x5C \<and> c \<noteq> CHR ''?'' \<and> c \<noteq> CHR ''#'' \<and> \<not> is_control c) v"

definition plain_segment :: "string \<Rightarrow> bool" where
  "plain_segment s \<longleftrightarrow> s \<noteq> [] \<and> s \<noteq> ''.'' \<and> s \<noteq> ''..''"

definition canonical_target_path :: "string \<Rightarrow> string result" where
  "canonical_target_path v =
     (if \<not> target_chars_ok v then config_error ''Delegation target path is invalid.''
      else if \<not> list_all (\<lambda>c. code c < 128) v then config_error ''Delegation target path must use an ASCII URI representation.''
      else and_then (normalize_escapes v) (\<lambda>r.
        if list_all plain_segment (tl (split_on (CHR ''/'') r)) then Inr r
        else config_error ''Delegation target path contains an ambiguous segment.''))"

section \<open>Claims\<close>

definition identifier_tail :: "char \<Rightarrow> bool" where
  "identifier_tail c \<longleftrightarrow> is_alnum c \<or> c \<in> set ''._:/-''"

definition identifier_text :: "string \<Rightarrow> bool" where
  "identifier_text s = head_tail_match is_alnum identifier_tail 255 s"

definition key_id_ok :: "string \<Rightarrow> bool" where
  "key_id_ok s = head_tail_match is_alnum (\<lambda>c. is_alnum c \<or> c \<in> set ''._-'') 127 s"

record delegation_claims =
  dc_version :: int
  dc_issuer :: string
  dc_tenant_id :: uuid
  dc_subject_id :: string
  dc_actor_id :: "string option"
  dc_client_id :: "string option"
  dc_audience :: string
  dc_method :: string
  dc_path :: string
  dc_scopes :: "string list"
  dc_issued_at :: py_datetime
  dc_not_before :: py_datetime
  dc_expires_at :: py_datetime
  dc_token_id :: uuid
  dc_key_id :: string
  dc_delegation_depth :: int

definition require_identifier :: "string \<Rightarrow> string option \<Rightarrow> unit result" where
  "require_identifier name v =
     (case v of None \<Rightarrow> Inr ()
      | Some s \<Rightarrow> ensure (identifier_text s) (ConfigurationError (''Delegation '' @ name @ '' is invalid.'')))"

definition require_claim_time :: "string \<Rightarrow> py_datetime \<Rightarrow> unit result" where
  "require_claim_time name t = ensure (is_aware t) (ConfigurationError (''Delegation '' @ name @ '' must be timezone-aware.''))"

definition claims_post_init :: "delegation_claims \<Rightarrow> delegation_claims result" where
  "claims_post_init c =
     and_then (ensure (dc_version c = 1) (ConfigurationError ''Delegation claim version is unsupported.'')) (\<lambda>_.
     and_then (require_identifier ''issuer'' (Some (dc_issuer c))) (\<lambda>_.
     and_then (require_identifier ''subject'' (Some (dc_subject_id c))) (\<lambda>_.
     and_then (require_identifier ''audience'' (Some (dc_audience c))) (\<lambda>_.
     and_then (require_identifier ''actor'' (dc_actor_id c)) (\<lambda>_.
     and_then (require_identifier ''client'' (dc_client_id c)) (\<lambda>_.
     and_then (ensure (key_id_ok (dc_key_id c)) (ConfigurationError ''Delegation key ID is invalid.'')) (\<lambda>_.
     and_then (canonical_method (dc_method c)) (\<lambda>verb.
     and_then (canonical_target_path (dc_path c)) (\<lambda>path.
     and_then (ensure (int (length (dc_scopes c)) \<le> 128 \<and> list_all scope_name (dc_scopes c))
                 (ConfigurationError ''Delegation scope set is invalid.'')) (\<lambda>_.
     and_then (require_claim_time ''issued_at'' (dc_issued_at c)) (\<lambda>_.
     and_then (require_claim_time ''not_before'' (dc_not_before c)) (\<lambda>_.
     and_then (require_claim_time ''expires_at'' (dc_expires_at c)) (\<lambda>_.
     and_then (ensure (instant (dc_issued_at c) \<le> instant (dc_not_before c) \<and> instant (dc_not_before c) < instant (dc_expires_at c))
                 (ConfigurationError ''Delegation validity interval is invalid.'')) (\<lambda>_.
     and_then (ensure (total_seconds (instant (dc_expires_at c) - instant (dc_issued_at c)) \<le> 3600)
                 (ConfigurationError ''Delegation credential lifetime is excessive.'')) (\<lambda>_.
     and_then (ensure (1 \<le> dc_delegation_depth c \<and> dc_delegation_depth c \<le> 16) (ConfigurationError ''Delegation depth is invalid.'')) (\<lambda>_.
       Inr (c\<lparr>dc_method := verb, dc_path := path, dc_scopes := frozenset (dc_scopes c)\<rparr>)))))))))))))))))"

definition epoch :: "py_datetime \<Rightarrow> int" where
  "epoch t = (if 0 \<le> instant t then instant t div second else - (- instant t div second))"

definition optional_json :: "string option \<Rightarrow> json" where
  "optional_json v = (case v of None \<Rightarrow> JNull | Some s \<Rightarrow> JStr s)"

definition claims_to_dict :: "delegation_claims \<Rightarrow> (string \<times> json) list" where
  "claims_to_dict c =
     [(''version'', JInt (dc_version c)), (''issuer'', JStr (dc_issuer c)), (''tenant_id'', JStr (uuid_str (dc_tenant_id c))),
      (''subject_id'', JStr (dc_subject_id c)), (''actor_id'', optional_json (dc_actor_id c)),
      (''client_id'', optional_json (dc_client_id c)), (''audience'', JStr (dc_audience c)), (''method'', JStr (dc_method c)),
      (''path'', JStr (dc_path c)), (''scopes'', JList (map JStr (dc_scopes c))), (''issued_at'', JInt (epoch (dc_issued_at c))),
      (''not_before'', JInt (epoch (dc_not_before c))), (''expires_at'', JInt (epoch (dc_expires_at c))),
      (''token_id'', JStr (uuid_str (dc_token_id c))), (''key_id'', JStr (dc_key_id c)),
      (''delegation_depth'', JInt (dc_delegation_depth c))]"

definition claim_fields :: "string list" where
  "claim_fields =
     [''version'', ''issuer'', ''tenant_id'', ''subject_id'', ''actor_id'', ''client_id'', ''audience'', ''method'', ''path'',
      ''scopes'', ''issued_at'', ''not_before'', ''expires_at'', ''token_id'', ''key_id'', ''delegation_depth'']"

text \<open>\<^verbatim>\<open>datetime.fromtimestamp(n, tz=UTC)\<close> with the three errors of an instant out of range.\<close>

definition fromtimestamp :: "int \<Rightarrow> py_datetime result" where
  "fromtimestamp n =
     (if dt_min \<le> n * second \<and> n * second \<le> dt_max then Inr (Aware (n * second))
      else if - 67768040609740800 \<le> n \<and> n \<le> 67768036191676799 then Inl ValueError
      else if - 9223372036854775808 \<le> n \<and> n \<le> 9223372036854775807 then Inl (OSFailure (OSError 75))
      else Inl OverflowError)"

definition json_optional :: "json \<Rightarrow> string option result" where
  "json_optional j = (if j = JNull then Inr None else and_then (json_str j) (\<lambda>s. Inr (Some s)))"

definition json_time :: "json \<Rightarrow> py_datetime result" where
  "json_time j = and_then (json_int j) fromtimestamp"

definition json_uuid :: "json \<Rightarrow> uuid result" where
  "json_uuid j = and_then (json_str j) uuid_of_text"

definition scope_items :: "json \<Rightarrow> string list option" where
  "scope_items j =
     (case j of JList vs \<Rightarrow> (case traverse json_str vs of Inl _ \<Rightarrow> None | Inr ss \<Rightarrow> Some ss) | _ \<Rightarrow> None)"

text \<open>The constructor call of \<^verbatim>\<open>from_dict\<close>, its arguments evaluated in order.\<close>

definition read_claims :: "(string \<Rightarrow> json) \<Rightarrow> string list \<Rightarrow> delegation_claims result" where
  "read_claims v scope_values =
     and_then (json_int (v ''version'')) (\<lambda>version.
     and_then (json_str (v ''issuer'')) (\<lambda>issuer.
     and_then (json_uuid (v ''tenant_id'')) (\<lambda>tenant_id.
     and_then (json_str (v ''subject_id'')) (\<lambda>subject_id.
     and_then (json_optional (v ''actor_id'')) (\<lambda>actor_id.
     and_then (json_optional (v ''client_id'')) (\<lambda>client_id.
     and_then (json_str (v ''audience'')) (\<lambda>audience.
     and_then (json_str (v ''method'')) (\<lambda>verb.
     and_then (json_str (v ''path'')) (\<lambda>path.
     and_then (json_time (v ''issued_at'')) (\<lambda>issued_at.
     and_then (json_time (v ''not_before'')) (\<lambda>not_before.
     and_then (json_time (v ''expires_at'')) (\<lambda>expires_at.
     and_then (json_uuid (v ''token_id'')) (\<lambda>token_id.
     and_then (json_str (v ''key_id'')) (\<lambda>key_id.
     and_then (json_int (v ''delegation_depth'')) (\<lambda>depth.
       claims_post_init
         \<lparr>dc_version = version, dc_issuer = issuer, dc_tenant_id = tenant_id, dc_subject_id = subject_id, dc_actor_id = actor_id,
          dc_client_id = client_id, dc_audience = audience, dc_method = verb, dc_path = path, dc_scopes = scope_values,
          dc_issued_at = issued_at, dc_not_before = not_before, dc_expires_at = expires_at, dc_token_id = token_id,
          dc_key_id = key_id, dc_delegation_depth = depth\<rparr>)))))))))))))))"

definition claims_from_dict :: "(string \<times> json) list \<Rightarrow> delegation_claims result" where
  "claims_from_dict d =
     (if set (map fst d) \<noteq> set claim_fields then config_error ''Delegation claims are incomplete or unknown.''
      else (case scope_items (the (map_of d ''scopes'')) of
              None \<Rightarrow> config_error ''Delegation scopes are invalid.''
            | Some scope_values \<Rightarrow>
                (case read_claims (\<lambda>k. the (map_of d k)) scope_values of
                   Inl e \<Rightarrow> if e = TypeError \<or> e = ValueError then config_error ''Delegation claims are invalid.'' else Inl e
                 | Inr c \<Rightarrow> Inr c)))"

section \<open>Tokens\<close>

definition claims_bytes :: "(rat \<Rightarrow> string) \<Rightarrow> delegation_claims \<Rightarrow> bytes result" where
  "claims_bytes frepr c = canonical_json_bytes frepr 6144 (JObj (claims_to_dict c))"

definition token_prefix :: string where "token_prefix = ''fastapi_effects1''"

definition url_symbol :: "char \<Rightarrow> char" where
  "url_symbol c = (if c = CHR ''+'' then CHR ''-'' else if c = CHR ''/'' then CHR ''_'' else c)"

definition std_symbol :: "char \<Rightarrow> char" where
  "std_symbol c = (if c = CHR ''-'' then CHR ''+'' else if c = CHR ''_'' then CHR ''/'' else c)"

definition encode_part :: "bytes \<Rightarrow> string" where
  "encode_part v = rev (dropWhile (\<lambda>c. c = CHR ''='') (rev (map url_symbol (b64encode v))))"

definition decode_part :: "string \<Rightarrow> int \<Rightarrow> bytes result" where
  "decode_part v maximum =
     (if v = [] \<or> \<not> list_all (\<lambda>c. is_alnum c \<or> c = CHR ''_'' \<or> c = CHR ''-'') v then Inl ValueError
      else and_then (b64decode (map std_symbol (v @ b64_padding v))) (\<lambda>decoded.
        if maximum < int (length decoded) then Inl ValueError else Inr decoded))"

definition encode_token :: "bytes \<Rightarrow> bytes \<Rightarrow> string result" where
  "encode_token payload signature =
     (if payload = [] \<or> 6144 < int (length payload) then config_error ''Delegation payload bytes are invalid.''
      else if int (length signature) \<noteq> 32 then config_error ''Delegation signature bytes are invalid.''
      else Inr (token_prefix @ ''.'' @ encode_part payload @ ''.'' @ encode_part signature))"

text \<open>The guarded block of \<^verbatim>\<open>decode_token\<close>.\<close>

definition read_token ::
  "(string \<Rightarrow> pyfloat) \<Rightarrow> nat \<Rightarrow> string \<Rightarrow> string \<Rightarrow> (delegation_claims \<times> bytes \<times> bytes) result" where
  "read_token fparse stack payload_text signature_text =
     and_then (decode_part payload_text 6144) (\<lambda>payload.
     and_then (decode_part signature_text 32) (\<lambda>signature.
     and_then (ensure (int (length signature) = 32) ValueError) (\<lambda>_.
     and_then (strict_json_loads fparse stack 6144 payload) (\<lambda>parsed.
       case parsed of
         JObj d \<Rightarrow> and_then (claims_from_dict d) (\<lambda>claims. Inr (claims, payload, signature))
       | _ \<Rightarrow> Inl ValueError))))"

definition decode_token ::
  "(string \<Rightarrow> pyfloat) \<Rightarrow> nat \<Rightarrow> string \<Rightarrow> (delegation_claims \<times> bytes \<times> bytes) result" where
  "decode_token fparse stack token =
     (if token = [] \<or> 8192 < int (length token) then Inl AuthorizationDenied
      else (case split_on (CHR ''.'') token of
              [prefix, payload_text, signature_text] \<Rightarrow>
                if prefix \<noteq> token_prefix then Inl AuthorizationDenied
                else (case read_token fparse stack payload_text signature_text of
                        Inl (ConfigurationError _) \<Rightarrow> Inl AuthorizationDenied
                      | Inl TypeError \<Rightarrow> Inl AuthorizationDenied
                      | Inl ValueError \<Rightarrow> Inl AuthorizationDenied
                      | r \<Rightarrow> r)
            | _ \<Rightarrow> Inl AuthorizationDenied))"

section \<open>What the canonical target keeps\<close>

text \<open>The octets a path denotes, the reference the canonical form is compared with.\<close>

fun percent_decode :: "string \<Rightarrow> bytes" where
  "percent_decode (c # a # b # rest) =
     (if c = CHR ''%'' then octet_char (escape_octet a b) # percent_decode rest else c # percent_decode (a # b # rest))"
| "percent_decode s = s"

lemma percent_decode_plain: "c \<noteq> CHR ''%'' \<Longrightarrow> percent_decode (c # s) = c # percent_decode s"
  by (cases s rule: percent_decode.cases) auto

lemma hex_digit_value_bounds: "hex_digit c \<Longrightarrow> 0 \<le> hex_digit_value c \<and> hex_digit_value c < 16"
  by (auto simp: hex_digit_def hex_digit_value_def)

lemma escape_octet_bounds: "hex_digit a \<Longrightarrow> hex_digit b \<Longrightarrow> 0 \<le> escape_octet a b \<and> escape_octet a b < 256"
  using hex_digit_value_bounds [of a] hex_digit_value_bounds [of b] by (simp add: escape_octet_def)

lemma upper_digit:
  assumes "0 \<le> d" "d < 16"
  obtains x where "upper_char (digit_char d) = [x]" "hex_digit x" "hex_digit_value x = d"
proof -
  have "\<forall>d\<in>set [0, 1, 2, 3, 4, 5, 6, 7, 8, 9, 10, 11, 12, 13, 14, 15].
     case upper_char (digit_char d) of [x] \<Rightarrow> hex_digit x \<and> hex_digit_value x = d | _ \<Rightarrow> False" by code_simp
  moreover have "d \<in> set [0, 1, 2, 3, 4, 5, 6, 7, 8, 9, 10, 11, 12, 13, 14, 15]" using assms by simp arith
  ultimately have "case upper_char (digit_char d) of [x] \<Rightarrow> hex_digit x \<and> hex_digit_value x = d | _ \<Rightarrow> False" by blast
  then show ?thesis using that by (auto split: list.splits)
qed

lemma escaped_octet:
  assumes "0 \<le> n" "n < 256"
  obtains x y where "escaped n = [CHR ''%'', x, y]" "hex_digit x" "hex_digit y" "escape_octet x y = n"
proof -
  have hi: "0 \<le> n div 16" "n div 16 < 16" using assms by auto
  obtain x where x: "upper_char (digit_char (n div 16)) = [x]" "hex_digit x" "hex_digit_value x = n div 16"
    using upper_digit [of "n div 16"] hi by blast
  obtain y where y: "upper_char (digit_char (n mod 16)) = [y]" "hex_digit y" "hex_digit_value y = n mod 16"
    using upper_digit [of "n mod 16"] by auto
  have "n div 16 mod 16 = n div 16" using assms by (simp add: mod_pos_pos_trivial)
  then have "escaped n = [CHR ''%'', x, y]" using x(1) y(1) by (simp add: escaped_def upper_def numeral_2_eq_2)
  moreover have "escape_octet x y = n" using x(3) y(3) by (simp add: escape_octet_def)
  ultimately show ?thesis using that x(2) y(2) by blast
qed

lemma normalize_plain:
  "c \<noteq> CHR ''%'' \<Longrightarrow> normalize_escapes (c # cs) = Inr r \<longleftrightarrow> (\<exists>t. normalize_escapes cs = Inr t \<and> r = c # t)"
  by (auto simp: and_then_Inr_iff)

lemma normalize_escape:
  "normalize_escapes (CHR ''%'' # cs) = Inr r \<longleftrightarrow>
     (\<exists>a b rest t. cs = a # b # rest \<and> hex_digit a \<and> hex_digit b \<and> \<not> unsafe_octet (escape_octet a b) \<and>
        normalize_escapes rest = Inr t \<and> r = escape_piece (escape_octet a b) @ t)"
  by (auto simp: and_then_Inr_iff split: list.splits if_splits)

lemma normalize_induct [consumes 1, case_names nil plain escape]:
  assumes "normalize_escapes v = Inr r" and "P [] []"
    and "\<And>c cs t. c \<noteq> CHR ''%'' \<Longrightarrow> normalize_escapes cs = Inr t \<Longrightarrow> P cs t \<Longrightarrow> P (c # cs) (c # t)"
    and "\<And>a b rest t. hex_digit a \<Longrightarrow> hex_digit b \<Longrightarrow> \<not> unsafe_octet (escape_octet a b) \<Longrightarrow> normalize_escapes rest = Inr t \<Longrightarrow>
       P rest t \<Longrightarrow> P (CHR ''%'' # a # b # rest) (escape_piece (escape_octet a b) @ t)"
  shows "P v r"
  using assms(1)
proof (induction "length v" arbitrary: v r rule: less_induct)
  case less
  show ?case
  proof (cases v)
    case Nil
    with less(2) show ?thesis using assms(2) by simp
  next
    case (Cons c cs)
    show ?thesis
    proof (cases "c = CHR ''%''")
      case True
      from less(2) [unfolded Cons True normalize_escape] obtain a b rest' t where
        "cs = a # b # rest'" "hex_digit a" "hex_digit b" "\<not> unsafe_octet (escape_octet a b)" "normalize_escapes rest' = Inr t"
        "r = escape_piece (escape_octet a b) @ t" by blast
      with Cons True less(1) assms(4) show ?thesis by simp
    next
      case False
      from less(2) [unfolded Cons normalize_plain [OF False]] obtain t where "normalize_escapes cs = Inr t" "r = c # t" by blast
      with Cons False less(1) assms(3) show ?thesis by simp
    qed
  qed
qed

lemma unreserved_not_percent: "unreserved c \<Longrightarrow> c \<noteq> CHR ''%''"
  by (auto simp: unreserved_def is_alnum_def is_lower_def is_upper_def is_digit_def in_range_def code_def)

lemma escape_piece_cases:
  assumes "hex_digit a" "hex_digit b"
  obtains "unreserved (octet_char (escape_octet a b))" "escape_piece (escape_octet a b) = [octet_char (escape_octet a b)]"
  | x y where "\<not> unreserved (octet_char (escape_octet a b))" "escape_piece (escape_octet a b) = [CHR ''%'', x, y]" "hex_digit x"
      "hex_digit y" "escape_octet x y = escape_octet a b"
proof (cases "unreserved (octet_char (escape_octet a b))")
  case True
  then show ?thesis using that(1) by (simp add: escape_piece_def)
next
  case False
  obtain x y where "escaped (escape_octet a b) = [CHR ''%'', x, y]" "hex_digit x" "hex_digit y" "escape_octet x y = escape_octet a b"
    using escaped_octet [of "escape_octet a b"] escape_octet_bounds [OF assms] by blast
  with False show ?thesis using that(2) by (simp add: escape_piece_def)
qed

lemma normalize_stable: "normalize_escapes v = Inr r \<Longrightarrow> normalize_escapes r = Inr r"
proof (induction rule: normalize_induct)
  case (escape a b rest t)
  from escape(1,2) show ?case
  proof (cases rule: escape_piece_cases)
    case 1
    then show ?thesis using escape(5) unreserved_not_percent by simp
  next
    case (2 x y)
    have "normalize_escapes (CHR ''%'' # x # y # t) = Inr (escape_piece (escape_octet x y) @ t)"
      using normalize_escape [of "x # y # t"] 2(3,4,5) escape(3,5) by auto
    with 2 show ?thesis by simp
  qed
qed simp_all

lemma normalize_decodes: "normalize_escapes v = Inr r \<Longrightarrow> percent_decode r = percent_decode v"
proof (induction rule: normalize_induct)
  case (escape a b rest t)
  from escape(1,2) show ?case
    by (cases rule: escape_piece_cases) (use escape(5) in \<open>simp_all add: percent_decode_plain unreserved_not_percent\<close>)
qed (simp_all add: percent_decode_plain)

lemma normalize_length: "normalize_escapes v = Inr r \<Longrightarrow> length r \<le> length v"
proof (induction rule: normalize_induct)
  case (escape a b rest t)
  from escape(1,2) show ?case by (cases rule: escape_piece_cases) (use escape(5) in simp_all)
qed simp_all

lemma normalize_chars:
  "normalize_escapes v = Inr r \<Longrightarrow> \<forall>c\<in>set r. c \<in> set v \<or> unreserved c \<or> hex_digit c"
proof (induction rule: normalize_induct)
  case (escape a b rest t)
  from escape(1,2) show ?case by (cases rule: escape_piece_cases) (use escape(5) in auto)
qed auto

lemma normalize_unreserved: "normalize_escapes s = Inr t \<Longrightarrow> list_all unreserved (percent_decode s) \<longrightarrow> t = percent_decode s"
proof (induction rule: normalize_induct)
  case (escape a b rest t)
  from escape(1,2) show ?case by (cases rule: escape_piece_cases) (use escape(5) in simp_all)
qed (simp_all add: percent_decode_plain)

lemma split_on_plain: "c \<noteq> sep \<Longrightarrow> split_on sep (c # s) = (c # hd (split_on sep s)) # tl (split_on sep s)"
  by (cases "split_on sep s") auto

lemma list_all2_hd: "list_all2 P xs ys \<Longrightarrow> xs \<noteq> [] \<Longrightarrow> P (hd xs) (hd ys) \<and> list_all2 P (tl xs) (tl ys)"
  by (cases xs; cases ys) auto

lemma hex_digit_not_slash: "hex_digit c \<Longrightarrow> c \<noteq> CHR ''/''"
  by (auto simp: hex_digit_def)

lemma unreserved_not_slash: "unreserved c \<Longrightarrow> c \<noteq> CHR ''/''"
  by (auto simp: unreserved_def is_alnum_def is_lower_def is_upper_def is_digit_def in_range_def code_def)

lemma normalize_segments:
  "normalize_escapes v = Inr r \<Longrightarrow>
     list_all2 (\<lambda>s t. normalize_escapes s = Inr t) (split_on (CHR ''/'') v) (split_on (CHR ''/'') r)"
proof (induction rule: normalize_induct)
  case (plain c cs t)
  then show ?case
    using list_all2_hd [OF plain(3)]
    by (cases "c = CHR ''/''") (simp, simp add: split_on_plain normalize_plain del: split_on.simps normalize_escapes.simps)
next
  case (escape a b rest t)
  let ?w = "hd (split_on (CHR ''/'') rest)" and ?n = "escape_octet a b"
  from list_all2_hd [OF escape(5)] have tl: "normalize_escapes ?w = Inr (hd (split_on (CHR ''/'') t))"
    "list_all2 (\<lambda>s t. normalize_escapes s = Inr t) (tl (split_on (CHR ''/'') rest)) (tl (split_on (CHR ''/'') t))" by simp_all
  have "normalize_escapes (CHR ''%'' # a # b # ?w) = Inr (escape_piece ?n @ hd (split_on (CHR ''/'') t))"
    using normalize_escape [of "a # b # ?w"] escape(1-3) tl(1) by auto
  moreover have "split_on (CHR ''/'') (escape_piece ?n @ t) = (escape_piece ?n @ hd (split_on (CHR ''/'') t)) # tl (split_on (CHR ''/'') t)"
    using escape(1,2) by (cases rule: escape_piece_cases) (auto simp: split_on_plain unreserved_not_slash hex_digit_not_slash simp del: split_on.simps)
  ultimately show ?case using tl(2) escape(1,2) by (simp add: split_on_plain hex_digit_not_slash del: split_on.simps normalize_escapes.simps)
qed simp

lemma decode_segments:
  "normalize_escapes v = Inr r \<Longrightarrow> split_on (CHR ''/'') (percent_decode v) = map percent_decode (split_on (CHR ''/'') v)"
proof (induction rule: normalize_induct)
  case (plain c cs t)
  then show ?case by (cases "c = CHR ''/''") (simp_all add: percent_decode_plain split_on_plain hd_map map_tl [symmetric] del: split_on.simps(2), simp)
next
  case (escape a b rest t)
  have "octet_char (escape_octet a b) \<noteq> CHR ''/''" using escape(3) by (auto simp: unsafe_octet_def)
  with escape show ?case by (simp add: split_on_plain hex_digit_not_slash hd_map map_tl [symmetric] del: split_on.simps)
qed simp

lemma canonical_target_path_Inr:
  "canonical_target_path v = Inr r \<longleftrightarrow>
     target_chars_ok v \<and> list_all (\<lambda>c. code c < 128) v \<and> normalize_escapes v = Inr r \<and>
     list_all plain_segment (tl (split_on (CHR ''/'') r))"
  by (auto simp: canonical_target_path_def and_then_Inr_iff)

definition target_char :: "char \<Rightarrow> bool" where
  "target_char c \<longleftrightarrow> c \<noteq> CHR 0x5C \<and> c \<noteq> CHR ''?'' \<and> c \<noteq> CHR ''#'' \<and> \<not> is_control c \<and> code c < 128"

lemma plain_target_chars: "unreserved c \<or> hex_digit c \<Longrightarrow> target_char c"
  by (auto simp: target_char_def unreserved_def hex_digit_def is_control_def is_alnum_def is_lower_def is_upper_def is_digit_def
      in_range_def code_def)

lemma canonical_target_stable:
  assumes "canonical_target_path v = Inr r"
  shows "canonical_target_path r = Inr r"
proof -
  note v = assms [unfolded canonical_target_path_Inr target_chars_ok_def]
  then have n: "normalize_escapes v = Inr r" by blast
  obtain v' where "v = CHR ''/'' # v'" using v by (cases v) auto
  with n obtain r' where r': "r = CHR ''/'' # r'" by (auto simp: and_then_Inr_iff)
  have "target_char c" if "c \<in> set v" for c using v that by (auto simp: target_char_def list_all_iff)
  then have "\<forall>c\<in>set r. target_char c" using normalize_chars [OF n] plain_target_chars by blast
  moreover have "int (length r) \<le> 2048" using normalize_length [OF n] v by simp
  moreover have "take 2 r \<noteq> ''//''"
    using v r' by (cases r') (auto simp: plain_segment_def)
  ultimately show ?thesis
    using v r' normalize_stable [OF n] by (auto simp: canonical_target_path_Inr target_chars_ok_def list_all_iff target_char_def)
qed

lemma canonical_target_segments:
  assumes "canonical_target_path v = Inr r"
  shows "list_all plain_segment (tl (split_on (CHR ''/'') (percent_decode v)))"
proof -
  from assms have n: "normalize_escapes v = Inr r" and plain: "list_all plain_segment (tl (split_on (CHR ''/'') r))"
    by (simp_all add: canonical_target_path_Inr)
  have seg: "plain_segment (percent_decode x)" if "normalize_escapes x = Inr t" "plain_segment t" for x t
    using normalize_unreserved [OF that(1)] that(2)
    by (auto simp: plain_segment_def unreserved_def)
  have "list_all2 (\<lambda>x t. normalize_escapes x = Inr t) (tl (split_on (CHR ''/'') v)) (tl (split_on (CHR ''/'') r))"
    using list_all2_hd [OF normalize_segments [OF n]] by simp
  then have "list_all plain_segment (map percent_decode (tl (split_on (CHR ''/'') v)))"
    using plain by (induction rule: list_all2_induct) (auto intro: seg)
  then show ?thesis by (simp add: decode_segments [OF n] map_tl)
qed

section \<open>Token text reads back\<close>

lemma b64_body_alphabet: "set (b64_body v) \<subseteq> set b64_alphabet"
  by (induction v rule: b64_body.induct) (auto simp: b64_symbol_in octet_digits octet_parts)

definition part_char :: "char \<Rightarrow> bool" where
  "part_char c \<longleftrightarrow> is_alnum c \<or> c = CHR ''_'' \<or> c = CHR ''-''"

lemma url_alphabet:
  assumes "c \<in> set b64_alphabet"
  shows "part_char (url_symbol c)" "std_symbol (url_symbol c) = c" "url_symbol c \<noteq> CHR ''=''" "url_symbol c \<noteq> CHR ''.''"
proof -
  have "list_all (\<lambda>c. part_char (url_symbol c) \<and> std_symbol (url_symbol c) = c \<and> url_symbol c \<noteq> CHR ''='' \<and> url_symbol c \<noteq> CHR ''.'')
     b64_alphabet" by code_simp
  with assms show "part_char (url_symbol c)" "std_symbol (url_symbol c) = c" "url_symbol c \<noteq> CHR ''=''" "url_symbol c \<noteq> CHR ''.''"
    by (auto simp: list_all_iff)
qed

lemma encode_part_body: "encode_part v = map url_symbol (b64_body v)"
proof -
  let ?P = "\<lambda>c. c = CHR ''=''"
  have "map url_symbol (b64_padding s) = b64_padding s" for s by (simp add: b64_padding_def url_symbol_def)
  moreover have "rev (b64_padding s) = b64_padding s" for s by (simp add: b64_padding_def)
  moreover have "dropWhile ?P (b64_padding s @ xs) = dropWhile ?P xs" for s xs
    by (simp add: b64_padding_def dropWhile_append)
  moreover have "dropWhile ?P (rev (map url_symbol (b64_body v))) = rev (map url_symbol (b64_body v))"
  proof -
    have "\<forall>c\<in>set (rev (map url_symbol (b64_body v))). c \<noteq> CHR ''=''" using url_alphabet(3) b64_body_alphabet [of v] by auto
    then show ?thesis by (cases "rev (map url_symbol (b64_body v))") simp_all
  qed
  ultimately show ?thesis by (simp add: encode_part_def b64encode_def)
qed

lemma encode_part_chars: "list_all part_char (encode_part v)" "CHR ''.'' \<notin> set (encode_part v)"
proof -
  have "part_char (url_symbol c) \<and> url_symbol c \<noteq> CHR ''.''" if "c \<in> set (b64_body v)" for c
    using url_alphabet(1,4) [of c] b64_body_alphabet [of v] that by blast
  then show "list_all part_char (encode_part v)" "CHR ''.'' \<notin> set (encode_part v)"
    by (auto simp: encode_part_body list_all_iff) metis
qed

lemma std_encode_part: "map std_symbol (encode_part v @ b64_padding (encode_part v)) = b64encode v"
proof -
  have "map std_symbol (encode_part v) = b64_body v"
    using url_alphabet(2) b64_body_alphabet [of v] by (auto simp: encode_part_body intro!: map_idI)
  moreover have "map std_symbol (b64_padding s) = b64_padding s" for s by (simp add: b64_padding_def std_symbol_def)
  moreover have "b64_padding (encode_part v) = b64_padding (b64_body v)" by (simp add: b64_padding_def encode_part_body)
  ultimately show ?thesis by (simp add: b64encode_def)
qed

lemma b64_body_length: "int (length (b64_body v)) = (4 * int (length v) + 2) div 3"
proof (induction v rule: b64_body.induct)
  case (4 a b c rest')
  have "(4 * (int (length rest') + 3) + 2) div 3 = (4 * int (length rest') + 2) div 3 + 4" by presburger
  with 4 show ?case by simp
qed simp_all

lemma part_roundtrip: "v \<noteq> [] \<Longrightarrow> int (length v) \<le> m \<Longrightarrow> decode_part (encode_part v) m = Inr v"
proof -
  assume v: "v \<noteq> []" "int (length v) \<le> m"
  then have "encode_part v \<noteq> []" by (cases v rule: b64_body.cases) (auto simp: encode_part_body)
  moreover have "list_all (\<lambda>c. is_alnum c \<or> c = CHR ''_'' \<or> c = CHR ''-'') (encode_part v)"
    using encode_part_chars(1) [of v] by (simp add: list_all_iff part_char_def)
  ultimately show ?thesis
    using v by (simp add: decode_part_def std_encode_part b64_roundtrip del: map_append)
qed

lemma split_on_append: "sep \<notin> set a \<Longrightarrow> split_on sep (a @ sep # b) = a # split_on sep b"
  by (induction a) (auto split: list.splits)

lemma split_on_absent: "sep \<notin> set a \<Longrightarrow> split_on sep a = [a]"
  by (induction a) auto

lemma encode_token_Inr:
  "encode_token payload signature = Inr token \<longleftrightarrow>
     payload \<noteq> [] \<and> int (length payload) \<le> 6144 \<and> length signature = 32 \<and>
     token = token_prefix @ CHR ''.'' # encode_part payload @ CHR ''.'' # encode_part signature"
  by (auto simp: encode_token_def)

lemma token_parts:
  assumes "encode_token payload signature = Inr token"
  shows "split_on (CHR ''.'') token = [token_prefix, encode_part payload, encode_part signature]"
proof -
  have "CHR ''.'' \<notin> set token_prefix" by (simp add: token_prefix_def)
  then show ?thesis using assms encode_part_chars(2) by (auto simp: encode_token_Inr split_on_append split_on_absent)
qed

lemma read_token_encoded:
  assumes "encode_token payload signature = Inr token" and "strict_json_loads fparse stack 6144 payload = Inr (JObj d)"
  shows "read_token fparse stack (encode_part payload) (encode_part signature) =
     and_then (claims_from_dict d) (\<lambda>claims. Inr (claims, payload, signature))"
proof -
  have "signature \<noteq> []" using assms(1) by (auto simp: encode_token_Inr)
  then show ?thesis using assms part_roundtrip by (simp add: read_token_def encode_token_Inr)
qed

section \<open>Claims read back\<close>

definition claims_ok :: "delegation_claims \<Rightarrow> bool" where
  "claims_ok c \<longleftrightarrow>
     dc_version c = 1 \<and> identifier_text (dc_issuer c) \<and> identifier_text (dc_subject_id c) \<and> identifier_text (dc_audience c) \<and>
     pred_option identifier_text (dc_actor_id c) \<and> pred_option identifier_text (dc_client_id c) \<and> key_id_ok (dc_key_id c) \<and>
     canonical_method (dc_method c) = Inr (dc_method c) \<and> canonical_target_path (dc_path c) = Inr (dc_path c) \<and>
     is_frozenset (dc_scopes c) \<and> length (dc_scopes c) \<le> 128 \<and> list_all scope_name (dc_scopes c) \<and>
     is_aware (dc_issued_at c) \<and> is_aware (dc_not_before c) \<and> is_aware (dc_expires_at c) \<and>
     instant (dc_issued_at c) \<le> instant (dc_not_before c) \<and> instant (dc_not_before c) < instant (dc_expires_at c) \<and>
     total_seconds (instant (dc_expires_at c) - instant (dc_issued_at c)) \<le> 3600 \<and>
     1 \<le> dc_delegation_depth c \<and> dc_delegation_depth c \<le> 16"

lemma require_identifier_Inr: "require_identifier name v = Inr u \<longleftrightarrow> pred_option identifier_text v"
  by (auto simp: require_identifier_def result_simps split: option.splits)

lemma canonical_method_Inr: "canonical_method v = Inr m \<longleftrightarrow> head_tail_match is_upper method_tail 31 v \<and> m = v"
  by (auto simp: canonical_method_def)

lemma length_frozenset: "length (frozenset xs) \<le> length xs"
  by (simp add: frozenset_def length_remdups_leq)

lemma claims_post_init_ok:
  assumes "claims_post_init c = Inr d"
  shows "claims_ok d \<and> canonical_target_path (dc_path c) = Inr (dc_path d) \<and>
    d = c\<lparr>dc_path := dc_path d, dc_scopes := frozenset (dc_scopes c)\<rparr>"
proof -
  from assms obtain path where path: "canonical_target_path (dc_path c) = Inr path"
    and d: "d = c\<lparr>dc_path := path, dc_scopes := frozenset (dc_scopes c)\<rparr>"
    and rest: "dc_version c = 1" "identifier_text (dc_issuer c)" "identifier_text (dc_subject_id c)" "identifier_text (dc_audience c)"
      "pred_option identifier_text (dc_actor_id c)" "pred_option identifier_text (dc_client_id c)" "key_id_ok (dc_key_id c)"
      "canonical_method (dc_method c) = Inr (dc_method c)" "length (dc_scopes c) \<le> 128" "list_all scope_name (dc_scopes c)"
      "is_aware (dc_issued_at c)" "is_aware (dc_not_before c)" "is_aware (dc_expires_at c)"
      "instant (dc_issued_at c) \<le> instant (dc_not_before c)" "instant (dc_not_before c) < instant (dc_expires_at c)"
      "total_seconds (instant (dc_expires_at c) - instant (dc_issued_at c)) \<le> 3600"
      "1 \<le> dc_delegation_depth c" "dc_delegation_depth c \<le> 16"
    unfolding claims_post_init_def require_claim_time_def
    by (auto simp: result_simps require_identifier_Inr canonical_method_Inr)
  then show ?thesis
    using canonical_target_stable [OF path] length_frozenset [of "dc_scopes c"] by (simp add: claims_ok_def list_all_iff)
qed

lemma claims_post_init_fixed: "claims_ok c \<Longrightarrow> claims_post_init c = Inr c"
proof -
  assume ok: "claims_ok c"
  have "require_identifier name v = Inr ()" if "pred_option identifier_text v" for name v
    using that require_identifier_Inr [of name v "()"] by simp
  with ok show ?thesis by (simp add: claims_post_init_def claims_ok_def require_claim_time_def)
qed

lemma normalize_escapes_Inl: "normalize_escapes v = Inl e \<Longrightarrow> \<exists>m. e = ConfigurationError m"
proof (induction "length v" arbitrary: v rule: less_induct)
  case less
  show ?case
  proof (cases v rule: percent_decode.cases)
    case (1 c a b rest')
    have "\<exists>m. e = ConfigurationError m" if "normalize_escapes w = Inl e" "length w < length v" for w using less that by blast
    then show ?thesis using less(2) 1 by (auto simp: and_then_Inl_iff simp del: normalize_escapes.simps(2)
          simp: normalize_escapes.simps(2) [of c "a # b # rest'"] split: if_splits)
  qed (use less(2) in \<open>auto simp: and_then_Inl_iff split: if_splits\<close>)
qed

lemma canonical_target_path_Inl: "canonical_target_path v = Inl e \<Longrightarrow> \<exists>m. e = ConfigurationError m"
  by (auto simp: canonical_target_path_def and_then_Inl_iff split: if_splits dest: normalize_escapes_Inl)

lemma canonical_method_Inl: "canonical_method v = Inl e \<Longrightarrow> \<exists>m. e = ConfigurationError m"
  by (auto simp: canonical_method_def split: if_splits)

lemma require_identifier_Inl: "require_identifier name v = Inl e \<Longrightarrow> \<exists>m. e = ConfigurationError m"
  by (auto simp: require_identifier_def ensure_Inl_iff split: option.splits)

lemma claims_post_init_Inl: "claims_post_init c = Inl e \<Longrightarrow> \<exists>m. e = ConfigurationError m"
  unfolding claims_post_init_def and_then_Inl_iff ensure_Inl_iff require_claim_time_def
  by (auto dest: require_identifier_Inl canonical_method_Inl canonical_target_path_Inl)

text \<open>Times travel as whole seconds.\<close>

definition whole_second :: "py_datetime \<Rightarrow> py_datetime" where
  "whole_second t = Aware (epoch t * second)"

definition whole_seconds :: "delegation_claims \<Rightarrow> delegation_claims" where
  "whole_seconds c =
     c\<lparr>dc_issued_at := whole_second (dc_issued_at c), dc_not_before := whole_second (dc_not_before c),
       dc_expires_at := whole_second (dc_expires_at c)\<rparr>"

definition datetime_range :: "py_datetime \<Rightarrow> bool" where
  "datetime_range t \<longleftrightarrow> dt_min \<le> instant t \<and> instant t \<le> dt_max"

lemma epoch_range: "datetime_range t \<Longrightarrow> fromtimestamp (epoch t) = Inr (whole_second t)"
proof -
  assume t: "datetime_range t"
  have "dt_min \<le> epoch t * second \<and> epoch t * second \<le> dt_max"
  proof (cases "0 \<le> instant t")
    case True
    then have "0 \<le> epoch t * second" "epoch t * second \<le> instant t" by (simp_all add: epoch_def) 
    with t show ?thesis by (simp add: datetime_range_def dt_min_def)
  next
    case False
    then have "epoch t * second \<le> 0" "instant t \<le> epoch t * second" by (simp_all add: epoch_def)
    with t show ?thesis by (simp add: datetime_range_def dt_max_def)
  qed
  then show ?thesis by (simp add: fromtimestamp_def whole_second_def)
qed

lemma traverse_json_str [simp]: "traverse json_str (map JStr ss) = Inr ss"
  by (induction ss) simp_all

lemma json_optional_json [simp]: "json_optional (optional_json v) = Inr v"
  by (cases v) (simp_all add: json_optional_def optional_json_def)

lemma claims_dict_keys: "map fst (claims_to_dict c) = claim_fields"
  by (simp add: claims_to_dict_def claim_fields_def)

lemma claims_from_dict_back:
  assumes "map_of d = map_of (claims_to_dict c)" "datetime_range (dc_issued_at c)" "datetime_range (dc_not_before c)"
    "datetime_range (dc_expires_at c)"
  shows "claims_from_dict d = claims_post_init (whole_seconds c)"
proof -
  have "set (map fst d) = set claim_fields"
    using assms(1) claims_dict_keys [of c] by (metis dom_map_of_conv_image_fst list.set_map)
  moreover have "read_claims (\<lambda>k. the (map_of (claims_to_dict c) k)) (dc_scopes c) = claims_post_init (whole_seconds c)"
    using epoch_range [OF assms(2)] epoch_range [OF assms(3)] epoch_range [OF assms(4)]
    by (cases c) (simp add: read_claims_def claims_to_dict_def json_uuid_def json_time_def uuid_text_roundtrip whole_seconds_def)
  moreover have "scope_items (the (map_of (claims_to_dict c) ''scopes'')) = Some (dc_scopes c)"
    by (simp add: claims_to_dict_def scope_items_def)
  ultimately show ?thesis
    using assms(1) claims_post_init_Inl [of "whole_seconds c"] by (auto simp: claims_from_dict_def split: sum.splits)
qed

lemma map_of_sort_key: "distinct (map fst ms) \<Longrightarrow> map_of (sort_key fst ms) = map_of ms"
  using sort_keys_distinct [where g = snd, of ms] by (intro map_of_inject_set [THEN iffD2]) simp_all

lemma canon_claims: "map (\<lambda>m. (fst m, canon (snd m))) (claims_to_dict c) = claims_to_dict c"
  by (simp add: claims_to_dict_def optional_json_def comp_def split: option.splits)

lemma claims_floats: "floats_read_back frepr fparse (JObj (claims_to_dict c))"
  by (simp add: claims_to_dict_def optional_json_def list_all_iff split: option.splits)

lemma claims_distinct: "distinct (map fst (claims_to_dict c))"
  unfolding claims_dict_keys by code_simp

lemma claims_bytes_back:
  assumes "claims_bytes frepr c = Inr payload" and "65 \<le> stack" and "int (length payload) \<le> 6144"
  shows "\<exists>d. strict_json_loads fparse stack 6144 payload = Inr (JObj d) \<and> map_of d = map_of (claims_to_dict c)"
  using canonical_reads_back [OF assms(1) [unfolded claims_bytes_def] claims_floats assms(2,3), of fparse]
  by (auto simp: canon_claims map_of_sort_key claims_distinct)

lemma decode_minted:
  assumes "claims_bytes frepr c = Inr payload" "encode_token payload signature = Inr token" "65 \<le> stack" "length token \<le> 8192"
    and "datetime_range (dc_issued_at c)" "datetime_range (dc_not_before c)" "datetime_range (dc_expires_at c)"
  shows "decode_token fparse stack token =
    (case claims_post_init (whole_seconds c) of Inl _ \<Rightarrow> Inl AuthorizationDenied | Inr w \<Rightarrow> Inr (w, payload, signature))"
proof -
  have "int (length payload) \<le> 6144" "token \<noteq> []" using assms(2) by (simp_all add: encode_token_Inr)
  then obtain d where d: "strict_json_loads fparse stack 6144 payload = Inr (JObj d)" "map_of d = map_of (claims_to_dict c)"
    using claims_bytes_back [OF assms(1,3)] by blast
  from read_token_encoded [OF assms(2) d(1)] claims_from_dict_back [OF d(2) assms(5-7)]
  have "read_token fparse stack (encode_part payload) (encode_part signature) =
      and_then (claims_post_init (whole_seconds c)) (\<lambda>w. Inr (w, payload, signature))" by simp
  with token_parts [OF assms(2)] assms(4) \<open>token \<noteq> []\<close> claims_post_init_Inl [of "whole_seconds c"] show ?thesis
    by (auto simp: decode_token_def split: sum.splits)
qed

section \<open>Properties\<close>

text \<open>
  C24. A canonical target path is a fixed point of the canonicalisation, denotes the same octets as the path it was computed from,
  and no segment of the decoded path is empty, \<^verbatim>\<open>.\<close> or \<^verbatim>\<open>..\<close>: neither an escape nor an encoded slash can smuggle a path
  traversal past the comparison of targets.
\<close>

theorem canonical_target_sound:
  assumes "canonical_target_path v = Inr r"
  shows "canonical_target_path r = Inr r \<and> percent_decode r = percent_decode v \<and>
    list_all plain_segment (tl (split_on (CHR ''/'') (percent_decode v)))"
  using canonical_target_stable [OF assms] canonical_target_segments [OF assms] assms normalize_decodes
  by (auto simp: canonical_target_path_Inr)

theorem canonical_target_sound_witness:
  "canonical_target_path ''/invoices/%41%2d%3a'' = Inr ''/invoices/A-%3A'' \<and>
   canonical_target_path ''/invoices/A-%3A'' = Inr ''/invoices/A-%3A''"
proof -
  have c: "canonical_target_path ''/invoices/%41%2d%3a'' = Inr ''/invoices/A-%3A''" by code_simp
  from canonical_target_sound [OF c] c show ?thesis by blast
qed

end
