(* ===== verification/Delegation_Keys.thy ===== *)
theory Delegation_Keys
  imports Delegation_Claims Observability
begin

text \<open>
  \<^verbatim>\<open>delegation/audit.py\<close> and \<^verbatim>\<open>delegation/keys.py\<close>: token-free audit events and the process-local ring of signing keys with its
  rotation and revocation. The audit sink is an argument; an operation returns the ring it leaves behind, the events it handed to
  the sink and its result, because a sink or an event that raises does so after the ring was changed.
\<close>

section \<open>Audit events\<close>

record audit_event =
  ae_occurred_at :: py_datetime
  ae_outcome :: audit_outcome
  ae_tenant_id :: "uuid option"
  ae_subject_id :: "string option"
  ae_audience :: string
  ae_target_id :: string
  ae_scopes :: "string list"
  ae_key_id :: "string option"
  ae_actor_id :: "string option"
  ae_client_id :: "string option"
  ae_token_id :: "uuid option"
  ae_delegation_depth :: "int option"
  ae_trace_id :: "string option"

definition audit_identities :: "audit_event \<Rightarrow> string option list" where
  "audit_identities e =
     [ae_subject_id e, ae_actor_id e, ae_client_id e, Some (ae_audience e), Some (ae_target_id e), ae_key_id e, ae_trace_id e]"

definition optional_identifier :: "string option \<Rightarrow> bool" where
  "optional_identifier v = (case v of None \<Rightarrow> True | Some s \<Rightarrow> identifier_text s)"

definition audit_post_init :: "audit_event \<Rightarrow> audit_event result" where
  "audit_post_init e =
     (if \<not> is_aware (ae_occurred_at e) then config_error ''Delegation audit time must be timezone-aware.''
      else if \<not> list_all optional_identifier (audit_identities e) then config_error ''Delegation audit identity is invalid.''
      else if 128 < int (length (ae_scopes e)) \<or> \<not> list_all identifier_text (ae_scopes e)
      then config_error ''Delegation audit scopes are invalid.''
      else if (case ae_delegation_depth e of None \<Rightarrow> False | Some n \<Rightarrow> \<not> (1 \<le> n \<and> n \<le> 16))
      then config_error ''Delegation audit depth is invalid.''
      else Inr (e\<lparr>ae_scopes := frozenset (ae_scopes e)\<rparr>))"

text \<open>\<open>record_audit\<close>: build the event and hand it to the sink, then continue with the caller's result.\<close>

type_synonym audit_sink = "audit_event \<Rightarrow> unit result"

definition record_audit :: "audit_sink \<Rightarrow> audit_event result \<Rightarrow> 'a result \<Rightarrow> audit_event list \<times> 'a result" where
  "record_audit sink event r =
     (case event of
        Inl e \<Rightarrow> ([], Inl e)
      | Inr a \<Rightarrow> ([a], and_then (sink a) (\<lambda>_. r)))"

definition delegation_target_id :: "(bytes \<Rightarrow> bytes) \<Rightarrow> string \<Rightarrow> string \<Rightarrow> string" where
  "delegation_target_id sha256 verb path = ''target:'' @ hexdigest (sha256 (utf8 (verb @ [CHR 0x00] @ path)))"

section \<open>Keys\<close>

datatype key_state = ActiveKey | RetiringKey | RevokedKey

record signing_key =
  sk_key_id :: string
  sk_secret :: bytes
  sk_state :: key_state
  sk_retired_at :: "py_datetime option"
  sk_verify_until :: "py_datetime option"

definition aware_optional :: "py_datetime option \<Rightarrow> bool" where
  "aware_optional t = (case t of None \<Rightarrow> True | Some u \<Rightarrow> is_aware u)"

definition overlap_interval :: "signing_key \<Rightarrow> int option" where
  "overlap_interval k =
     (case (sk_retired_at k, sk_verify_until k) of (Some r, Some v) \<Rightarrow> Some (instant v - instant r) | _ \<Rightarrow> None)"

definition signing_key_post_init :: "signing_key \<Rightarrow> signing_key result" where
  "signing_key_post_init k =
     (if \<not> key_id_ok (sk_key_id k) then config_error ''Delegation signing key ID is invalid.''
      else if \<not> (32 \<le> int (length (sk_secret k)) \<and> int (length (sk_secret k)) \<le> 128)
      then config_error ''Delegation signing key material is invalid.''
      else if \<not> aware_optional (sk_retired_at k) \<or> \<not> aware_optional (sk_verify_until k)
      then config_error ''Delegation key retirement time is invalid.''
      else if sk_state k = RetiringKey \<and> (case overlap_interval k of None \<Rightarrow> True | Some d \<Rightarrow> d \<le> 0)
      then config_error ''A retiring key requires a valid overlap interval.''
      else if sk_state k \<noteq> RetiringKey \<and> (sk_retired_at k \<noteq> None \<or> sk_verify_until k \<noteq> None)
      then config_error ''Only retiring keys accept retirement times.''
      else Inr k)"

text \<open>The ring: a dict from key IDs to keys, kept in insertion order, and the longest overlap a rotation may have.\<close>

record key_ring =
  kr_keys :: "(string \<times> signing_key) list"
  kr_maximum_overlap :: int

definition active_keys :: "(string \<times> signing_key) list \<Rightarrow> signing_key list" where
  "active_keys ks = filter (\<lambda>k. sk_state k = ActiveKey) (map snd ks)"

definition excessive_overlap :: "int \<Rightarrow> signing_key \<Rightarrow> bool" where
  "excessive_overlap maximum k \<longleftrightarrow> sk_state k = RetiringKey \<and> (case overlap_interval k of None \<Rightarrow> False | Some d \<Rightarrow> maximum < d)"

definition new_key_ring :: "signing_key list \<Rightarrow> int \<Rightarrow> key_ring result" where
  "new_key_ring keys maximum_overlap =
     (let by_id = map (\<lambda>k. (sk_key_id k, k)) keys in
      if keys = [] \<or> 16 < int (length keys) then config_error ''Delegation key ring size is invalid.''
      else if \<not> distinct (map fst by_id) then config_error ''Delegation key ring repeats a key ID.''
      else if length (active_keys by_id) \<noteq> 1 then config_error ''Delegation key ring requires exactly one active key.''
      else if maximum_overlap < second \<or> 3600 * second < maximum_overlap then config_error ''Delegation key overlap policy is invalid.''
      else if list_ex (excessive_overlap maximum_overlap) keys then config_error ''Delegation retiring key overlap is excessive.''
      else Inr \<lparr>kr_keys = by_id, kr_maximum_overlap = maximum_overlap\<rparr>)"

definition key_time :: "py_datetime \<Rightarrow> unit result" where
  "key_time now = ensure (is_aware now) (ConfigurationError ''Delegation key operation time must be timezone-aware.'')"

definition signing_key_for :: "key_ring \<Rightarrow> py_datetime \<Rightarrow> signing_key result" where
  "signing_key_for ring now =
     and_then (key_time now) (\<lambda>_.
       case active_keys (kr_keys ring) of
         [k] \<Rightarrow> Inr k
       | _ \<Rightarrow> config_error ''Delegation signing is disabled without an active key.'')"

definition verification_key :: "key_ring \<Rightarrow> string \<Rightarrow> py_datetime \<Rightarrow> signing_key option result" where
  "verification_key ring key_id now =
     and_then (key_time now) (\<lambda>_.
       case map_of (kr_keys ring) key_id of
         None \<Rightarrow> Inr None
       | Some k \<Rightarrow>
           if sk_state k = RevokedKey then Inr None
           else if sk_state k = RetiringKey \<and> (case sk_verify_until k of None \<Rightarrow> False | Some t \<Rightarrow> instant t \<le> instant now) then Inr None
           else Inr (Some k))"

definition key_event :: "py_datetime \<Rightarrow> audit_outcome \<Rightarrow> string \<Rightarrow> string option \<Rightarrow> audit_event result" where
  "key_event now outcome key_id trace_id =
     audit_post_init
       \<lparr>ae_occurred_at = now, ae_outcome = outcome, ae_tenant_id = None, ae_subject_id = None, ae_audience = ''delegation-keyring'',
        ae_target_id = key_id, ae_scopes = [], ae_key_id = Some key_id, ae_actor_id = None, ae_client_id = None, ae_token_id = None,
        ae_delegation_depth = None, ae_trace_id = trace_id\<rparr>"

text \<open>Assigning to a key of the dict keeps its place; a new key goes last.\<close>

definition store_key :: "signing_key \<Rightarrow> (string \<times> signing_key) list \<Rightarrow> (string \<times> signing_key) list" where
  "store_key k ks =
     (if sk_key_id k \<in> set (map fst ks) then map (\<lambda>p. if fst p = sk_key_id k then (fst p, k) else p) ks
      else ks @ [(sk_key_id k, k)])"

definition retire_key :: "signing_key \<Rightarrow> py_datetime \<Rightarrow> int \<Rightarrow> signing_key result" where
  "retire_key k now overlap =
     and_then (dt_add (instant now) overlap) (\<lambda>until.
       signing_key_post_init (k\<lparr>sk_state := RetiringKey, sk_retired_at := Some now, sk_verify_until := Some (Aware until)\<rparr>))"

definition rotation_checks :: "key_ring \<Rightarrow> signing_key \<Rightarrow> py_datetime \<Rightarrow> int \<Rightarrow> signing_key result" where
  "rotation_checks ring new_key now overlap =
     and_then (key_time now) (\<lambda>_.
       if sk_state new_key \<noteq> ActiveKey \<or> sk_key_id new_key \<in> set (map fst (kr_keys ring))
       then config_error ''Delegation rotation key is invalid or repeated.''
       else if 16 \<le> int (length (kr_keys ring)) then config_error ''Delegation key ring size is invalid.''
       else if overlap < second \<or> kr_maximum_overlap ring < overlap then config_error ''Delegation rotation overlap is invalid.''
       else and_then (signing_key_for ring now) (\<lambda>old. retire_key old now overlap))"

definition rotate_key ::
  "audit_sink \<Rightarrow> key_ring \<Rightarrow> signing_key \<Rightarrow> py_datetime \<Rightarrow> int \<Rightarrow> string option \<Rightarrow> key_ring \<times> audit_event list \<times> unit result" where
  "rotate_key sink ring new_key now overlap trace_id =
     (case rotation_checks ring new_key now overlap of
        Inl e \<Rightarrow> (ring, [], Inl e)
      | Inr retired \<Rightarrow>
          (ring\<lparr>kr_keys := store_key new_key (store_key retired (kr_keys ring))\<rparr>,
           record_audit sink (key_event now KEY_ROTATED (sk_key_id new_key) trace_id) (Inr ())))"

definition revoke_key ::
  "audit_sink \<Rightarrow> key_ring \<Rightarrow> string \<Rightarrow> py_datetime \<Rightarrow> string option \<Rightarrow> key_ring \<times> audit_event list \<times> unit result" where
  "revoke_key sink ring key_id now trace_id =
     (case key_time now of
        Inl e \<Rightarrow> (ring, [], Inl e)
      | Inr _ \<Rightarrow>
          (case map_of (kr_keys ring) key_id of
             None \<Rightarrow> (ring, [], config_error ''Delegation revocation key is unknown.'')
           | Some k \<Rightarrow>
               if sk_state k = RevokedKey then (ring, [], Inr ())
               else (case signing_key_post_init (k\<lparr>sk_state := RevokedKey, sk_retired_at := None, sk_verify_until := None\<rparr>) of
                       Inl e \<Rightarrow> (ring, [], Inl e)
                     | Inr revoked \<Rightarrow>
                         (ring\<lparr>kr_keys := map (\<lambda>p. if fst p = key_id then (fst p, revoked) else p) (kr_keys ring)\<rparr>,
                          record_audit sink (key_event now KEY_REVOKED key_id trace_id) (Inr ())))))"

section \<open>The invariant of a key ring\<close>

definition key_ok :: "int \<Rightarrow> string \<times> signing_key \<Rightarrow> bool" where
  "key_ok maximum p \<longleftrightarrow> sk_key_id (snd p) = fst p \<and> signing_key_post_init (snd p) = Inr (snd p) \<and> \<not> excessive_overlap maximum (snd p)"

definition ring_inv :: "key_ring \<Rightarrow> bool" where
  "ring_inv ring \<longleftrightarrow>
     kr_keys ring \<noteq> [] \<and> length (kr_keys ring) \<le> 16 \<and> distinct (map fst (kr_keys ring)) \<and>
     list_all (key_ok (kr_maximum_overlap ring)) (kr_keys ring) \<and> length (active_keys (kr_keys ring)) \<le> 1 \<and>
     second \<le> kr_maximum_overlap ring \<and> kr_maximum_overlap ring \<le> 3600 * second"

lemma signing_key_post_init_Inr: "signing_key_post_init k = Inr k' \<Longrightarrow> k' = k"
  by (auto simp: signing_key_post_init_def split: if_splits)

lemma new_key_ring_inv:
  assumes "new_key_ring keys maximum = Inr ring" and "list_all (\<lambda>k. signing_key_post_init k = Inr k) keys"
  shows "ring_inv ring"
  using assms by (auto simp: new_key_ring_def ring_inv_def key_ok_def list_all_iff list_ex_iff Let_def comp_def split: if_splits)

text \<open>Writing a key at the ID it already has.\<close>

definition put_key :: "string \<Rightarrow> signing_key \<Rightarrow> (string \<times> signing_key) list \<Rightarrow> (string \<times> signing_key) list" where
  "put_key i k ks = map (\<lambda>p. if fst p = i then (fst p, k) else p) ks"

lemma put_key_fst [simp]: "map fst (put_key i k ks) = map fst ks"
  by (induction ks) (auto simp: put_key_def)

lemma put_key_length [simp]: "length (put_key i k ks) = length ks"
  by (simp add: put_key_def)

lemma put_key_ok: "list_all (key_ok m) ks \<Longrightarrow> key_ok m (i, k) \<Longrightarrow> list_all (key_ok m) (put_key i k ks)"
  by (auto simp: put_key_def list_all_iff)

lemma put_key_map_of: "map_of (put_key i k ks) j = (if j = i \<and> map_of ks i \<noteq> None then Some k else map_of ks j)"
  by (induction ks) (auto simp: put_key_def)

lemma put_key_absent: "i \<notin> set (map fst ks) \<Longrightarrow> put_key i k ks = ks"
  by (induction ks) (auto simp: put_key_def)

lemma put_key_Cons: "put_key i k (p # ks) = (if fst p = i then (fst p, k) else p) # put_key i k ks"
  by (simp add: put_key_def)

text \<open>Replacing a key by an inactive one takes it out of the active keys.\<close>

lemma active_put_key:
  assumes "distinct (map fst ks)" and "map_of ks i = Some old" and "sk_state k \<noteq> ActiveKey"
  shows "length (active_keys (put_key i k ks)) + (if sk_state old = ActiveKey then 1 else 0) = length (active_keys ks)"
  using assms
proof (induction ks)
  case (Cons p ks)
  then show ?case
    by (cases "fst p = i") (auto simp: put_key_Cons active_keys_def put_key_absent)
qed simp

lemma store_key_old: "sk_key_id k \<in> set (map fst ks) \<Longrightarrow> store_key k ks = put_key (sk_key_id k) k ks"
  by (simp add: store_key_def put_key_def)

lemma store_key_new: "sk_key_id k \<notin> set (map fst ks) \<Longrightarrow> store_key k ks = ks @ [(sk_key_id k, k)]"
  by (simp add: store_key_def)

lemma ring_key_id: "ring_inv ring \<Longrightarrow> (i, k) \<in> set (kr_keys ring) \<Longrightarrow> sk_key_id k = i"
  by (auto simp: ring_inv_def list_all_iff key_ok_def)

lemma active_key_in:
  assumes "ring_inv ring" and "signing_key_for ring now = Inr k"
  shows "map_of (kr_keys ring) (sk_key_id k) = Some k \<and> active_keys (kr_keys ring) = [k] \<and> sk_state k = ActiveKey \<and> is_aware now"
proof -
  from assms(2) have act: "active_keys (kr_keys ring) = [k]" and now: "is_aware now"
    by (auto simp: signing_key_for_def key_time_def result_simps split: list.splits)
  then have "k \<in> set (active_keys (kr_keys ring))" by simp
  then obtain i where "(i, k) \<in> set (kr_keys ring)" "sk_state k = ActiveKey" by (auto simp: active_keys_def)
  with act now ring_key_id [OF assms(1)] assms(1) show ?thesis by (auto simp: ring_inv_def)
qed

lemma retire_key_Inr:
  assumes "retire_key k now overlap = Inr k'"
  shows "k' = k\<lparr>sk_state := RetiringKey, sk_retired_at := Some now, sk_verify_until := Some (Aware (instant now + overlap))\<rparr>"
    "signing_key_post_init k' = Inr k'"
  using assms by (auto simp: retire_key_def result_simps dest: signing_key_post_init_Inr)

lemma rotation_checks_Inr:
  assumes "rotation_checks ring n now overlap = Inr retired"
  obtains old where "signing_key_for ring now = Inr old" "retire_key old now overlap = Inr retired" "sk_state n = ActiveKey"
    "sk_key_id n \<notin> set (map fst (kr_keys ring))" "length (kr_keys ring) < 16" "second \<le> overlap" "overlap \<le> kr_maximum_overlap ring"
    "is_aware now"
  using assms by (auto simp: rotation_checks_def result_simps key_time_def)

text \<open>What a rotation that passes its checks leaves in the ring.\<close>

lemma rotated_keys:
  assumes "ring_inv ring" and "rotation_checks ring n now overlap = Inr retired"
  shows "store_key n (store_key retired (kr_keys ring)) = put_key (sk_key_id retired) retired (kr_keys ring) @ [(sk_key_id n, n)] \<and>
    map_of (kr_keys ring) (sk_key_id retired) \<noteq> None \<and> sk_key_id n \<noteq> sk_key_id retired"
proof -
  from assms(2) obtain old where old: "signing_key_for ring now = Inr old" "retire_key old now overlap = Inr retired"
    and n: "sk_key_id n \<notin> set (map fst (kr_keys ring))" by (rule rotation_checks_Inr)
  from active_key_in [OF assms(1) old(1)] retire_key_Inr(1) [OF old(2)]
  have m: "map_of (kr_keys ring) (sk_key_id retired) = Some old" by simp
  then have "sk_key_id retired \<in> set (map fst (kr_keys ring))" by (force dest: map_of_SomeD)
  moreover from this n have "sk_key_id n \<noteq> sk_key_id retired" by metis
  ultimately show ?thesis using n m by (simp add: store_key_old store_key_new)
qed

lemma rotate_key_inv:
  assumes "ring_inv ring" and "signing_key_post_init n = Inr n"
  shows "ring_inv (fst (rotate_key sink ring n now overlap trace_id))"
proof (cases "rotation_checks ring n now overlap")
  case (Inl e)
  then show ?thesis using assms(1) by (simp add: rotate_key_def)
next
  case (Inr retired)
  from Inr obtain old where old: "signing_key_for ring now = Inr old" "retire_key old now overlap = Inr retired"
    and n: "sk_state n = ActiveKey" "sk_key_id n \<notin> set (map fst (kr_keys ring))" "length (kr_keys ring) < 16" "overlap \<le> kr_maximum_overlap ring"
    by (rule rotation_checks_Inr)
  note r = retire_key_Inr [OF old(2)] and act = active_key_in [OF assms(1) old(1)]
  let ?ks = "put_key (sk_key_id retired) retired (kr_keys ring)"
  have "key_ok (kr_maximum_overlap ring) (sk_key_id retired, retired)"
    using r n(4) by (simp add: key_ok_def excessive_overlap_def overlap_interval_def)
  moreover have "key_ok (kr_maximum_overlap ring) (sk_key_id n, n)" using assms(2) n(1) by (simp add: key_ok_def excessive_overlap_def)
  moreover have "map_of (kr_keys ring) (sk_key_id retired) = Some old" "sk_state retired \<noteq> ActiveKey" using act r(1) by simp_all
  then have "active_keys ?ks = []"
    using active_put_key [of "kr_keys ring" "sk_key_id retired" old retired] assms(1) act by (simp add: ring_inv_def)
  then have "length (active_keys (?ks @ [(sk_key_id n, n)])) = 1" using n(1) by (simp add: active_keys_def)
  moreover have "distinct (map fst (?ks @ [(sk_key_id n, n)]))" using assms(1) n(2) by (simp add: ring_inv_def)
  ultimately show ?thesis
    using assms(1) n(3) rotated_keys [OF assms(1) Inr] Inr put_key_ok [of "kr_maximum_overlap ring" "kr_keys ring"]
    by (simp add: rotate_key_def ring_inv_def)
qed

lemma revoke_key_cases:
  obtains "fst (revoke_key sink ring i now trace_id) = ring"
  | k where "map_of (kr_keys ring) i = Some k" "sk_state k \<noteq> RevokedKey" "is_aware now"
      "signing_key_post_init (k\<lparr>sk_state := RevokedKey, sk_retired_at := None, sk_verify_until := None\<rparr>) =
         Inr (k\<lparr>sk_state := RevokedKey, sk_retired_at := None, sk_verify_until := None\<rparr>)"
      "fst (revoke_key sink ring i now trace_id) =
         ring\<lparr>kr_keys := put_key i (k\<lparr>sk_state := RevokedKey, sk_retired_at := None, sk_verify_until := None\<rparr>) (kr_keys ring)\<rparr>"
proof (cases "fst (revoke_key sink ring i now trace_id) = ring")
  case False
  then obtain k where k: "map_of (kr_keys ring) i = Some k" "sk_state k \<noteq> RevokedKey" "is_aware now"
    "returns (signing_key_post_init (k\<lparr>sk_state := RevokedKey, sk_retired_at := None, sk_verify_until := None\<rparr>))"
    by (auto simp: revoke_key_def key_time_def ensure_def returns_iff split: option.splits if_splits sum.splits)
  then obtain k' where k': "signing_key_post_init (k\<lparr>sk_state := RevokedKey, sk_retired_at := None, sk_verify_until := None\<rparr>) = Inr k'"
    by (auto simp: returns_iff)
  note id = signing_key_post_init_Inr [OF this]
  have "fst (revoke_key sink ring i now trace_id) = ring\<lparr>kr_keys := put_key i k' (kr_keys ring)\<rparr>"
    using k k' by (simp add: revoke_key_def key_time_def put_key_def)
  then show ?thesis using that(2) [OF k(1-3)] k' id by simp
qed

lemma revoke_key_inv:
  assumes "ring_inv ring"
  shows "ring_inv (fst (revoke_key sink ring i now trace_id))"
  using revoke_key_cases [of sink ring i now trace_id]
proof cases
  case (2 k)
  let ?k = "k\<lparr>sk_state := RevokedKey, sk_retired_at := None, sk_verify_until := None\<rparr>"
  have "sk_key_id k = i" using ring_key_id [OF assms] 2(1) by (meson map_of_SomeD)
  then have "key_ok (kr_maximum_overlap ring) (i, ?k)" using 2(4) by (simp add: key_ok_def excessive_overlap_def)
  moreover have "length (active_keys (put_key i ?k (kr_keys ring))) \<le> 1"
    using active_put_key [of "kr_keys ring" i k ?k] assms 2(1) by (auto simp: ring_inv_def split: if_splits)
  moreover have "put_key i ?k (kr_keys ring) \<noteq> []" using assms by (simp add: ring_inv_def put_key_def)
  ultimately show ?thesis using assms 2(5) put_key_ok by (simp add: ring_inv_def)
qed (use assms in simp)

section \<open>Runs of a key ring\<close>

inductive key_step :: "key_ring \<Rightarrow> key_ring \<Rightarrow> bool" where
  rotate: "signing_key_post_init n = Inr n \<Longrightarrow> key_step ring (fst (rotate_key sink ring n now overlap trace_id))"
| revoke: "key_step ring (fst (revoke_key sink ring i now trace_id))"

definition built_ring :: "key_ring \<Rightarrow> bool" where
  "built_ring ring \<longleftrightarrow> (\<exists>keys m. new_key_ring keys m = Inr ring \<and> list_all (\<lambda>k. signing_key_post_init k = Inr k) keys)"

definition revoked_in :: "string \<Rightarrow> key_ring \<Rightarrow> bool" where
  "revoked_in i ring \<longleftrightarrow> (\<exists>k. map_of (kr_keys ring) i = Some k \<and> sk_state k = RevokedKey)"

lemma key_step_inv: "ring_inv ring \<Longrightarrow> key_step ring ring' \<Longrightarrow> ring_inv ring'"
  by (erule key_step.cases) (auto intro: rotate_key_inv revoke_key_inv)

lemma rotate_keeps_revoked:
  assumes "ring_inv ring" and "revoked_in i ring"
  shows "revoked_in i (fst (rotate_key sink ring n now overlap trace_id))"
proof (cases "rotation_checks ring n now overlap")
  case (Inr retired)
  from Inr obtain old where old: "signing_key_for ring now = Inr old" "retire_key old now overlap = Inr retired"
    by (rule rotation_checks_Inr)
  with active_key_in [OF assms(1) old(1)] retire_key_Inr(1) [OF old(2)] assms(2) have "i \<noteq> sk_key_id retired"
    by (auto simp: revoked_in_def)
  with assms(2) rotated_keys [OF assms(1) Inr] Inr show ?thesis
    by (auto simp: rotate_key_def revoked_in_def put_key_map_of map_add_def)
qed (use assms in \<open>simp add: rotate_key_def\<close>)

lemma revoke_keeps_revoked:
  assumes "revoked_in i ring"
  shows "revoked_in i (fst (revoke_key sink ring j now trace_id))"
  using revoke_key_cases [of sink ring j now trace_id]
  by cases (use assms in \<open>auto simp: revoked_in_def put_key_map_of\<close>)

lemma key_step_revoked: "ring_inv ring \<Longrightarrow> key_step ring ring' \<Longrightarrow> revoked_in i ring \<Longrightarrow> revoked_in i ring'"
  by (erule key_step.cases) (auto intro: rotate_keeps_revoked revoke_keeps_revoked)

interpretation revocation: stable_machine built_ring key_step ring_inv "revoked_in i" for i
  by unfold_locales (auto simp: built_ring_def intro: new_key_ring_inv key_step_inv key_step_revoked)

lemma revoke_key_revokes:
  assumes "ring_inv ring" and "is_aware now" and "map_of (kr_keys ring) i = Some k"
  shows "revoked_in i (fst (revoke_key sink ring i now trace_id))"
proof (cases "sk_state k = RevokedKey")
  case True
  then show ?thesis using assms by (simp add: revoke_key_def key_time_def revoked_in_def)
next
  case False
  have "signing_key_post_init k = Inr k" using assms(1,3) by (auto simp: ring_inv_def list_all_iff key_ok_def dest: map_of_SomeD)
  then have "signing_key_post_init (k\<lparr>sk_state := RevokedKey, sk_retired_at := None, sk_verify_until := None\<rparr>) =
     Inr (k\<lparr>sk_state := RevokedKey, sk_retired_at := None, sk_verify_until := None\<rparr>)"
    by (auto simp: signing_key_post_init_def aware_optional_def split: if_splits)
  with False assms show ?thesis
    by (simp add: revoke_key_def key_time_def revoked_in_def put_key_map_of flip: put_key_def)
qed

lemma revoked_not_verified: "revoked_in i ring \<Longrightarrow> verification_key ring i t \<noteq> Inr (Some k)"
  by (auto simp: revoked_in_def verification_key_def and_then_Inr_iff)

section \<open>Properties\<close>

text \<open>
  Revocation is final: after a known key of a running ring is revoked, no later sequence of rotations and revocations makes
  the ring offer it for verification again, at any time, and this holds even when recording the audit event raised.
\<close>

lemma revoked_key_never_verifies:
  assumes "built_ring r0" and "key_step\<^sup>*\<^sup>* r0 ring" and "is_aware now" and "i \<in> fst ` set (kr_keys ring)"
    and "key_step\<^sup>*\<^sup>* (fst (revoke_key sink ring i now trace_id)) later"
  shows "verification_key later i t \<noteq> Inr (Some k)"
proof -
  have inv: "ring_inv ring" by (rule revocation.inv_reachable [OF assms(1,2)])
  from assms(4) obtain k0 where "map_of (kr_keys ring) i = Some k0" by (metis map_of_eq_None_iff not_None_eq)
  from revoke_key_revokes [OF inv assms(3) this] revoke_key_inv [OF inv] assms(5)
  have "revoked_in i later" using revocation.stable_steps by blast
  then show ?thesis by (rule revoked_not_verified)
qed

definition sample_key :: "string \<Rightarrow> signing_key" where
  "sample_key i = \<lparr>sk_key_id = i, sk_secret = replicate 32 (CHR ''s''), sk_state = ActiveKey, sk_retired_at = None, sk_verify_until = None\<rparr>"

definition sample_ring :: key_ring where
  "sample_ring = \<lparr>kr_keys = [(''k1'', sample_key ''k1'')], kr_maximum_overlap = 600000000\<rparr>"

lemma sample_ring_built: "built_ring sample_ring"
proof -
  have "new_key_ring [sample_key ''k1''] 600000000 = Inr sample_ring"
    by (simp add: new_key_ring_def active_keys_def sample_ring_def sample_key_def excessive_overlap_def)
  moreover have "signing_key_post_init (sample_key ''k1'') = Inr (sample_key ''k1'')"
    by (simp add: signing_key_post_init_def sample_key_def aware_optional_def) code_simp
  ultimately show ?thesis unfolding built_ring_def by (intro exI [of _ "[sample_key ''k1'']"] exI [of _ 600000000]) simp
qed

text \<open>
  A rotation that returns hands signing over at once: from then on the new key signs, the key that signed before keeps its
  secret and verifies exactly until the overlap has passed, and one rotation event was recorded.
\<close>

lemma rotation_hands_over:
  assumes "built_ring r0" and "key_step\<^sup>*\<^sup>* r0 ring" and "rotate_key sink ring n now overlap trace_id = (ring', events, Inr ())"
    and "is_aware t"
  shows "signing_key_for ring' t = Inr n \<and>
    (\<exists>old retired event. signing_key_for ring now = Inr old \<and> sk_secret retired = sk_secret old \<and>
       verification_key ring' (sk_key_id old) t = Inr (if instant t < instant now + overlap then Some retired else None) \<and>
       events = [event] \<and> ae_outcome event = KEY_ROTATED \<and> ae_key_id event = Some (sk_key_id n))"
proof -
  have inv: "ring_inv ring" by (rule revocation.inv_reachable [OF assms(1,2)])
  from assms(3) obtain retired where ok: "rotation_checks ring n now overlap = Inr retired"
    by (cases "rotation_checks ring n now overlap") (auto simp: rotate_key_def)
  from ok obtain old where old: "signing_key_for ring now = Inr old" "retire_key old now overlap = Inr retired" and n: "sk_state n = ActiveKey"
    by (rule rotation_checks_Inr)
  note act = active_key_in [OF inv old(1)] and r = retire_key_Inr(1) [OF old(2)] and ks = rotated_keys [OF inv ok]
  let ?ks = "put_key (sk_key_id retired) retired (kr_keys ring)"
  have ring': "kr_keys ring' = ?ks @ [(sk_key_id n, n)]" and ev: "record_audit sink (key_event now KEY_ROTATED (sk_key_id n) trace_id) (Inr ()) = (events, Inr ())"
    using assms(3) ok ks by (auto simp: rotate_key_def)
  have "active_keys ?ks = []"
    using active_put_key [of "kr_keys ring" "sk_key_id retired" old retired] inv act r by (simp add: ring_inv_def)
  then have "signing_key_for ring' t = Inr n" using n assms(4) ring' by (simp add: signing_key_for_def key_time_def active_keys_def)
  moreover have "verification_key ring' (sk_key_id old) t = Inr (if instant t < instant now + overlap then Some retired else None)"
    using ks act r assms(4) ring' by (simp add: verification_key_def key_time_def put_key_map_of map_add_def)
  moreover have "\<exists>event. events = [event] \<and> ae_outcome event = KEY_ROTATED \<and> ae_key_id event = Some (sk_key_id n)"
    using ev by (auto simp: record_audit_def key_event_def audit_post_init_def split: sum.splits if_splits)
  ultimately show ?thesis using old(1) r by auto
qed

end
