(* ===== verification/Delegation_Signing.thy ===== *)
theory Delegation_Signing
  imports Delegation_Keys
begin

text \<open>
  \<^verbatim>\<open>delegation/signing.py\<close>, \<^verbatim>\<open>bridge.py\<close> and \<^verbatim>\<open>fastapi.py\<close>: minting a credential bound to one audience, method, path and
  scope set, verifying it at the receiving service, forwarding at the bridge, and the FastAPI dependency. HMAC-SHA-256, SHA-256,
  the rendering and reading of floats, the clock sample, the fresh token ID and the audit sink are arguments. Operations that
  record audit events return the events handed to the sink beside their result.
\<close>

section \<open>Issuing\<close>

record delegation_issuer =
  di_issuer :: string
  di_maximum_ttl_seconds :: int
  di_maximum_depth :: int

definition delegation_configuration :: "string \<Rightarrow> int \<Rightarrow> int \<Rightarrow> unit result" where
  "delegation_configuration issuer maximum_ttl_seconds maximum_depth =
     (if \<not> identifier_text issuer then config_error ''Delegation issuer configuration is invalid.''
      else if \<not> (1 \<le> maximum_ttl_seconds \<and> maximum_ttl_seconds \<le> 3600) then config_error ''Delegation maximum TTL is invalid.''
      else if \<not> (1 \<le> maximum_depth \<and> maximum_depth \<le> 16) then config_error ''Delegation maximum depth is invalid.''
      else Inr ())"

definition issuer_post_init :: "delegation_issuer \<Rightarrow> delegation_issuer result" where
  "issuer_post_init i =
     and_then (delegation_configuration (di_issuer i) (di_maximum_ttl_seconds i) (di_maximum_depth i)) (\<lambda>_. Inr i)"

record mint_request =
  mq_principal :: principal
  mq_audience :: string
  mq_method :: string
  mq_path :: string
  mq_scopes :: "string list"
  mq_ttl :: int
  mq_parent_depth :: int
  mq_trace_id :: "string option"

text \<open>Comparing an aware with a naive datetime raises; arithmetic keeps the kind.\<close>

definition dt_less :: "py_datetime \<Rightarrow> py_datetime \<Rightarrow> bool result" where
  "dt_less a b = (if is_aware a = is_aware b then Inr (instant a < instant b) else Inl TypeError)"

definition dt_plus :: "py_datetime \<Rightarrow> int \<Rightarrow> py_datetime result" where
  "dt_plus t d = and_then (dt_add (instant t) d) (\<lambda>u. Inr (if is_aware t then Aware u else Naive u))"

definition mint_expiry :: "principal \<Rightarrow> py_datetime \<Rightarrow> int \<Rightarrow> py_datetime result" where
  "mint_expiry p now ttl =
     and_then (dt_plus now ttl) (\<lambda>expiry.
       case expires_at p of
         None \<Rightarrow> Inr expiry
       | Some t \<Rightarrow> and_then (dt_less t expiry) (\<lambda>later. Inr (if later then t else expiry)))"

text \<open>The guards of \<^verbatim>\<open>mint\<close> before the clock is read.\<close>

definition mint_guards :: "delegation_issuer \<Rightarrow> mint_request \<Rightarrow> unit result" where
  "mint_guards i q =
     (let seconds = total_seconds (mq_ttl q) in
      if \<not> fs_subset (mq_scopes q) (scopes (mq_principal q)) then config_error ''Delegation scopes exceed the verified principal.''
      else if \<not> (0 \<le> mq_parent_depth q \<and> mq_parent_depth q < di_maximum_depth i)
      then config_error ''Delegation parent depth is invalid.''
      else if seconds \<le> 0 \<or> of_int (di_maximum_ttl_seconds i) < seconds \<or> mq_ttl q mod second \<noteq> 0
      then config_error ''Delegation TTL is invalid.''
      else if di_maximum_depth i < mq_parent_depth q + 1 then config_error ''Delegation depth exceeds configured policy.''
      else Inr ())"

definition mint_claims ::
  "delegation_issuer \<Rightarrow> key_ring \<Rightarrow> py_datetime \<Rightarrow> uuid \<Rightarrow> mint_request \<Rightarrow> (delegation_claims \<times> signing_key) result" where
  "mint_claims i ring now fresh q =
     and_then (mint_guards i q) (\<lambda>_.
     and_then (mint_expiry (mq_principal q) now (mq_ttl q)) (\<lambda>expiry.
     and_then (ensure (instant now < instant expiry) (ConfigurationError ''Delegation principal is expired.'')) (\<lambda>_.
     and_then (signing_key_for ring now) (\<lambda>key.
     and_then (canonical_method (mq_method q)) (\<lambda>verb.
     and_then (canonical_target_path (mq_path q)) (\<lambda>path.
     and_then
       (claims_post_init
          \<lparr>dc_version = 1, dc_issuer = di_issuer i, dc_tenant_id = p_tenant_id (mq_principal q),
           dc_subject_id = subject_id (mq_principal q), dc_actor_id = actor_id (mq_principal q),
           dc_client_id = client_id (mq_principal q), dc_audience = mq_audience q, dc_method = verb, dc_path = path,
           dc_scopes = mq_scopes q, dc_issued_at = now, dc_not_before = now, dc_expires_at = expiry, dc_token_id = fresh,
           dc_key_id = sk_key_id key, dc_delegation_depth = mq_parent_depth q + 1\<rparr>)
       (\<lambda>claims. Inr (claims, key))))))))"

definition claims_event ::
  "(bytes \<Rightarrow> bytes) \<Rightarrow> delegation_claims \<Rightarrow> py_datetime \<Rightarrow> audit_outcome \<Rightarrow> string option \<Rightarrow> audit_event result" where
  "claims_event sha256 c occurred_at outcome trace_id =
     audit_post_init
       \<lparr>ae_occurred_at = occurred_at, ae_outcome = outcome, ae_tenant_id = Some (dc_tenant_id c), ae_subject_id = Some (dc_subject_id c),
        ae_audience = dc_audience c, ae_target_id = delegation_target_id sha256 (dc_method c) (dc_path c), ae_scopes = dc_scopes c,
        ae_key_id = Some (dc_key_id c), ae_actor_id = dc_actor_id c, ae_client_id = dc_client_id c, ae_token_id = Some (dc_token_id c),
        ae_delegation_depth = Some (dc_delegation_depth c), ae_trace_id = trace_id\<rparr>"

definition sign_claims ::
  "(bytes \<Rightarrow> bytes \<Rightarrow> bytes) \<Rightarrow> (rat \<Rightarrow> string) \<Rightarrow> delegation_claims \<Rightarrow> signing_key \<Rightarrow> string result" where
  "sign_claims hmac frepr c key =
     and_then (claims_bytes frepr c) (\<lambda>payload. encode_token payload (hmac (sk_secret key) payload))"

definition mint ::
  "(bytes \<Rightarrow> bytes \<Rightarrow> bytes) \<Rightarrow> (bytes \<Rightarrow> bytes) \<Rightarrow> (rat \<Rightarrow> string) \<Rightarrow> audit_sink \<Rightarrow> delegation_issuer \<Rightarrow> key_ring \<Rightarrow>
   py_datetime \<Rightarrow> uuid \<Rightarrow> mint_request \<Rightarrow> audit_event list \<times> string result" where
  "mint hmac sha256 frepr sink i ring now fresh q =
     (case and_then (mint_claims i ring now fresh q) (\<lambda>(claims, key).
             and_then (sign_claims hmac frepr claims key) (\<lambda>token. Inr (claims, token))) of
        Inl e \<Rightarrow> ([], Inl e)
      | Inr (claims, token) \<Rightarrow> record_audit sink (claims_event sha256 claims now ISSUED (mq_trace_id q)) (Inr token))"

section \<open>Verifying\<close>

record delegation_verifier =
  dv_issuer :: string
  dv_allowed_scopes :: "string list option"
  dv_maximum_ttl_seconds :: int
  dv_maximum_depth :: int
  dv_clock_skew_seconds :: int

definition scope_set_ok :: "string list \<Rightarrow> bool" where
  "scope_set_ok ss \<longleftrightarrow> int (length ss) \<le> 128 \<and> list_all scope_name ss"

definition optional_scopes_ok :: "string list option \<Rightarrow> bool" where
  "optional_scopes_ok v = (case v of None \<Rightarrow> True | Some ss \<Rightarrow> scope_set_ok ss)"

definition scopes_within :: "string list \<Rightarrow> string list option \<Rightarrow> bool" where
  "scopes_within ss limit = (case limit of None \<Rightarrow> True | Some c \<Rightarrow> fs_subset ss c)"

definition verifier_post_init :: "delegation_verifier \<Rightarrow> delegation_verifier result" where
  "verifier_post_init v =
     and_then (delegation_configuration (dv_issuer v) (dv_maximum_ttl_seconds v) (dv_maximum_depth v)) (\<lambda>_.
       if \<not> (0 \<le> dv_clock_skew_seconds v \<and> dv_clock_skew_seconds v \<le> 60)
       then config_error ''Delegation verifier clock skew is invalid.''
       else if \<not> optional_scopes_ok (dv_allowed_scopes v) then config_error ''Delegation verifier scope ceiling is invalid.''
       else Inr v)"

record verify_request =
  vq_token :: string
  vq_audience :: string
  vq_method :: string
  vq_path :: string
  vq_required_scopes :: "string list"
  vq_authority_ceiling :: "string list option"
  vq_trace_id :: "string option"

definition denied_event ::
  "(bytes \<Rightarrow> bytes) \<Rightarrow> py_datetime \<Rightarrow> verify_request \<Rightarrow> delegation_claims option \<Rightarrow> audit_event result" where
  "denied_event sha256 now q claims =
     audit_post_init
       \<lparr>ae_occurred_at = now, ae_outcome = DENIED, ae_tenant_id = map_option dc_tenant_id claims,
        ae_subject_id = map_option dc_subject_id claims,
        ae_audience = (if identifier_text (vq_audience q) then vq_audience q else ''invalid-audience''),
        ae_target_id = delegation_target_id sha256 (vq_method q) (vq_path q),
        ae_scopes = (if list_all scope_name (vq_required_scopes q) then vq_required_scopes q else []),
        ae_key_id = map_option dc_key_id claims, ae_actor_id = Option.bind claims dc_actor_id,
        ae_client_id = Option.bind claims dc_client_id, ae_token_id = map_option dc_token_id claims,
        ae_delegation_depth = map_option dc_delegation_depth claims, ae_trace_id = vq_trace_id q\<rparr>"

text \<open>The conditions on decoded claims, in the order of the source; \<^verbatim>\<open>now + skew\<close> and \<^verbatim>\<open>now - skew\<close> may overflow.\<close>

definition check_claims ::
  "delegation_verifier \<Rightarrow> py_datetime \<Rightarrow> verify_request \<Rightarrow> string \<Rightarrow> string \<Rightarrow> delegation_claims \<Rightarrow> unit result" where
  "check_claims v now q verb path c =
     (let skew = dv_clock_skew_seconds v * second in
      if dc_issuer c \<noteq> dv_issuer v \<or> dc_audience c \<noteq> vq_audience q \<or> dc_method c \<noteq> verb \<or> dc_path c \<noteq> path
      then Inl AuthorizationDenied
      else and_then (dt_add (instant now) skew) (\<lambda>late.
        if late < instant (dc_not_before c) \<or> late < instant (dc_issued_at c) then Inl AuthorizationDenied
        else and_then (dt_add (instant now) (- skew)) (\<lambda>early.
          if instant (dc_expires_at c) \<le> early \<or>
             of_int (dv_maximum_ttl_seconds v) < total_seconds (instant (dc_expires_at c) - instant (dc_issued_at c)) \<or>
             dv_maximum_depth v < dc_delegation_depth c \<or>
             \<not> fs_subset (vq_required_scopes q) (dc_scopes c) \<or>
             \<not> scopes_within (dc_scopes c) (vq_authority_ceiling q) \<or>
             \<not> scopes_within (dc_scopes c) (dv_allowed_scopes v)
          then Inl AuthorizationDenied else Inr ())))"

definition check_signature ::
  "(bytes \<Rightarrow> bytes \<Rightarrow> bytes) \<Rightarrow> key_ring \<Rightarrow> py_datetime \<Rightarrow> delegation_claims \<Rightarrow> bytes \<Rightarrow> bytes \<Rightarrow> unit result" where
  "check_signature hmac ring now c payload signature =
     and_then (verification_key ring (dc_key_id c) now) (\<lambda>key.
       case key of
         None \<Rightarrow> Inl AuthorizationDenied
       | Some k \<Rightarrow> ensure (hmac (sk_secret k) payload = signature) AuthorizationDenied)"

definition decode_request ::
  "(string \<Rightarrow> pyfloat) \<Rightarrow> nat \<Rightarrow> verify_request \<Rightarrow> (string \<times> string \<times> delegation_claims \<times> bytes \<times> bytes) result" where
  "decode_request fparse stack q =
     (if \<not> (identifier_text (vq_audience q) \<and> scope_set_ok (vq_required_scopes q) \<and> optional_scopes_ok (vq_authority_ceiling q))
      then Inl AuthorizationDenied
      else and_then (canonical_method (vq_method q)) (\<lambda>verb.
           and_then (canonical_target_path (vq_path q)) (\<lambda>path.
           and_then (decode_token fparse stack (vq_token q)) (\<lambda>decoded. Inr (verb, path, decoded)))))"

text \<open>The guarded block of \<^verbatim>\<open>verify\<close>: what the local variable \<^verbatim>\<open>claims\<close> holds at its end, and its result.\<close>

definition check_credential ::
  "(bytes \<Rightarrow> bytes \<Rightarrow> bytes) \<Rightarrow> (string \<Rightarrow> pyfloat) \<Rightarrow> nat \<Rightarrow> delegation_verifier \<Rightarrow> key_ring \<Rightarrow> py_datetime \<Rightarrow> verify_request \<Rightarrow>
   delegation_claims option \<times> delegation_claims result" where
  "check_credential hmac fparse stack v ring now q =
     (case decode_request fparse stack q of
        Inl e \<Rightarrow> (None, Inl e)
      | Inr (verb, path, c, payload, signature) \<Rightarrow>
          (Some c, and_then (check_signature hmac ring now c payload signature) (\<lambda>_.
                   and_then (check_claims v now q verb path c) (\<lambda>_. Inr c))))"

definition verify ::
  "(bytes \<Rightarrow> bytes \<Rightarrow> bytes) \<Rightarrow> (bytes \<Rightarrow> bytes) \<Rightarrow> (string \<Rightarrow> pyfloat) \<Rightarrow> nat \<Rightarrow> audit_sink \<Rightarrow> delegation_verifier \<Rightarrow> key_ring \<Rightarrow>
   py_datetime \<Rightarrow> verify_request \<Rightarrow> audit_event list \<times> delegation_claims result" where
  "verify hmac sha256 fparse stack sink v ring now q =
     (case check_credential hmac fparse stack v ring now q of
        (claims, Inl e) \<Rightarrow> record_audit sink (denied_event sha256 now q claims) (Inl AuthorizationDenied)
      | (claims, Inr c) \<Rightarrow> record_audit sink (claims_event sha256 c now ALLOWED (vq_trace_id q)) (Inr c))"

section \<open>The bridge\<close>

definition credential_headers :: "string list" where
  "credential_headers =
     [''authorization'', ''proxy-authorization'', ''cookie'', ''set-cookie'', ''x-api-key'', ''x-auth-token'', ''x-session-id'',
      ''x-session-token'']"

definition bridge_header_ok :: "string \<Rightarrow> bool" where
  "bridge_header_ok s \<longleftrightarrow> s \<noteq> [] \<and> length s \<le> 128 \<and>
     list_all (\<lambda>c. is_lower c \<or> is_digit c \<or> c \<in> set ''!#$%&*+-.^_`|~'' \<or> c = CHR 0x27) s"

fun contains :: "string \<Rightarrow> string \<Rightarrow> bool" where
  "contains pat [] \<longleftrightarrow> pat = []"
| "contains pat (c # cs) \<longleftrightarrow> take (length pat) (c # cs) = pat \<or> contains pat cs"

record delegation_bridge =
  db_allowed_scopes :: "string list"
  db_header_name :: string
  db_forwarded_headers :: "string list"

definition new_bridge :: "string list \<Rightarrow> string \<Rightarrow> string list \<Rightarrow> delegation_bridge result" where
  "new_bridge allowed_scopes header_name forwarded_headers =
     (let normalized = frozenset (map lower forwarded_headers) in
      if \<not> list_all scope_name allowed_scopes \<or>
         list_ex (\<lambda>n. \<not> bridge_header_ok n \<or> n \<in> set credential_headers \<or> contains ''session'' n \<or> contains ''token'' n \<or> contains ''key'' n)
           normalized
      then config_error ''Delegation bridge policy is invalid.''
      else if \<not> bridge_header_ok (lower header_name) \<or> lower header_name \<in> set credential_headers
      then config_error ''Delegation header name is invalid.''
      else Inr \<lparr>db_allowed_scopes = allowed_scopes, db_header_name = header_name, db_forwarded_headers = normalized\<rparr>)"

record delegated_request =
  dr_method :: string
  dr_path :: string
  dr_headers :: "(string \<times> string) list"

record trusted_caller =
  tc_principal :: principal
  tc_authentication_source :: string
  tc_delegation_depth :: int

definition trusted_caller_post_init :: "trusted_caller \<Rightarrow> trusted_caller result" where
  "trusted_caller_post_init c =
     (if \<not> scope_name (tc_authentication_source c) then config_error ''Trusted caller authentication source is invalid.''
      else if \<not> (0 \<le> tc_delegation_depth c \<and> tc_delegation_depth c < 16)
      then config_error ''Trusted caller delegation depth is invalid.''
      else Inr c)"

text \<open>The loop over the inbound headers.\<close>

fun forward_headers :: "string list \<Rightarrow> (string \<times> string) list \<Rightarrow> (string \<times> string) list result" where
  "forward_headers allowed [] = Inr []"
| "forward_headers allowed ((k, v) # rest) =
     (if lower k \<notin> set allowed then forward_headers allowed rest
      else if 1024 < int (length v) \<or> list_ex (\<lambda>c. c \<in> set [CHR 13, CHR 10, CHR 0x00]) v
      then config_error ''Delegation forwarded header is invalid.''
      else and_then (forward_headers allowed rest) (\<lambda>hs. Inr ((k, v) # hs)))"

definition prepare_delegation ::
  "(bytes \<Rightarrow> bytes \<Rightarrow> bytes) \<Rightarrow> (bytes \<Rightarrow> bytes) \<Rightarrow> (rat \<Rightarrow> string) \<Rightarrow> audit_sink \<Rightarrow> delegation_issuer \<Rightarrow> key_ring \<Rightarrow>
   py_datetime \<Rightarrow> uuid \<Rightarrow> delegation_bridge \<Rightarrow> (string \<times> string) list \<Rightarrow> mint_request \<Rightarrow> audit_event list \<times> delegated_request result" where
  "prepare_delegation hmac sha256 frepr sink i ring now fresh b inbound q =
     (let effective = fs_inter (fs_inter (mq_scopes q) (scopes (mq_principal q))) (db_allowed_scopes b) in
      if effective \<noteq> mq_scopes q then ([], config_error ''Delegation component policy denied requested scopes.'')
      else (case forward_headers (db_forwarded_headers b) inbound of
              Inl e \<Rightarrow> ([], Inl e)
            | Inr forwarded \<Rightarrow>
                (case mint hmac sha256 frepr sink i ring now fresh (q\<lparr>mq_scopes := effective\<rparr>) of
                   (events, Inl e) \<Rightarrow> (events, Inl e)
                 | (events, Inr token) \<Rightarrow>
                     (events, Inr \<lparr>dr_method = mq_method q, dr_path = mq_path q,
                                   dr_headers = dict_merge forwarded [(db_header_name b, token)]\<rparr>))))"

definition prepare_trusted ::
  "(bytes \<Rightarrow> bytes \<Rightarrow> bytes) \<Rightarrow> (bytes \<Rightarrow> bytes) \<Rightarrow> (rat \<Rightarrow> string) \<Rightarrow> audit_sink \<Rightarrow> delegation_issuer \<Rightarrow> key_ring \<Rightarrow>
   py_datetime \<Rightarrow> uuid \<Rightarrow> delegation_bridge \<Rightarrow> (string \<times> string) list \<Rightarrow> trusted_caller \<Rightarrow> mint_request \<Rightarrow>
   audit_event list \<times> delegated_request result" where
  "prepare_trusted hmac sha256 frepr sink i ring now fresh b inbound caller q =
     prepare_delegation hmac sha256 frepr sink i ring now fresh b inbound
       (q\<lparr>mq_principal := tc_principal caller, mq_parent_depth := tc_delegation_depth caller\<rparr>)"

section \<open>The FastAPI dependency\<close>

text \<open>What the dependency reads of a Starlette request: the lookup of its headers, the method and the URL path.\<close>

record delegation_http =
  dq_header :: "string \<Rightarrow> string option"
  dq_method :: string
  dq_path :: string

datatype dependency_failure = HTTPException int string | Unhandled exn

record verified_delegation =
  vd_principal :: principal
  vd_issuer :: string
  vd_audience :: string
  vd_target_id :: string
  vd_token_id :: uuid
  vd_key_id :: string
  vd_delegation_depth :: int

definition trace_id_of :: "delegation_http \<Rightarrow> string option" where
  "trace_id_of request =
     (case dq_header request ''traceparent'' of
        None \<Rightarrow> None
      | Some value \<Rightarrow>
          (case split_on (CHR ''-'') value of
             [p0, p1, p2, p3] \<Rightarrow> if length p1 = 32 then (case int_base16 p1 of Inl _ \<Rightarrow> None | Inr _ \<Rightarrow> Some p1) else None
           | _ \<Rightarrow> None))"

definition verified_of :: "(bytes \<Rightarrow> bytes) \<Rightarrow> delegation_claims \<Rightarrow> verified_delegation result" where
  "verified_of sha256 c =
     and_then
       (principal_post_init
          \<lparr>p_tenant_id = dc_tenant_id c, subject_id = dc_subject_id c, scopes = dc_scopes c, actor_id = dc_actor_id c,
           client_id = dc_client_id c, issued_at = dc_issued_at c, authentication_time = None, expires_at = Some (dc_expires_at c),
           credential_ref = Some (''delegation:'' @ uuid_str (dc_token_id c))\<rparr>) (\<lambda>p.
       Inr \<lparr>vd_principal = p, vd_issuer = dc_issuer c, vd_audience = dc_audience c,
            vd_target_id = delegation_target_id sha256 (dc_method c) (dc_path c), vd_token_id = dc_token_id c,
            vd_key_id = dc_key_id c, vd_delegation_depth = dc_delegation_depth c\<rparr>)"

record route_policy =
  rp_audience :: string
  rp_required_scopes :: "string list"
  rp_route_allowed_scopes :: "string list option"
  rp_header_name :: string

definition route_request :: "route_policy \<Rightarrow> delegation_http \<Rightarrow> string \<Rightarrow> verify_request" where
  "route_request rp request token =
     \<lparr>vq_token = token, vq_audience = rp_audience rp, vq_method = dq_method request, vq_path = dq_path request,
      vq_required_scopes = rp_required_scopes rp,
      vq_authority_ceiling = (case rp_route_allowed_scopes rp of None \<Rightarrow> Some (rp_required_scopes rp) | Some ss \<Rightarrow> Some ss),
      vq_trace_id = trace_id_of request\<rparr>"

definition verified_delegation_dependency ::
  "(bytes \<Rightarrow> bytes \<Rightarrow> bytes) \<Rightarrow> (bytes \<Rightarrow> bytes) \<Rightarrow> (string \<Rightarrow> pyfloat) \<Rightarrow> nat \<Rightarrow> audit_sink \<Rightarrow> delegation_verifier \<Rightarrow> key_ring \<Rightarrow>
   py_datetime \<Rightarrow> route_policy \<Rightarrow> delegation_http \<Rightarrow> dependency_failure + verified_delegation" where
  "verified_delegation_dependency hmac sha256 fparse stack sink v ring now rp request =
     (case dq_header request (rp_header_name rp) of
        None \<Rightarrow> Inl (HTTPException 401 ''delegation credential required'')
      | Some token \<Rightarrow>
          (case snd (verify hmac sha256 fparse stack sink v ring now (route_request rp request token)) of
             Inl AuthorizationDenied \<Rightarrow> Inl (HTTPException 403 ''delegation credential denied'')
           | Inl e \<Rightarrow> Inl (Unhandled e)
           | Inr c \<Rightarrow> (case verified_of sha256 c of Inl e \<Rightarrow> Inl (Unhandled e) | Inr d \<Rightarrow> Inr d)))"

definition delegated_principal_dependency ::
  "(bytes \<Rightarrow> bytes \<Rightarrow> bytes) \<Rightarrow> (bytes \<Rightarrow> bytes) \<Rightarrow> (string \<Rightarrow> pyfloat) \<Rightarrow> nat \<Rightarrow> audit_sink \<Rightarrow> delegation_verifier \<Rightarrow> key_ring \<Rightarrow>
   py_datetime \<Rightarrow> route_policy \<Rightarrow> delegation_http \<Rightarrow> dependency_failure + principal" where
  "delegated_principal_dependency hmac sha256 fparse stack sink v ring now rp request =
     and_then (verified_delegation_dependency hmac sha256 fparse stack sink v ring now rp request) (\<lambda>d. Inr (vd_principal d))"

section \<open>Audit events are well formed\<close>

lemma head_tail_match_mono:
  "head_tail_match A B n x \<Longrightarrow> (\<And>c. A c \<Longrightarrow> A' c) \<Longrightarrow> (\<And>c. B c \<Longrightarrow> B' c) \<Longrightarrow> n \<le> m \<Longrightarrow> head_tail_match A' B' m x"
  by (auto simp: head_tail_match_def list_all_iff split: list.splits)

lemma scope_is_identifier: "scope_name x \<Longrightarrow> identifier_text x"
  unfolding scope_name_def identifier_text_def by (erule head_tail_match_mono) (auto simp: scope_tail_def identifier_tail_def)

lemma key_id_is_identifier: "key_id_ok x \<Longrightarrow> identifier_text x"
  unfolding key_id_ok_def identifier_text_def by (erule head_tail_match_mono) (auto simp: identifier_tail_def)

lemma low_hex_alnum: "low_hex c \<Longrightarrow> is_alnum c"
  by (auto simp: low_hex_def is_alnum_def is_lower_def is_upper_def is_digit_def in_range_def code_def)

lemma hexdigest_text: "list_all low_hex (hexdigest b)" "length (hexdigest b) = 2 * length b"
  by (induction b) (auto simp: hexdigest_def hex_digits_low_hex simp del: hex_digits.simps)

lemma target_id_identifier: "length (sha256 (utf8 (m @ [CHR 0x00] @ p))) \<le> 32 \<Longrightarrow> identifier_text (delegation_target_id sha256 m p)"
proof -
  assume len: "length (sha256 (utf8 (m @ [CHR 0x00] @ p))) \<le> 32"
  let ?h = "hexdigest (sha256 (utf8 (m @ [CHR 0x00] @ p)))"
  have "list_all identifier_tail ?h"
    using hexdigest_text(1) low_hex_alnum by (auto simp: list_all_iff identifier_tail_def)
  moreover have "is_alnum (CHR ''t'')" "list_all identifier_tail ''arget:''" by code_simp+
  ultimately show ?thesis using len hexdigest_text(2) [of "sha256 (utf8 (m @ [CHR 0x00] @ p))"]
    by (simp add: delegation_target_id_def identifier_text_def head_tail_match_def)
qed

text \<open>What the code relies on from SHA-256: digests have 32 bytes.\<close>

definition digest_32 :: "(bytes \<Rightarrow> bytes) \<Rightarrow> bool" where
  "digest_32 sha256 \<longleftrightarrow> (\<forall>b. length (sha256 b) = 32)"

lemma claims_event_ok:
  assumes "claims_ok c" "is_aware now" "optional_identifier trace_id" "digest_32 sha256"
  shows "\<exists>e. claims_event sha256 c now outcome trace_id = Inr e \<and> ae_outcome e = outcome \<and> ae_token_id e = Some (dc_token_id c)"
proof -
  have "identifier_text (delegation_target_id sha256 (dc_method c) (dc_path c))"
    using assms(4) by (intro target_id_identifier) (simp add: digest_32_def)
  moreover have "optional_identifier (dc_actor_id c)" "optional_identifier (dc_client_id c)" "identifier_text (dc_key_id c)"
    "list_all identifier_text (dc_scopes c)"
    using assms(1) scope_is_identifier key_id_is_identifier
    by (auto simp: claims_ok_def optional_identifier_def list_all_iff split: option.splits)
  ultimately show ?thesis
    using assms by (simp add: claims_event_def audit_post_init_def audit_identities_def claims_ok_def optional_identifier_def)
qed

lemma denied_event_ok:
  assumes "\<And>c. claims = Some c \<Longrightarrow> claims_ok c" "is_aware now" "optional_identifier (vq_trace_id q)" "digest_32 sha256"
    and "length (vq_required_scopes q) \<le> 128"
  shows "\<exists>e. denied_event sha256 now q claims = Inr e \<and> ae_outcome e = DENIED"
proof -
  have "identifier_text (delegation_target_id sha256 (vq_method q) (vq_path q))"
    using assms(4) by (intro target_id_identifier) (simp add: digest_32_def)
  moreover have "identifier_text ''invalid-audience''" by code_simp
  moreover have "list_all identifier_text (if list_all scope_name (vq_required_scopes q) then vq_required_scopes q else [])"
    using scope_is_identifier by (auto simp: list_all_iff)
  moreover have "length (if list_all scope_name (vq_required_scopes q) then vq_required_scopes q else []) \<le> 128" using assms(5) by simp
  moreover have "optional_identifier (Option.bind claims dc_actor_id)" "optional_identifier (Option.bind claims dc_client_id)"
    "optional_identifier (map_option dc_key_id claims)" "optional_identifier (map_option dc_subject_id claims)"
    "case map_option dc_delegation_depth claims of None \<Rightarrow> True | Some n \<Rightarrow> 1 \<le> n \<and> n \<le> 16"
    using assms(1) key_id_is_identifier
    by (cases claims; auto simp: claims_ok_def optional_identifier_def split: option.splits)+
  ultimately show ?thesis
    using assms(2,3) by (auto simp: denied_event_def audit_post_init_def audit_identities_def optional_identifier_def split: option.splits)
qed

section \<open>What a minted credential says\<close>

lemma dt_plus_Inr: "dt_plus t d = Inr u \<longleftrightarrow>
    instant u = instant t + d \<and> is_aware u = is_aware t \<and> dt_min \<le> instant u \<and> instant u \<le> dt_max"
  by (cases u; cases t) (auto simp: dt_plus_def result_simps)

lemma mint_expiry_Inr:
  assumes "mint_expiry p now ttl = Inr e"
  shows "instant e \<le> instant now + ttl" "instant now + ttl \<le> dt_max" "expires_at p = Some t \<Longrightarrow> instant e \<le> instant t"
  using assms by (auto simp: mint_expiry_def and_then_Inr_iff dt_plus_Inr dt_less_def split: option.splits if_splits)

lemma mint_guards_Inr:
  "mint_guards i q = Inr u \<longleftrightarrow>
     set (mq_scopes q) \<subseteq> set (scopes (mq_principal q)) \<and> 0 \<le> mq_parent_depth q \<and> mq_parent_depth q < di_maximum_depth i \<and>
     0 < mq_ttl q \<and> mq_ttl q \<le> di_maximum_ttl_seconds i * second \<and> mq_ttl q mod second = 0"
proof -
  have "of_int m < total_seconds x \<longleftrightarrow> m * second < x" for m x
    using total_seconds_less_iff [of x m] total_seconds_less_iff [of x "m + 1"]
    by (simp add: total_seconds_def field_simps flip: of_int_less_iff [where 'a = rat])
  moreover have "total_seconds x \<le> 0 \<longleftrightarrow> x \<le> 0" for x by (simp add: total_seconds_def divide_le_0_iff)
  ultimately show ?thesis by (auto simp: mint_guards_def Let_def not_less not_le split: if_splits)
qed

lemma mint_claims_facts:
  assumes "mint_claims i ring now fresh q = Inr (c, key)"
  shows "claims_ok c" "signing_key_for ring now = Inr key" "mint_guards i q = Inr ()" "dc_key_id c = sk_key_id key" "dc_issuer c = di_issuer i"
    "dc_tenant_id c = p_tenant_id (mq_principal q)" "dc_subject_id c = subject_id (mq_principal q)" "dc_actor_id c = actor_id (mq_principal q)"
    "dc_client_id c = client_id (mq_principal q)"
    "dc_audience c = mq_audience q" "dc_method c = mq_method q" "canonical_target_path (mq_path q) = Inr (dc_path c)"
    "set (dc_scopes c) = set (mq_scopes q)" "dc_issued_at c = now" "dc_not_before c = now"
    "mint_expiry (mq_principal q) now (mq_ttl q) = Inr (dc_expires_at c)" "instant now < instant (dc_expires_at c)"
    "dc_delegation_depth c = mq_parent_depth q + 1"
proof -
  from assms obtain path expiry c0 where m: "mint_guards i q = Inr ()" "mint_expiry (mq_principal q) now (mq_ttl q) = Inr expiry"
    "instant now < instant expiry" "signing_key_for ring now = Inr key" "canonical_target_path (mq_path q) = Inr path"
    "claims_post_init c0 = Inr c"
    and c0: "c0 = \<lparr>dc_version = 1, dc_issuer = di_issuer i, dc_tenant_id = p_tenant_id (mq_principal q),
           dc_subject_id = subject_id (mq_principal q), dc_actor_id = actor_id (mq_principal q),
           dc_client_id = client_id (mq_principal q), dc_audience = mq_audience q, dc_method = mq_method q, dc_path = path,
           dc_scopes = mq_scopes q, dc_issued_at = now, dc_not_before = now, dc_expires_at = expiry, dc_token_id = fresh,
           dc_key_id = sk_key_id key, dc_delegation_depth = mq_parent_depth q + 1\<rparr>"
    unfolding mint_claims_def and_then_Inr_iff ensure_Inr_iff canonical_method_Inr by auto
  have path: "canonical_target_path path = Inr (dc_path c)" and c: "claims_ok c"
    "c = c0\<lparr>dc_path := dc_path c, dc_scopes := frozenset (dc_scopes c0)\<rparr>" using claims_post_init_ok [OF m(6)] c0 by simp_all
  have "dc_path c = path" using canonical_target_stable [OF m(5)] path by simp
  moreover have "dc_issuer c = di_issuer i \<and> dc_tenant_id c = p_tenant_id (mq_principal q) \<and> dc_subject_id c = subject_id (mq_principal q) \<and>
     dc_actor_id c = actor_id (mq_principal q) \<and> dc_client_id c = client_id (mq_principal q) \<and> dc_audience c = mq_audience q \<and>
     dc_method c = mq_method q \<and> set (dc_scopes c) = set (mq_scopes q) \<and> dc_issued_at c = now \<and> dc_not_before c = now \<and>
     dc_expires_at c = expiry \<and> dc_key_id c = sk_key_id key \<and> dc_delegation_depth c = mq_parent_depth q + 1"
    by (subst (1 2 3 4 5 6 7 8 9 10 11 12 13) c(2)) (simp add: c0)
  ultimately show "claims_ok c" "signing_key_for ring now = Inr key" "mint_guards i q = Inr ()" "dc_key_id c = sk_key_id key" "dc_issuer c = di_issuer i"
    "dc_tenant_id c = p_tenant_id (mq_principal q)" "dc_subject_id c = subject_id (mq_principal q)" "dc_actor_id c = actor_id (mq_principal q)"
    "dc_client_id c = client_id (mq_principal q)"
    "dc_audience c = mq_audience q" "dc_method c = mq_method q" "canonical_target_path (mq_path q) = Inr (dc_path c)"
    "set (dc_scopes c) = set (mq_scopes q)" "dc_issued_at c = now" "dc_not_before c = now"
    "mint_expiry (mq_principal q) now (mq_ttl q) = Inr (dc_expires_at c)" "instant now < instant (dc_expires_at c)"
    "dc_delegation_depth c = mq_parent_depth q + 1"
    using m c(1) by simp_all
qed

lemma record_audit_Inr:
  "record_audit sink ev r = (events, Inr x) \<longleftrightarrow> (\<exists>a. ev = Inr a \<and> events = [a] \<and> sink a = Inr () \<and> r = Inr x)"
  by (auto simp: record_audit_def and_then_Inr_iff split: sum.splits)

lemma mint_Inr:
  assumes "mint hmac sha256 frepr sink i ring now fresh q = (events, Inr token)"
  obtains c key payload where "mint_claims i ring now fresh q = Inr (c, key)" "claims_bytes frepr c = Inr payload"
    "encode_token payload (hmac (sk_secret key) payload) = Inr token"
  using assms
  by (auto simp: mint_def sign_claims_def record_audit_Inr and_then_Inr_iff split: sum.splits prod.splits)

section \<open>What an accepted credential says\<close>

lemma verify_Inr:
  assumes "verify hmac sha256 fparse stack sink v ring now q = (events, Inr c)"
  obtains verb path payload signature e where
    "decode_request fparse stack q = Inr (verb, path, c, payload, signature)" "check_signature hmac ring now c payload signature = Inr ()"
    "check_claims v now q verb path c = Inr ()" "claims_event sha256 c now ALLOWED (vq_trace_id q) = Inr e" "events = [e]"
  using assms
  by (auto simp: verify_def check_credential_def record_audit_Inr and_then_Inr_iff split: prod.splits sum.splits)

lemma decode_request_Inr:
  "decode_request fparse stack q = Inr (verb, path, c, payload, signature) \<longleftrightarrow>
     identifier_text (vq_audience q) \<and> scope_set_ok (vq_required_scopes q) \<and> optional_scopes_ok (vq_authority_ceiling q) \<and>
     head_tail_match is_upper method_tail 31 (vq_method q) \<and> verb = vq_method q \<and>
     canonical_target_path (vq_path q) = Inr path \<and> decode_token fparse stack (vq_token q) = Inr (c, payload, signature)"
  by (auto simp: decode_request_def and_then_Inr_iff canonical_method_Inr)

lemma check_signature_Inr:
  "check_signature hmac ring now c payload signature = Inr u \<longleftrightarrow>
     (\<exists>k. verification_key ring (dc_key_id c) now = Inr (Some k) \<and> hmac (sk_secret k) payload = signature)"
  by (auto simp: check_signature_def and_then_Inr_iff ensure_Inr_iff split: option.splits)

lemma check_claims_Inr:
  "check_claims v now q verb path c = Inr u \<longleftrightarrow>
     dc_issuer c = dv_issuer v \<and> dc_audience c = vq_audience q \<and> dc_method c = verb \<and> dc_path c = path \<and>
     instant now + dv_clock_skew_seconds v * second \<le> dt_max \<and> dt_min \<le> instant now + dv_clock_skew_seconds v * second \<and>
     dt_min \<le> instant now - dv_clock_skew_seconds v * second \<and> instant now - dv_clock_skew_seconds v * second \<le> dt_max \<and>
     instant (dc_not_before c) \<le> instant now + dv_clock_skew_seconds v * second \<and>
     instant (dc_issued_at c) \<le> instant now + dv_clock_skew_seconds v * second \<and>
     instant now - dv_clock_skew_seconds v * second < instant (dc_expires_at c) \<and>
     total_seconds (instant (dc_expires_at c) - instant (dc_issued_at c)) \<le> of_int (dv_maximum_ttl_seconds v) \<and>
     dc_delegation_depth c \<le> dv_maximum_depth v \<and> set (vq_required_scopes q) \<subseteq> set (dc_scopes c) \<and>
     scopes_within (dc_scopes c) (vq_authority_ceiling q) \<and> scopes_within (dc_scopes c) (dv_allowed_scopes v)"
  by (auto simp: check_claims_def Let_def and_then_Inr_iff dt_add_Inr not_less not_le split: if_splits)

lemma scopes_within_iff: "scopes_within ss limit \<longleftrightarrow> (\<forall>l. limit = Some l \<longrightarrow> set ss \<subseteq> set l)"
  by (auto simp: scopes_within_def split: option.splits)

lemma read_token_Inr: "read_token fparse stack p g = Inr (c, payload, signature) \<Longrightarrow> \<exists>d. claims_from_dict d = Inr c"
proof -
  assume "read_token fparse stack p g = Inr (c, payload, signature)"
  then obtain parsed b where "(case parsed of JObj d \<Rightarrow> and_then (claims_from_dict d) (\<lambda>claims. Inr (claims, b)) | _ \<Rightarrow> Inl ValueError) =
     Inr (c, payload, signature)"
    unfolding read_token_def and_then_Inr_iff by blast
  then show ?thesis by (cases parsed) (auto simp: and_then_Inr_iff)
qed

lemma decoded_claims_ok:
  assumes "decode_token fparse stack token = Inr (c, payload, signature)"
  shows "claims_ok c"
proof -
  from assms obtain p g where "read_token fparse stack p g = Inr (c, payload, signature)"
    by (auto simp: decode_token_def split: if_splits list.splits sum.splits exn.splits)
  from read_token_Inr [OF this] obtain d where "claims_from_dict d = Inr c" by blast
  then obtain c0 where "claims_post_init c0 = Inr c"
    by (auto simp: claims_from_dict_def read_claims_def and_then_Inr_iff split: if_splits option.splits sum.splits)
  then show ?thesis using claims_post_init_ok by blast
qed

end
