(* ===== verification/Delegation_Properties.thy ===== *)
theory Delegation_Properties
  imports Delegation_Signing
begin

text \<open>
  What delegation guarantees end to end: an accepted credential carries a valid signature and exactly the authority of the request,
  a minted credential is accepted within its lifetime, authority only shrinks along a chain of hops, and what the dependency
  answers for a credential it does not accept.
\<close>

section \<open>Soundness of verification\<close>

text \<open>
  C7. Verification is sound: when \<^verbatim>\<open>verify\<close> returns claims, the token decodes to them, its signature is the HMAC of the payload
  under a key the ring still offers, issuer, audience and method are those of the request, the signed path denotes the same octets as
  the requested one, the credential is inside its validity interval up to the configured skew and within the verifier's lifetime and
  depth limits, its scopes include the required ones and lie under both ceilings, and exactly one event was recorded, for an
  allowed token.
\<close>

theorem verified_delegation_sound:
  assumes "verify hmac sha256 fparse stack sink v ring now q = (events, Inr c)"
  shows "(\<exists>payload signature k. decode_token fparse stack (vq_token q) = Inr (c, payload, signature) \<and>
      verification_key ring (dc_key_id c) now = Inr (Some k) \<and> hmac (sk_secret k) payload = signature) \<and>
    dc_issuer c = dv_issuer v \<and> dc_audience c = vq_audience q \<and> dc_method c = vq_method q \<and>
    percent_decode (dc_path c) = percent_decode (vq_path q) \<and>
    instant (dc_not_before c) \<le> instant now + dv_clock_skew_seconds v * second \<and>
    instant now - dv_clock_skew_seconds v * second < instant (dc_expires_at c) \<and>
    total_seconds (instant (dc_expires_at c) - instant (dc_issued_at c)) \<le> of_int (dv_maximum_ttl_seconds v) \<and>
    1 \<le> dc_delegation_depth c \<and> dc_delegation_depth c \<le> dv_maximum_depth v \<and>
    set (vq_required_scopes q) \<subseteq> set (dc_scopes c) \<and> scopes_within (dc_scopes c) (vq_authority_ceiling q) \<and>
    scopes_within (dc_scopes c) (dv_allowed_scopes v) \<and>
    (\<exists>e. events = [e] \<and> ae_outcome e = ALLOWED \<and> ae_token_id e = Some (dc_token_id c))"
proof -
  from assms obtain verb path payload signature e where
    d: "decode_request fparse stack q = Inr (verb, path, c, payload, signature)" and g: "check_signature hmac ring now c payload signature = Inr ()"
    and k: "check_claims v now q verb path c = Inr ()" and e: "claims_event sha256 c now ALLOWED (vq_trace_id q) = Inr e" "events = [e]"
    by (rule verify_Inr)
  note d = d [unfolded decode_request_Inr] and k = k [unfolded check_claims_Inr]
  have "percent_decode (dc_path c) = percent_decode (vq_path q)"
    using d k normalize_decodes by (auto simp: canonical_target_path_Inr)
  moreover have "1 \<le> dc_delegation_depth c" using d decoded_claims_ok by (auto simp: claims_ok_def)
  moreover have "ae_outcome e = ALLOWED" "ae_token_id e = Some (dc_token_id c)"
    using e(1) by (auto simp: claims_event_def audit_post_init_def split: if_splits)
  ultimately show ?thesis using d k g e(2) by (simp add: check_signature_Inr)
qed

section \<open>Minted credentials\<close>

lemma epoch_nonneg: "0 \<le> instant t \<Longrightarrow> epoch t = instant t div second"
  by (simp add: epoch_def)

lemma epoch_diff:
  assumes "0 \<le> instant a" "0 \<le> instant b" "instant b - instant a \<le> n * second"
  shows "epoch b - epoch a \<le> n"
proof -
  have "instant b div second \<le> (instant a + n * second) div second" using assms(3) by (intro zdiv_mono1) simp_all
  then show ?thesis using assms(1,2) by (simp add: epoch_nonneg)
qed

lemma whole_second_le: "0 \<le> instant t \<Longrightarrow> instant (whole_second t) \<le> instant t"
  by (simp add: whole_second_def epoch_nonneg)

lemma total_seconds_le_iff: "total_seconds us \<le> of_int s \<longleftrightarrow> us \<le> s * second"
proof -
  have "total_seconds us \<le> of_int s \<longleftrightarrow> (of_int us :: rat) \<le> of_int (s * second)"
    by (simp add: total_seconds_def field_simps)
  then show ?thesis by (simp only: of_int_le_iff)
qed

lemma whole_seconds_ok:
  assumes "claims_ok c" "0 \<le> instant (dc_issued_at c)" "epoch (dc_not_before c) < epoch (dc_expires_at c)"
  shows "claims_ok (whole_seconds c)"
proof -
  have t: "instant (dc_issued_at c) \<le> instant (dc_not_before c)" "instant (dc_not_before c) < instant (dc_expires_at c)"
    "instant (dc_expires_at c) - instant (dc_issued_at c) \<le> 3600 * second"
    using assms(1) total_seconds_le_iff [of _ 3600] by (auto simp: claims_ok_def)
  then have "epoch (dc_expires_at c) - epoch (dc_issued_at c) \<le> 3600" using assms(2) by (intro epoch_diff) simp_all
  moreover have "epoch (dc_issued_at c) \<le> epoch (dc_not_before c)" using t assms(2) by (simp add: epoch_nonneg zdiv_mono1)
  ultimately show ?thesis
    using assms total_seconds_le_iff [of "epoch (dc_expires_at c) * second - epoch (dc_issued_at c) * second" 3600]
    by (simp add: claims_ok_def whole_seconds_def whole_second_def)
qed

text \<open>Whatever reads back from a minted token is what was minted, with whole seconds.\<close>

lemma minted_decodes:
  assumes m: "mint_claims i ring now fresh q = Inr (c, key)" and "claims_bytes frepr c = Inr payload"
    and "encode_token payload signature = Inr token" and "65 \<le> stack" and now: "0 \<le> instant now"
    and "decode_token fparse stack token = Inr (w, payload', signature')"
  shows "w = whole_seconds c \<and> payload' = payload \<and> signature' = signature"
proof -
  have "length token \<le> 8192" using assms(6) by (auto simp: decode_token_def split: if_splits)
  moreover have "datetime_range (dc_issued_at c)" "datetime_range (dc_not_before c)" "datetime_range (dc_expires_at c)"
    using mint_claims_facts(14,15,17) [OF m] mint_expiry_Inr(1,2) [OF mint_claims_facts(16) [OF m]] now
    by (auto simp: datetime_range_def dt_min_def)
  ultimately have "claims_post_init (whole_seconds c) = Inr w \<and> payload' = payload \<and> signature' = signature"
    using decode_minted [OF assms(2,3,4), of fparse] assms(6) by (auto split: sum.splits)
  moreover from this have "w = (whole_seconds c)\<lparr>dc_path := dc_path w, dc_scopes := frozenset (dc_scopes (whole_seconds c))\<rparr>"
      "canonical_target_path (dc_path (whole_seconds c)) = Inr (dc_path w)"
    using claims_post_init_ok by blast+
  moreover have "is_frozenset (dc_scopes c)" "canonical_target_path (dc_path c) = Inr (dc_path c)"
    using mint_claims_facts(1) [OF m] by (simp_all add: claims_ok_def)
  ultimately show ?thesis by (cases c) (simp add: whole_seconds_def)
qed

lemma minted_accepted:
  assumes m: "mint_claims i ring now fresh mq = Inr (c, key)" and payload: "claims_bytes frepr c = Inr payload"
    and token: "encode_token payload (hmac (sk_secret key) payload) = Inr token" and small: "length token \<le> 8192" and stack: "65 \<le> stack"
    and now: "0 \<le> instant now" and later: "epoch now < epoch (dc_expires_at c)"
    and key: "verification_key ring' (sk_key_id key) now' = Inr (Some key')" "sk_secret key' = sk_secret key"
    and req: "vq_token q = token" "vq_audience q = mq_audience mq" "vq_method q = mq_method mq"
      "canonical_target_path (vq_path q) = canonical_target_path (mq_path mq)" "set (vq_required_scopes q) \<subseteq> set (mq_scopes mq)"
      "scope_set_ok (vq_required_scopes q)" "optional_scopes_ok (vq_authority_ceiling q)" "scopes_within (mq_scopes mq) (vq_authority_ceiling q)"
    and ver: "dv_issuer v = di_issuer i" "scopes_within (mq_scopes mq) (dv_allowed_scopes v)" "di_maximum_ttl_seconds i \<le> dv_maximum_ttl_seconds v"
      "mq_parent_depth mq + 1 \<le> dv_maximum_depth v" "0 \<le> dv_clock_skew_seconds v"
    and time: "instant now \<le> instant now' + dv_clock_skew_seconds v * second" "instant now' + dv_clock_skew_seconds v * second \<le> dt_max"
      "dv_clock_skew_seconds v * second \<le> instant now'" "instant now' - dv_clock_skew_seconds v * second < epoch (dc_expires_at c) * second"
    and audit: "optional_identifier (vq_trace_id q)" "digest_32 sha256" "\<And>e. sink' e = Inr ()"
  shows "snd (verify hmac sha256 fparse stack sink' v ring' now' q) = Inr (whole_seconds c)"
proof -
  note f = mint_claims_facts [OF m]
  let ?w = "whole_seconds c"
  have range: "datetime_range (dc_issued_at c)" "datetime_range (dc_not_before c)" "datetime_range (dc_expires_at c)"
    using f(14,15,17) mint_expiry_Inr(1,2) [OF f(16)] now by (auto simp: datetime_range_def dt_min_def)
  have ok: "claims_ok ?w" using whole_seconds_ok [OF f(1)] f(14,15) now later by simp
  have dec: "decode_token fparse stack token = Inr (?w, payload, hmac (sk_secret key) payload)"
    using decode_minted [OF payload token stack small range, of fparse] claims_post_init_fixed [OF ok] by simp
  have "identifier_text (mq_audience mq)" "canonical_method (mq_method mq) = Inr (mq_method mq)" using f(1,10,11) by (auto simp: claims_ok_def)
  then have "decode_request fparse stack q = Inr (vq_method q, dc_path c, ?w, payload, hmac (sk_secret key) payload)"
    using dec req f(12) by (simp add: decode_request_Inr canonical_method_Inr)
  moreover have "check_signature hmac ring' now' ?w payload (hmac (sk_secret key) payload) = Inr ()"
    using key f(4) by (simp add: check_signature_Inr whole_seconds_def)
  moreover have "check_claims v now' q (vq_method q) (dc_path c) ?w = Inr ()"
  proof -
    have "instant (dc_expires_at c) - instant now \<le> dv_maximum_ttl_seconds v * second"
      using mint_expiry_Inr(1) [OF f(16)] f(3) ver(3) by (simp add: mint_guards_Inr)
    then have "epoch (dc_expires_at c) - epoch now \<le> dv_maximum_ttl_seconds v" using now f(17) by (intro epoch_diff) simp_all
    moreover have "epoch now * second \<le> instant now" using whole_second_le [OF now] by (simp add: whole_second_def)
    moreover have "scopes_within (dc_scopes c) x = scopes_within (mq_scopes mq) x" for x using f(13) by (simp add: scopes_within_iff)
    ultimately show ?thesis
      using req ver time f total_seconds_le_iff [of "epoch (dc_expires_at c) * second - epoch now * second" "dv_maximum_ttl_seconds v"]
      by (simp add: check_claims_Inr whole_seconds_def whole_second_def dt_min_def)
  qed
  moreover have "is_aware now'" using key(1) by (auto simp: verification_key_def key_time_def result_simps)
  then obtain e where "claims_event sha256 ?w now' ALLOWED (vq_trace_id q) = Inr e"
    using claims_event_ok [OF ok _ audit(1,2)] by blast
  ultimately show ?thesis using audit(3) by (simp add: verify_def check_credential_def record_audit_def)
qed


section \<open>A sample run\<close>

definition sample_hmac :: "bytes \<Rightarrow> bytes \<Rightarrow> bytes" where
  "sample_hmac k b = replicate 32 (CHR ''h'')"

definition sample_digest :: "bytes \<Rightarrow> bytes" where
  "sample_digest b = replicate 32 (CHR ''d'')"

definition sample_issuer :: delegation_issuer where
  "sample_issuer = \<lparr>di_issuer = ''gateway'', di_maximum_ttl_seconds = 300, di_maximum_depth = 4\<rparr>"

definition sample_mint :: mint_request where
  "sample_mint = \<lparr>mq_principal = sample_principal 1 [''invoice:read'', ''invoice:write''], mq_audience = ''billing'', mq_method = ''GET'',
     mq_path = ''/invoices/%37'', mq_scopes = [''invoice:read''], mq_ttl = 60000000, mq_parent_depth = 0, mq_trace_id = None\<rparr>"

definition sample_delegated :: delegation_claims where
  "sample_delegated = \<lparr>dc_version = 1, dc_issuer = ''gateway'', dc_tenant_id = 1, dc_subject_id = ''alice'', dc_actor_id = None,
     dc_client_id = None, dc_audience = ''billing'', dc_method = ''GET'', dc_path = ''/invoices/7'', dc_scopes = [''invoice:read''],
     dc_issued_at = Aware 5500000, dc_not_before = Aware 5500000, dc_expires_at = Aware 65500000, dc_token_id = 9, dc_key_id = ''k1'',
     dc_delegation_depth = 1\<rparr>"

definition sample_token :: string where
  "sample_token = (case sign_claims sample_hmac (\<lambda>_. []) sample_delegated (sample_key ''k1'') of Inl _ \<Rightarrow> [] | Inr t \<Rightarrow> t)"

definition sample_verifier :: delegation_verifier where
  "sample_verifier = \<lparr>dv_issuer = ''gateway'', dv_allowed_scopes = None, dv_maximum_ttl_seconds = 300, dv_maximum_depth = 4,
     dv_clock_skew_seconds = 5\<rparr>"

definition sample_verify :: verify_request where
  "sample_verify = \<lparr>vq_token = sample_token, vq_audience = ''billing'', vq_method = ''GET'', vq_path = ''/invoices/7'',
     vq_required_scopes = [''invoice:read''], vq_authority_ceiling = Some [''invoice:read''], vq_trace_id = None\<rparr>"

lemma sample_paths: "canonical_target_path (vq_path sample_verify) = canonical_target_path (mq_path sample_mint)"
proof -
  have "canonical_target_path ''/invoices/7'' = canonical_target_path ''/invoices/%37''" by code_simp
  then show ?thesis by (simp only: sample_verify_def sample_mint_def verify_request.simps mint_request.simps)
qed

lemma sample_mint_claims: "mint_claims sample_issuer sample_ring (Aware 5500000) 9 sample_mint = Inr (sample_delegated, sample_key ''k1'')"
  by code_simp

lemma sample_bytes: "case claims_bytes (\<lambda>_. []) sample_delegated of Inl _ \<Rightarrow> False | Inr b \<Rightarrow> b \<noteq> [] \<and> length b \<le> 1000"
  by code_simp

lemma sample_token_encodes:
  obtains payload where "claims_bytes (\<lambda>_. []) sample_delegated = Inr payload" "length payload \<le> 1000"
    "encode_token payload (sample_hmac (sk_secret (sample_key ''k1'')) payload) = Inr sample_token"
proof -
  obtain payload where p: "claims_bytes (\<lambda>_. []) sample_delegated = Inr payload" "payload \<noteq> []" "length payload \<le> 1000"
    using sample_bytes by (auto split: sum.splits)
  then have "encode_token payload (sample_hmac (sk_secret (sample_key ''k1'')) payload) = Inr sample_token"
    by (simp add: sample_token_def sign_claims_def encode_token_def sample_hmac_def)
  with p that show ?thesis by blast
qed

text \<open>The length of a token.\<close>

lemma token_length:
  assumes "encode_token payload signature = Inr token"
  shows "int (length token) = 61 + (4 * int (length payload) + 2) div 3"
proof -
  have "length (b64_body signature) = 43" using b64_body_length [of signature] assms by (simp add: encode_token_Inr)
  moreover have "length token_prefix = 16" by (simp add: token_prefix_def)
  ultimately show ?thesis using assms b64_body_length [of payload] by (auto simp: encode_token_Inr encode_part_body)
qed

lemma sample_accepted:
  "snd (verify sample_hmac sample_digest fparse 65 (\<lambda>_. Inr ()) sample_verifier sample_ring (Aware 6000000) sample_verify) =
     Inr (whole_seconds sample_delegated)"
proof -
  obtain payload where p: "claims_bytes (\<lambda>_. []) sample_delegated = Inr payload" "length payload \<le> 1000"
    "encode_token payload (sample_hmac (sk_secret (sample_key ''k1'')) payload) = Inr sample_token" by (rule sample_token_encodes)
  have small: "length sample_token \<le> 8192" using token_length [OF p(3)] p(2) by linarith
  have "verification_key sample_ring (sk_key_id (sample_key ''k1'')) (Aware 6000000) = Inr (Some (sample_key ''k1''))" by code_simp
  moreover have "canonical_target_path (vq_path sample_verify) = canonical_target_path (mq_path sample_mint)" by (rule sample_paths)
  moreover have "scope_set_ok [''invoice:read'']" by code_simp
  moreover have "digest_32 sample_digest" by (simp add: digest_32_def sample_digest_def)
  ultimately show ?thesis
    using small p(3) by (intro minted_accepted [OF sample_mint_claims p(1), where hmac = sample_hmac and key' = "sample_key ''k1''"])
      (simp_all add: sample_delegated_def epoch_def sample_verify_def sample_mint_def sample_verifier_def sample_issuer_def
        optional_scopes_ok_def scopes_within_def optional_identifier_def dt_max_def)
qed

theorem verified_delegation_sound_witness:
  "\<exists>events c. verify sample_hmac sample_digest (\<lambda>_. NotANumber) 65 (\<lambda>_. Inr ()) sample_verifier sample_ring (Aware 6000000) sample_verify =
     (events, Inr c) \<and> dc_audience c = ''billing'' \<and> {''invoice:read''} \<subseteq> set (dc_scopes c)"
proof -
  obtain events c where r: "verify sample_hmac sample_digest (\<lambda>_. NotANumber) 65 (\<lambda>_. Inr ()) sample_verifier sample_ring (Aware 6000000)
      sample_verify = (events, Inr c)"
    using sample_accepted by (metis prod.collapse)
  from verified_delegation_sound [OF r] have "dc_audience c = ''billing''" "{''invoice:read''} \<subseteq> set (dc_scopes c)"
    by (simp_all add: sample_verify_def)
  with r show ?thesis by blast
qed


section \<open>What the dependency answers\<close>

lemma strip_alnum_ends:
  assumes "x \<noteq> []" "\<forall>c\<in>set x. \<not> is_space c"
  shows "strip x = x"
proof -
  have none: "(\<forall>c\<in>set y. \<not> is_space c) \<Longrightarrow> dropWhile is_space y = y" for y by (cases y) simp_all
  show ?thesis using none [of x] none [of "rev x"] assms(2) by (simp add: strip_def)
qed

lemma identifier_char: "identifier_tail c \<or> is_alnum c \<Longrightarrow> \<not> is_space c \<and> \<not> is_control c"
  by (auto simp: identifier_tail_def is_alnum_def is_lower_def is_upper_def is_digit_def in_range_def is_space_def is_control_def code_def)

lemma plain_identifier_ok: "x \<noteq> [] \<Longrightarrow> list_all (\<lambda>c. identifier_tail c \<or> is_alnum c) x \<Longrightarrow> length x \<le> 512 \<Longrightarrow> identifier_ok (Some x)"
  using strip_alnum_ends [of x] identifier_char by (auto simp: identifier_ok_def has_control_def list_ex_iff list_all_iff)

lemma identifier_text_ok: "identifier_text x \<Longrightarrow> identifier_ok (Some x)"
  using head_tail_match_length [of is_alnum identifier_tail 255 x] head_tail_match_chars [of is_alnum identifier_tail 255 x]
  by (intro plain_identifier_ok) (auto simp: identifier_text_def list_all_iff)

lemma uuid_str_chars: "list_all (\<lambda>c. identifier_tail c \<or> is_alnum c) (uuid_str u)" "length (uuid_str u) = 36"
proof -
  have low: "list_all low_hex (uuid_hex u)" by (simp add: uuid_hex_def hex_digits_low_hex)
  have "identifier_tail (CHR ''-'')" by code_simp
  then show "list_all (\<lambda>c. identifier_tail c \<or> is_alnum c) (uuid_str u)"
    using low low_hex_alnum by (auto simp: uuid_str_def Let_def list_all_iff dest: in_set_takeD in_set_dropD)
  show "length (uuid_str u) = 36" by (simp add: uuid_str_def Let_def uuid_hex_def)
qed

text \<open>Verified claims always make a valid principal with exactly their scopes.\<close>

lemma verified_of_ok:
  assumes "claims_ok c"
  obtains d where "verified_of sha256 c = Inr d" "valid_principal (vd_principal d)" "scopes (vd_principal d) = dc_scopes c"
    "p_tenant_id (vd_principal d) = dc_tenant_id c" "subject_id (vd_principal d) = dc_subject_id c"
    "expires_at (vd_principal d) = Some (dc_expires_at c)" "vd_delegation_depth d = dc_delegation_depth c"
proof -
  let ?p = "\<lparr>p_tenant_id = dc_tenant_id c, subject_id = dc_subject_id c, scopes = dc_scopes c, actor_id = dc_actor_id c,
           client_id = dc_client_id c, issued_at = dc_issued_at c, authentication_time = None, expires_at = Some (dc_expires_at c),
           credential_ref = Some (''delegation:'' @ uuid_str (dc_token_id c))\<rparr>"
  have "list_all (\<lambda>c. identifier_tail c \<or> is_alnum c) ''delegation:''" by code_simp
  then have "identifier_ok (Some (''delegation:'' @ uuid_str (dc_token_id c)))"
    using uuid_str_chars [of "dc_token_id c"] by (intro plain_identifier_ok) simp_all
  moreover have "identifier_ok (dc_actor_id c)" "identifier_ok (dc_client_id c)"
    using assms identifier_text_ok by (cases "dc_actor_id c"; cases "dc_client_id c"; auto simp: claims_ok_def identifier_ok_def [of None])+
  ultimately have "valid_principal ?p"
    using assms identifier_text_ok by (auto simp: claims_ok_def valid_principal_def)
  from principal_post_init_valid [OF this] this show ?thesis using that by (simp add: verified_of_def)
qed

lemma verify_outcomes:
  assumes "is_aware now" "optional_identifier (vq_trace_id q)" "digest_32 sha256" "\<And>e. sink e = Inr ()" "length (vq_required_scopes q) \<le> 128"
  shows "snd (verify hmac sha256 fparse stack sink v ring now q) = Inl AuthorizationDenied \<or>
    (\<exists>c. snd (verify hmac sha256 fparse stack sink v ring now q) = Inr c \<and> claims_ok c)"
proof -
  obtain claims r where cr: "check_credential hmac fparse stack v ring now q = (claims, r)" by fastforce
  have ok: "claims_ok c" if "claims = Some c" for c
    using cr that decoded_claims_ok by (auto simp: check_credential_def decode_request_Inr split: sum.splits)
  show ?thesis
  proof (cases r)
    case (Inl e)
    obtain a where "denied_event sha256 now q claims = Inr a" using denied_event_ok [OF ok assms(1,2,3,5), of claims] by auto
    with Inl show ?thesis using cr assms(4) by (simp add: verify_def record_audit_def)
  next
    case (Inr c)
    then have "claims = Some c" using cr by (auto simp: check_credential_def and_then_Inr_iff split: sum.splits)
    note c = ok [OF this]
    obtain a where "claims_event sha256 c now ALLOWED (vq_trace_id q) = Inr a" using claims_event_ok [OF c assms(1,2,3)] by blast
    with Inr cr c assms(4) show ?thesis by (simp add: verify_def record_audit_def)
  qed
qed

text \<open>
  The dependency always answers: with a sink that accepts events and a well-formed trace ID, a request without the credential gets 401,
  every rejected credential gets 403 with no detail, and an accepted one yields a valid principal that holds the required scopes and
  none outside the route's ceiling; nothing escapes as another exception.
\<close>

lemma dependency_answers:
  assumes "is_aware now" "optional_identifier (trace_id_of request)" "digest_32 sha256" "\<And>e. sink e = Inr ()" "length (rp_required_scopes rp) \<le> 128"
  shows "case verified_delegation_dependency hmac sha256 fparse stack sink v ring now rp request of
      Inl f \<Rightarrow> f = (if dq_header request (rp_header_name rp) = None then HTTPException 401 ''delegation credential required''
                    else HTTPException 403 ''delegation credential denied'')
    | Inr d \<Rightarrow> valid_principal (vd_principal d) \<and> set (rp_required_scopes rp) \<subseteq> set (scopes (vd_principal d)) \<and>
        set (scopes (vd_principal d)) \<subseteq> set (case rp_route_allowed_scopes rp of None \<Rightarrow> rp_required_scopes rp | Some ss \<Rightarrow> ss)"
proof (cases "dq_header request (rp_header_name rp)")
  case None
  then show ?thesis by (simp add: verified_delegation_dependency_def)
next
  case (Some token)
  let ?q = "route_request rp request token"
  obtain events r where er: "verify hmac sha256 fparse stack sink v ring now ?q = (events, r)" by fastforce
  have "r = Inl AuthorizationDenied \<or> (\<exists>c. r = Inr c \<and> claims_ok c)"
    using verify_outcomes [OF assms(1), of ?q sha256 sink hmac fparse stack v ring] assms er by (simp add: route_request_def)
  then show ?thesis
  proof (elim disjE exE conjE)
    fix c assume c: "r = Inr c" "claims_ok c"
    from verified_of_ok [OF c(2)] obtain d where d: "verified_of sha256 c = Inr d" "valid_principal (vd_principal d)" "scopes (vd_principal d) = dc_scopes c"
      by metis
    from er c(1) have er: "verify hmac sha256 fparse stack sink v ring now ?q = (events, Inr c)" by simp
    then obtain verb path where "check_claims v now ?q verb path c = Inr ()" by (rule verify_Inr)
    then have "set (rp_required_scopes rp) \<subseteq> set (dc_scopes c)"
        "set (dc_scopes c) \<subseteq> set (case rp_route_allowed_scopes rp of None \<Rightarrow> rp_required_scopes rp | Some ss \<Rightarrow> ss)"
      by (auto simp: check_claims_Inr route_request_def scopes_within_iff split: option.splits)
    then show ?thesis using Some er d by (simp add: verified_delegation_dependency_def)
  qed (use Some er in \<open>simp add: verified_delegation_dependency_def\<close>)
qed

definition sample_policy :: route_policy where
  "sample_policy = \<lparr>rp_audience = ''billing'', rp_required_scopes = [''invoice:read''], rp_route_allowed_scopes = None, rp_header_name = ''d''\<rparr>"

definition sample_http :: "string option \<Rightarrow> delegation_http" where
  "sample_http tp = \<lparr>dq_header = (\<lambda>h. if h = ''d'' then Some ''x'' else if h = ''traceparent'' then tp else None), dq_method = ''GET'', dq_path = ''/''\<rparr>"

lemma int_base16_plus:
  assumes "list_all low_hex h" and "h \<noteq> []"
  shows "int_base16 (CHR ''+'' # h) = Inr (foldl (\<lambda>n c. 16 * n + hex_digit_value c) 0 h)"
proof -
  have low: "low_hex c" if "c \<in> set h" for c using assms(1) that by (simp add: list_all_iff)
  have "take 2 h \<noteq> ''0x''" "take 2 h \<noteq> ''0X''"
    using low [of "CHR ''x''"] low [of "CHR ''X''"] in_set_takeD [of _ 2 h] low_hex_facts(5) [of "CHR ''x''"] low_hex_facts(6) [of "CHR ''X''"]
    by (metis list.set_intros)+
  moreover have tw: "takeWhile (\<lambda>c. hex_digit c \<or> c = CHR ''_'') h = h" "dropWhile (\<lambda>c. hex_digit c \<or> c = CHR ''_'') h = []"
    using low low_hex_facts(1) by auto
  moreover have "hd h \<noteq> CHR ''_''" "last h \<noteq> CHR ''_''" "filter (\<lambda>c. c \<noteq> CHR ''_'') h = h"
    using low low_hex_facts(2) assms(2) by (auto simp: filter_id_conv)
  moreover have "dropWhile int_space (CHR ''+'' # h) = CHR ''+'' # h" by (simp add: int_space_def)
  ultimately show ?thesis
    using double_underscore_absent [OF assms(1)] assms(2) by (simp add: int_base16_def Let_def tw)
qed

text \<open>
  The trace ID is taken from the request's \<^verbatim>\<open>traceparent\<close> header after \<^verbatim>\<open>int(..., 16)\<close> accepted it, which also accepts a
  sign: a header whose trace ID starts with a plus sign makes the audit event invalid, so the dependency raises a configuration
  error for every presented credential instead of answering.
\<close>

lemma signed_trace_id_escapes:
  assumes "is_aware now" "dq_header request (rp_header_name rp) = Some token"
    and "dq_header request ''traceparent'' = Some (''00-+'' @ h @ ''-00f067aa0ba902b7-01'')" and "list_all low_hex h" and "length h = 31"
  shows "verified_delegation_dependency hmac sha256 fparse stack sink v ring now rp request =
    Inl (Unhandled (ConfigurationError ''Delegation audit identity is invalid.''))"
proof -
  have "\<not> low_hex (CHR ''-'')" by (simp add: low_hex_def)
  then have h: "CHR ''-'' \<notin> set h" "h \<noteq> []" using assms(4,5) by (auto simp: list_all_iff)
  have "returns (int_base16 (CHR ''+'' # h))" using int_base16_plus [OF assms(4) h(2)] by simp
  moreover have "split_on (CHR ''-'') (''00-+'' @ h @ ''-00f067aa0ba902b7-01'') = [''00'', CHR ''+'' # h, ''00f067aa0ba902b7'', ''01'']"
    using split_on_append [of "CHR ''-''" "CHR ''+'' # h" "''00f067aa0ba902b7-01''"] h(1) by simp
  ultimately have t: "trace_id_of request = Some (CHR ''+'' # h)"
    using assms(3,5) by (auto simp: trace_id_of_def returns_iff)
  have "\<not> is_alnum (CHR ''+'')" by code_simp
  then have bad: "\<not> optional_identifier (Some (CHR ''+'' # h))" by (simp add: optional_identifier_def identifier_text_def head_tail_match_def)
  have "claims_event sha256 c now ALLOWED (Some (CHR ''+'' # h)) = config_error ''Delegation audit identity is invalid.''" for c
    using assms(1) bad by (simp add: claims_event_def audit_post_init_def audit_identities_def)
  moreover have "denied_event sha256 now (route_request rp request token) c = config_error ''Delegation audit identity is invalid.''" for c
    using assms(1) bad t by (simp add: denied_event_def audit_post_init_def audit_identities_def route_request_def)
  ultimately have "snd (verify hmac sha256 fparse stack sink v ring now (route_request rp request token)) =
      config_error ''Delegation audit identity is invalid.''"
    using t by (auto simp: verify_def record_audit_def route_request_def split: prod.splits sum.splits)
  then show ?thesis using assms(2) by (simp add: verified_delegation_dependency_def)
qed

text \<open>
  The two limits of the token format disagree: a payload may have 6144 bytes when a token is encoded, but the token fits the
  8192 characters that decoding admits exactly when the payload has at most 6098 bytes, so a larger credential is minted and then
  rejected by every verifier.
\<close>

lemma token_fits_iff:
  assumes "encode_token payload signature = Inr token"
  shows "(length token \<le> 8192 \<longleftrightarrow> length payload \<le> 6098) \<and>
    (6098 < length payload \<longrightarrow> decode_token fparse stack token = Inl AuthorizationDenied)"
proof -
  have "length token \<le> 8192 \<longleftrightarrow> length payload \<le> 6098"
  proof (cases "length payload \<le> 6098")
    case True
    then have "(4 * int (length payload) + 2) div 3 \<le> (4 * 6098 + 2) div 3" by (intro zdiv_mono1) simp_all
    with True token_length [OF assms] show ?thesis by simp
  next
    case False
    then have "(4 * 6099 + 2) div 3 \<le> (4 * int (length payload) + 2) div 3" by (intro zdiv_mono1) simp_all
    with False token_length [OF assms] show ?thesis by simp
  qed
  then show ?thesis by (auto simp: decode_token_def)
qed

end
