(* ===== verification/Delegation_Chain.thy ===== *)
theory Delegation_Chain
  imports Delegation_Properties
begin

text \<open>
  Chains of services: a service that accepted a delegation through the FastAPI dependency calls the next service through its own
  bridge, with the accepted principal and depth as the trusted caller. One hop is a step relation over accepted delegations; the
  issuer, keys, clocks, policies and headers of the two services are arbitrary.
\<close>

inductive delegation_hop :: "verified_delegation \<Rightarrow> verified_delegation \<Rightarrow> bool" where
  hop: "trusted_caller_post_init caller = Inr caller \<Longrightarrow> tc_principal caller = vd_principal d \<Longrightarrow>
    tc_delegation_depth caller = vd_delegation_depth d \<Longrightarrow> 0 \<le> instant now \<Longrightarrow>
    prepare_trusted hmac sha256 frepr sink i ring now fresh b inbound caller q = (events, Inr out) \<Longrightarrow>
    map_of (dr_headers out) (db_header_name b) = Some token \<Longrightarrow>
    dq_header request (rp_header_name rp) = Some token \<Longrightarrow> 65 \<le> stack \<Longrightarrow>
    verified_delegation_dependency hmac' sha256' fparse stack sink' v ring' now' rp request = Inr d' \<Longrightarrow> delegation_hop d d'"

lemma prepare_trusted_Inr:
  assumes "prepare_trusted hmac sha256 frepr sink i ring now fresh b inbound caller q = (events, Inr out)"
    and "map_of (dr_headers out) (db_header_name b) = Some token"
  obtains mq where "mint hmac sha256 frepr sink i ring now fresh mq = (events, Inr token)" "mq_principal mq = tc_principal caller"
    "mq_parent_depth mq = tc_delegation_depth caller" "set (mq_scopes mq) \<subseteq> set (db_allowed_scopes b)"
proof -
  let ?q = "q\<lparr>mq_principal := tc_principal caller, mq_parent_depth := tc_delegation_depth caller\<rparr>"
  let ?eff = "fs_inter (fs_inter (mq_scopes ?q) (scopes (mq_principal ?q))) (db_allowed_scopes b)"
  from assms(1) obtain token' forwarded where m: "mint hmac sha256 frepr sink i ring now fresh (?q\<lparr>mq_scopes := ?eff\<rparr>) = (events, Inr token')"
    and out: "dr_headers out = dict_merge forwarded [(db_header_name b, token')]"
    by (auto simp: prepare_trusted_def prepare_delegation_def Let_def split: if_splits sum.splits prod.splits)
  have "token' = token" using assms(2) out by (simp add: map_of_dict_merge)
  with m that [of "?q\<lparr>mq_scopes := ?eff\<rparr>"] show ?thesis by simp
qed

text \<open>Whatever key and verifier accept a minted token, the accepted delegation is what was minted, in whole seconds.\<close>

lemma accepted_is_minted:
  assumes mint: "mint hmac sha256 frepr sink i ring now fresh mq = (events, Inr token)" and "0 \<le> instant now" and "65 \<le> stack"
    and "dq_header request (rp_header_name rp) = Some token"
    and "verified_delegation_dependency hmac' sha256' fparse stack sink' v ring' now' rp request = Inr d"
  obtains c key where "mint_claims i ring now fresh mq = Inr (c, key)" "verified_of sha256' (whole_seconds c) = Inr d"
    "claims_ok (whole_seconds c)"
proof -
  from assms(4,5) obtain w where w: "snd (verify hmac' sha256' fparse stack sink' v ring' now' (route_request rp request token)) = Inr w"
    and d: "verified_of sha256' w = Inr d"
    by (auto simp: verified_delegation_dependency_def split: sum.splits exn.splits)
  obtain events' where "verify hmac' sha256' fparse stack sink' v ring' now' (route_request rp request token) = (events', Inr w)"
    using w by (metis prod.collapse)
  then obtain payload' signature' where dec: "decode_token fparse stack token = Inr (w, payload', signature')"
    by (rule verify_Inr) (auto simp: decode_request_Inr route_request_def)
  from mint obtain c key payload where m: "mint_claims i ring now fresh mq = Inr (c, key)" "claims_bytes frepr c = Inr payload"
    "encode_token payload (hmac (sk_secret key) payload) = Inr token" by (rule mint_Inr)
  from minted_decodes [OF m assms(3,2) dec] have "w = whole_seconds c" by simp
  with m(1) d decoded_claims_ok [OF dec] that show ?thesis by blast
qed

lemma hop_attenuates:
  assumes "delegation_hop d d'" and "expires_at (vd_principal d) = Some t"
  shows "set (scopes (vd_principal d')) \<subseteq> set (scopes (vd_principal d)) \<and> p_tenant_id (vd_principal d') = p_tenant_id (vd_principal d) \<and>
    subject_id (vd_principal d') = subject_id (vd_principal d) \<and> vd_delegation_depth d' = vd_delegation_depth d + 1 \<and>
    vd_delegation_depth d' \<le> 16 \<and> (\<exists>t'. expires_at (vd_principal d') = Some t' \<and> instant t' \<le> instant t)"
  using assms(1)
proof cases
  case (hop caller now hmac sha256 frepr sink i ring fresh b inbound q events out token request rp stack hmac' sha256' fparse sink' v ring' now')
  from hop(5,6) obtain mq where mint: "mint hmac sha256 frepr sink i ring now fresh mq = (events, Inr token)"
    and mq: "mq_principal mq = tc_principal caller" "mq_parent_depth mq = tc_delegation_depth caller" by (rule prepare_trusted_Inr)
  from mint hop(4,8,7,9) obtain c key where m: "mint_claims i ring now fresh mq = Inr (c, key)"
    and d': "verified_of sha256' (whole_seconds c) = Inr d'" and ok: "claims_ok (whole_seconds c)" by (rule accepted_is_minted)
  note f = mint_claims_facts [OF m]
  from verified_of_ok [OF ok, of sha256'] d' have v: "scopes (vd_principal d') = dc_scopes c" "p_tenant_id (vd_principal d') = dc_tenant_id c"
    "subject_id (vd_principal d') = dc_subject_id c" "vd_delegation_depth d' = dc_delegation_depth c"
    "expires_at (vd_principal d') = Some (whole_second (dc_expires_at c))"
    by (fastforce simp: whole_seconds_def)+
  have "instant (dc_expires_at c) \<le> instant t"
    using mint_expiry_Inr(3) [OF f(16)] assms(2) mq(1) hop(2) by simp
  moreover have "instant (whole_second (dc_expires_at c)) \<le> instant (dc_expires_at c)" using whole_second_le f(17) hop(4) by simp
  moreover have "set (dc_scopes c) \<subseteq> set (scopes (vd_principal d))" using f(3,13) mq(1) hop(2) by (simp add: mint_guards_Inr)
  moreover have "dc_delegation_depth c \<le> 16" using ok by (simp add: claims_ok_def whole_seconds_def)
  ultimately show ?thesis using v f(6,7,18) mq hop(2,3) by auto
qed

text \<open>
  C9. Authority only shrinks along a chain: after any number of hops the tenant and subject are those of the first delegation, no scope
  was added, the expiry is not later, the depth grew by exactly the number of hops and never exceeds 16, so a chain that starts
  from an accepted delegation has at most fifteen hops.
\<close>

theorem delegation_chain_attenuates:
  assumes "(delegation_hop ^^ n) d d'" and "expires_at (vd_principal d) = Some t" and "vd_delegation_depth d \<le> 16"
  shows "set (scopes (vd_principal d')) \<subseteq> set (scopes (vd_principal d)) \<and> p_tenant_id (vd_principal d') = p_tenant_id (vd_principal d) \<and>
    subject_id (vd_principal d') = subject_id (vd_principal d) \<and> vd_delegation_depth d' = vd_delegation_depth d + int n \<and>
    vd_delegation_depth d' \<le> 16 \<and> (\<exists>t'. expires_at (vd_principal d') = Some t' \<and> instant t' \<le> instant t)"
  using assms(1)
proof (induction n arbitrary: d')
  case 0
  then show ?case using assms(2,3) by simp
next
  case (Suc n)
  then obtain e where e: "(delegation_hop ^^ n) d e" "delegation_hop e d'" by auto
  from Suc.IH [OF e(1)] obtain u where ih: "set (scopes (vd_principal e)) \<subseteq> set (scopes (vd_principal d))"
    "p_tenant_id (vd_principal e) = p_tenant_id (vd_principal d)" "subject_id (vd_principal e) = subject_id (vd_principal d)"
    "vd_delegation_depth e = vd_delegation_depth d + int n" "expires_at (vd_principal e) = Some u" "instant u \<le> instant t" by blast
  from hop_attenuates [OF e(2) ih(5)] ih show ?case by fastforce
qed

section \<open>A sample chain\<close>

definition sample_delegation :: verified_delegation where
  "sample_delegation = \<lparr>vd_principal = (sample_principal 1 [''invoice:read'', ''invoice:write''])\<lparr>expires_at := Some (Aware 90000000)\<rparr>,
     vd_issuer = ''login'', vd_audience = ''gateway'', vd_target_id = ''target:1'', vd_token_id = 3, vd_key_id = ''k1'', vd_delegation_depth = 0\<rparr>"

definition sample_caller :: trusted_caller where
  "sample_caller = \<lparr>tc_principal = vd_principal sample_delegation, tc_authentication_source = ''gateway'', tc_delegation_depth = 0\<rparr>"

definition sample_bridge :: delegation_bridge where
  "sample_bridge = \<lparr>db_allowed_scopes = [''invoice:read''], db_header_name = ''d'', db_forwarded_headers = []\<rparr>"

definition sample_call :: delegation_http where
  "sample_call = \<lparr>dq_header = (\<lambda>h. if h = ''d'' then Some sample_token else None), dq_method = ''GET'', dq_path = ''/invoices/7''\<rparr>"

lemma sample_trusted_claims:
  "mint_claims sample_issuer sample_ring (Aware 5500000) 9 (sample_mint\<lparr>mq_principal := tc_principal sample_caller\<rparr>) =
     Inr (sample_delegated, sample_key ''k1'')"
  by code_simp

lemma sample_prepared:
  "\<exists>events. prepare_trusted sample_hmac sample_digest (\<lambda>_. []) (\<lambda>_. Inr ()) sample_issuer sample_ring (Aware 5500000) 9 sample_bridge [] sample_caller
     sample_mint = (events, Inr \<lparr>dr_method = ''GET'', dr_path = ''/invoices/%37'', dr_headers = [(''d'', sample_token)]\<rparr>)"
proof -
  obtain payload where p: "claims_bytes (\<lambda>_. []) sample_delegated = Inr payload"
    "encode_token payload (sample_hmac (sk_secret (sample_key ''k1'')) payload) = Inr sample_token" by (rule sample_token_encodes)
  have ok: "claims_ok sample_delegated" using mint_claims_facts(1) [OF sample_mint_claims] .
  obtain e where e: "claims_event sample_digest sample_delegated (Aware 5500000) ISSUED None = Inr e"
    using claims_event_ok [OF ok, of "Aware 5500000" None sample_digest ISSUED] by (auto simp: optional_identifier_def digest_32_def sample_digest_def)
  let ?q = "sample_mint\<lparr>mq_principal := tc_principal sample_caller\<rparr>"
  have mint: "mint sample_hmac sample_digest (\<lambda>_. []) (\<lambda>_. Inr ()) sample_issuer sample_ring (Aware 5500000) 9 ?q = ([e], Inr sample_token)"
    using sample_trusted_claims p e by (simp add: mint_def sign_claims_def record_audit_def sample_mint_def)
  have "fs_inter (fs_inter (mq_scopes ?q) (scopes (mq_principal ?q))) (db_allowed_scopes sample_bridge) = mq_scopes ?q"
    by (simp add: sample_mint_def sample_caller_def sample_delegation_def sample_bridge_def fs_inter_def sample_principal_def)
  moreover have "?q\<lparr>mq_parent_depth := tc_delegation_depth sample_caller\<rparr> = ?q" by (simp add: sample_mint_def sample_caller_def)
  moreover have "?q\<lparr>mq_scopes := mq_scopes ?q\<rparr> = ?q" by simp
  ultimately show ?thesis
    using mint by (simp add: prepare_trusted_def prepare_delegation_def sample_bridge_def dict_merge_def) (simp add: sample_mint_def)
qed

lemma sample_hop: "\<exists>d'. delegation_hop sample_delegation d'"
proof -
  have "trace_id_of sample_call = None" by (simp add: trace_id_of_def sample_call_def)
  then have "route_request sample_policy sample_call sample_token = sample_verify"
    by (simp add: route_request_def sample_policy_def sample_verify_def) (simp add: sample_call_def)
  moreover have "claims_ok (whole_seconds sample_delegated)"
    using whole_seconds_ok [OF mint_claims_facts(1) [OF sample_mint_claims]] by (simp add: sample_delegated_def epoch_def)
  then obtain d' where "verified_of sample_digest (whole_seconds sample_delegated) = Inr d'" by (rule verified_of_ok)
  ultimately have d: "verified_delegation_dependency sample_hmac sample_digest (\<lambda>_. NotANumber) 65 (\<lambda>_. Inr ()) sample_verifier sample_ring (Aware 6000000)
      sample_policy sample_call = Inr d'"
    using sample_accepted [of "\<lambda>_. NotANumber"] by (simp add: verified_delegation_dependency_def) (simp add: sample_call_def sample_policy_def)
  obtain events where prep: "prepare_trusted sample_hmac sample_digest (\<lambda>_. []) (\<lambda>_. Inr ()) sample_issuer sample_ring (Aware 5500000) 9 sample_bridge [] sample_caller
     sample_mint = (events, Inr \<lparr>dr_method = ''GET'', dr_path = ''/invoices/%37'', dr_headers = [(''d'', sample_token)]\<rparr>)"
    using sample_prepared by blast
  have ok: "trusted_caller_post_init sample_caller = Inr sample_caller" by code_simp
  have "delegation_hop sample_delegation d'"
    by (rule hop [OF ok _ _ _ prep _ _ _ d]) (simp_all add: sample_caller_def sample_bridge_def sample_call_def sample_policy_def sample_delegation_def)
  then show ?thesis ..
qed

theorem delegation_chain_attenuates_witness:
  "\<exists>d'. (delegation_hop ^^ 1) sample_delegation d' \<and> vd_delegation_depth d' = 1 \<and> p_tenant_id (vd_principal d') = 1"
proof -
  obtain d' where h: "(delegation_hop ^^ 1) sample_delegation d'" using sample_hop by auto
  from delegation_chain_attenuates [OF h, of "Aware 90000000"] h show ?thesis
    by (auto simp: sample_delegation_def sample_principal_def)
qed

end
