(* ===== verification/Python_Ip.thy ===== *)
theory Python_Ip
  imports Python_Uuid Json_Parse
begin

unbundle bit_operations_syntax

text \<open>
  What the webhook address policy uses of the standard library's \<^verbatim>\<open>ipaddress\<close>, as of Python 3.11.10: reading IPv4 and IPv6 text, the
  compressed spelling, and the address properties over the module's network constants. Membership in a network compares the masked
  address with the network address, as the module does.
\<close>

section \<open>Reading\<close>

datatype ip = IPv4 "32 word" | IPv6 "128 word" "string option"

definition parse_octet :: "string \<Rightarrow> int option" where
  "parse_octet s =
     (if s = [] \<or> \<not> list_all is_digit s \<or> 3 < length s \<or> (s \<noteq> ''0'' \<and> hd s = CHR ''0'') then None
      else let n = decimal_value s in if 255 < n then None else Some n)"

definition ipv4_of_string :: "string \<Rightarrow> 32 word option" where
  "ipv4_of_string s =
     (if CHR ''/'' \<in> set s then None
      else (case those (map parse_octet (split_on (CHR ''.'') s)) of
              Some [a, b, c, d] \<Rightarrow> Some (word_of_int (((a * 256 + b) * 256 + c) * 256 + d))
            | _ \<Rightarrow> None))"

definition parse_hextet :: "string \<Rightarrow> int option" where
  "parse_hextet s =
     (if s = [] \<or> \<not> list_all hex_digit s \<or> 4 < length s then None else Some (foldl (\<lambda>n c. 16 * n + hex_digit_value c) 0 s))"

text \<open>\<^verbatim>\<open>'%x' % n\<close> of a 16-bit number.\<close>

definition hextet_text :: "int \<Rightarrow> string" where
  "hextet_text n = (let ds = dropWhile (\<lambda>c. c = CHR ''0'') (hex_digits 4 n) in if ds = [] then ''0'' else ds)"

text \<open>The parts between colons, with a dotted suffix turned into two hextets.\<close>

definition ipv6_parts :: "string \<Rightarrow> string list option" where
  "ipv6_parts s =
     (let parts = split_on (CHR '':'') s in
      if s = [] \<or> length parts < 3 then None
      else if CHR ''.'' \<in> set (last parts)
      then (case ipv4_of_string (last parts) of
              None \<Rightarrow> None
            | Some w \<Rightarrow> Some (butlast parts @ [hextet_text (uint w div 65536), hextet_text (uint w mod 65536)]))
      else Some parts)"

text \<open>The eight hextets: the empty inner part stands for a run of zeros, which may cover an end of the text.\<close>

definition ipv6_hextets :: "string list \<Rightarrow> string list option" where
  "ipv6_hextets parts =
     (if 9 < length parts then None
      else case filter (\<lambda>i. parts ! i = []) [1..<length parts - 1] of
        [] \<Rightarrow> if length parts \<noteq> 8 \<or> hd parts = [] \<or> last parts = [] then None else Some parts
      | [k] \<Rightarrow>
          let hi = (if hd parts = [] then k - 1 else k);
              lo = (if last parts = [] then length parts - k - 2 else length parts - k - 1) in
          if (hd parts = [] \<and> hi \<noteq> 0) \<or> (last parts = [] \<and> lo \<noteq> 0) \<or> 8 \<le> hi + lo then None
          else Some (take hi parts @ replicate (8 - hi - lo) ''0'' @ drop (length parts - lo) parts)
      | _ \<Rightarrow> None)"

definition ipv6_int :: "string \<Rightarrow> 128 word option" where
  "ipv6_int s =
     (case ipv6_parts s of
        None \<Rightarrow> None
      | Some parts \<Rightarrow>
          (case ipv6_hextets parts of
             None \<Rightarrow> None
           | Some hs \<Rightarrow>
               (case those (map parse_hextet hs) of None \<Rightarrow> None | Some ns \<Rightarrow> Some (word_of_int (foldl (\<lambda>n h. 65536 * n + h) 0 ns)))))"

definition ipv6_of_string :: "string \<Rightarrow> (128 word \<times> string option) option" where
  "ipv6_of_string s =
     (if CHR ''/'' \<in> set s then None
      else let (addr, sep, scope_id) = partition_at (CHR ''%'') s in
        if sep \<noteq> [] \<and> (scope_id = [] \<or> CHR ''%'' \<in> set scope_id) then None
        else map_option (\<lambda>w. (w, if sep = [] then None else Some scope_id)) (ipv6_int addr))"

text \<open>\<^verbatim>\<open>ipaddress.ip_address\<close>; \<open>None\<close> is its \<^verbatim>\<open>ValueError\<close>.\<close>

definition ip_address :: "string \<Rightarrow> ip option" where
  "ip_address s =
     (case ipv4_of_string s of
        Some w \<Rightarrow> Some (IPv4 w)
      | None \<Rightarrow> (case ipv6_of_string s of Some (w, scope_id) \<Rightarrow> Some (IPv6 w scope_id) | None \<Rightarrow> None))"

section \<open>Writing\<close>

definition ipv4_text :: "32 word \<Rightarrow> string" where
  "ipv4_text w =
     (let n = uint w in
      join ''.'' [int_str (n div 16777216), int_str (n div 65536 mod 256), int_str (n div 256 mod 256), int_str (n mod 256)])"

text \<open>The longest run of zero hextets, the first one of several: its start and length.\<close>

fun longest_zeros :: "nat \<Rightarrow> nat \<Rightarrow> nat \<times> nat \<Rightarrow> string list \<Rightarrow> nat \<times> nat" where
  "longest_zeros index run best [] = best"
| "longest_zeros index run best (h # hs) =
     (if h = ''0''
      then longest_zeros (Suc index) (Suc run) (if snd best < Suc run then (index - run, Suc run) else best) hs
      else longest_zeros (Suc index) 0 best hs)"

definition compress_hextets :: "string list \<Rightarrow> string list" where
  "compress_hextets hextets =
     (let (start, len) = longest_zeros 0 0 (0, 0) hextets in
      if len \<le> 1 then hextets
      else (if start = 0 then [[]] else []) @ take start hextets @ [[]] @
           drop (start + len) hextets @ (if start + len = length hextets then [[]] else []))"

definition hextets :: "128 word \<Rightarrow> int list" where
  "hextets w = map (\<lambda>i. uint w div 65536 ^ i mod 65536) [7, 6, 5, 4, 3, 2, 1, 0]"

fun compressed :: "ip \<Rightarrow> string" where
  "compressed (IPv4 w) = ipv4_text w"
| "compressed (IPv6 w scope_id) =
     join '':'' (compress_hextets (map hextet_text (hextets w))) @ (case scope_id of None \<Rightarrow> [] | Some s \<Rightarrow> ''%'' @ s)"

section \<open>Networks\<close>

type_synonym 'a network = "'a word \<times> nat"

definition in_network :: "'a::len word \<Rightarrow> 'a network \<Rightarrow> bool" where
  "in_network w net \<longleftrightarrow> w AND NOT (mask (LENGTH('a) - snd net)) = fst net"

definition v4 :: "int \<Rightarrow> int \<Rightarrow> int \<Rightarrow> int \<Rightarrow> nat \<Rightarrow> 32 network" where
  "v4 a b c d p = (word_of_int (((a * 256 + b) * 256 + c) * 256 + d), p)"

definition v6 :: "int \<Rightarrow> int \<Rightarrow> int \<Rightarrow> nat \<Rightarrow> 128 network" where
  "v6 a b c p = (word_of_int (((a * 65536 + b) * 65536 + c) * 65536 ^ 5), p)"

definition v4_private :: "32 network list" where
  "v4_private =
     [v4 0 0 0 0 8, v4 10 0 0 0 8, v4 127 0 0 0 8, v4 169 254 0 0 16, v4 172 16 0 0 12, v4 192 0 0 0 24, v4 192 0 0 170 31,
      v4 192 0 2 0 24, v4 192 168 0 0 16, v4 198 18 0 0 15, v4 198 51 100 0 24, v4 203 0 113 0 24, v4 240 0 0 0 4, v4 255 255 255 255 32]"

definition v4_private_exceptions :: "32 network list" where
  "v4_private_exceptions = [v4 192 0 0 9 32, v4 192 0 0 10 32]"

definition v6_private :: "128 network list" where
  "v6_private =
     [(1, 128), (0, 128), (word_of_int (65535 * 65536 ^ 2), 96), v6 0x64 0xff9b 1 48, v6 0x100 0 0 64, v6 0x2001 0 0 23, v6 0x2001 0xdb8 0 32,
      v6 0x2002 0 0 16, v6 0xfc00 0 0 7, v6 0xfe80 0 0 10]"

definition v6_private_exceptions :: "128 network list" where
  "v6_private_exceptions =
     [(word_of_int ((0x2001 * 65536 + 1) * 65536 ^ 6 + 1), 128), (word_of_int ((0x2001 * 65536 + 1) * 65536 ^ 6 + 2), 128), v6 0x2001 3 0 32,
      v6 0x2001 4 0x112 48, v6 0x2001 0x20 0 28, v6 0x2001 0x30 0 28]"

definition v6_reserved :: "128 network list" where
  "v6_reserved =
     [v6 0 0 0 8, v6 0x100 0 0 8, v6 0x200 0 0 7, v6 0x400 0 0 6, v6 0x800 0 0 5, v6 0x1000 0 0 4, v6 0x4000 0 0 3, v6 0x6000 0 0 3,
      v6 0x8000 0 0 3, v6 0xA000 0 0 3, v6 0xC000 0 0 3, v6 0xE000 0 0 4, v6 0xF000 0 0 5, v6 0xF800 0 0 6, v6 0xFE00 0 0 9]"

definition in_some :: "'a::len network list \<Rightarrow> 'a word \<Rightarrow> bool" where
  "in_some nets w \<longleftrightarrow> list_ex (in_network w) nets"

definition private_v4 :: "32 word \<Rightarrow> bool" where
  "private_v4 w \<longleftrightarrow> in_some v4_private w \<and> \<not> in_some v4_private_exceptions w"

definition ipv4_mapped :: "ip \<Rightarrow> 32 word option" where
  "ipv4_mapped a = (case a of IPv4 _ \<Rightarrow> None | IPv6 w _ \<Rightarrow> if uint w div 4294967296 \<noteq> 65535 then None else Some (word_of_int (uint w)))"

fun is_private :: "ip \<Rightarrow> bool" where
  "is_private (IPv4 w) = private_v4 w"
| "is_private (IPv6 w s) =
     (case ipv4_mapped (IPv6 w s) of Some m \<Rightarrow> private_v4 m | None \<Rightarrow> in_some v6_private w \<and> \<not> in_some v6_private_exceptions w)"

fun is_global :: "ip \<Rightarrow> bool" where
  "is_global (IPv4 w) \<longleftrightarrow> \<not> in_network w (v4 100 64 0 0 10) \<and> \<not> is_private (IPv4 w)"
| "is_global (IPv6 w s) \<longleftrightarrow> \<not> is_private (IPv6 w s)"

fun is_multicast :: "ip \<Rightarrow> bool" where
  "is_multicast (IPv4 w) = in_network w (v4 224 0 0 0 4)"
| "is_multicast (IPv6 w s) = in_network w (v6 0xff00 0 0 8)"

fun is_reserved :: "ip \<Rightarrow> bool" where
  "is_reserved (IPv4 w) = in_network w (v4 240 0 0 0 4)"
| "is_reserved (IPv6 w s) = in_some v6_reserved w"

fun is_unspecified :: "ip \<Rightarrow> bool" where
  "is_unspecified (IPv4 w) \<longleftrightarrow> w = 0"
| "is_unspecified (IPv6 w s) \<longleftrightarrow> w = 0"

fun is_loopback :: "ip \<Rightarrow> bool" where
  "is_loopback (IPv4 w) = in_network w (v4 127 0 0 0 8)"
| "is_loopback (IPv6 w s) \<longleftrightarrow> w = 1"

fun is_link_local :: "ip \<Rightarrow> bool" where
  "is_link_local (IPv4 w) = in_network w (v4 169 254 0 0 16)"
| "is_link_local (IPv6 w s) = in_network w (v6 0xfe80 0 0 10)"

section \<open>Networks as intervals\<close>

lemma masked_uint:
  fixes w :: "'a::len word"
  shows "uint (w AND NOT (mask k)) = 2 ^ k * (uint w div 2 ^ k)"
proof -
  have "uint w AND NOT (mask k) = push_bit k (drop_bit k (uint w))" by (rule bit_eqI) (auto simp: bit_simps)
  moreover have "uint (w AND NOT (mask k)) = uint w AND NOT (mask k)" by (rule bit_eqI) (auto simp: bit_simps dest: bit_imp_le_length)
  ultimately show ?thesis by (simp add: push_bit_eq_mult drop_bit_eq_div)
qed

lemma multiple_interval:
  assumes "0 < m" "m dvd n"
  shows "m * (x div m) = n \<longleftrightarrow> n \<le> x \<and> x < n + (m::int)"
proof -
  from assms(2) obtain q where q: "n = m * q" by (elim dvdE)
  have "x div m = q \<longleftrightarrow> m * q \<le> x \<and> x < m * q + m"
  proof
    assume d: "x div m = q"
    have "m * (x div m) + x mod m = x" "0 \<le> x mod m" "x mod m < m" using assms(1) by simp_all
    then show "m * q \<le> x \<and> x < m * q + m" unfolding d by linarith
  next
    assume b: "m * q \<le> x \<and> x < m * q + m"
    then show "x div m = q" using assms(1) by (intro int_div_pos_eq [where r = "x - m * q"]) auto
  qed
  then show ?thesis using assms(1) unfolding q by simp
qed

text \<open>A well-formed network contains exactly the addresses from its own to the last one with the same prefix.\<close>

definition valid_network :: "'a::len network \<Rightarrow> bool" where
  "valid_network net \<longleftrightarrow> uint (fst net) mod 2 ^ (LENGTH('a) - snd net) = 0"

definition net_range :: "'a::len network \<Rightarrow> int \<times> int" where
  "net_range net = (uint (fst net), uint (fst net) + 2 ^ (LENGTH('a) - snd net))"

definition within_ranges :: "int \<Rightarrow> (int \<times> int) list \<Rightarrow> bool" where
  "within_ranges x ranges \<longleftrightarrow> list_ex (\<lambda>(lo, hi). lo \<le> x \<and> x < hi) ranges"

lemma in_network_range:
  fixes w :: "'a::len word"
  shows "valid_network net \<Longrightarrow> in_network w net \<longleftrightarrow> within_ranges (uint w) [net_range net]"
  using multiple_interval [of "2 ^ (LENGTH('a) - snd net)" "uint (fst net)" "uint w"]
  by (simp add: in_network_def word_uint_eq_iff masked_uint valid_network_def net_range_def within_ranges_def mod_0_imp_dvd)

lemma in_some_ranges: "list_all valid_network nets \<Longrightarrow> in_some nets w \<longleftrightarrow> within_ranges (uint w) (map net_range nets)"
  by (induction nets) (auto simp: in_some_def within_ranges_def in_network_range)

text \<open>
  Range tests change only at the ends of the ranges, so a relation between them that holds at every end holds everywhere.
\<close>

definition cut_points :: "int \<Rightarrow> (int \<times> int) list list \<Rightarrow> int list" where
  "cut_points bound rs = filter (\<lambda>e. e < bound) (0 # concat (map (\<lambda>(lo, hi). [lo, hi]) (concat rs)))"

lemma cut_point_below:
  assumes "0 \<le> x" "x < bound"
  shows "\<exists>c\<in>set (cut_points bound rs). \<forall>r\<in>set rs. within_ranges x r = within_ranges c r"
proof -
  let ?S = "{e \<in> set (cut_points bound rs). e \<le> x}"
  have "0 \<in> ?S" using assms by (simp add: cut_points_def)
  then have c: "Max ?S \<in> ?S" by (intro Max_in) auto
  have same: "e \<le> x \<longleftrightarrow> e \<le> Max ?S" if "r \<in> set rs" "(lo, hi) \<in> set r" "e = lo \<or> e = hi" for e r lo hi
  proof
    assume "e \<le> x"
    then have "e \<in> ?S" using that assms(2) by (force simp: cut_points_def)
    then show "e \<le> Max ?S" by simp
  qed (use c in auto)
  have "within_ranges x r = within_ranges (Max ?S) r" if r: "r \<in> set rs" for r
  proof -
    have "(lo \<le> x \<and> x < hi) \<longleftrightarrow> (lo \<le> Max ?S \<and> Max ?S < hi)" if "(lo, hi) \<in> set r" for lo hi
      using same [OF r that, of lo] same [OF r that, of hi] by linarith
    then show ?thesis unfolding within_ranges_def list_ex_iff by (metis (mono_tags, lifting) case_prodE case_prodI2 old.prod.case)
  qed
  with c show ?thesis by blast
qed

lemma uint_below_one: "uint w < 1 \<longleftrightarrow> w = 0"
proof -
  have "uint w < 1 \<longleftrightarrow> uint w = 0" using uint_ge_0 [of w] by linarith
  then show ?thesis by (simp add: word_uint_eq_iff)
qed

section \<open>What the policy may accept\<close>

text \<open>The conjunction of the address properties the webhook policy requires.\<close>

definition acceptable_ip :: "ip \<Rightarrow> bool" where
  "acceptable_ip a \<longleftrightarrow>
     ipv4_mapped a = None \<and>
     \<not> (\<not> is_global a \<or> is_multicast a \<or> is_reserved a \<or> is_unspecified a \<or> is_loopback a \<or> is_link_local a \<or> is_private a)"

definition quad :: "int \<Rightarrow> int \<Rightarrow> int \<Rightarrow> int" where
  "quad a b c = ((a * 256 + b) * 256 + c) * 256"

text \<open>The public IPv4 ranges, upper ends excluded.\<close>

definition public_v4 :: "(int \<times> int) list" where
  "public_v4 =
     [(quad 1 0 0, quad 10 0 0), (quad 11 0 0, quad 100 64 0), (quad 100 128 0, quad 127 0 0), (quad 128 0 0, quad 169 254 0),
      (quad 169 255 0, quad 172 16 0), (quad 172 32 0, quad 192 0 0), (quad 192 0 0 + 9, quad 192 0 0 + 11), (quad 192 0 1, quad 192 0 2),
      (quad 192 0 3, quad 192 168 0), (quad 192 169 0, quad 198 18 0), (quad 198 20 0, quad 198 51 100), (quad 198 51 101, quad 203 0 113),
      (quad 203 0 114, quad 224 0 0)]"

definition v4_rules :: "(int \<times> int) list list" where
  "v4_rules = [map net_range v4_private, map net_range v4_private_exceptions, [net_range (v4 100 64 0 0 10)], [net_range (v4 224 0 0 0 4)],
     [net_range (v4 240 0 0 0 4)], [(0, 1)], [net_range (v4 127 0 0 0 8)], [net_range (v4 169 254 0 0 16)], public_v4]"

fun v4_rule_holds :: "bool list \<Rightarrow> bool" where
  "v4_rule_holds [priv, exc, shared, multi, res, unspec, loop, local, public] \<longleftrightarrow>
     (\<not> (shared \<or> priv \<and> \<not> exc \<or> multi \<or> res \<or> unspec \<or> loop \<or> local)) = public"
| "v4_rule_holds _ \<longleftrightarrow> False"

lemma acceptable_v4: "acceptable_ip (IPv4 w) \<longleftrightarrow> within_ranges (uint w) public_v4"
proof -
  have valid: "list_all valid_network v4_private" "list_all valid_network v4_private_exceptions"
    "list_all valid_network [v4 100 64 0 0 10, v4 224 0 0 0 4, v4 240 0 0 0 4, v4 127 0 0 0 8, v4 169 254 0 0 16]" by code_simp+
  have "0 \<le> uint w" "uint w < 4294967296" using uint_lt2p [of w] by simp_all
  then obtain c where c: "c \<in> set (cut_points 4294967296 v4_rules)" "\<And>r. r \<in> set v4_rules \<Longrightarrow> within_ranges (uint w) r = within_ranges c r"
    using cut_point_below [of "uint w" 4294967296 v4_rules] by blast
  have "list_all (\<lambda>c. v4_rule_holds (map (within_ranges c) v4_rules)) (cut_points 4294967296 v4_rules)" by code_simp
  then have "v4_rule_holds (map (within_ranges c) v4_rules)" using c(1) by (simp add: list_all_iff)
  moreover have "map (within_ranges c) v4_rules = map (within_ranges (uint w)) v4_rules" using c(2) by simp
  ultimately have rules: "v4_rule_holds (map (within_ranges (uint w)) v4_rules)" by simp
  have zero: "w = 0 \<longleftrightarrow> within_ranges (uint w) [(0, 1)]" by (auto simp: within_ranges_def uint_below_one)
  show ?thesis
    using rules valid by (auto simp: v4_rules_def acceptable_ip_def ipv4_mapped_def private_v4_def in_some_ranges in_network_range zero)
qed

definition hextet_quad :: "int \<Rightarrow> int \<Rightarrow> int \<Rightarrow> int" where
  "hextet_quad a b c = ((a * 65536 + b) * 65536 + c) * 65536 ^ 5"

text \<open>The IPv6 ranges that pass, upper ends excluded. The last one is the deprecated site-local range, which no property of the module covers.\<close>

definition global_v6 :: "(int \<times> int) list" where
  "global_v6 =
     [(hextet_quad 0x2000 0 0, hextet_quad 0x2001 0 0), (hextet_quad 0x2001 1 0 + 1, hextet_quad 0x2001 1 0 + 3),
      (hextet_quad 0x2001 3 0, hextet_quad 0x2001 4 0), (hextet_quad 0x2001 4 0x112, hextet_quad 0x2001 4 0x113),
      (hextet_quad 0x2001 0x20 0, hextet_quad 0x2001 0x40 0), (hextet_quad 0x2001 0x200 0, hextet_quad 0x2001 0xdb8 0),
      (hextet_quad 0x2001 0xdb9 0, hextet_quad 0x2002 0 0), (hextet_quad 0x2003 0 0, hextet_quad 0x4000 0 0)]"

definition site_local_v6 :: "(int \<times> int) list" where
  "site_local_v6 = [(hextet_quad 0xfec0 0 0, hextet_quad 0xff00 0 0)]"

definition v6_rules :: "(int \<times> int) list list" where
  "v6_rules = [map net_range v6_private, map net_range v6_private_exceptions, [(281470681743360, 281474976710656)], [net_range (v6 0xff00 0 0 8)],
     map net_range v6_reserved, [(0, 1)], [(1, 2)], [net_range (v6 0xfe80 0 0 10)], global_v6, site_local_v6]"

fun v6_rule_holds :: "bool list \<Rightarrow> bool" where
  "v6_rule_holds [priv, exc, mapped, multi, res, unspec, loop, local, public, site] \<longleftrightarrow>
     (\<not> (mapped \<or> priv \<and> \<not> exc \<or> multi \<or> res \<or> unspec \<or> loop \<or> local)) = (public \<or> site)"
| "v6_rule_holds _ \<longleftrightarrow> False"

lemma acceptable_v6: "acceptable_ip (IPv6 w s) \<longleftrightarrow> within_ranges (uint w) global_v6 \<or> within_ranges (uint w) site_local_v6"
proof -
  let ?bound = "340282366920938463463374607431768211456 :: int"
  have valid: "list_all valid_network v6_private" "list_all valid_network v6_private_exceptions" "list_all valid_network v6_reserved"
    "list_all valid_network [v6 0xff00 0 0 8, v6 0xfe80 0 0 10]" by code_simp+
  have "0 \<le> uint w" "uint w < ?bound" using uint_lt2p [of w] by simp_all
  then obtain c where c: "c \<in> set (cut_points ?bound v6_rules)" "\<And>r. r \<in> set v6_rules \<Longrightarrow> within_ranges (uint w) r = within_ranges c r"
    using cut_point_below [of "uint w" ?bound v6_rules] by blast
  have "list_all (\<lambda>c. v6_rule_holds (map (within_ranges c) v6_rules)) (cut_points ?bound v6_rules)" by code_simp
  then have "v6_rule_holds (map (within_ranges c) v6_rules)" using c(1) by (simp add: list_all_iff)
  moreover have "map (within_ranges c) v6_rules = map (within_ranges (uint w)) v6_rules" using c(2) by simp
  ultimately have rules: "v6_rule_holds (map (within_ranges (uint w)) v6_rules)" by simp
  have zero: "w = 0 \<longleftrightarrow> within_ranges (uint w) [(0, 1)]" by (auto simp: within_ranges_def uint_below_one)
  have one: "w = 1 \<longleftrightarrow> within_ranges (uint w) [(1, 2)]" by (auto simp: within_ranges_def word_uint_eq_iff)
  have mapped: "uint w div 4294967296 = 65535 \<longleftrightarrow> within_ranges (uint w) [(281470681743360, 281474976710656)]"
    using multiple_interval [of 4294967296 281470681743360 "uint w"] by (simp add: within_ranges_def)
  show ?thesis
    using rules valid by (auto simp: v6_rules_def acceptable_ip_def ipv4_mapped_def in_some_ranges in_network_range zero one mapped)
qed

end
