(* ===== verification/Webhook_Signing.thy ===== *)
theory Webhook_Signing
  imports Delegation_Claims Records
begin

text \<open>
  \<^verbatim>\<open>webhooks/signing.py\<close>, \<^verbatim>\<open>serializer.py\<close> and \<^verbatim>\<open>classification.py\<close>: the wire body of a delivery, its signature headers and their
  verification by the receiver, and the classification of the receiver's answer with its bounded Retry-After. HMAC-SHA-256, the
  rendering of an event time and the reading of an HTTP date (\<^verbatim>\<open>email.utils\<close>) are arguments. Whole seconds are taken with
  \<open>epoch\<close>, as for delegation claims.
\<close>

section \<open>The wire envelope\<close>

definition webhook_message_id :: "uuid \<Rightarrow> string" where
  "webhook_message_id delivery_id = ''msg_'' @ uuid_hex delivery_id"

definition webhook_envelope :: "(py_datetime \<Rightarrow> string) \<Rightarrow> uuid \<Rightarrow> event_record \<Rightarrow> json \<Rightarrow> json" where
  "webhook_envelope isoformat delivery_id ev payload =
     JObj [(''data'', payload), (''event_id'', JStr (uuid_str (er_event_id ev))), (''event_type'', JStr (er_event_type ev)),
       (''event_version'', JInt (er_event_version ev)), (''message_id'', JStr (webhook_message_id delivery_id)),
       (''occurred_at'', JStr (isoformat (er_occurred_at ev))), (''tenant_id'', JStr (uuid_str (er_tenant_id ev)))]"

definition serialize_webhook_envelope ::
  "(rat \<Rightarrow> string) \<Rightarrow> (string \<Rightarrow> pyfloat) \<Rightarrow> nat \<Rightarrow> (py_datetime \<Rightarrow> string) \<Rightarrow> uuid \<Rightarrow> event_record \<Rightarrow> bytes result" where
  "serialize_webhook_envelope frepr fparse stack isoformat delivery_id ev =
     (if take (length canonical_prefix) (er_payload_canonical ev) \<noteq> canonical_prefix
      then config_error ''Webhook event payload format is unsupported.''
      else and_then (strict_json_loads fparse stack default_max_payload_bytes (drop (length canonical_prefix) (er_payload_canonical ev))) (\<lambda>payload.
           canonical_json_bytes frepr default_max_payload_bytes (webhook_envelope isoformat delivery_id ev payload)))"

section \<open>Signing\<close>

definition message_id_ok :: "string \<Rightarrow> bool" where
  "message_id_ok s \<longleftrightarrow> s \<noteq> [] \<and> length s \<le> 128 \<and> list_all scope_tail s"

definition timestamp_ok :: "string \<Rightarrow> bool" where
  "timestamp_ok s \<longleftrightarrow> s \<noteq> [] \<and> length s \<le> 16 \<and> list_all is_digit s"

record signed_headers =
  sh_values :: "(string \<times> string) list"
  sh_signature_count :: int

definition signed_content :: "string \<Rightarrow> string \<Rightarrow> bytes \<Rightarrow> bytes" where
  "signed_content message_id timestamp body = message_id @ ''.'' @ timestamp @ ''.'' @ body"

definition signature_text :: "bytes \<Rightarrow> string" where
  "signature_text digest = ''v1,'' @ b64encode digest"

text \<open>The loop over the secrets.\<close>

fun sign_all :: "(bytes \<Rightarrow> bytes \<Rightarrow> bytes) \<Rightarrow> bytes \<Rightarrow> bytes list \<Rightarrow> string list result" where
  "sign_all hmac content [] = Inr []"
| "sign_all hmac content (secret # rest) =
     (if length secret < 16 then config_error ''Webhook signing key is invalid.''
      else and_then (sign_all hmac content rest) (\<lambda>ss. Inr (signature_text (hmac secret content) # ss)))"

definition sign_webhook ::
  "(bytes \<Rightarrow> bytes \<Rightarrow> bytes) \<Rightarrow> string \<Rightarrow> py_datetime \<Rightarrow> bytes \<Rightarrow> bytes list \<Rightarrow> signed_headers result" where
  "sign_webhook hmac message_id timestamp body secrets =
     (if \<not> message_id_ok message_id then config_error ''Webhook message ID is invalid.''
      else if \<not> is_aware timestamp then config_error ''Webhook signing timestamp must be timezone-aware.''
      else let timestamp_text = int_str (epoch timestamp) in
        and_then (sign_all hmac (signed_content message_id timestamp_text body) secrets) (\<lambda>signatures.
          if signatures = [] then config_error ''Webhook signing requires an eligible key.''
          else Inr \<lparr>sh_values =
                      [(''content-type'', ''application/json''), (''webhook-id'', message_id), (''webhook-signature'', join '' '' signatures),
                       (''webhook-timestamp'', timestamp_text)],
                    sh_signature_count = int (length signatures)\<rparr>))"

section \<open>Verification by the receiver\<close>

definition signature_headers :: "string list" where
  "signature_headers = [''webhook-id'', ''webhook-signature'', ''webhook-timestamp'']"

text \<open>The loop over the headers; \<open>None\<close> where it returns \<^verbatim>\<open>False\<close> for a repeated signature header.\<close>

fun lowered_headers :: "(string \<times> string) list \<Rightarrow> (string \<times> string) list \<Rightarrow> (string \<times> string) list option" where
  "lowered_headers acc [] = Some acc"
| "lowered_headers acc ((k, v) # rest) =
     (let l = lower k in
      if l \<in> fst ` set acc \<and> l \<in> set signature_headers then None else lowered_headers (dict_set l v acc) rest)"

definition candidate_matches :: "bytes \<Rightarrow> string \<Rightarrow> bool" where
  "candidate_matches expected candidate =
     (let (version, separator, encoded) = partition_at (CHR '','') candidate in
      version = ''v1'' \<and> separator \<noteq> [] \<and>
      (case b64decode encoded of Inl _ \<Rightarrow> False | Inr decoded \<Rightarrow> length decoded = 32 \<and> decoded = expected))"

definition day :: int where "day = 86400 * second"

definition verify_webhook ::
  "(bytes \<Rightarrow> bytes \<Rightarrow> bytes) \<Rightarrow> bytes \<Rightarrow> bytes \<Rightarrow> (string \<times> string) list \<Rightarrow> py_datetime \<Rightarrow> int \<Rightarrow> int \<Rightarrow> bool result" where
  "verify_webhook hmac secret body headers current maximum_age maximum_future_skew =
     (if length secret < 16 then config_error ''Webhook verification key is invalid.''
      else if \<not> is_aware current then config_error ''Webhook verification time must be timezone-aware.''
      else if maximum_age < 0 \<or> day < maximum_age then config_error ''Webhook maximum_age is invalid.''
      else if maximum_future_skew < 0 \<or> day < maximum_future_skew then config_error ''Webhook maximum_future_skew is invalid.''
      else case lowered_headers [] headers of
        None \<Rightarrow> Inr False
      | Some normalized \<Rightarrow>
          (case (map_of normalized ''webhook-id'', map_of normalized ''webhook-timestamp'', map_of normalized ''webhook-signature'') of
             (Some message_id, Some timestamp, Some supplied) \<Rightarrow>
               if \<not> message_id_ok message_id \<or> \<not> timestamp_ok timestamp \<or> supplied = [] \<or> 4096 < int (length supplied) then Inr False
               else let age = epoch current - decimal_value timestamp; candidates = words_from [] supplied in
                 if maximum_age div second < age \<or> maximum_future_skew div second < - age then Inr False
                 else if candidates = [] \<or> 8 < length candidates then Inr False
                 else Inr (list_ex (candidate_matches (hmac secret (signed_content message_id timestamp body))) candidates)
           | _ \<Rightarrow> Inr False))"

section \<open>Classification of the answer\<close>

datatype response_disposition = SuccessResponse | RetryableResponse | PermanentResponse

record response_classification =
  rc_disposition :: response_disposition
  rc_code :: string
  rc_retry_after :: "int option"

text \<open>\<^verbatim>\<open>str.isdigit\<close> on Latin-1 admits the three superscript digits, which \<^verbatim>\<open>int()\<close> does not read.\<close>

definition is_unicode_digit :: "char \<Rightarrow> bool" where
  "is_unicode_digit c \<longleftrightarrow> is_digit c \<or> code c \<in> {178, 179, 185}"

definition str_isdigit :: "string \<Rightarrow> bool" where
  "str_isdigit s \<longleftrightarrow> s \<noteq> [] \<and> list_all is_unicode_digit s"

definition int_of_digits :: "string \<Rightarrow> int result" where
  "int_of_digits s = (if \<not> list_all is_digit s \<or> 4300 < int (length s) then Inl ValueError else Inr (decimal_value s))"

definition retry_after_delay ::
  "(string \<Rightarrow> py_datetime result) \<Rightarrow> py_datetime \<Rightarrow> string \<Rightarrow> int option result" where
  "retry_after_delay parsedate now normalized =
     (if str_isdigit normalized
      then and_then (int_of_digits normalized) (\<lambda>n. and_then (timedelta_int n) (\<lambda>d. Inr (Some d)))
      else (case parsedate normalized of
              Inl e \<Rightarrow> if e \<in> {TypeError, ValueError, OverflowError} then Inr None else Inl e
            | Inr parsed \<Rightarrow> Inr (Some (instant parsed - instant now))))"

definition parse_retry_after ::
  "(string \<Rightarrow> py_datetime result) \<Rightarrow> string option \<Rightarrow> py_datetime \<Rightarrow> int \<Rightarrow> py_datetime option \<Rightarrow> int option result" where
  "parse_retry_after parsedate value now maximum deadline =
     (case value of
        None \<Rightarrow> Inr None
      | Some v \<Rightarrow>
          if maximum < 0 then Inr None
          else and_then (retry_after_delay parsedate now (strip v)) (\<lambda>r.
            case r of
              None \<Rightarrow> Inr None
            | Some d \<Rightarrow>
                let delay = max 0 (min d maximum) in
                Inr (Some (case deadline of None \<Rightarrow> delay | Some t \<Rightarrow> min delay (max 0 (instant t - instant now))))))"

definition classify_response ::
  "(string \<Rightarrow> py_datetime result) \<Rightarrow> int \<Rightarrow> (string \<times> string) list \<Rightarrow> py_datetime \<Rightarrow> int \<Rightarrow> py_datetime option \<Rightarrow>
   response_classification result" where
  "classify_response parsedate status headers now maximum_retry_after deadline =
     (if 200 \<le> status \<and> status < 300
      then Inr \<lparr>rc_disposition = SuccessResponse, rc_code = ''webhook.succeeded'', rc_retry_after = None\<rparr>
      else if status \<in> {408, 425, 429} \<or> (500 \<le> status \<and> status < 600)
      then and_then (parse_retry_after parsedate (map_of headers ''retry-after'') now maximum_retry_after deadline) (\<lambda>retry_after.
             Inr \<lparr>rc_disposition = RetryableResponse, rc_code = ''webhook.http_'' @ int_str status, rc_retry_after = retry_after\<rparr>)
      else if 300 \<le> status \<and> status < 400
      then Inr \<lparr>rc_disposition = PermanentResponse, rc_code = ''webhook.redirect'', rc_retry_after = None\<rparr>
      else Inr \<lparr>rc_disposition = PermanentResponse, rc_code = ''webhook.http_'' @ int_str status, rc_retry_after = None\<rparr>)"

section \<open>What the signature covers\<close>

lemma length_pos_str: "0 \<le> n \<Longrightarrow> n < 10 ^ k \<Longrightarrow> 0 < k \<Longrightarrow> length (pos_str n) \<le> k"
proof (induction k arbitrary: n)
  case (Suc k)
  show ?case
  proof (cases "n < 10")
    case False
    have "n div 10 < 10 ^ k" using Suc.prems(2) by (simp add: div_less_iff_less_mult mult.commute)
    moreover from this False have "0 < k" using Suc.prems(1) by (cases k) auto
    ultimately show ?thesis using Suc False by (simp add: pos_str.simps [of n])
  qed (simp add: pos_str.simps [of n])
qed simp

lemma timestamp_text:
  assumes "0 \<le> n" "n < 10 ^ 16"
  shows "timestamp_ok (int_str n)" "decimal_value (int_str n) = n"
  using pos_str_digits [OF assms(1)] length_pos_str [OF assms, unfolded] assms by (simp_all add: int_str_def timestamp_ok_def)

lemma epoch_bounds: "0 \<le> instant t \<Longrightarrow> instant t \<le> dt_max \<Longrightarrow> 0 \<le> epoch t \<and> epoch t < 10 ^ 16"
proof -
  assume t: "0 \<le> instant t" "instant t \<le> dt_max"
  then have "instant t div second \<le> dt_max div second" by (intro zdiv_mono1) simp_all
  with t show ?thesis by (simp add: epoch_def dt_max_def)
qed

text \<open>Signed content determines its parts when the message ID has no dot, as the IDs of deliveries do.\<close>

lemma signed_content_inj:
  assumes "signed_content m t b = signed_content m' t' b'" and "CHR ''.'' \<notin> set m" "CHR ''.'' \<notin> set m'"
    and "list_all is_digit t" "list_all is_digit t'"
  shows "m = m' \<and> t = t' \<and> b = b'"
proof -
  have cut: "x = x' \<and> y = y'" if "x @ CHR ''.'' # y = x' @ CHR ''.'' # y'" "CHR ''.'' \<notin> set x" "CHR ''.'' \<notin> set x'" for x x' y y'
  proof -
    have tw: "takeWhile (\<lambda>c. c \<noteq> CHR ''.'') (z @ CHR ''.'' # w) = z" if "CHR ''.'' \<notin> set z" for z w
      using that by (induction z) auto
    from tw [OF that(2), of y] tw [OF that(3), of y'] that(1) have "x = x'" by simp
    with that(1) show ?thesis by simp
  qed
  have "\<not> is_digit (CHR ''.'')" by code_simp
  then have "CHR ''.'' \<notin> set t" "CHR ''.'' \<notin> set t'" using assms(4,5) by (auto simp: list_all_iff)
  with assms(1-3) cut [of m "t @ ''.'' @ b" m' "t' @ ''.'' @ b'"] cut [of t b t' b'] show ?thesis by (simp add: signed_content_def)
qed

lemma message_id_of_delivery: "message_id_ok (webhook_message_id u) \<and> CHR ''.'' \<notin> set (webhook_message_id u)"
proof -
  have hex: "list_all low_hex (uuid_hex u)" by (simp add: uuid_hex_def hex_digits_low_hex)
  have "list_all (\<lambda>c. scope_tail c \<and> c \<noteq> CHR ''.'') ''0123456789abcdef''" by code_simp
  then have "scope_tail c \<and> c \<noteq> CHR ''.''" if "low_hex c" for c using that unfolding low_hex_def list_all_iff by blast
  moreover have "list_all scope_tail ''msg_''" by code_simp
  ultimately show ?thesis
    using hex by (auto simp: webhook_message_id_def message_id_ok_def list_all_iff uuid_hex_def)
qed

section \<open>Signed headers verify\<close>

lemma words_from_run: "list_all (\<lambda>c. \<not> is_space c) x \<Longrightarrow> words_from w (x @ y) = words_from (w @ x) y"
  by (induction x arbitrary: w) auto

lemma words_join:
  assumes "\<forall>x\<in>set xs. x \<noteq> [] \<and> list_all (\<lambda>c. \<not> is_space c) x"
  shows "words_from [] (join '' '' xs) = xs"
  using assms
proof (induction xs rule: induct_list012)
  case (2 x)
  then show ?case using words_from_run [of x "[]" "[]"] by simp
next
  case (3 x y ys)
  have "is_space (CHR '' '')" by code_simp
  with 3 show ?case using words_from_run [of x "[]" "'' '' @ join '' '' (y # ys)"] by simp
qed simp

lemma b64_text: "c \<in> set (b64encode x) \<Longrightarrow> \<not> is_space c"
proof -
  have "list_all (\<lambda>c. \<not> is_space c) (CHR ''='' # b64_alphabet)" by code_simp
  moreover assume "c \<in> set (b64encode x)"
  then have "c = CHR ''='' \<or> c \<in> set b64_alphabet" using b64_body_alphabet [of x] by (auto simp: b64encode_def b64_padding_def)
  ultimately show ?thesis by (auto simp: list_all_iff)
qed

lemma signature_word: "signature_text d \<noteq> [] \<and> list_all (\<lambda>c. \<not> is_space c) (signature_text d)"
proof -
  have "list_all (\<lambda>c. \<not> is_space c) ''v1,''" by code_simp
  then show ?thesis using b64_text by (auto simp: signature_text_def list_all_iff)
qed

lemma signature_matches: "length d = 32 \<Longrightarrow> candidate_matches d (signature_text d)"
  by (simp add: candidate_matches_def signature_text_def partition_at_def b64_roundtrip)

lemma sign_all_Inr: "sign_all hmac content ss = Inr xs \<longleftrightarrow> (\<forall>x\<in>set ss. 16 \<le> length x) \<and> xs = map (\<lambda>x. signature_text (hmac x content)) ss"
  by (induction ss arbitrary: xs) (auto simp: and_then_Inr_iff)

lemma signature_length: "length d = 32 \<Longrightarrow> length (signature_text d) = 47"
  using b64_body_length [of d] by (simp add: signature_text_def b64encode_def b64_padding_def)

lemma join_length: "\<forall>x\<in>set xs. length x = 47 \<Longrightarrow> length (join '' '' xs) \<le> 48 * length xs"
  by (induction xs rule: induct_list012) auto

lemma join_nonempty: "xs \<noteq> [] \<Longrightarrow> hd xs \<noteq> [] \<Longrightarrow> join '' '' xs \<noteq> []"
  by (induction xs rule: induct_list012) auto

lemma lowered_own:
  "lowered_headers [] [(''content-type'', a), (''webhook-id'', b), (''webhook-signature'', c), (''webhook-timestamp'', d)] =
     Some [(''content-type'', a), (''webhook-id'', b), (''webhook-signature'', c), (''webhook-timestamp'', d)]"
proof -
  have "lower ''content-type'' = ''content-type''" "lower ''webhook-id'' = ''webhook-id''" "lower ''webhook-signature'' = ''webhook-signature''"
    "lower ''webhook-timestamp'' = ''webhook-timestamp''" by code_simp+
  then show ?thesis by simp
qed

lemma signed_verifies:
  assumes sign: "sign_webhook hmac m t body secrets = Inr h" and "secret \<in> set secrets" and few: "length secrets \<le> 8"
    and digest: "\<And>k b. length (hmac k b) = 32" and t: "0 \<le> instant t" "instant t \<le> dt_max" and "is_aware now"
    and tol: "0 \<le> age" "age \<le> day" "0 \<le> skew" "skew \<le> day" and fresh: "epoch now - epoch t \<le> age div second" "epoch t - epoch now \<le> skew div second"
  shows "verify_webhook hmac secret body (sh_values h) now age skew = Inr True"
proof -
  let ?c = "signed_content m (int_str (epoch t)) body"
  let ?sigs = "map (\<lambda>x. signature_text (hmac x ?c)) secrets"
  from sign have m: "message_id_ok m" and long: "\<forall>x\<in>set secrets. 16 \<le> length x" and ne: "?sigs \<noteq> []"
    and h: "sh_values h = [(''content-type'', ''application/json''), (''webhook-id'', m), (''webhook-signature'', join '' '' ?sigs),
        (''webhook-timestamp'', int_str (epoch t))]"
    by (auto simp: sign_webhook_def Let_def and_then_Inr_iff sign_all_Inr split: if_splits)
  have ts: "timestamp_ok (int_str (epoch t))" "decimal_value (int_str (epoch t)) = epoch t" using timestamp_text epoch_bounds [OF t] by blast+
  have words: "words_from [] (join '' '' ?sigs) = ?sigs" by (rule words_join) (use signature_word in auto)
  have "length (join '' '' ?sigs) \<le> 48 * length ?sigs" using signature_length [OF digest] by (intro join_length) simp
  then have short: "length (join '' '' ?sigs) \<le> 4096" using few by simp
  have "join '' '' ?sigs \<noteq> []" using ne signature_word by (intro join_nonempty) (auto simp: hd_map)
  moreover have "list_ex (candidate_matches (hmac secret ?c)) ?sigs"
    using assms(2) signature_matches [OF digest] by (auto simp: list_ex_iff)
  moreover have "\<not> length secret < 16" using long assms(2) by auto
  ultimately show ?thesis
    using m ts words short ne few tol fresh assms(7) by (simp add: verify_webhook_def h lowered_own del: lowered_headers.simps)
qed

section \<open>Properties\<close>

definition sample_mac :: "bytes \<Rightarrow> bytes \<Rightarrow> bytes" where
  "sample_mac k b = take 32 (k @ b @ replicate 32 (CHR ''0''))"

definition sample_secret :: bytes where "sample_secret = replicate 16 (CHR ''k'')"

lemma sample_signed: "\<exists>h. sign_webhook sample_mac ''msg_1'' (Aware 5000000) ''{}'' [sample_secret] = Inr h"
proof -
  have "message_id_ok ''msg_1''" by code_simp
  then show ?thesis by (simp add: sign_webhook_def sample_secret_def Let_def)
qed

lemma sample_mac_length: "length (sample_mac k b) = 32"
  by (simp add: sample_mac_def)

lemma lowered_headers_from:
  "lowered_headers acc hs = Some n \<Longrightarrow> map_of n l = Some v \<Longrightarrow> map_of acc l = Some v \<or> (\<exists>k. (k, v) \<in> set hs \<and> lower k = l)"
proof (induction acc hs rule: lowered_headers.induct)
  case (2 acc k v' rest)
  then show ?case by (auto simp: Let_def split: if_splits)
qed simp

lemma partition_at_sep: "partition_at sep x = (a, b, c) \<Longrightarrow> b \<noteq> [] \<Longrightarrow> x = a @ sep # c"
proof -
  assume p: "partition_at sep x = (a, b, c)" "b \<noteq> []"
  then have ne: "dropWhile (\<lambda>c. c \<noteq> sep) x \<noteq> []" and abc: "a = takeWhile (\<lambda>c. c \<noteq> sep) x" "c = tl (dropWhile (\<lambda>c. c \<noteq> sep) x)"
    by (auto simp: partition_at_def Let_def split: if_splits)
  have "hd (dropWhile (\<lambda>c. c \<noteq> sep) x) = sep" using hd_dropWhile [OF ne] by simp
  with ne abc show ?thesis using takeWhile_dropWhile_id [of "\<lambda>c. c \<noteq> sep" x] by (metis list.collapse)
qed

lemma candidate_matches_iff:
  "candidate_matches d x \<Longrightarrow> \<exists>enc. x = ''v1,'' @ enc \<and> b64decode enc = Inr d"
  using partition_at_sep [of "CHR '',''" x] by (auto simp: candidate_matches_def split: prod.splits sum.splits)

lemma verify_webhook_True:
  assumes "verify_webhook hmac secret body headers now age skew = Inr True"
  obtains n m t supplied x where "lowered_headers [] headers = Some n" "map_of n ''webhook-id'' = Some m" "map_of n ''webhook-timestamp'' = Some t"
    "map_of n ''webhook-signature'' = Some supplied" "timestamp_ok t" "epoch now - decimal_value t \<le> age div second"
    "decimal_value t - epoch now \<le> skew div second" "x \<in> set (words_from [] supplied)"
    "candidate_matches (hmac secret (signed_content m t body)) x"
  using assms by (auto simp: verify_webhook_def Let_def list_ex_iff split: if_splits option.splits prod.splits)

text \<open>
  C31. An accepted webhook is authentic and fresh: when verification answers true, the headers carry one message ID and one
  timestamp within the age and skew, and one candidate signature decodes to the HMAC of exactly this ID, timestamp and body under the
  secret. For IDs without a dot, as every delivery has, no other ID, timestamp or body has the same signed content.
\<close>

theorem verified_webhook_sound:
  assumes "verify_webhook hmac secret body headers now age skew = Inr True"
  shows "\<exists>m t candidate enc. (\<exists>k. (k, m) \<in> set headers \<and> lower k = ''webhook-id'') \<and> (\<exists>k. (k, t) \<in> set headers \<and> lower k = ''webhook-timestamp'') \<and>
    epoch now - decimal_value t \<le> age div second \<and> decimal_value t - epoch now \<le> skew div second \<and>
    (\<exists>k supplied. (k, supplied) \<in> set headers \<and> lower k = ''webhook-signature'' \<and> candidate \<in> set (words_from [] supplied)) \<and>
    candidate = ''v1,'' @ enc \<and> b64decode enc = Inr (hmac secret (signed_content m t body)) \<and>
    (CHR ''.'' \<notin> set m \<longrightarrow> (\<forall>m' t' body'. CHR ''.'' \<notin> set m' \<and> list_all is_digit t' \<and>
       signed_content m' t' body' = signed_content m t body \<longrightarrow> m' = m \<and> t' = t \<and> body' = body))"
proof -
  from assms obtain n m t supplied x where n: "lowered_headers [] headers = Some n" and f: "map_of n ''webhook-id'' = Some m"
    "map_of n ''webhook-timestamp'' = Some t" "map_of n ''webhook-signature'' = Some supplied" and t: "timestamp_ok t"
    and fresh: "epoch now - decimal_value t \<le> age div second" "decimal_value t - epoch now \<le> skew div second"
    and x: "x \<in> set (words_from [] supplied)" "candidate_matches (hmac secret (signed_content m t body)) x" by (rule verify_webhook_True)
  note from' = lowered_headers_from [OF n f(1)] lowered_headers_from [OF n f(2)] lowered_headers_from [OF n f(3)]
  from candidate_matches_iff [OF x(2)] obtain enc where enc: "x = ''v1,'' @ enc" "b64decode enc = Inr (hmac secret (signed_content m t body))"
    by blast
  have "list_all is_digit t" using t by (simp add: timestamp_ok_def)
  then have "m' = m \<and> t' = t \<and> body' = body" if "CHR ''.'' \<notin> set m" "CHR ''.'' \<notin> set m'" "list_all is_digit t'"
      "signed_content m' t' body' = signed_content m t body" for m' t' body'
    using signed_content_inj [OF that(4,2,1,3)] by blast
  with from' fresh x(1) enc show ?thesis by (intro exI [of _ m] exI [of _ t] exI [of _ x] exI [of _ enc]) auto
qed

theorem verified_webhook_sound_witness:
  "\<exists>h. sign_webhook sample_mac ''msg_1'' (Aware 5000000) ''{}'' [sample_secret] = Inr h \<and>
     (\<exists>k. (k, ''msg_1'') \<in> set (sh_values h) \<and> lower k = ''webhook-id'')"
proof -
  obtain h where h: "sign_webhook sample_mac ''msg_1'' (Aware 5000000) ''{}'' [sample_secret] = Inr h" using sample_signed by blast
  have "verify_webhook sample_mac sample_secret ''{}'' (sh_values h) (Aware 7000000) (300 * second) (300 * second) = Inr True"
    by (rule signed_verifies [OF h]) (auto simp: sample_mac_length dt_max_def day_def epoch_def)
  from verified_webhook_sound [OF this] obtain m k where mk: "(k, m) \<in> set (sh_values h)" "lower k = ''webhook-id''" by blast
  moreover have "m = ''msg_1''"
  proof -
    have "lower ''content-type'' \<noteq> ''webhook-id''" "lower ''webhook-signature'' \<noteq> ''webhook-id''" "lower ''webhook-timestamp'' \<noteq> ''webhook-id''"
      by code_simp+
    with mk h show ?thesis by (auto simp: sign_webhook_def Let_def and_then_Inr_iff split: if_splits)
  qed
  ultimately show ?thesis using h by blast
qed

lemma parse_retry_after_bounds:
  assumes "parse_retry_after parsedate value now maximum deadline = Inr (Some d)"
  shows "0 \<le> d \<and> d \<le> maximum \<and> (\<forall>t. deadline = Some t \<longrightarrow> d \<le> max 0 (instant t - instant now))"
proof -
  from assms obtain y where m: "0 \<le> maximum" and y: "(let delay = max 0 (min y maximum) in
      Inr (Some (case deadline of None \<Rightarrow> delay | Some t \<Rightarrow> min delay (max 0 (instant t - instant now))))) = (Inr (Some d) :: int option result)"
    by (fastforce simp: parse_retry_after_def and_then_Inr_iff split: option.splits if_splits)
  then show ?thesis by (cases deadline) (auto simp: Let_def)
qed

lemma http_code_stable: "0 \<le> n \<Longrightarrow> n < 1000 \<Longrightarrow> stable_key (''webhook.http_'' @ int_str n)"
proof -
  assume n: "0 \<le> n" "n < 1000"
  have "list_all key_tail (int_str n)" using pos_str_digits [OF n(1)] n(1) by (auto simp: int_str_def list_all_iff key_tail_def)
  moreover have "length (int_str n) \<le> 3" using length_pos_str [of n 3] n by (simp add: int_str_def)
  moreover have "key_head (CHR ''w'')" "list_all key_tail ''ebhook.http_''" by code_simp+
  ultimately show ?thesis by (simp add: stable_key_def head_tail_match_def)
qed

text \<open>
  The answer's Retry-After is bounded: a classification that returns asks for a delay between zero and the policy's maximum delay
  and not past the delivery deadline, only for the retryable statuses, and its code is always a valid failure code.
\<close>

lemma classification_bounded:
  assumes "classify_response parsedate status headers now maximum deadline = Inr r" and "100 \<le> status" and "status < 1000"
  shows "(rc_disposition r = SuccessResponse \<longleftrightarrow> 200 \<le> status \<and> status < 300) \<and>
    (rc_disposition r = RetryableResponse \<longleftrightarrow> status \<in> {408, 425, 429} \<or> 500 \<le> status \<and> status < 600) \<and>
    stable_key (rc_code r) \<and>
    (\<forall>d. rc_retry_after r = Some d \<longrightarrow> rc_disposition r = RetryableResponse \<and> 0 \<le> d \<and> d \<le> maximum \<and>
       (\<forall>t. deadline = Some t \<longrightarrow> d \<le> max 0 (instant t - instant now)))"
proof -
  have "stable_key ''webhook.succeeded''" "stable_key ''webhook.redirect''" by code_simp+
  moreover have "stable_key (''webhook.http_'' @ int_str status)" using assms(2,3) by (intro http_code_stable) simp_all
  ultimately show ?thesis
    using assms(1) parse_retry_after_bounds
    by (auto simp: classify_response_def and_then_Inr_iff split: if_splits)
qed

text \<open>
  The Retry-After text decides whether classification returns: with a date reader that raises only the three caught exceptions,
  an exception escapes exactly when the text passes \<^verbatim>\<open>str.isdigit\<close> but contains a superscript digit, has more than 4300 digits, or
  denotes more seconds than a \<^verbatim>\<open>timedelta\<close> holds. The text is chosen by the receiver.
\<close>

lemma retry_after_returns_iff:
  assumes "\<And>x e. parsedate x = Inl e \<Longrightarrow> e \<in> {TypeError, ValueError, OverflowError}" and "0 \<le> maximum"
  shows "returns (parse_retry_after parsedate (Some v) now maximum deadline) \<longleftrightarrow>
    (str_isdigit (strip v) \<longrightarrow>
       list_all is_digit (strip v) \<and> length (strip v) \<le> 4300 \<and> decimal_value (strip v) * second \<le> td_max)"
proof (cases "str_isdigit (strip v)")
  case True
  have nonneg: "0 \<le> decimal_value x" if "list_all is_digit x" for x
    using that
  proof (induction x rule: rev_induct)
    case (snoc c x)
    then have "0 \<le> digit_value c" by (simp add: digit_value_def is_digit_def in_range_def)
    with snoc show ?case by (simp add: decimal_value_snoc)
  qed (simp add: decimal_value_def)
  show ?thesis
    using True assms(2) nonneg [of "strip v"]
    by (auto simp: parse_retry_after_def retry_after_delay_def int_of_digits_def timedelta_int_def td_check_def td_min_def returns_def Let_def
        split: if_splits sum.splits option.splits)
next
  case False
  then show ?thesis
    using assms by (auto simp: parse_retry_after_def retry_after_delay_def returns_def Let_def split: sum.splits option.splits)
qed

end
