(* ===== verification/Webhook_Http.thy ===== *)
theory Webhook_Http
  imports Webhook_Signing Retry
begin

text \<open>
  \<^verbatim>\<open>webhooks/http11.py\<close> and the request bytes of \<^verbatim>\<open>webhooks/transport.py\<close>: the bounded reader of a receiver's HTTP/1.1 answer, which
  discards the body, and the serialisation of the request. A connection is the bytes the receiver sends followed by a close or by
  silence until the read timeout. Lines are read with the limit of an asyncio stream (65536 bytes before the newline).
\<close>

section \<open>The connection\<close>

datatype ending = Closed | Stalled

record reader =
  rd_data :: bytes
  rd_ending :: ending

record response_limits =
  rl_read_timeout_seconds :: pyfloat
  rl_maximum_header_bytes :: int
  rl_maximum_header_count :: int
  rl_maximum_informational_responses :: int
  rl_maximum_body_bytes :: int

definition response_limits_post_init :: "response_limits \<Rightarrow> response_limits result" where
  "response_limits_post_init l =
     (if \<not> (is_finite (rl_read_timeout_seconds l) \<and> 0 < the_fin (rl_read_timeout_seconds l) \<and> the_fin (rl_read_timeout_seconds l) \<le> 300)
      then Inl ValueError
      else if rl_maximum_header_bytes l < 1 \<or> rl_maximum_header_count l < 1 \<or> rl_maximum_informational_responses l < 1 \<or> rl_maximum_body_bytes l < 1
      then Inl ValueError
      else Inr l)"

definition retryable_failure :: "string \<Rightarrow> string \<Rightarrow> exn" where
  "retryable_failure c s = DeliveryFailure (RetryableDeliveryError c s None)"

definition oversized :: exn where
  "oversized = retryable_failure ''webhook.response_bounds'' ''Webhook receiver response exceeded safe bounds.''"

definition malformed :: exn where
  "malformed = retryable_failure ''webhook.response_malformed'' ''Webhook receiver returned malformed HTTP.''"

definition incomplete :: exn where
  "incomplete = retryable_failure ''webhook.response_incomplete'' ''Webhook receiver closed an incomplete response.''"

definition response_timeout :: exn where
  "response_timeout = retryable_failure ''webhook.response_timeout'' ''Webhook receiver response timed out.''"

definition unsupported_upgrade :: exn where
  "unsupported_upgrade =
     DeliveryFailure (PermanentDeliveryError ''webhook.protocol_upgrade_unsupported'' ''Webhook receiver requested an unsupported protocol upgrade.'')"

text \<open>
  \<^verbatim>\<open>StreamReader.readline\<close>: the bytes up to and including a newline, or the rest at the end of the stream; a timeout and a line over
  the stream's limit raise. \<open>None\<close> stands for these two exceptions, which the caller treats alike.
\<close>

definition stream_readline :: "reader \<Rightarrow> (bytes \<times> reader) option" where
  "stream_readline r =
     (let line = takeWhile (\<lambda>c. c \<noteq> CHR 10) (rd_data r); rest = dropWhile (\<lambda>c. c \<noteq> CHR 10) (rd_data r) in
      if 65536 < length line then None
      else if rest \<noteq> [] then Some (line @ [CHR 10], r\<lparr>rd_data := tl rest\<rparr>)
      else if rd_ending r = Closed then Some (line, r\<lparr>rd_data := []\<rparr>) else None)"

definition crlf :: bytes where "crlf = [CHR 13, CHR 10]"

definition ends_crlf :: "bytes \<Rightarrow> bool" where
  "ends_crlf line \<longleftrightarrow> 2 \<le> length line \<and> drop (length line - 2) line = crlf"

definition read_line :: "reader \<Rightarrow> int \<Rightarrow> (bytes \<times> reader) result" where
  "read_line r budget =
     (if budget < 2 then Inl oversized
      else case stream_readline r of
        None \<Rightarrow> Inl oversized
      | Some (line, r') \<Rightarrow> if line = [] \<or> budget < int (length line) \<or> \<not> ends_crlf line then Inl oversized else Inr (line, r'))"

definition read_exactly :: "reader \<Rightarrow> int \<Rightarrow> (bytes \<times> reader) result" where
  "read_exactly r n =
     (if int (length (rd_data r)) < n then Inl incomplete
      else Inr (take (nat n) (rd_data r), r\<lparr>rd_data := drop (nat n) (rd_data r)\<rparr>))"

section \<open>Head\<close>

text \<open>The pattern of the status line; the value is its status code.\<close>

definition status_of_line :: "bytes \<Rightarrow> int option" where
  "status_of_line line =
     (let digits = take 3 (drop 9 line); reason = take (length line - 14) (drop 12 line) in
      if 14 \<le> length line \<and> take 7 line = ''HTTP/1.'' \<and> line ! 7 \<in> {CHR ''0'', CHR ''1''} \<and> line ! 8 = CHR '' '' \<and> list_all is_digit digits \<and>
         drop (length line - 2) line = crlf \<and> (reason = [] \<or> hd reason = CHR '' '' \<and> list_all (in_range 32 126) reason)
      then Some (decimal_value digits) else None)"

definition header_name_char :: "char \<Rightarrow> bool" where
  "header_name_char c \<longleftrightarrow> is_alnum c \<or> c \<in> set ''!#$%&*+-.^_`|~'' \<or> c = CHR 0x27"

definition strip_blanks :: "bytes \<Rightarrow> bytes" where
  "strip_blanks b = strip_chars (\<lambda>c. c = CHR '' '' \<or> c = CHR 9) b"

text \<open>Adding one header line to the dict.\<close>

definition add_header :: "(string \<times> string) list \<Rightarrow> bytes \<Rightarrow> (string \<times> string) list result" where
  "add_header headers line =
     (let (name, separator, raw_value) = partition_at (CHR '':'') (take (length line - 2) line);
          key = ascii_lower name; value = strip_blanks raw_value in
      if separator = [] \<or> name = [] \<or> \<not> list_all header_name_char name then Inl malformed
      else if list_ex (\<lambda>c. c \<in> {CHR 13, CHR 10, CHR 0x00}) value then Inl malformed
      else (case map_of headers key of
              None \<Rightarrow> Inr (headers @ [(key, value)])
            | Some old \<Rightarrow>
                if key = ''content-length'' \<and> old \<noteq> value then Inl malformed
                else Inr (dict_set key (old @ '', '' @ value) headers)))"

lemma stream_readline_split:
  assumes "stream_readline r = Some (line, r')"
  shows "rd_data r = line @ rd_data r' \<and> rd_ending r' = rd_ending r"
proof -
  let ?P = "\<lambda>c. c \<noteq> CHR 10"
  have id: "takeWhile ?P (rd_data r) @ dropWhile ?P (rd_data r) = rd_data r" by (rule takeWhile_dropWhile_id)
  show ?thesis
  proof (cases "dropWhile ?P (rd_data r) = []")
    case True
    have tw: "takeWhile ?P (rd_data r) = rd_data r" using id unfolding True by simp
    show ?thesis using assms by (auto simp: stream_readline_def Let_def True tw simp del: dropWhile_eq_Nil_conv takeWhile_eq_all_conv split: if_splits)
  next
    case False
    then obtain rest' where rest': "dropWhile ?P (rd_data r) = CHR 10 # rest'"
      using hd_dropWhile [OF False] by (metis list.collapse)
    have "rd_data r = (takeWhile ?P (rd_data r) @ [CHR 10]) @ rest'" using id rest' by simp
    with assms rest' show ?thesis by (auto simp: stream_readline_def Let_def split: if_splits)
  qed
qed

lemma read_line_split:
  assumes "read_line r budget = Inr (line, r')"
  shows "rd_data r = line @ rd_data r'" "2 \<le> length line" "int (length line) \<le> budget" "rd_ending r' = rd_ending r"
  using assms stream_readline_split by (auto simp: read_line_def ends_crlf_def split: if_splits option.splits)

lemma read_line_shorter: "read_line r budget = Inr (line, r') \<Longrightarrow> length (rd_data r') < length (rd_data r)"
  using read_line_split(1,2) [of r budget line r'] by (metis length_append less_add_same_cancel2 less_le_trans pos2)

function read_headers ::
  "response_limits \<Rightarrow> reader \<Rightarrow> int \<Rightarrow> int \<Rightarrow> (string \<times> string) list \<Rightarrow> ((string \<times> string) list \<times> int \<times> int \<times> reader) result" where
  "read_headers l r budget seen headers =
     (case read_line r budget of
        Inl e \<Rightarrow> Inl e
      | Inr (line, r') \<Rightarrow>
          if line = crlf then Inr (headers, budget - int (length line), seen, r')
          else if rl_maximum_header_count l < seen + 1 \<or> take 1 line = '' '' \<or> take 1 line = [CHR 9] then Inl oversized
          else (case add_header headers line of
                  Inl e \<Rightarrow> Inl e
                | Inr headers' \<Rightarrow> read_headers l r' (budget - int (length line)) (seen + 1) headers'))"
  by pat_completeness auto
termination by (relation "measure (\<lambda>(l, r, budget, seen, headers). length (rd_data r))") (auto dest: read_line_shorter)

declare read_headers.simps [simp del]

lemma read_headers_shorter:
  "read_headers l r budget seen headers = Inr (hs, b, c, r') \<Longrightarrow> length (rd_data r') < length (rd_data r)"
proof (induction l r budget seen headers rule: read_headers.induct)
  case (1 l r budget seen headers)
  from 1(2) obtain line r1 where l1: "read_line r budget = Inr (line, r1)" by (auto simp: read_headers.simps [of l r] split: sum.splits)
  note s = read_line_shorter [OF l1]
  from 1(2) l1 s show ?case
    using 1(1) [OF l1 refl] by (auto simp: read_headers.simps [of l r] split: if_splits sum.splits intro: less_trans)
qed

text \<open>The loop over informational responses; each round reads a status line and its headers.\<close>

function read_head ::
  "response_limits \<Rightarrow> reader \<Rightarrow> int \<Rightarrow> int \<Rightarrow> int \<Rightarrow> (int \<times> (string \<times> string) list \<times> reader) result" where
  "read_head l r budget seen informational =
     (case read_line r budget of
        Inl e \<Rightarrow> Inl e
      | Inr (line, r') \<Rightarrow>
          (case status_of_line line of
             None \<Rightarrow> Inl malformed
           | Some status \<Rightarrow>
               (case read_headers l r' (budget - int (length line)) seen [] of
                  Inl e \<Rightarrow> Inl e
                | Inr (headers, budget', seen', r'') \<Rightarrow>
                    if status = 101 then Inl unsupported_upgrade
                    else if 100 \<le> status \<and> status < 200
                    then if rl_maximum_informational_responses l < informational + 1 then Inl oversized
                         else read_head l r'' budget' seen' (informational + 1)
                    else Inr (status, headers, r''))))"
  by pat_completeness auto
termination
  by (relation "measure (\<lambda>(l, r, budget, seen, informational). length (rd_data r))")
     (auto dest!: read_line_shorter read_headers_shorter)

declare read_head.simps [simp del]

section \<open>Body\<close>

text \<open>\<^verbatim>\<open>int(raw, 16)\<close> of bytes, where only ASCII blanks are skipped.\<close>

definition int_bytes16 :: "bytes \<Rightarrow> int result" where
  "int_bytes16 b = (if list_ex (\<lambda>c. c \<in> {CHR 0x85, CHR 0xA0}) b then Inl ValueError else int_base16 b)"

function read_trailers :: "response_limits \<Rightarrow> reader \<Rightarrow> int \<Rightarrow> int \<Rightarrow> reader result" where
  "read_trailers l r budget seen =
     (case read_line r budget of
        Inl e \<Rightarrow> Inl e
      | Inr (trailer, r') \<Rightarrow>
          if trailer = crlf then Inr r'
          else if rl_maximum_header_count l < seen + 1 \<or> CHR '':'' \<notin> set trailer then Inl oversized
          else read_trailers l r' (budget - int (length trailer)) (seen + 1))"
  by pat_completeness auto
termination by (relation "measure (\<lambda>(l, r, budget, seen). length (rd_data r))") (auto dest: read_line_shorter)

declare read_trailers.simps [simp del]

lemma read_exactly_shorter: "read_exactly r n = Inr (b, r') \<Longrightarrow> length (rd_data r') \<le> length (rd_data r)"
  by (auto simp: read_exactly_def split: if_splits)

function discard_chunked :: "response_limits \<Rightarrow> reader \<Rightarrow> int \<Rightarrow> (int \<times> reader) result" where
  "discard_chunked l r so_far =
     (case read_line r 1024 of
        Inl e \<Rightarrow> Inl e
      | Inr (line, r1) \<Rightarrow>
          (case int_bytes16 (fst (partition_at (CHR '';'') (take (length line - 2) line))) of
             Inl _ \<Rightarrow> Inl malformed
           | Inr n \<Rightarrow>
               if n < 0 \<or> rl_maximum_body_bytes l < so_far + n then Inl oversized
               else if n = 0 then (case read_trailers l r1 (rl_maximum_header_bytes l) 0 of Inl e \<Rightarrow> Inl e | Inr r2 \<Rightarrow> Inr (so_far, r2))
               else (case read_exactly r1 n of
                       Inl e \<Rightarrow> Inl e
                     | Inr (_, r2) \<Rightarrow>
                         (case read_exactly r2 2 of
                            Inl e \<Rightarrow> Inl e
                          | Inr (b, r3) \<Rightarrow> if b \<noteq> crlf then Inl malformed else discard_chunked l r3 (so_far + n)))))"
  by pat_completeness auto
termination
  by (relation "measure (\<lambda>(l, r, so_far). length (rd_data r))") (auto dest!: read_line_shorter read_exactly_shorter)

declare discard_chunked.simps [simp del]

text \<open>The loop that reads to the end of the stream.\<close>

definition discard_rest :: "response_limits \<Rightarrow> reader \<Rightarrow> (int \<times> reader) result" where
  "discard_rest l r =
     (if rl_maximum_body_bytes l < int (length (rd_data r)) then Inl oversized
      else if rd_ending r = Stalled then Inl response_timeout
      else Inr (int (length (rd_data r)), r\<lparr>rd_data := []\<rparr>))"

definition discard_body :: "response_limits \<Rightarrow> reader \<Rightarrow> int \<Rightarrow> (string \<times> string) list \<Rightarrow> (int \<times> reader) result" where
  "discard_body l r status headers =
     (if (100 \<le> status \<and> status < 200) \<or> status \<in> {204, 304} then Inr (0, r)
      else (case map_of headers ''transfer-encoding'' of
              Some transfer \<Rightarrow> if strip (lower transfer) \<noteq> ''chunked'' then Inl malformed else discard_chunked l r 0
            | None \<Rightarrow>
                (case map_of headers ''content-length'' of
                   Some content_length \<Rightarrow>
                     if \<not> str_isdigit content_length then Inl malformed
                     else and_then (int_of_digits content_length) (\<lambda>n.
                            if rl_maximum_body_bytes l < n then Inl oversized
                            else and_then (read_exactly r n) (\<lambda>(_, r'). Inr (n, r')))
                 | None \<Rightarrow> discard_rest l r)))"

record response_metadata =
  rm_status_code :: int
  rm_headers :: "(string \<times> string) list"
  rm_discarded_body_bytes :: int

definition parse_response :: "response_limits \<Rightarrow> reader \<Rightarrow> (response_metadata \<times> reader) result" where
  "parse_response l r =
     and_then (read_head l r (rl_maximum_header_bytes l) 0 0) (\<lambda>(status, headers, r').
     and_then (discard_body l r' status headers) (\<lambda>(discarded, r'').
       Inr (\<lparr>rm_status_code = status, rm_headers = headers, rm_discarded_body_bytes = discarded\<rparr>, r'')))"

section \<open>The request\<close>

definition protected_headers :: "string list" where
  "protected_headers = [''host'', ''content-length'', ''connection'', ''transfer-encoding'']"

definition request_header_ok :: "string \<times> string \<Rightarrow> bool" where
  "request_header_ok p \<longleftrightarrow>
     lower (fst p) \<notin> set protected_headers \<and> lower (fst p) \<noteq> [] \<and>
     list_all (\<lambda>c. c \<notin> {CHR 13, CHR 10, CHR '':''}) (fst p) \<and> list_all (\<lambda>c. c \<notin> {CHR 13, CHR 10, CHR 0x00}) (snd p)"

definition request_lines :: "string \<Rightarrow> string \<Rightarrow> bytes \<Rightarrow> (string \<times> string) list \<Rightarrow> string list result" where
  "request_lines request_target authority body headers =
     (let sorted_headers = sort_key (\<lambda>p. lower (fst p)) headers in
      if \<not> list_all request_header_ok sorted_headers then config_error ''Webhook request headers are invalid.''
      else Inr ([''POST '' @ request_target @ '' HTTP/1.1'', ''Host: '' @ authority] @
                map (\<lambda>(name, value). name @ '': '' @ value) sorted_headers @
                [''Content-Length: '' @ int_str (int (length body)), ''Connection: close'', [], []]))"

definition request_bytes :: "string \<Rightarrow> string \<Rightarrow> bytes \<Rightarrow> (string \<times> string) list \<Rightarrow> bytes result" where
  "request_bytes request_target authority body headers =
     and_then (request_lines request_target authority body headers) (\<lambda>lines.
       let head = join crlf lines in
       if list_all (\<lambda>c. code c < 128) head then Inr (head @ body) else config_error ''Webhook request headers must be ASCII.'')"

section \<open>Which failures a reader raises\<close>

definition reviewed_failure :: "exn \<Rightarrow> bool" where
  "reviewed_failure e \<longleftrightarrow> e \<in> {oversized, malformed, incomplete, response_timeout, unsupported_upgrade}"

lemma reviewed [simp]:
  "reviewed_failure oversized" "reviewed_failure malformed" "reviewed_failure incomplete" "reviewed_failure response_timeout"
  "reviewed_failure unsupported_upgrade"
  by (simp_all add: reviewed_failure_def)

lemma read_line_Inl: "read_line r budget = Inl e \<Longrightarrow> reviewed_failure e"
  by (auto simp: read_line_def split: if_splits option.splits)

lemma add_header_Inl: "add_header hs line = Inl e \<Longrightarrow> reviewed_failure e"
  by (auto simp: add_header_def Let_def split: prod.splits if_splits option.splits)

lemma read_headers_Inl: "read_headers l r budget seen hs = Inl e \<Longrightarrow> reviewed_failure e"
proof (induction l r budget seen hs rule: read_headers.induct)
  case (1 l r budget seen hs)
  show ?case
  proof (cases "read_line r budget")
    case (Inl e')
    with 1(2) show ?thesis using read_line_Inl by (simp add: read_headers.simps [of l r])
  next
    case (Inr p)
    obtain line r' where p: "p = (line, r')" by (cases p)
    with 1(2) Inr show ?thesis
      using 1(1) [OF Inr [unfolded p] refl] add_header_Inl by (auto simp: read_headers.simps [of l r] split: if_splits sum.splits)
  qed
qed

lemma read_head_Inl: "read_head l r budget seen k = Inl e \<Longrightarrow> reviewed_failure e"
proof (induction l r budget seen k rule: read_head.induct)
  case (1 l r budget seen k)
  show ?case
  proof (cases "read_line r budget")
    case (Inl e')
    with 1(2) show ?thesis using read_line_Inl by (simp add: read_head.simps [of l r])
  next
    case (Inr p)
    obtain line r' where p: "p = (line, r')" by (cases p)
    show ?thesis
    proof (cases "status_of_line line")
      case None
      with 1(2) Inr p show ?thesis by (auto simp: read_head.simps [of l r])
    next
      case (Some status)
      show ?thesis
      proof (cases "read_headers l r' (budget - int (length line)) seen []")
        case (Inl e')
        with 1(2) Inr p Some show ?thesis using read_headers_Inl by (simp add: read_head.simps [of l r])
      next
        case (Inr h)
        obtain hs b c r'' where h: "h = (hs, b, c, r'')" by (cases h)
        with 1(2) \<open>read_line r budget = Inr p\<close> p Some Inr show ?thesis
          using 1(1) [OF \<open>read_line r budget = Inr p\<close> [unfolded p] refl Some Inr [unfolded h] refl refl refl] by (auto simp: read_head.simps [of l r] split: if_splits)
      qed
    qed
  qed
qed

lemma read_head_status: "read_head l r budget seen k = Inr (status, hs, r') \<Longrightarrow> \<not> (100 \<le> status \<and> status < 200)"
proof (induction l r budget seen k rule: read_head.induct)
  case (1 l r budget seen k)
  from 1(2) obtain line r1 st h b c r2 where s: "read_line r budget = Inr (line, r1)" "status_of_line line = Some st"
    "read_headers l r1 (budget - int (length line)) seen [] = Inr (h, b, c, r2)"
    by (auto simp: read_head.simps [of l r] split: sum.splits option.splits)
  from 1(2) s show ?case
    using 1(1) [OF s(1) refl s(2,3) refl refl refl] by (auto simp: read_head.simps [of l r] split: if_splits)
qed

lemma read_exactly_Inl: "read_exactly r n = Inl e \<Longrightarrow> reviewed_failure e"
  by (auto simp: read_exactly_def split: if_splits)

lemma read_trailers_Inl: "read_trailers l r budget seen = Inl e \<Longrightarrow> reviewed_failure e"
proof (induction l r budget seen rule: read_trailers.induct)
  case (1 l r budget seen)
  show ?case
  proof (cases "read_line r budget")
    case (Inr p)
    obtain line r' where p: "p = (line, r')" by (cases p)
    with 1(2) Inr show ?thesis using 1(1) [OF Inr [unfolded p] refl] by (auto simp: read_trailers.simps [of l r] split: if_splits)
  qed (use 1(2) read_line_Inl in \<open>simp add: read_trailers.simps [of l r]\<close>)
qed

lemma discard_chunked_Inl: "discard_chunked l r t = Inl e \<Longrightarrow> reviewed_failure e"
proof (induction l r t rule: discard_chunked.induct)
  case (1 l r t)
  note ih = 1(1) and e = 1(2) [unfolded discard_chunked.simps [of l r]]
  show ?case
  proof (cases "read_line r 1024")
    case (Inr p)
    obtain line r1 where p: "p = (line, r1)" by (cases p)
    note l1 = Inr [unfolded p]
    show ?thesis
    proof (cases "int_bytes16 (fst (partition_at (CHR '';'') (take (length line - 2) line)))")
      case (Inr n)
      show ?thesis
      proof (cases "n < 0 \<or> rl_maximum_body_bytes l < t + n \<or> n = 0")
        case True
        then show ?thesis using e l1 Inr read_trailers_Inl by (auto split: if_splits sum.splits)
      next
        case False
        show ?thesis
        proof (cases "read_exactly r1 n")
          case (Inl e')
          then show ?thesis using e l1 \<open>int_bytes16 _ = Inr n\<close> False read_exactly_Inl by auto
        next
          case r2: (Inr q)
          obtain x r2 where q: "q = (x, r2)" by (cases q)
          show ?thesis
          proof (cases "read_exactly r2 2")
            case (Inl e')
            then show ?thesis using e l1 \<open>int_bytes16 _ = Inr n\<close> False r2 q read_exactly_Inl by auto
          next
            case r3: (Inr w)
            obtain b r3 where w: "w = (b, r3)" by (cases w)
            show ?thesis
              using e l1 \<open>int_bytes16 _ = Inr n\<close> False r2 q r3 w ih [OF l1 refl Inr _ _ r2 [unfolded q] refl r3 [unfolded w] refl]
              by (auto split: if_splits)
          qed
        qed
      qed
    qed (use e l1 in auto)
  qed (use e read_line_Inl in auto)
qed

text \<open>A length that \<^verbatim>\<open>str.isdigit\<close> admits and \<^verbatim>\<open>int()\<close> does not read.\<close>

definition unreadable_length :: "string \<Rightarrow> bool" where
  "unreadable_length v \<longleftrightarrow> str_isdigit v \<and> \<not> (list_all is_digit v \<and> length v \<le> 4300)"

lemma discard_body_Inl:
  assumes "discard_body l r status hs = Inl e"
  shows "reviewed_failure e \<or> e = ValueError \<and> status \<notin> {204, 304} \<and> map_of hs ''transfer-encoding'' = None \<and>
    (\<exists>v. map_of hs ''content-length'' = Some v \<and> unreadable_length v)"
  using assms discard_chunked_Inl read_exactly_Inl
  by (auto simp: discard_body_def discard_rest_def int_of_digits_def unreadable_length_def and_then_Inl_iff split: if_splits option.splits prod.splits)

end
