(* ===== verification/Webhook_Answers.thy ===== *)
theory Webhook_Answers
  imports Webhook_Http
begin

text \<open>
  What the bounded reader of \<open>Webhook_Http\<close> guarantees: it reads every well-formed answer completely and exactly, never reads past its
  limits, and fails only with the reviewed delivery failures except for one unreadable length; and the request bytes carry
  exactly the given headers.
\<close>

section \<open>Reading lines\<close>

lemma stream_readline_line:
  assumes "CHR 10 \<notin> set x" "length x \<le> 65535"
  shows "stream_readline (r\<lparr>rd_data := x @ crlf @ rest\<rparr>) = Some (x @ crlf, r\<lparr>rd_data := rest\<rparr>)"
proof -
  have "takeWhile (\<lambda>c. c \<noteq> CHR 10) (x @ crlf @ rest) = x @ [CHR 13]" "dropWhile (\<lambda>c. c \<noteq> CHR 10) (x @ crlf @ rest) = CHR 10 # rest"
    using assms(1) by (induction x) (auto simp: crlf_def)
  then show ?thesis using assms(2) by (simp add: stream_readline_def Let_def) (simp add: crlf_def)
qed

lemma read_line_line:
  assumes "CHR 10 \<notin> set x" "length x \<le> 65535" "int (length x) + 2 \<le> budget"
  shows "read_line (r\<lparr>rd_data := x @ crlf @ rest\<rparr>) budget = Inr (x @ crlf, r\<lparr>rd_data := rest\<rparr>)"
  using stream_readline_line [OF assms(1,2)] assms(3) by (simp add: read_line_def ends_crlf_def) (simp add: crlf_def)

section \<open>Header lines\<close>

definition render_header :: "string \<times> string \<Rightarrow> bytes" where
  "render_header p = fst p @ '': '' @ snd p"

definition plain_header :: "string \<times> string \<Rightarrow> bool" where
  "plain_header p \<longleftrightarrow> fst p \<noteq> [] \<and> list_all header_name_char (fst p) \<and> strip_blanks (snd p) = snd p \<and>
     list_all (\<lambda>c. c \<notin> {CHR 13, CHR 10, CHR 0x00}) (snd p) \<and> length (render_header p) \<le> 65535"

definition header_block :: "(string \<times> string) list \<Rightarrow> bytes" where
  "header_block hs = concat (map (\<lambda>p. render_header p @ crlf) hs) @ crlf"

lemma header_name_char_facts: "header_name_char c \<Longrightarrow> c \<noteq> CHR '':'' \<and> c \<noteq> CHR 10 \<and> c \<noteq> CHR '' '' \<and> c \<noteq> CHR 9 \<and> c \<noteq> CHR 13"
proof -
  have "list_all (\<lambda>c. \<not> header_name_char c) [CHR '':'', CHR 10, CHR '' '', CHR 9, CHR 13]" by code_simp
  then show "header_name_char c \<Longrightarrow> ?thesis" by auto
qed

lemma partition_at_first: "sep \<notin> set a \<Longrightarrow> partition_at sep (a @ sep # b) = (a, [sep], b)"
proof -
  assume "sep \<notin> set a"
  then have "takeWhile (\<lambda>c. c \<noteq> sep) (a @ sep # b) = a" "dropWhile (\<lambda>c. c \<noteq> sep) (a @ sep # b) = sep # b" by (induction a) auto
  then show ?thesis by (simp add: partition_at_def)
qed

lemma strip_blanks_space: "strip_blanks (CHR '' '' # v) = strip_blanks v"
  by (simp add: strip_blanks_def strip_chars_def)

lemma add_plain_header:
  assumes "plain_header p" and "ascii_lower (fst p) \<notin> fst ` set hs"
  shows "add_header hs (render_header p @ crlf) = Inr (hs @ [(ascii_lower (fst p), snd p)])"
proof -
  have "CHR '':'' \<notin> set (fst p)" using assms(1) header_name_char_facts by (auto simp: plain_header_def list_all_iff)
  then have "partition_at (CHR '':'') (render_header p) = (fst p, '':'', '' '' @ snd p)"
    using partition_at_first [of "CHR '':''" "fst p" "'' '' @ snd p"] by (simp add: render_header_def)
  moreover have "take (length (render_header p @ crlf) - 2) (render_header p @ crlf) = render_header p" by (simp add: crlf_def)
  moreover have "map_of hs (ascii_lower (fst p)) = None" using assms(2) by (simp add: map_of_eq_None_iff)
  ultimately show ?thesis
    using assms(1) by (auto simp: add_header_def plain_header_def strip_blanks_space list_ex_iff list_all_iff)
qed

lemma read_plain_headers:
  assumes "list_all plain_header hs" "distinct (map fst acc @ map (\<lambda>p. ascii_lower (fst p)) hs)" "int (length (header_block hs)) \<le> budget"
    and "seen + int (length hs) \<le> rl_maximum_header_count l"
  shows "read_headers l (r\<lparr>rd_data := header_block hs @ rest\<rparr>) budget seen acc =
    Inr (acc @ map (\<lambda>p. (ascii_lower (fst p), snd p)) hs, budget - int (length (header_block hs)), seen + int (length hs), r\<lparr>rd_data := rest\<rparr>)"
  using assms
proof (induction hs arbitrary: budget seen acc)
  case Nil
  have "read_line (r\<lparr>rd_data := [] @ crlf @ rest\<rparr>) budget = Inr ([] @ crlf, r\<lparr>rd_data := rest\<rparr>)"
    using Nil(3) by (intro read_line_line) (simp_all add: header_block_def crlf_def)
  then show ?case by (simp add: read_headers.simps [of l _ budget] header_block_def)
next
  case (Cons p hs)
  let ?line = "render_header p"
  have p: "plain_header p" using Cons.prems(1) by simp
  then have lf: "CHR 10 \<notin> set ?line" "length ?line \<le> 65535"
    using header_name_char_facts by (auto simp: plain_header_def render_header_def list_all_iff)
  have blk: "header_block (p # hs) @ rest = ?line @ crlf @ header_block hs @ rest" by (simp add: header_block_def)
  have len: "int (length (header_block (p # hs))) = int (length ?line) + 2 + int (length (header_block hs))" by (simp add: header_block_def crlf_def)
  have rl: "read_line (r\<lparr>rd_data := header_block (p # hs) @ rest\<rparr>) budget = Inr (?line @ crlf, r\<lparr>rd_data := header_block hs @ rest\<rparr>)"
    unfolding blk using lf Cons.prems(3) len by (intro read_line_line) simp_all
  obtain c cs where name: "fst p = c # cs" "header_name_char c" using p by (cases "fst p") (auto simp: plain_header_def)
  then have "?line @ crlf \<noteq> crlf" "take 1 (?line @ crlf) \<noteq> '' ''" "take 1 (?line @ crlf) \<noteq> [CHR 9]"
    using header_name_char_facts [OF name(2)] by (auto simp: render_header_def crlf_def)
  moreover have "add_header acc (?line @ crlf) = Inr (acc @ [(ascii_lower (fst p), snd p)])"
    using p Cons.prems(2) by (intro add_plain_header) auto
  moreover have "read_headers l (r\<lparr>rd_data := header_block hs @ rest\<rparr>) (budget - int (length (?line @ crlf))) (seen + 1) (acc @ [(ascii_lower (fst p), snd p)]) =
      Inr ((acc @ [(ascii_lower (fst p), snd p)]) @ map (\<lambda>p. (ascii_lower (fst p), snd p)) hs,
        budget - int (length (?line @ crlf)) - int (length (header_block hs)), seen + 1 + int (length hs), r\<lparr>rd_data := rest\<rparr>)"
    using Cons.prems len by (intro Cons.IH) (auto simp: crlf_def)
  ultimately show ?case
    using rl Cons.prems(4) len by (simp add: read_headers.simps [of l "r\<lparr>rd_data := header_block (p # hs) @ rest\<rparr>"] crlf_def algebra_simps)
qed

section \<open>Whole answers\<close>

definition status_text :: "int \<Rightarrow> bytes" where
  "status_text status = ''HTTP/1.1 '' @ int_str status"

definition render_answer :: "int \<Rightarrow> (string \<times> string) list \<Rightarrow> bytes \<Rightarrow> bytes" where
  "render_answer status hs body =
     status_text status @ crlf @ header_block (hs @ [(''Content-Length'', int_str (int (length body)))]) @ body"

lemma three_digits:
  assumes "100 \<le> n" "n < 1000"
  obtains a b c where "int_str n = [a, b, c]" "is_digit a" "is_digit b" "is_digit c" "decimal_value [a, b, c] = n"
proof -
  have "n div 10 div 10 < 10" "1 \<le> n div 10 div 10" "10 \<le> n div 10" using assms by linarith+
  then have "pos_str n = [digit_char (n div 10 div 10), digit_char (n div 10 mod 10), digit_char (n mod 10)]"
    using assms by (simp add: pos_str.simps [of n] pos_str.simps [of "n div 10"] pos_str.simps [of "n div 10 div 10"])
  then show ?thesis using that pos_str_digits [of n] assms by (simp add: int_str_def)
qed

lemma status_of_status_text: "100 \<le> n \<Longrightarrow> n < 1000 \<Longrightarrow> status_of_line (status_text n @ crlf) = Some n"
  by (erule (1) three_digits) (simp add: status_of_line_def status_text_def crlf_def)

lemma status_text_plain: "100 \<le> n \<Longrightarrow> n < 1000 \<Longrightarrow> CHR 10 \<notin> set (status_text n) \<and> length (status_text n) = 12"
proof (erule (1) three_digits)
  fix a b c assume d: "int_str n = [a, b, c]" "is_digit a" "is_digit b" "is_digit c"
  have "\<not> is_digit (CHR 10)" by code_simp
  with d show ?thesis by (auto simp: status_text_def)
qed

lemma length_header_plain:
  assumes "int (length body) < 10 ^ 100"
  shows "plain_header (''Content-Length'', int_str (int (length body)))"
proof -
  let ?v = "int_str (int (length body))"
  have v: "list_all is_digit ?v" "?v \<noteq> []" using pos_str_digits [of "int (length body)"] by (simp_all add: int_str_def)
  have len: "length ?v \<le> 100" using length_pos_str [of "int (length body)" 100] assms by (simp add: int_str_def)
  have bad: "list_all (\<lambda>c. \<not> is_digit c) [CHR 13, CHR 10, CHR 0x00, CHR '' '', CHR 9]" by code_simp
  then have ok: "c \<notin> {CHR 13, CHR 10, CHR 0x00, CHR '' '', CHR 9}" if "c \<in> set ?v" for c using v(1) that by (auto simp: list_all_iff)
  then have "strip_blanks ?v = ?v" unfolding strip_blanks_def by (intro strip_chars_absent) (auto simp: list_all_iff)
  moreover have "list_all header_name_char ''Content-Length''" by code_simp
  ultimately show ?thesis using ok len by (auto simp: plain_header_def render_header_def list_all_iff)
qed

lemma read_exactly_take: "read_exactly (r\<lparr>rd_data := b @ rest\<rparr>) (int (length b)) = Inr (b, r\<lparr>rd_data := rest\<rparr>)"
  by (simp add: read_exactly_def)

lemma answer_read_back:
  assumes st: "200 \<le> status" "status < 1000" "status \<notin> {204, 304}" and hs: "list_all plain_header hs"
    and d: "distinct (map (\<lambda>p. ascii_lower (fst p)) hs)" "''content-length'' \<notin> (\<lambda>p. ascii_lower (fst p)) ` set hs"
      "''transfer-encoding'' \<notin> (\<lambda>p. ascii_lower (fst p)) ` set hs"
    and head: "int (length (render_answer status hs body)) \<le> rl_maximum_header_bytes l + int (length body)"
    and n: "int (length hs) < rl_maximum_header_count l" and body: "int (length body) \<le> rl_maximum_body_bytes l" "int (length body) < 10 ^ 100"
  shows "parse_response l (r\<lparr>rd_data := render_answer status hs body @ rest\<rparr>) =
    Inr (\<lparr>rm_status_code = status,
          rm_headers = map (\<lambda>p. (ascii_lower (fst p), snd p)) hs @ [(''content-length'', int_str (int (length body)))],
          rm_discarded_body_bytes = int (length body)\<rparr>, r\<lparr>rd_data := rest\<rparr>)"
proof -
  let ?cl = "(''Content-Length'', int_str (int (length body)))"
  let ?hs = "hs @ [?cl]" and ?B = "rl_maximum_header_bytes l"
  let ?H = "map (\<lambda>p. (ascii_lower (fst p), snd p)) hs @ [(''content-length'', int_str (int (length body)))]"
  have low: "ascii_lower ''Content-Length'' = ''content-length''" by code_simp
  have data: "render_answer status hs body @ rest = status_text status @ crlf @ header_block ?hs @ body @ rest" by (simp add: render_answer_def)
  have st12: "CHR 10 \<notin> set (status_text status)" "length (status_text status) = 12" using status_text_plain [of status] st by simp_all
  have fits: "14 + int (length (header_block ?hs)) \<le> ?B" using head st12(2) by (simp add: render_answer_def crlf_def)
  have rl: "read_line (r\<lparr>rd_data := render_answer status hs body @ rest\<rparr>) ?B =
      Inr (status_text status @ crlf, r\<lparr>rd_data := header_block ?hs @ body @ rest\<rparr>)"
    unfolding data using st12 fits by (intro read_line_line) simp_all
  have "distinct (map fst [] @ map (\<lambda>p. ascii_lower (fst p)) ?hs)" using d(1,2) low by auto
  then have rh: "read_headers l (r\<lparr>rd_data := header_block ?hs @ body @ rest\<rparr>) (?B - 14) 0 [] =
      Inr (?H, ?B - 14 - int (length (header_block ?hs)), int (length ?hs), r\<lparr>rd_data := body @ rest\<rparr>)"
    using read_plain_headers [where hs = ?hs and acc = "[]" and budget = "?B - 14" and seen = 0 and l = l and r = r and rest = "body @ rest"] hs length_header_plain [OF body(2)] fits n low by simp
  have head_ok: "read_head l (r\<lparr>rd_data := render_answer status hs body @ rest\<rparr>) ?B 0 0 = Inr (status, ?H, r\<lparr>rd_data := body @ rest\<rparr>)"
    using rl rh st st12(2) status_of_status_text [of status]
    by (simp add: read_head.simps [of l "r\<lparr>rd_data := render_answer status hs body @ rest\<rparr>"] crlf_def)
  have notin: "map_of ?H ''transfer-encoding'' = None" "map_of ?H ''content-length'' = Some (int_str (int (length body)))"
    using d(2,3) by (auto simp: map_of_eq_None_iff map_add_def image_iff split: option.splits dest: map_of_SomeD)
  have "list_all is_digit (int_str (int (length body)))" "int_str (int (length body)) \<noteq> []" "decimal_value (int_str (int (length body))) = int (length body)"
    "length (int_str (int (length body))) \<le> 100"
    using pos_str_digits [of "int (length body)"] length_pos_str [of "int (length body)" 100] body(2) by (simp_all add: int_str_def)
  then have "discard_body l (r\<lparr>rd_data := body @ rest\<rparr>) status ?H = Inr (int (length body), r\<lparr>rd_data := rest\<rparr>)"
    using st notin body(1) read_exactly_take [where r = r and b = body and rest = rest]
    by (auto simp: discard_body_def str_isdigit_def is_unicode_digit_def int_of_digits_def list_all_iff simp del: map_of_append)
  with head_ok show ?thesis by (simp add: parse_response_def)
qed


lemma reviewed_failures_not_ValueError: "\<not> reviewed_failure ValueError"
  by (simp add: reviewed_failure_def oversized_def malformed_def incomplete_def response_timeout_def unsupported_upgrade_def retryable_failure_def)

section \<open>How much of a connection is read\<close>

lemma length_dict_set [simp]: "length (dict_set k v d) \<le> Suc (length d)"
  by (induction k v d rule: dict_set.induct) auto

lemma add_header_length: "add_header hs line = Inr hs' \<Longrightarrow> length hs' \<le> Suc (length hs)"
  by (auto simp: add_header_def Let_def split: prod.splits if_splits option.splits)

lemma read_headers_bounded:
  assumes "read_headers l r budget seen hs = Inr (hs', b, c, r')" "seen \<le> rl_maximum_header_count l"
  shows "(\<exists>pre. rd_data r = pre @ rd_data r' \<and> b = budget - int (length pre) \<and> 0 \<le> b) \<and> rd_ending r' = rd_ending r \<and>
    seen \<le> c \<and> c \<le> rl_maximum_header_count l \<and> int (length hs') \<le> int (length hs) + (c - seen)"
  using assms
proof (induction l r budget seen hs rule: read_headers.induct)
  case (1 l r budget seen hs)
  from 1(2) obtain line r1 where l1: "read_line r budget = Inr (line, r1)" by (auto simp: read_headers.simps [of l r] split: sum.splits)
  note split = read_line_split [OF l1]
  show ?case
  proof (cases "line = crlf")
    case True
    with 1(2,3) l1 split show ?thesis by (auto simp: read_headers.simps [of l r])
  next
    case False
    from 1(2) False l1 obtain hs1 where h: "\<not> (rl_maximum_header_count l < seen + 1 \<or> take 1 line = '' '' \<or> take 1 line = [CHR 9])"
      "add_header hs line = Inr hs1" "read_headers l r1 (budget - int (length line)) (seen + 1) hs1 = Inr (hs', b, c, r')"
      by (auto simp: read_headers.simps [of l r] split: if_splits sum.splits)
    have room: "seen + 1 \<le> rl_maximum_header_count l" using h(1) by auto
    have ih: "(\<exists>pre. rd_data r1 = pre @ rd_data r' \<and> b = budget - int (length line) - int (length pre) \<and> 0 \<le> b) \<and>
        rd_ending r' = rd_ending r1 \<and> seen + 1 \<le> c \<and> c \<le> rl_maximum_header_count l \<and> int (length hs') \<le> int (length hs1) + (c - (seen + 1))"
      by (rule 1(1) [OF l1 refl False h(1,2,3) room])
    then obtain pre where pre: "rd_data r1 = pre @ rd_data r'" "b = budget - int (length line) - int (length pre)" "0 \<le> b" by blast
    have "rd_data r = (line @ pre) @ rd_data r'" "b = budget - int (length (line @ pre))" using split(1) pre(1,2) by simp_all
    moreover have "int (length hs') \<le> int (length hs) + (c - seen)" using ih add_header_length [OF h(2)] by linarith
    ultimately show ?thesis using ih split(4) pre(3) by fastforce
  qed
qed

lemma read_head_bounded:
  assumes "read_head l r budget seen k = Inr (status, hs, r')" "0 \<le> seen" "seen \<le> rl_maximum_header_count l"
  shows "(\<exists>pre. rd_data r = pre @ rd_data r' \<and> int (length pre) \<le> budget) \<and> rd_ending r' = rd_ending r \<and>
    int (length hs) \<le> rl_maximum_header_count l"
  using assms
proof (induction l r budget seen k rule: read_head.induct)
  case (1 l r budget seen k)
  from 1(2) obtain line r1 st h b c r2 where s: "read_line r budget = Inr (line, r1)" "status_of_line line = Some st"
    "read_headers l r1 (budget - int (length line)) seen [] = Inr (h, b, c, r2)"
    by (auto simp: read_head.simps [of l r] split: sum.splits option.splits)
  note split = read_line_split [OF s(1)] and hb = read_headers_bounded [OF s(3) 1(4)]
  from hb obtain pre where pre: "rd_data r1 = pre @ rd_data r2" "b = budget - int (length line) - int (length pre)" "0 \<le> b" by blast
  have all: "rd_data r = (line @ pre) @ rd_data r2" "b = budget - int (length (line @ pre))" using split(1) pre(1,2) by simp_all
  show ?case
  proof (cases "100 \<le> st \<and> st < 200")
    case True
    then have n: "st \<noteq> 101" "\<not> rl_maximum_informational_responses l < k + 1" "read_head l r2 b c (k + 1) = Inr (status, hs, r')"
      using 1(2) s by (auto simp: read_head.simps [of l r] split: if_splits)
    have c: "0 \<le> c" "c \<le> rl_maximum_header_count l" using hb 1(3) by linarith+
    have ih: "(\<exists>pre. rd_data r2 = pre @ rd_data r' \<and> int (length pre) \<le> b) \<and> rd_ending r' = rd_ending r2 \<and> int (length hs) \<le> rl_maximum_header_count l"
      by (rule 1(1) [OF s(1) refl s(2,3) refl refl refl n(1) True n(2,3) c])
    then obtain pre2 where "rd_data r2 = pre2 @ rd_data r'" "int (length pre2) \<le> b" by blast
    then have "rd_data r = (line @ pre @ pre2) @ rd_data r'" "int (length (line @ pre @ pre2)) \<le> budget" using all by simp_all
    then show ?thesis using ih hb split(4) by metis
  next
    case False
    then have "hs = h" "r' = r2" using 1(2) s by (auto simp: read_head.simps [of l r] split: if_splits)
    moreover have "int (length (line @ pre)) \<le> budget" "int (length h) \<le> rl_maximum_header_count l" using all(2) pre(3) hb 1(3) by simp_all
    ultimately show ?thesis using all(1) hb split(4) by metis
  qed
qed

lemma discard_chunked_bounded:
  "discard_chunked l r t = Inr (n, r') \<Longrightarrow> 0 \<le> t \<Longrightarrow> t \<le> rl_maximum_body_bytes l \<Longrightarrow> t \<le> n \<and> n \<le> rl_maximum_body_bytes l"
proof (induction l r t rule: discard_chunked.induct)
  case (1 l r t)
  from 1(2) obtain line r1 k where s: "read_line r 1024 = Inr (line, r1)"
    "int_bytes16 (fst (partition_at (CHR '';'') (take (length line - 2) line))) = Inr k" "\<not> (k < 0 \<or> rl_maximum_body_bytes l < t + k)"
    by (auto simp: discard_chunked.simps [of l r] split: sum.splits if_splits)
  show ?case
  proof (cases "k = 0")
    case True
    then show ?thesis using 1(2,3,4) s by (auto simp: discard_chunked.simps [of l r] split: sum.splits)
  next
    case False
    from 1(2) s False obtain x r2 r3 where q: "read_exactly r1 k = Inr (x, r2)" "read_exactly r2 2 = Inr (crlf, r3)" "discard_chunked l r3 (t + k) = Inr (n, r')"
      by (auto simp: discard_chunked.simps [of l r] split: sum.splits if_splits)
    have "t + k \<le> n \<and> n \<le> rl_maximum_body_bytes l" using 1(1) [OF s(1) refl s(2,3) False q(1) refl q(2) refl _ q(3)] s(3) 1(3) by simp
    then show ?thesis using s(3) by linarith
  qed
qed

lemma decimal_value_nonneg: "list_all is_digit ds \<Longrightarrow> 0 \<le> decimal_value ds"
  by (induction ds rule: rev_induct) (auto simp: decimal_value_snoc decimal_value_def digit_value_def is_digit_def in_range_def)

lemma int_of_digits_nonneg: "int_of_digits v = Inr n \<Longrightarrow> 0 \<le> n"
  using decimal_value_nonneg by (auto simp: int_of_digits_def split: if_splits)

lemma discard_body_bounded:
  assumes "discard_body l r status hs = Inr (n, r')" "1 \<le> rl_maximum_body_bytes l"
  shows "0 \<le> n \<and> n \<le> rl_maximum_body_bytes l"
  using assms discard_chunked_bounded [of l r 0 n r'] int_of_digits_nonneg
  by (auto simp: discard_body_def discard_rest_def and_then_Inr_iff split: if_splits option.splits prod.splits)

section \<open>The lines of a request\<close>

definition line_safe :: "bytes \<Rightarrow> bool" where
  "line_safe x \<longleftrightarrow> list_all (\<lambda>c. c \<notin> {CHR 13, CHR 10}) x"

definition line_key :: "bytes \<Rightarrow> string" where
  "line_key x = lower (fst (partition_at (CHR '':'') x))"

lemma join_crlf: "join crlf (xs @ [[]]) = concat (map (\<lambda>x. x @ crlf) xs)"
  by (induction xs) (simp_all add: join_Cons)

lemma line_safe_append [simp]: "line_safe (x @ y) \<longleftrightarrow> line_safe x \<and> line_safe y"
  by (simp add: line_safe_def)

lemma digits_line_safe: "0 \<le> n \<Longrightarrow> line_safe (int_str n)"
proof -
  assume "0 \<le> n"
  then have "list_all is_digit (int_str n)" using pos_str_digits [of n] by (simp add: int_str_def)
  moreover have "\<not> is_digit (CHR 13)" "\<not> is_digit (CHR 10)" by code_simp+
  ultimately show ?thesis by (auto simp: line_safe_def list_all_iff)
qed

lemma given_header_line:
  assumes "request_header_ok p"
  shows "line_safe (render_header p) \<and> render_header p \<noteq> [] \<and> line_key (render_header p) \<notin> set protected_headers"
proof -
  have "CHR '':'' \<notin> set (fst p)" using assms by (auto simp: request_header_ok_def list_all_iff)
  then have "line_key (render_header p) = lower (fst p)"
    using partition_at_first [of "CHR '':''" "fst p" "'' '' @ snd p"] by (simp add: line_key_def render_header_def)
  then show ?thesis using assms by (auto simp: request_header_ok_def render_header_def line_safe_def list_all_iff)
qed

lemma own_header_keys:
  "line_key (''Host: '' @ x) = ''host''" "line_key (''Content-Length: '' @ x) = ''content-length''" "line_key ''Connection: close'' = ''connection''"
proof -
  have low: "lower ''Host'' = ''host''" "lower ''Content-Length'' = ''content-length''" by code_simp+
  show "line_key (''Host: '' @ x) = ''host''" "line_key (''Content-Length: '' @ x) = ''content-length''"
    using partition_at_first [of "CHR '':''" "''Host''" "CHR '' '' # x"] partition_at_first [of "CHR '':''" "''Content-Length''" "CHR '' '' # x"] low
    by (simp_all add: line_key_def)
  show "line_key ''Connection: close'' = ''connection''" by code_simp
qed

lemma request_bytes_lines:
  assumes "request_bytes target authority body headers = Inr b"
  defines "hs \<equiv> sort_key (\<lambda>p. lower (fst p)) headers"
  shows "list_all request_header_ok hs"
    "b = concat (map (\<lambda>x. x @ crlf) ((''POST '' @ target @ '' HTTP/1.1'') # (''Host: '' @ authority) # map render_header hs @
          [''Content-Length: '' @ int_str (int (length body)), ''Connection: close'', []])) @ body"
proof -
  have r: "render_header = (\<lambda>(name, value). name @ '': '' @ value)" by (auto simp: render_header_def)
  show "list_all request_header_ok hs" using assms(1) unfolding hs_def by (auto simp: request_bytes_def request_lines_def Let_def split: if_splits)
  show "b = concat (map (\<lambda>x. x @ crlf) ((''POST '' @ target @ '' HTTP/1.1'') # (''Host: '' @ authority) # map render_header hs @
          [''Content-Length: '' @ int_str (int (length body)), ''Connection: close'', []])) @ body"
    using assms(1) join_crlf [of "(''POST '' @ target @ '' HTTP/1.1'') # (''Host: '' @ authority) # map render_header hs @
          [''Content-Length: '' @ int_str (int (length body)), ''Connection: close'', []]"]
    unfolding hs_def r by (auto simp: request_bytes_def request_lines_def Let_def split: if_splits)
qed

section \<open>Properties\<close>


definition default_limits :: response_limits where
  "default_limits = \<lparr>rl_read_timeout_seconds = Fin 10, rl_maximum_header_bytes = 32768, rl_maximum_header_count = 128,
     rl_maximum_informational_responses = 8, rl_maximum_body_bytes = 65536\<rparr>"

lemma sample_headers:
  "list_all plain_header [(''Retry-After'', ''120'')]" "map (\<lambda>p. ascii_lower (fst p)) [(''Retry-After'', ''120'')] = [''retry-after'']"
proof -
  have "list_all header_name_char ''Retry-After''" "strip_blanks ''120'' = ''120''" "list_all (\<lambda>c. c \<notin> {CHR 13, CHR 10, CHR 0x00}) ''120''" by code_simp+
  then show "list_all plain_header [(''Retry-After'', ''120'')]" by (simp add: plain_header_def render_header_def)
  show "map (\<lambda>p. ascii_lower (fst p)) [(''Retry-After'', ''120'')] = [''retry-after'']" by code_simp
qed

lemma sample_lengths: "length (render_answer 503 [(''Retry-After'', ''120'')] ''busy'') = 57" "int_str 4 = ''4''"
  by code_simp+



text \<open>
  A successful read consumes at most \<^verbatim>\<open>maximum_header_bytes\<close> for all status lines and headers, informational answers included, keeps at
  most \<^verbatim>\<open>maximum_header_count\<close> headers, never returns an informational status, and discards at most \<^verbatim>\<open>maximum_body_bytes\<close>.
\<close>

lemma response_reading_bounded:
  assumes "parse_response l r = Inr (m, r')" and "response_limits_post_init l = Inr l"
  shows "\<exists>head r1. rd_data r = head @ rd_data r1 \<and> int (length head) \<le> rl_maximum_header_bytes l \<and>
      discard_body l r1 (rm_status_code m) (rm_headers m) = Inr (rm_discarded_body_bytes m, r') \<and>
      \<not> (100 \<le> rm_status_code m \<and> rm_status_code m < 200) \<and>
      int (length (rm_headers m)) \<le> rl_maximum_header_count l \<and> 0 \<le> rm_discarded_body_bytes m \<and> rm_discarded_body_bytes m \<le> rl_maximum_body_bytes l"
proof -
  have pos: "1 \<le> rl_maximum_header_count l" "1 \<le> rl_maximum_body_bytes l" using assms(2) by (auto simp: response_limits_post_init_def split: if_splits)
  from assms(1) obtain status hs r1 n where s: "read_head l r (rl_maximum_header_bytes l) 0 0 = Inr (status, hs, r1)"
    "discard_body l r1 status hs = Inr (n, r')" "m = \<lparr>rm_status_code = status, rm_headers = hs, rm_discarded_body_bytes = n\<rparr>"
    by (auto simp: parse_response_def and_then_Inr_iff)
  have "0 \<le> rl_maximum_header_count l" using pos(1) by simp
  then show ?thesis using read_head_bounded [OF s(1)] read_head_status [OF s(1)] discard_body_bounded [OF s(2) pos(2)] s(2,3) by auto
qed

text \<open>
  When the target and the authority carry no line break, the bytes of a request are lines without line breaks, an empty line and the
  body: the request line, then exactly one host, one content length with the length of the body and one connection header among the
  framing headers, and otherwise exactly the given headers in the order of their names. No header value adds a line or a framing header.
\<close>

lemma request_framing:
  assumes "request_bytes target authority body headers = Inr b" "line_safe target" "line_safe authority"
  shows "\<exists>ls. b = concat (map (\<lambda>x. x @ crlf) ls) @ crlf @ body \<and> list_all line_safe ls \<and> [] \<notin> set ls \<and>
    hd ls = ''POST '' @ target @ '' HTTP/1.1'' \<and>
    filter (\<lambda>x. line_key x \<in> set protected_headers) (tl ls) =
      [''Host: '' @ authority, ''Content-Length: '' @ int_str (int (length body)), ''Connection: close''] \<and>
    filter (\<lambda>x. line_key x \<notin> set protected_headers) (tl ls) = map render_header (sort_key (\<lambda>p. lower (fst p)) headers)"
proof -
  let ?hs = "sort_key (\<lambda>p. lower (fst p)) headers"
  let ?ls = "(''POST '' @ target @ '' HTTP/1.1'') # (''Host: '' @ authority) # map render_header ?hs @
          [''Content-Length: '' @ int_str (int (length body)), ''Connection: close'']"
  note lines = request_bytes_lines [OF assms(1)]
  have given: "line_safe x \<and> x \<noteq> [] \<and> line_key x \<notin> set protected_headers" if "x \<in> set (map render_header ?hs)" for x
    using that lines(1) given_header_line by (auto simp: list_all_iff)
  have own: "line_safe ''POST ''" "line_safe '' HTTP/1.1''" "line_safe ''Host: ''" "line_safe ''Content-Length: ''" "line_safe ''Connection: close''" by code_simp+
  have "b = concat (map (\<lambda>x. x @ crlf) ?ls) @ crlf @ body" using lines(2) by simp
  moreover have "list_all line_safe ?ls"
    using given own assms(2,3) digits_line_safe [of "int (length body)"] unfolding list_all_iff by (auto simp del: append_Cons append_Nil simp: append_Cons [symmetric] )
  moreover have "[] \<notin> set ?ls" using given by auto
  moreover have "filter (\<lambda>x. line_key x \<in> set protected_headers) (map render_header ?hs) = []" using given by (auto simp: filter_empty_conv)
  moreover have "filter (\<lambda>x. line_key x \<notin> set protected_headers) (map render_header ?hs) = map render_header ?hs" using given by (simp add: filter_id_conv)
  moreover have "''host'' \<in> set protected_headers" "''content-length'' \<in> set protected_headers" "''connection'' \<in> set protected_headers" by code_simp+
  ultimately show ?thesis
    using own_header_keys by (intro exI [of _ ?ls]) (simp del: filter_map set_map append_Cons)
qed

end
