(* ===== verification/Webhook_Address.thy ===== *)
theory Webhook_Address
  imports Python_Ip Webhook_Answers
begin

text \<open>
  \<^verbatim>\<open>webhooks/address_policy.py\<close>: the parsing and normalisation of endpoint URLs and the policy for resolved addresses. Of
  \<^verbatim>\<open>urllib.parse\<close> the module uses \<^verbatim>\<open>urlsplit\<close>, \<^verbatim>\<open>urlunsplit\<close> and \<^verbatim>\<open>quote\<close>, modelled here as of Python 3.11.10 for text without
  control characters and blanks, which the module rejects first. The IDNA codec is modelled on ASCII names and an argument otherwise.
\<close>

section \<open>Splitting URLs\<close>

record split_url =
  su_scheme :: string
  su_netloc :: string
  su_path :: string
  su_query :: string
  su_fragment :: string

definition scheme_char :: "char \<Rightarrow> bool" where
  "scheme_char c \<longleftrightarrow> is_alnum c \<or> c \<in> set ''+-.''"

definition split_scheme :: "string \<Rightarrow> string \<times> string" where
  "split_scheme url =
     (let (pre, sep, post) = partition_at (CHR '':'') url in
      if sep \<noteq> [] \<and> pre \<noteq> [] \<and> (is_lower (hd pre) \<or> is_upper (hd pre)) \<and> list_all scheme_char pre then (lower pre, post) else ([], url))"

definition netloc_char :: "char \<Rightarrow> bool" where
  "netloc_char c \<longleftrightarrow> c \<notin> {CHR ''/'', CHR ''?'', CHR ''#''}"

text \<open>What may stand between brackets: an IPvFuture text or an IPv6 address.\<close>

definition bracketed_host_ok :: "string \<Rightarrow> bool" where
  "bracketed_host_ok h \<longleftrightarrow>
     (if take 1 h = ''v''
      then takeWhile hex_digit (tl h) \<noteq> [] \<and> take 1 (dropWhile hex_digit (tl h)) = ''.'' \<and> 2 \<le> length (dropWhile hex_digit (tl h))
      else (case ip_address h of Some (IPv6 _ _) \<Rightarrow> True | _ \<Rightarrow> False))"

definition brackets_ok :: "string \<Rightarrow> bool" where
  "brackets_ok netloc \<longleftrightarrow>
     (CHR ''['' \<in> set netloc) = (CHR '']'' \<in> set netloc) \<and>
     (CHR ''['' \<in> set netloc \<longrightarrow>
        bracketed_host_ok (fst (partition_at (CHR '']'') (snd (snd (partition_at (CHR ''['') netloc))))))"

definition split_tail :: "string \<Rightarrow> string \<Rightarrow> string \<Rightarrow> split_url" where
  "split_tail scheme netloc url =
     (let (url1, _, fragment) = partition_at (CHR ''#'') url; (path, _, query) = partition_at (CHR ''?'') url1 in
      \<lparr>su_scheme = scheme, su_netloc = netloc, su_path = path, su_query = query, su_fragment = fragment\<rparr>)"

definition urlsplit :: "string \<Rightarrow> split_url result" where
  "urlsplit url =
     (let (scheme, rest) = split_scheme url in
      if take 2 rest = ''//''
      then let netloc = takeWhile netloc_char (drop 2 rest) in
        if \<not> brackets_ok netloc then Inl ValueError else Inr (split_tail scheme netloc (dropWhile netloc_char (drop 2 rest)))
      else Inr (split_tail scheme [] rest))"

definition hostinfo :: "string \<Rightarrow> string \<times> string" where
  "hostinfo netloc =
     (let host_port = rev (takeWhile (\<lambda>c. c \<noteq> CHR ''@'') (rev netloc));
          (_, have_open, bracketed) = partition_at (CHR ''['') host_port in
      if have_open \<noteq> []
      then let (hostname, _, after) = partition_at (CHR '']'') bracketed in (hostname, snd (snd (partition_at (CHR '':'') after)))
      else let (hostname, _, port) = partition_at (CHR '':'') host_port in (hostname, port))"

definition url_port :: "split_url \<Rightarrow> int option result" where
  "url_port u =
     (let port = snd (hostinfo (su_netloc u)) in
      if port = [] then Inr None
      else if \<not> list_all is_digit port \<or> 65535 < decimal_value port then Inl ValueError
      else Inr (Some (decimal_value port)))"

definition url_hostname :: "split_url \<Rightarrow> string option" where
  "url_hostname u =
     (let hostname = fst (hostinfo (su_netloc u)) in
      if hostname = [] then None
      else let (name, percent, zone) = partition_at (CHR ''%'') hostname in Some (lower name @ percent @ zone))"

definition urlunsplit :: "string \<Rightarrow> string \<Rightarrow> string \<Rightarrow> string \<Rightarrow> string" where
  "urlunsplit scheme netloc path query =
     scheme @ ''://'' @ netloc @ (if path \<noteq> [] \<and> take 1 path \<noteq> ''/'' then ''/'' else []) @ path @ (if query = [] then [] else ''?'' @ query)"

definition quote_safe :: "string \<Rightarrow> char \<Rightarrow> bool" where
  "quote_safe safe c \<longleftrightarrow> is_alnum c \<or> c \<in> set ''_.-~'' \<or> c \<in> set safe"

definition upper_hex :: "int \<Rightarrow> char" where
  "upper_hex d = (''0123456789ABCDEF'' ! nat d)"

definition quote_octet :: "string \<Rightarrow> char \<Rightarrow> string" where
  "quote_octet safe c =
     (if quote_safe safe c then [c] else [CHR ''%'', upper_hex (int (code c) div 16), upper_hex (int (code c) mod 16)])"

definition quote :: "string \<Rightarrow> string \<Rightarrow> string" where
  "quote safe s = concat (map (quote_octet safe) (utf8 s))"

section \<open>Hostnames\<close>

definition ascii_idna_ok :: "string \<Rightarrow> bool" where
  "ascii_idna_ok h \<longleftrightarrow>
     (let labels = split_on (CHR ''.'') h in
      list_all (\<lambda>x. 0 < length x \<and> length x < 64) (butlast labels) \<and> length (last labels) < 64)"

definition idna_encode :: "(string \<Rightarrow> string option) \<Rightarrow> string \<Rightarrow> string option" where
  "idna_encode idna h = (if is_ascii h then if ascii_idna_ok h then Some h else None else idna h)"

definition rstrip_dots :: "string \<Rightarrow> string" where
  "rstrip_dots s = rev (dropWhile (\<lambda>c. c = CHR ''.'') (rev s))"

section \<open>Endpoints\<close>

record endpoint_target =
  et_url :: string
  et_scheme :: string
  et_hostname :: string
  et_port :: int
  et_authority :: string
  et_request_target :: string

definition path_safe :: string where "path_safe = ''/:@-._~!$&'' @ [CHR 0x27] @ ''()*+,;=%''"
definition query_safe :: string where "query_safe = ''/?:@-._~!$&'' @ [CHR 0x27] @ ''()*+,;=%''"

definition control_or_space :: "char \<Rightarrow> bool" where
  "control_or_space c \<longleftrightarrow> code c \<le> 32 \<or> code c = 127"

fun invalid_escape :: "string \<Rightarrow> bool" where
  "invalid_escape [] \<longleftrightarrow> False"
| "invalid_escape (c # cs) \<longleftrightarrow>
     c = CHR ''%'' \<and> \<not> (2 \<le> length cs \<and> list_all hex_digit (take 2 cs)) \<or> invalid_escape cs"

definition invalid_authority :: "endpoint_target result" where
  "invalid_authority = config_error ''Webhook endpoint authority is invalid.''"

definition invalid_hostname :: "endpoint_target result" where
  "invalid_hostname = config_error ''Webhook endpoint hostname is invalid.''"

definition default_port :: "string \<Rightarrow> int" where
  "default_port scheme = (if scheme = ''https'' then 443 else 80)"

definition effective_port :: "string \<Rightarrow> int option \<Rightarrow> int" where
  "effective_port scheme port = (case port of Some n \<Rightarrow> if n = 0 then default_port scheme else n | None \<Rightarrow> default_port scheme)"

definition authority_of :: "string \<Rightarrow> string \<Rightarrow> int \<Rightarrow> string" where
  "authority_of scheme hostname port =
     (let display_host = (if CHR '':'' \<in> set hostname then ''['' @ hostname @ '']'' else hostname) in
      if port = default_port scheme then display_host else display_host @ '':'' @ int_str port)"

definition target_of :: "string \<Rightarrow> string \<Rightarrow> string" where
  "target_of path query = path @ (if query = [] then [] else ''?'' @ query)"

definition quoted_path :: "string \<Rightarrow> string" where
  "quoted_path path = quote path_safe (if path = [] then ''/'' else path)"

text \<open>The end of the function: port, authority, escapes and quoting.\<close>

definition endpoint_of :: "int list \<Rightarrow> split_url \<Rightarrow> int option \<Rightarrow> string \<Rightarrow> endpoint_target result" where
  "endpoint_of allowed_ports u port hostname =
     (let scheme = lower (su_scheme u);
          port' = effective_port scheme port;
          authority = authority_of scheme hostname port';
          path = quoted_path (su_path u);
          query = quote query_safe (su_query u) in
      if port' \<notin> set allowed_ports then config_error ''Webhook endpoint port is not allowed.''
      else if invalid_escape (su_path u) \<or> invalid_escape (su_query u) then config_error ''Webhook endpoint URL contains an invalid percent escape.''
      else Inr \<lparr>et_url = urlunsplit scheme authority path query, et_scheme = scheme, et_hostname = hostname, et_port = port',
                et_authority = authority, et_request_target = target_of path query\<rparr>)"

definition parse_endpoint :: "(string \<Rightarrow> string option) \<Rightarrow> bool \<Rightarrow> int list \<Rightarrow> string \<Rightarrow> endpoint_target result" where
  "parse_endpoint idna production allowed_ports value =
     (if value = [] \<or> 2048 < length value \<or> list_ex control_or_space value then config_error ''Webhook endpoint URL is invalid.''
      else case urlsplit value of
        Inl _ \<Rightarrow> invalid_authority
      | Inr u \<Rightarrow>
          (case url_port u of
             Inl _ \<Rightarrow> invalid_authority
           | Inr port \<Rightarrow>
               if lower (su_scheme u) \<notin> set (if production then [''https''] else [''http'', ''https''])
               then config_error ''Webhook endpoint scheme is not allowed.''
               else if su_netloc u = [] \<or> CHR ''@'' \<in> set (su_netloc u) \<or> su_fragment u \<noteq> [] then invalid_authority
               else (case url_hostname u of
                       None \<Rightarrow> invalid_authority
                     | Some h \<Rightarrow>
                         (case idna_encode idna h of
                            None \<Rightarrow> invalid_hostname
                          | Some encoded \<Rightarrow>
                              let hostname = rstrip_dots (lower encoded) in
                              if hostname = [] \<or> 253 < length hostname then invalid_hostname
                              else endpoint_of allowed_ports u port hostname))))"

section \<open>Addresses\<close>

definition permanent_failure :: "string \<Rightarrow> string \<Rightarrow> exn" where
  "permanent_failure c s = DeliveryFailure (PermanentDeliveryError c s)"

fun normalize_addresses :: "string list \<Rightarrow> string list \<Rightarrow> string list result" where
  "normalize_addresses normalized [] = Inr normalized"
| "normalize_addresses normalized (v # vs) =
     (case ip_address v of
        None \<Rightarrow> Inl (permanent_failure ''webhook.address_invalid'' ''Endpoint DNS returned an invalid address.'')
      | Some a \<Rightarrow>
          if ipv4_mapped a \<noteq> None
          then Inl (permanent_failure ''webhook.address_forbidden'' ''Endpoint DNS returned an IPv4-mapped IPv6 address.'')
          else if \<not> is_global a \<or> is_multicast a \<or> is_reserved a \<or> is_unspecified a \<or> is_loopback a \<or> is_link_local a \<or> is_private a
          then Inl (permanent_failure ''webhook.address_forbidden'' ''Endpoint DNS returned a forbidden non-global address.'')
          else normalize_addresses (if compressed a \<in> set normalized then normalized else normalized @ [compressed a]) vs)"

definition validate_public_addresses :: "string list \<Rightarrow> string list result" where
  "validate_public_addresses addresses =
     (if addresses = [] \<or> 32 < length addresses
      then Inl (permanent_failure ''webhook.dns_policy'' ''Endpoint DNS returned no acceptable bounded answer set.'')
      else normalize_addresses [] addresses)"

section \<open>What the policy accepts\<close>

lemma normalize_addresses_ok:
  "normalize_addresses acc vs = Inr out \<Longrightarrow>
     (\<forall>v\<in>set vs. \<exists>a. ip_address v = Some a \<and> acceptable_ip a) \<and> set out = set acc \<union> {compressed a |v a. v \<in> set vs \<and> ip_address v = Some a} \<and>
     (distinct acc \<longrightarrow> distinct out) \<and> length out \<le> length acc + length vs"
proof (induction acc vs rule: normalize_addresses.induct)
  case (2 acc v vs)
  from 2(2) obtain a where a: "ip_address v = Some a" "acceptable_ip a"
    by (auto simp: acceptable_ip_def split: option.splits if_splits)
  then have ok: "ipv4_mapped a = None"
    "\<not> (\<not> is_global a \<or> is_multicast a \<or> is_reserved a \<or> is_unspecified a \<or> is_loopback a \<or> is_link_local a \<or> is_private a)"
    by (auto simp: acceptable_ip_def)
  let ?acc = "if compressed a \<in> set acc then acc else acc @ [compressed a]"
  have "normalize_addresses ?acc vs = Inr out" using 2(2) a(1) ok by simp
  then have ih: "(\<forall>v\<in>set vs. \<exists>a. ip_address v = Some a \<and> acceptable_ip a) \<and>
      set out = set ?acc \<union> {compressed a |v a. v \<in> set vs \<and> ip_address v = Some a} \<and>
     (distinct ?acc \<longrightarrow> distinct out) \<and> length out \<le> length ?acc + length vs"
    using 2(1) [OF a(1)] ok by blast
  have "set ?acc = insert (compressed a) (set acc)" "distinct acc \<Longrightarrow> distinct ?acc" "length ?acc \<le> Suc (length acc)" by auto
  with ih a show ?case by auto
qed simp

lemma validate_returns_iff:
  "(\<exists>out. validate_public_addresses vs = Inr out) \<longleftrightarrow>
     vs \<noteq> [] \<and> length vs \<le> 32 \<and> (\<forall>v\<in>set vs. \<exists>a. ip_address v = Some a \<and> acceptable_ip a)"
proof -
  have all: "\<exists>out. normalize_addresses acc vs = Inr out" if "\<forall>v\<in>set vs. \<exists>a. ip_address v = Some a \<and> acceptable_ip a" for acc
    using that by (induction vs arbitrary: acc) (fastforce simp: acceptable_ip_def)+
  show ?thesis using all [of "[]"] normalize_addresses_ok [of "[]" vs] by (auto simp: validate_public_addresses_def)
qed

section \<open>Characters of a parsed endpoint\<close>

lemma partition_at_sets:
  "set (fst (partition_at sep s)) \<subseteq> set s" "set (fst (snd (partition_at sep s))) \<subseteq> set s" "set (snd (snd (partition_at sep s))) \<subseteq> set s"
proof -
  let ?d = "dropWhile (\<lambda>c. c \<noteq> sep) s"
  have "set ?d \<subseteq> set s" "set (takeWhile (\<lambda>c. c \<noteq> sep) s) \<subseteq> set s" by (auto dest: set_takeWhileD set_dropWhileD)
  moreover have "set (tl d) \<subseteq> set d" for d :: string by (cases d) auto
  then have "set (tl ?d) \<subseteq> set ?d" .
  moreover have "?d \<noteq> [] \<Longrightarrow> sep \<in> set s" by auto
  ultimately show "set (fst (partition_at sep s)) \<subseteq> set s" "set (fst (snd (partition_at sep s))) \<subseteq> set s" "set (snd (snd (partition_at sep s))) \<subseteq> set s"
    by (cases "?d = []"; simp add: partition_at_def Let_def del: dropWhile_eq_Nil_conv; blast)+
qed

lemma urlsplit_netloc: "urlsplit url = Inr u \<Longrightarrow> set (su_netloc u) \<subseteq> set url"
proof -
  assume u: "urlsplit url = Inr u"
  obtain scheme rest where s: "split_scheme url = (scheme, rest)" by (cases "split_scheme url")
  then have "set rest \<subseteq> set url" using partition_at_sets(3) [of "CHR '':''" url] by (auto simp: split_scheme_def case_prod_unfold Let_def split: if_splits)
  moreover have "set (su_netloc u) \<subseteq> set rest"
    using u s by (auto simp: urlsplit_def split_tail_def case_prod_unfold Let_def split: if_splits dest!: set_takeWhileD in_set_dropD)
  ultimately show ?thesis by blast
qed

lemma hostinfo_sets: "set (fst (hostinfo n)) \<subseteq> set n"
proof -
  let ?hp = "rev (takeWhile (\<lambda>c. c \<noteq> CHR ''@'') (rev n))"
  have hp: "set ?hp \<subseteq> set n" by (auto dest: set_takeWhileD)
  have "set (fst (hostinfo n)) \<subseteq> set ?hp"
    using partition_at_sets(1) [of "CHR '']''" "snd (snd (partition_at (CHR ''['') ?hp))"] partition_at_sets(3) [of "CHR ''[''" ?hp]
      partition_at_sets(1) [of "CHR '':''" ?hp]
    by (auto simp only: hostinfo_def Let_def case_prod_unfold fst_conv split: if_splits)
  with hp show ?thesis by blast
qed

lemma url_hostname_sets:
  assumes "url_hostname u = Some h" "c \<in> set h"
  shows "\<exists>d\<in>set (su_netloc u). c = d \<or> c = lower_char d"
proof -
  let ?n = "fst (hostinfo (su_netloc u))" let ?p = "partition_at (CHR ''%'') ?n"
  have "h = lower (fst ?p) @ fst (snd ?p) @ snd (snd ?p)" using assms(1) by (auto simp: url_hostname_def Let_def case_prod_unfold split: if_splits)
  then have "c \<in> lower_char ` set ?n \<or> c \<in> set ?n" using assms(2) partition_at_sets [of "CHR ''%''" ?n] by (auto simp: lower_def)
  then show ?thesis using hostinfo_sets by blast
qed

lemma code_less_256: "code c < 256"
  by (cases c) (simp add: code_def of_char_def)

lemma char_eq_code: "c = d \<longleftrightarrow> code c = code d"
  by (simp add: code_def)

lemma code_lower_char: "code (lower_char c) = (if is_upper c \<or> (in_range 192 222 c \<and> code c \<noteq> 215) then code c + 32 else code c)"
proof -
  have "code c + 32 < 256" if "is_upper c \<or> in_range 192 222 c" using that by (auto simp: is_upper_def in_range_def)
  moreover have "n < 256 \<Longrightarrow> code (char_of n) = n" for n by (simp add: code_def)
  ultimately show ?thesis by (auto simp: lower_char_def)
qed

lemma lower_char_breaks: "lower_char c \<in> {CHR 13, CHR 10} \<Longrightarrow> c \<in> {CHR 13, CHR 10}"
proof -
  have "code (CHR 13) = 13" "code (CHR 10) = 10" by code_simp+
  then show "lower_char c \<in> {CHR 13, CHR 10} \<Longrightarrow> ?thesis"
    by (auto simp: char_eq_code code_lower_char is_upper_def in_range_def split: if_splits)
qed

lemma upper_hex_visible: "0 \<le> d \<Longrightarrow> d < 16 \<Longrightarrow> hex_digit (upper_hex d) \<and> in_range 33 126 (upper_hex d)"
proof -
  assume "0 \<le> d" "d < 16"
  then have "d \<in> set [0, 1, 2, 3, 4, 5, 6, 7, 8, 9, 10, 11, 12, 13, 14, 15]" by simp arith
  moreover have "list_all (\<lambda>d. hex_digit (upper_hex d) \<and> in_range 33 126 (upper_hex d)) [0, 1, 2, 3, 4, 5, 6, 7, 8, 9, 10, 11, 12, 13, 14, 15]" by code_simp
  ultimately show ?thesis unfolding list_all_iff by blast
qed

lemma octet_halves: "0 \<le> int (code c) div 16" "int (code c) div 16 < 16" "0 \<le> int (code c) mod 16" "int (code c) mod 16 < 16"
  using code_less_256 [of c] by auto

lemma quote_safe_visible: "list_all (in_range 33 126) safe \<Longrightarrow> quote_safe safe c \<Longrightarrow> in_range 33 126 c"
proof -
  have "list_all (in_range 33 126) ''_.-~''" by code_simp
  then show "list_all (in_range 33 126) safe \<Longrightarrow> quote_safe safe c \<Longrightarrow> ?thesis"
    unfolding quote_safe_def list_all_iff is_alnum_def is_lower_def is_upper_def is_digit_def by (auto simp: in_range_def)
qed

lemma quote_visible: "list_all (in_range 33 126) safe \<Longrightarrow> list_all (in_range 33 126) (quote safe x)"
proof -
  assume s: "list_all (in_range 33 126) safe"
  have p: "in_range 33 126 (CHR ''%'')" by code_simp
  have "list_all (in_range 33 126) (quote_octet safe c)" for c
    using quote_safe_visible [OF s] upper_hex_visible octet_halves [of c] p by (simp add: quote_octet_def)
  then show ?thesis by (auto simp: quote_def list_all_iff)
qed

lemma safe_sets_visible: "list_all (in_range 33 126) path_safe" "list_all (in_range 33 126) query_safe"
  by code_simp+

lemma visible_line_safe: "list_all (in_range 33 126) x \<Longrightarrow> line_safe x"
proof -
  have "\<not> in_range 33 126 (CHR 13)" "\<not> in_range 33 126 (CHR 10)" by code_simp+
  then show "list_all (in_range 33 126) x \<Longrightarrow> line_safe x" by (auto simp: line_safe_def list_all_iff)
qed

text \<open>The branches of a successful parse.\<close>

lemma parse_endpoint_Inr:
  assumes "parse_endpoint idna production ports v = Inr e"
  obtains u port h encoded where "v \<noteq> []" "length v \<le> 2048" "\<not> list_ex control_or_space v" "urlsplit v = Inr u" "url_port u = Inr port"
    "lower (su_scheme u) \<in> set (if production then [''https''] else [''http'', ''https''])" "su_netloc u \<noteq> []" "CHR ''@'' \<notin> set (su_netloc u)" "su_fragment u = []"
    "url_hostname u = Some h" "idna_encode idna h = Some encoded" "rstrip_dots (lower encoded) \<noteq> []" "length (rstrip_dots (lower encoded)) \<le> 253"
    "endpoint_of ports u port (rstrip_dots (lower encoded)) = Inr e"
proof -
  from assms obtain u where u: "v \<noteq> []" "length v \<le> 2048" "\<not> list_ex control_or_space v" "urlsplit v = Inr u"
    by (auto simp: parse_endpoint_def invalid_authority_def split: if_splits sum.splits)
  with assms obtain port where port: "url_port u = Inr port" by (cases "url_port u") (auto simp: parse_endpoint_def invalid_authority_def)
  with assms u have c: "lower (su_scheme u) \<in> set (if production then [''https''] else [''http'', ''https''])" "su_netloc u \<noteq> []" "CHR ''@'' \<notin> set (su_netloc u)" "su_fragment u = []"
    by (simp_all add: parse_endpoint_def invalid_authority_def split: if_splits)
  with assms u port obtain h where h: "url_hostname u = Some h" by (cases "url_hostname u") (auto simp: parse_endpoint_def invalid_authority_def)
  with assms u port c obtain encoded where encoded: "idna_encode idna h = Some encoded"
    by (cases "idna_encode idna h") (auto simp: parse_endpoint_def invalid_hostname_def)
  have e: "parse_endpoint idna production ports v =
      (let hostname = rstrip_dots (lower encoded) in if hostname = [] \<or> 253 < length hostname then invalid_hostname else endpoint_of ports u port hostname)"
    using u port c h encoded by (simp add: parse_endpoint_def)
  show ?thesis using that [OF u port c h encoded] assms unfolding e by (auto simp: Let_def invalid_hostname_def split: if_splits)
qed

lemma endpoint_of_Inr:
  assumes "endpoint_of ports u port hostname = Inr e"
  shows "et_scheme e = lower (su_scheme u)" "et_hostname e = hostname" "et_port e \<in> set ports" "et_port e = effective_port (et_scheme e) port"
    "et_authority e = authority_of (et_scheme e) hostname (et_port e)"
    "et_request_target e = target_of (quoted_path (su_path u)) (quote query_safe (su_query u))"
    "et_url e = urlunsplit (et_scheme e) (et_authority e) (quoted_path (su_path u)) (quote query_safe (su_query u))"
    "\<not> invalid_escape (su_path u)" "\<not> invalid_escape (su_query u)"
  using assms by (auto simp: endpoint_of_def Let_def split: if_splits)

lemma url_port_range: "url_port u = Inr (Some n) \<Longrightarrow> 0 \<le> n \<and> n \<le> 65535"
  using decimal_value_nonneg by (auto simp: url_port_def Let_def split: if_splits)

lemma control_breaks: "\<not> control_or_space c \<Longrightarrow> c \<noteq> CHR 13 \<and> c \<noteq> CHR 10"
proof -
  have "control_or_space (CHR 13)" "control_or_space (CHR 10)" by code_simp+
  then show "\<not> control_or_space c \<Longrightarrow> ?thesis" by auto
qed

lemma rstrip_dots_set: "set (rstrip_dots s) \<subseteq> set s"
  by (auto simp: rstrip_dots_def dest: set_dropWhileD)

lemma parsed_lines_safe:
  assumes p: "parse_endpoint idna production ports v = Inr e" and idna: "\<forall>h x. idna h = Some x \<longrightarrow> line_safe x"
  shows "line_safe (et_request_target e)" "line_safe (et_authority e)"
proof -
  from p obtain u port h encoded where v: "\<not> list_ex control_or_space v" "urlsplit v = Inr u" "url_port u = Inr port"
    "url_hostname u = Some h" "idna_encode idna h = Some encoded" "endpoint_of ports u port (rstrip_dots (lower encoded)) = Inr e"
    by (rule parse_endpoint_Inr)
  note e = endpoint_of_Inr [OF v(6)]
  have q: "line_safe ''?''" by code_simp
  show "line_safe (et_request_target e)"
    unfolding e(6) target_of_def quoted_path_def using visible_line_safe quote_visible safe_sets_visible q by (auto simp del: append_Cons)
  have n: "d \<notin> {CHR 13, CHR 10}" if "d \<in> set (su_netloc u)" for d
    using that urlsplit_netloc [OF v(2)] v(1) control_breaks by (auto simp: list_ex_iff)
  have "line_safe h"
    unfolding line_safe_def list_all_iff
  proof
    fix c assume "c \<in> set h"
    then obtain d where "d \<in> set (su_netloc u)" "c = d \<or> c = lower_char d" using url_hostname_sets [OF v(4)] by blast
    then show "c \<notin> {CHR 13, CHR 10}" using n lower_char_breaks by metis
  qed
  then have "line_safe encoded" using v(5) idna by (auto simp: idna_encode_def split: if_splits)
  then have "line_safe (lower encoded)" using lower_char_breaks by (fastforce simp: line_safe_def list_all_iff lower_def)
  then have host: "line_safe (rstrip_dots (lower encoded))" using rstrip_dots_set by (fastforce simp: line_safe_def list_all_iff)
  have "0 \<le> et_port e" unfolding e(4) using url_port_range v(3) by (auto simp: effective_port_def default_port_def split: option.splits)
  then have "line_safe (int_str (et_port e))" by (rule digits_line_safe)
  moreover have "line_safe ''[''" "line_safe '']''" "line_safe '':''" by code_simp+
  ultimately show "line_safe (et_authority e)" unfolding e(5) using host by (auto simp: authority_of_def Let_def simp del: append_Cons)
qed

end
