(* ===== verification/Webhook_Endpoints.thy ===== *)
theory Webhook_Endpoints
  imports Webhook_Address
begin

text \<open>
  What the address policy guarantees: only public addresses pass, a parsed endpoint cannot break the framing of a request, and the
  normalised URL that is stored with a subscription parses to the same endpoint when a delivery reads it back.
\<close>

section \<open>Normal forms\<close>

lemma lower_char_idem: "lower_char (lower_char c) = lower_char c"
  by (auto simp: char_eq_code [of "lower_char (lower_char c)"] code_lower_char is_upper_def in_range_def)

lemma lower_char_special: "lower_char c = CHR ''.'' \<longleftrightarrow> c = CHR ''.''"
proof -
  have "code (CHR ''.'') = 46" by code_simp
  then show ?thesis by (auto simp: char_eq_code code_lower_char is_upper_def in_range_def)
qed

lemma lower_char_colon: "lower_char c = CHR '':'' \<longleftrightarrow> c = CHR '':''"
proof -
  have "code (CHR '':'') = 58" by code_simp
  then show ?thesis by (auto simp: char_eq_code code_lower_char is_upper_def in_range_def)
qed

lemma lower_absent: "CHR '':'' \<notin> set s \<Longrightarrow> CHR '':'' \<notin> set (lower s)"
  unfolding lower_def set_map by (metis imageE lower_char_colon)

lemma lower_char_ascii: "code c < 128 \<Longrightarrow> code (lower_char c) < 128"
  by (auto simp: code_lower_char is_upper_def in_range_def)

lemma lower_idem [simp]: "lower (lower s) = lower s"
  by (simp add: lower_def lower_char_idem)

lemma lower_append: "lower (a @ b) = lower a @ lower b"
  by (simp add: lower_def)

lemma split_on_lower: "split_on (CHR ''.'') (lower s) = map lower (split_on (CHR ''.'') s)"
  by (induction s) (auto simp: lower_def lower_char_special split: list.splits)

lemma split_on_snoc: "split_on sep (s @ [sep]) = split_on sep s @ [[]]"
  by (induction s) (auto split: list.splits)

lemma idna_lower: "ascii_idna_ok h \<Longrightarrow> ascii_idna_ok (lower h)"
proof -
  have "length (lower x) = length x" "lower x = [] \<longleftrightarrow> x = []" for x by (simp_all add: lower_def)
  then show "ascii_idna_ok h \<Longrightarrow> ascii_idna_ok (lower h)"
    using split_on_nonempty [of "CHR ''.''" h] by (simp add: ascii_idna_ok_def Let_def split_on_lower last_map map_butlast [symmetric] list.pred_map comp_def)
qed

lemma idna_drop_dot: "ascii_idna_ok (h @ ''.'') \<Longrightarrow> ascii_idna_ok h"
proof -
  assume "ascii_idna_ok (h @ ''.'')"
  then have "list_all (\<lambda>x. 0 < length x \<and> length x < 64) (split_on (CHR ''.'') h)" by (simp add: ascii_idna_ok_def split_on_snoc)
  then show ?thesis using split_on_nonempty [of "CHR ''.''" h] by (auto simp: ascii_idna_ok_def Let_def list_all_iff dest: in_set_butlastD)
qed

lemma rstrip_dots_snoc: "rstrip_dots (h @ [c]) = (if c = CHR ''.'' then rstrip_dots h else h @ [c])"
  by (simp add: rstrip_dots_def)

lemma idna_rstrip: "ascii_idna_ok h \<Longrightarrow> ascii_idna_ok (rstrip_dots h)"
  by (induction h rule: rev_induct) (auto simp: rstrip_dots_snoc dest: idna_drop_dot, simp add: rstrip_dots_def)

lemma rstrip_dots_idem [simp]: "rstrip_dots (rstrip_dots h) = rstrip_dots h"
  by (induction h rule: rev_induct) (auto simp: rstrip_dots_snoc, simp add: rstrip_dots_def)

lemma rstrip_lower: "lower (rstrip_dots h) = rstrip_dots (lower h)"
  by (induction h rule: rev_induct) (auto simp: rstrip_dots_snoc lower_def lower_char_special, simp_all add: rstrip_dots_def)

text \<open>Quoting keeps what it produces, and every escape it produces is complete.\<close>

lemma utf8_ascii: "is_ascii s \<Longrightarrow> utf8 s = s"
  by (induction s) (auto simp: is_ascii_def)

lemma quote_chars: "c \<in> set (quote safe s) \<Longrightarrow> quote_safe safe c \<or> c = CHR ''%'' \<or> hex_digit c"
  using upper_hex_visible octet_halves by (fastforce simp: quote_def quote_octet_def split: if_splits)

lemma hex_digit_alnum: "hex_digit c \<Longrightarrow> is_alnum c"
proof -
  have "list_all is_alnum ''0123456789abcdefABCDEF''" by code_simp
  then show "hex_digit c \<Longrightarrow> is_alnum c" by (auto simp: hex_digit_def list_all_iff)
qed

lemma quote_stays:
  assumes "CHR ''%'' \<in> set safe" "list_all (in_range 33 126) safe"
  shows "quote safe (quote safe s) = quote safe s"
proof -
  have "list_all (quote_safe safe) (quote safe s)"
    using quote_chars assms(1) hex_digit_alnum by (fastforce simp: list_all_iff quote_safe_def)
  moreover have "is_ascii (quote safe s)" using quote_visible [OF assms(2), of s] by (auto simp: is_ascii_def list_all_iff in_range_def)
  ultimately show ?thesis
  proof -
    assume q: "list_all (quote_safe safe) (quote safe s)" and a: "is_ascii (quote safe s)"
    have "quote safe t = t" if "is_ascii t" "list_all (quote_safe safe) t" for t
      using that by (simp add: quote_def utf8_ascii) (induction t, auto simp: quote_octet_def is_ascii_def)
    then show ?thesis using q a by blast
  qed
qed

lemma invalid_escape_quoted:
  assumes "\<not> invalid_escape s" "CHR ''%'' \<in> set safe" "is_ascii s"
  shows "\<not> invalid_escape (quote safe s)"
proof -
  have hex: "quote_octet safe c = [c]" if "hex_digit c" for c using hex_digit_alnum [OF that] by (simp add: quote_octet_def quote_safe_def)
  have "\<not> invalid_escape (concat (map (quote_octet safe) s))" using assms(1)
  proof (induction s)
    case (Cons c cs)
    then have ih: "\<not> invalid_escape (concat (map (quote_octet safe) cs))" by simp
    show ?case
    proof (cases "quote_safe safe c")
      case safe: True
      show ?thesis
      proof (cases "c = CHR ''%''")
        case True
        then obtain a b rest where "cs = a # b # rest" "hex_digit a" "hex_digit b"
          using Cons.prems by (cases cs; cases "tl cs") auto
        moreover have "quote_octet safe c = [c]" using safe by (simp add: quote_octet_def)
        ultimately show ?thesis using ih hex by simp
      next
        case False
        moreover have "quote_octet safe c = [c]" using safe by (simp add: quote_octet_def)
        ultimately show ?thesis using ih by simp
      qed
    next
      case False
      let ?a = "upper_hex (int (code c) div 16)" and ?b = "upper_hex (int (code c) mod 16)"
      have h: "hex_digit ?a" "hex_digit ?b" using upper_hex_visible octet_halves by blast+
      have "\<not> hex_digit (CHR ''%'')" by code_simp
      then have "?a \<noteq> CHR ''%''" "?b \<noteq> CHR ''%''" using h by metis+
      moreover have "quote_octet safe c = [CHR ''%'', ?a, ?b]" using False by (simp add: quote_octet_def)
      ultimately show ?thesis using ih h by simp
    qed
  qed simp
  then show ?thesis using assms(3) by (simp add: quote_def utf8_ascii)
qed

text \<open>The parts of a bracket-free URL with a network location.\<close>

lemma split_scheme_normal:
  assumes "scheme \<in> {''http'', ''https''}"
  shows "split_scheme (scheme @ ''://'' @ rest) = (scheme, ''//'' @ rest)"
proof -
  have "CHR '':'' \<notin> set scheme" "list_all scheme_char scheme" "is_lower (hd scheme)" "lower scheme = scheme" "scheme \<noteq> []"
    using assms by (elim insertE; simp; code_simp)+
  then show ?thesis using partition_at_first [of "CHR '':''" scheme "''//'' @ rest"] by (simp add: split_scheme_def)
qed

lemma partition_at_absent: "sep \<notin> set s \<Longrightarrow> partition_at sep s = (s, [], [])"
proof -
  assume "sep \<notin> set s"
  then have "dropWhile (\<lambda>c. c \<noteq> sep) s = []" by auto
  then show ?thesis by (simp add: partition_at_def)
qed

lemma urlsplit_normal:
  assumes scheme: "scheme \<in> {''http'', ''https''}" and netloc: "list_all netloc_char netloc" "CHR ''['' \<notin> set netloc" "CHR '']'' \<notin> set netloc"
    and path: "take 1 path = ''/''" "CHR ''?'' \<notin> set path" "CHR ''#'' \<notin> set path" and query: "CHR ''#'' \<notin> set query"
  shows "urlsplit (urlunsplit scheme netloc path query) =
    Inr \<lparr>su_scheme = scheme, su_netloc = netloc, su_path = path, su_query = query, su_fragment = []\<rparr>"
proof -
  let ?tail = "path @ (if query = [] then [] else ''?'' @ query)"
  obtain ps where ps: "path = CHR ''/'' # ps" using path(1) by (cases path) auto
  have url: "urlunsplit scheme netloc path query = scheme @ ''://'' @ netloc @ ?tail" using path(1) by (simp add: urlunsplit_def)
  have slash: "\<not> netloc_char (CHR ''/'')" by code_simp
  have "takeWhile netloc_char (netloc @ ?tail) = netloc" "dropWhile netloc_char (netloc @ ?tail) = ?tail"
    using netloc(1) slash ps by (induction netloc) auto
  moreover have "brackets_ok netloc" using netloc(2,3) by (simp add: brackets_ok_def)
  moreover have "split_tail scheme netloc ?tail = \<lparr>su_scheme = scheme, su_netloc = netloc, su_path = path, su_query = query, su_fragment = []\<rparr>"
  proof -
    have "CHR ''#'' \<notin> set ?tail" using path(3) query by auto
    then have "partition_at (CHR ''#'') ?tail = (?tail, [], [])" by (rule partition_at_absent)
    moreover have "fst (partition_at (CHR ''?'') ?tail) = path \<and> snd (snd (partition_at (CHR ''?'') ?tail)) = query"
      using partition_at_absent [OF path(2)] partition_at_first [OF path(2), of query] by auto
    ultimately show ?thesis by (simp add: split_tail_def case_prod_unfold Let_def)
  qed
  ultimately show ?thesis unfolding url urlsplit_def split_scheme_normal [OF scheme] by simp
qed

lemma partition_at_parts: "fst (partition_at sep s) @ fst (snd (partition_at sep s)) @ snd (snd (partition_at sep s)) = s"
proof (cases "sep \<in> set s")
  case True
  then obtain a c where "s = a @ sep # c" "sep \<notin> set a" by (metis split_list_first)
  then show ?thesis by (simp add: partition_at_first)
qed (simp add: partition_at_absent)

lemma partition_at_fst_absent: "sep \<notin> set (fst (partition_at sep s))"
proof (cases "sep \<in> set s")
  case True
  then obtain a c where "s = a @ sep # c" "sep \<notin> set a" by (metis split_list_first)
  then show ?thesis by (simp add: partition_at_first)
qed (simp add: partition_at_absent)

lemma hostinfo_plain:
  assumes "CHR ''@'' \<notin> set n" "CHR ''['' \<notin> set n"
  shows "hostinfo n = (fst (partition_at (CHR '':'') n), snd (snd (partition_at (CHR '':'') n)))"
proof -
  have t: "takeWhile (\<lambda>c. c \<noteq> CHR ''@'') (rev n) = rev n" by (rule takeWhile_eq_all_conv [THEN iffD2]) (use assms(1) in auto)
  have hp: "rev (takeWhile (\<lambda>c. c \<noteq> CHR ''@'') (rev n)) = n" by (simp only: t rev_rev_ident)
  show ?thesis unfolding hostinfo_def hp using partition_at_absent [OF assms(2)] by (simp add: case_prod_unfold Let_def)
qed

lemma url_hostname_lower:
  assumes "url_hostname u = Some h" and "CHR ''@'' \<notin> set (su_netloc u)" "CHR ''['' \<notin> set (su_netloc u)"
  shows "lower h = lower (fst (partition_at (CHR '':'') (su_netloc u)))" "CHR '':'' \<notin> set (lower h)" "h \<noteq> []"
proof -
  let ?n = "fst (partition_at (CHR '':'') (su_netloc u))" let ?p = "partition_at (CHR ''%'') ?n"
  have ne: "?n \<noteq> []" and h: "h = lower (fst ?p) @ fst (snd ?p) @ snd (snd ?p)"
    using assms by (auto simp: url_hostname_def hostinfo_plain Let_def case_prod_unfold split: if_splits)
  have parts: "fst ?p @ fst (snd ?p) @ snd (snd ?p) = ?n"
    by (rule partition_at_parts)
  have "lower h = lower (fst ?p @ fst (snd ?p) @ snd (snd ?p))" unfolding h by (simp add: lower_append)
  then show l: "lower h = lower ?n" unfolding parts .
  have "CHR '':'' \<notin> set ?n" by (rule partition_at_fst_absent)
  then show "CHR '':'' \<notin> set (lower h)" unfolding l by (rule lower_absent)
  show "h \<noteq> []" using l ne by (auto simp: lower_def)
qed

text \<open>What the path, the query and the network location of a split URL look like.\<close>

lemma split_tail_fields:
  "su_scheme (split_tail scheme n t) = scheme" "su_netloc (split_tail scheme n t) = n"
  "su_path (split_tail scheme n t) = fst (partition_at (CHR ''?'') (fst (partition_at (CHR ''#'') t)))"
  "su_query (split_tail scheme n t) = snd (snd (partition_at (CHR ''?'') (fst (partition_at (CHR ''#'') t))))"
  by (simp_all add: split_tail_def case_prod_unfold Let_def)

lemma urlsplit_parts:
  assumes "urlsplit url = Inr u" "su_netloc u \<noteq> []"
  obtains rest where "u = split_tail (su_scheme u) (takeWhile netloc_char rest) (dropWhile netloc_char rest)" "set rest \<subseteq> set url" "brackets_ok (su_netloc u)"
proof -
  obtain scheme r where s: "split_scheme url = (scheme, r)" by (cases "split_scheme url")
  have r: "set r \<subseteq> set url" using s partition_at_sets(3) [of "CHR '':''" url] by (auto simp: split_scheme_def case_prod_unfold Let_def split: if_splits)
  have "u = split_tail scheme (takeWhile netloc_char (drop 2 r)) (dropWhile netloc_char (drop 2 r)) \<and> brackets_ok (takeWhile netloc_char (drop 2 r))"
    using assms s by (auto simp: urlsplit_def split_tail_fields Let_def split: if_splits)
  moreover have "set (drop 2 r) \<subseteq> set url" using r by (auto dest: in_set_dropD)
  ultimately show ?thesis using that by (metis split_tail_fields(1,2))
qed

lemma urlsplit_shape:
  assumes "urlsplit url = Inr u" "su_netloc u \<noteq> []"
  shows "list_all netloc_char (su_netloc u)" "brackets_ok (su_netloc u)" "su_path u = [] \<or> take 1 (su_path u) = ''/''" "CHR ''?'' \<notin> set (su_path u)"
    "CHR ''#'' \<notin> set (su_path u)" "CHR ''#'' \<notin> set (su_query u)" "set (su_path u) \<subseteq> set url" "set (su_query u) \<subseteq> set url"
proof -
  from assms obtain rest where u: "u = split_tail (su_scheme u) (takeWhile netloc_char rest) (dropWhile netloc_char rest)" "set rest \<subseteq> set url" "brackets_ok (su_netloc u)"
    by (rule urlsplit_parts)
  let ?t = "dropWhile netloc_char rest" let ?f = "fst (partition_at (CHR ''#'') ?t)"
  have n: "su_netloc u = takeWhile netloc_char rest" and path: "su_path u = fst (partition_at (CHR ''?'') ?f)"
    and query: "su_query u = snd (snd (partition_at (CHR ''?'') ?f))" using u(1) split_tail_fields by metis+
  have ft: "set ?f \<subseteq> set ?t" by (rule partition_at_sets(1))
  have tr: "set ?t \<subseteq> set rest" by (auto dest: set_dropWhileD)
  have f: "CHR ''#'' \<notin> set ?f" by (rule partition_at_fst_absent)
  show "list_all netloc_char (su_netloc u)" unfolding n by (auto simp: list_all_iff dest: set_takeWhileD)
  show "brackets_ok (su_netloc u)" by (rule u(3))
  show q: "CHR ''?'' \<notin> set (su_path u)" unfolding path by (rule partition_at_fst_absent)
  show h: "CHR ''#'' \<notin> set (su_path u)" "CHR ''#'' \<notin> set (su_query u)"
    unfolding path query using f partition_at_sets [of "CHR ''?''" ?f] by blast+
  show "set (su_path u) \<subseteq> set url" "set (su_query u) \<subseteq> set url"
    unfolding path query using ft tr u(2) partition_at_sets [of "CHR ''?''" ?f] by blast+
  show "su_path u = [] \<or> take 1 (su_path u) = ''/''"
  proof (cases "su_path u")
    case (Cons c cs)
    have "?f @ fst (snd (partition_at (CHR ''#'') ?t)) @ snd (snd (partition_at (CHR ''#'') ?t)) = ?t" "su_path u @ fst (snd (partition_at (CHR ''?'') ?f)) @ su_query u = ?f"
      unfolding path query by (rule partition_at_parts)+
    then obtain ts where ts: "?t = c # ts" using Cons by (metis append_Cons)
    then have "\<not> netloc_char c" by (metis hd_dropWhile list.distinct(1) list.sel(1))
    moreover have "c \<noteq> CHR ''?''" "c \<noteq> CHR ''#''" using q h(1) Cons by auto
    ultimately show ?thesis using Cons by (simp add: netloc_char_def)
  qed simp
qed

lemma quote_query_chars: "CHR ''#'' \<notin> set (quote query_safe x)" "CHR ''?'' \<notin> set (quote path_safe x)" "CHR ''#'' \<notin> set (quote path_safe x)"
proof -
  have "\<not> (quote_safe query_safe (CHR ''#'') \<or> hex_digit (CHR ''#''))" "\<not> (quote_safe path_safe (CHR ''?'') \<or> hex_digit (CHR ''?''))"
    "\<not> (quote_safe path_safe (CHR ''#'') \<or> hex_digit (CHR ''#''))" by code_simp+
  then show "CHR ''#'' \<notin> set (quote query_safe x)" "CHR ''?'' \<notin> set (quote path_safe x)" "CHR ''#'' \<notin> set (quote path_safe x)"
    using quote_chars by fastforce+
qed

lemma quoted_path_slash: "p = [] \<or> take 1 p = ''/'' \<Longrightarrow> take 1 (quoted_path p) = ''/''"
proof -
  have q: "quote_octet path_safe (CHR ''/'') = ''/''" "code (CHR ''/'') = 47" by code_simp+
  assume "p = [] \<or> take 1 p = ''/''"
  then obtain ps where "(if p = [] then ''/'' else p) = CHR ''/'' # ps" by (cases p) auto
  then show ?thesis using q by (simp add: quoted_path_def quote_def)
qed

lemma quote_empty: "quote safe x = [] \<longleftrightarrow> x = []"
proof -
  have "quote_octet safe c \<noteq> []" for c by (simp add: quote_octet_def)
  then show ?thesis by (cases x) (simp_all add: quote_def)
qed

lemma quoted_path_stays: "quoted_path (quoted_path p) = quoted_path p"
proof -
  have "CHR ''%'' \<in> set path_safe" by code_simp
  moreover have "quoted_path p \<noteq> []" by (simp add: quoted_path_def quote_empty)
  ultimately show ?thesis using quote_stays [OF _ safe_sets_visible(1)] by (simp add: quoted_path_def)
qed

text \<open>The hostname of a parsed bracket-free ASCII URL is lower case, encodable and in normal form.\<close>

definition normal_host :: "string \<Rightarrow> bool" where
  "normal_host h \<longleftrightarrow> h \<noteq> [] \<and> length h \<le> 253 \<and> is_ascii h \<and> lower h = h \<and> rstrip_dots h = h \<and> ascii_idna_ok h \<and>
     list_all (\<lambda>c. netloc_char c \<and> c \<notin> {CHR '':'', CHR ''@'', CHR ''['', CHR '']''} \<and> \<not> control_or_space c) h"

lemma authority_plain:
  assumes "normal_host h" "0 < port" "port \<le> 65535"
  shows "list_all (\<lambda>c. netloc_char c \<and> c \<notin> {CHR ''@'', CHR ''['', CHR '']''} \<and> \<not> control_or_space c) (authority_of scheme h port)"
    "authority_of scheme h port \<noteq> []"
    "fst (partition_at (CHR '':'') (authority_of scheme h port)) = h"
    "snd (snd (partition_at (CHR '':'') (authority_of scheme h port))) = (if port = default_port scheme then [] else int_str port)"
proof -
  let ?ok = "\<lambda>c. netloc_char c \<and> c \<notin> {CHR ''@'', CHR ''['', CHR '']''} \<and> \<not> control_or_space c"
  have colon: "CHR '':'' \<notin> set h" "list_all ?ok h" "h \<noteq> []" using assms(1) by (auto simp: normal_host_def list_all_iff)
  have "list_all ?ok ''0123456789:''" by code_simp
  moreover have "list_all is_digit (int_str port)" using pos_str_digits [of port] assms(2) by (simp add: int_str_def)
  moreover have "c \<in> set ''0123456789''" if "is_digit c" for c
  proof -
    have "code c \<in> {48..57}" using that by (simp add: is_digit_def in_range_def)
    then have "code c \<in> set [48, 49, 50, 51, 52, 53, 54, 55, 56, 57]" by simp arith
    moreover have "map char_of [48, 49, 50, 51, 52, 53, 54, 55, 56, 57 :: nat] = ''0123456789''" by code_simp
    moreover have "c = char_of (code c)" by (simp add: code_def)
    ultimately show ?thesis by (metis image_eqI list.set_map)
  qed
  ultimately have port: "list_all ?ok ('':'' @ int_str port)" by (auto simp: list_all_iff)
  show "list_all ?ok (authority_of scheme h port)" using colon port by (auto simp: authority_of_def Let_def)
  show "authority_of scheme h port \<noteq> []" using colon by (simp add: authority_of_def Let_def)
  show "fst (partition_at (CHR '':'') (authority_of scheme h port)) = h"
    "snd (snd (partition_at (CHR '':'') (authority_of scheme h port))) = (if port = default_port scheme then [] else int_str port)"
    using colon partition_at_absent [OF colon(1)] partition_at_first [OF colon(1), of "int_str port"] by (auto simp: authority_of_def Let_def)
qed

section \<open>Reading a normalised URL back\<close>

lemma lower_letter_plain:
  assumes "is_lower c"
  shows "netloc_char c \<and> c \<notin> {CHR '':'', CHR ''@'', CHR ''['', CHR '']''} \<and> \<not> control_or_space c"
proof -
  have "list_all (\<lambda>c. \<not> is_lower c) (''/?#:@[]'')" by code_simp
  moreover have "\<not> control_or_space c" using assms by (simp add: is_lower_def in_range_def control_or_space_def)
  ultimately show ?thesis using assms by (auto simp: netloc_char_def)
qed

lemma lower_char_cases: "code d < 128 \<Longrightarrow> lower_char d = d \<or> is_lower (lower_char d)"
  by (auto simp: char_eq_code code_lower_char is_lower_def is_upper_def in_range_def)

lemma ascii_lower_hostname:
  assumes "url_hostname u = Some h" "is_ascii (su_netloc u)"
  shows "is_ascii h"
  unfolding is_ascii_def list_all_iff
proof
  fix c assume "c \<in> set h"
  then obtain d where "d \<in> set (su_netloc u)" "c = d \<or> c = lower_char d" using url_hostname_sets [OF assms(1)] by blast
  then show "code c < 128" using assms(2) lower_char_ascii by (auto simp: is_ascii_def list_all_iff)
qed

lemma parsed_host_normal:
  assumes h: "url_hostname u = Some h" "ascii_idna_ok h" and host: "rstrip_dots (lower h) \<noteq> []" "length (rstrip_dots (lower h)) \<le> 253"
    and n: "is_ascii (su_netloc u)" "list_all netloc_char (su_netloc u)" "list_all (\<lambda>c. c \<notin> {CHR ''@'', CHR ''['', CHR '']''}) (su_netloc u)"
      "\<not> list_ex control_or_space (su_netloc u)"
  shows "normal_host (rstrip_dots (lower h))"
proof -
  have abs: "CHR ''@'' \<notin> set (su_netloc u)" "CHR ''['' \<notin> set (su_netloc u)" using n(3) by (auto simp: list_all_iff)
  note hl = url_hostname_lower [OF h(1) abs]
  have chars: "netloc_char c \<and> c \<notin> {CHR '':'', CHR ''@'', CHR ''['', CHR '']''} \<and> \<not> control_or_space c \<and> code c < 128" if "c \<in> set (lower h)" for c
  proof -
    from that obtain d where d: "d \<in> set (su_netloc u)" "c = lower_char d"
      unfolding hl(1) using partition_at_sets(1) [of "CHR '':''" "su_netloc u"] by (auto simp: lower_def)
    have "code d < 128" "netloc_char d" "d \<notin> {CHR ''@'', CHR ''['', CHR '']''}" "\<not> control_or_space d" using n d(1) by (auto simp: is_ascii_def list_all_iff list_ex_iff)
    moreover have "c \<noteq> CHR '':''" using that hl(2) by blast
    ultimately show ?thesis using lower_char_cases [of d] lower_letter_plain [of c] lower_char_ascii [of d] d(2) by auto
  qed
  have "set (rstrip_dots (lower h)) \<subseteq> set (lower h)" by (rule rstrip_dots_set)
  then have "list_all (\<lambda>c. netloc_char c \<and> c \<notin> {CHR '':'', CHR ''@'', CHR ''['', CHR '']''} \<and> \<not> control_or_space c) (rstrip_dots (lower h))"
    "is_ascii (rstrip_dots (lower h))" using chars unfolding list_all_iff is_ascii_def by blast+
  then show ?thesis using host idna_rstrip [OF idna_lower [OF h(2)]] by (simp add: normal_host_def rstrip_lower)
qed

lemma lower_prefix: "lower (a @ b) = a @ b \<Longrightarrow> lower a = a"
  by (simp add: lower_def)

lemma hostname_read_back:
  assumes "normal_host h" "0 < port" "port \<le> 65535" "su_netloc u = authority_of scheme h port"
  shows "url_hostname u = Some h" "url_port u = Inr (if port = default_port scheme then None else Some port)"
proof -
  note a = authority_plain [OF assms(1-3), of scheme]
  have "CHR ''@'' \<notin> set (su_netloc u)" "CHR ''['' \<notin> set (su_netloc u)" unfolding assms(4) using a(1) by (auto simp: list_all_iff)
  from hostinfo_plain [OF this] have hi: "hostinfo (su_netloc u) = (h, if port = default_port scheme then [] else int_str port)"
    unfolding assms(4) a(3,4) .
  let ?p = "partition_at (CHR ''%'') h"
  have "lower (fst ?p) = fst ?p" using lower_prefix partition_at_parts [of "CHR ''%''" h] assms(1) by (metis normal_host_def)
  then have "lower (fst ?p) @ fst (snd ?p) @ snd (snd ?p) = h" using partition_at_parts [of "CHR ''%''" h] by simp
  then show "url_hostname u = Some h" using assms(1) by (simp add: url_hostname_def hi case_prod_unfold Let_def normal_host_def)
  have "list_all is_digit (int_str port)" "int_str port \<noteq> []" "decimal_value (int_str port) = port"
    using pos_str_digits [of port] assms(2) by (simp_all add: int_str_def)
  then show "url_port u = Inr (if port = default_port scheme then None else Some port)" using assms(3) by (simp add: url_port_def hi)
qed

lemma effective_port_bounds: "url_port u = Inr port \<Longrightarrow> 0 < effective_port s port \<and> effective_port s port \<le> 65535"
  using url_port_range [of u] by (auto simp: effective_port_def default_port_def split: option.splits)

lemma visible_not_control: "list_all (in_range 33 126) x \<Longrightarrow> \<not> list_ex control_or_space x"
  by (auto simp: list_all_iff list_ex_iff in_range_def control_or_space_def)

lemma endpoint_read_back:
  assumes e: "endpoint_of ports u port h = Inr e" and host: "normal_host h" and scheme: "et_scheme e \<in> {''http'', ''https''}"
    and port: "0 < et_port e" "et_port e \<le> 65535" and path: "su_path u = [] \<or> take 1 (su_path u) = ''/''" and ascii: "is_ascii (su_path u)" "is_ascii (su_query u)"
    and u': "u' = \<lparr>su_scheme = et_scheme e, su_netloc = et_authority e, su_path = quoted_path (su_path u), su_query = quote query_safe (su_query u), su_fragment = []\<rparr>"
  shows "urlsplit (et_url e) = Inr u'" "\<not> list_ex control_or_space (et_url e)"
    "endpoint_of ports u' (if et_port e = default_port (et_scheme e) then None else Some (et_port e)) h = Inr e"
proof -
  note f = endpoint_of_Inr [OF e]
  note a = authority_plain [OF host port, of "et_scheme e", folded f(5)]
  have slash: "take 1 (quoted_path (su_path u)) = ''/''" by (rule quoted_path_slash [OF path])
  have auth: "list_all netloc_char (et_authority e)" "CHR ''['' \<notin> set (et_authority e)" "CHR '']'' \<notin> set (et_authority e)" "\<not> list_ex control_or_space (et_authority e)"
    using a(1) by (auto simp: list_all_iff list_ex_iff)
  have q: "CHR ''?'' \<notin> set (quoted_path (su_path u))" "CHR ''#'' \<notin> set (quoted_path (su_path u))" unfolding quoted_path_def by (rule quote_query_chars)+
  show "urlsplit (et_url e) = Inr u'" unfolding f(7) u' by (rule urlsplit_normal [OF scheme auth(1-3) slash q quote_query_chars(1)])
  have "\<not> list_ex control_or_space (quoted_path (su_path u))" "\<not> list_ex control_or_space (quote query_safe (su_query u))"
    unfolding quoted_path_def by (intro visible_not_control quote_visible safe_sets_visible)+
  moreover have "\<not> list_ex control_or_space (et_scheme e @ ''://'')" "\<not> list_ex control_or_space ''/?''" using scheme by (elim insertE; simp; code_simp)+
  ultimately show "\<not> list_ex control_or_space (et_url e)" using auth(4) by (auto simp: f(7) urlunsplit_def)
  have lower: "lower (et_scheme e) = et_scheme e" using f(1) by simp
  have pct: "CHR ''%'' \<in> set path_safe" "CHR ''%'' \<in> set query_safe" by code_simp+
  have esc: "\<not> invalid_escape (quoted_path (su_path u))" "\<not> invalid_escape (quote query_safe (su_query u))"
    using f(8,9) ascii pct by (auto simp: quoted_path_def invalid_escape_quoted is_ascii_def code_def)
  have eff: "effective_port (et_scheme e) (if et_port e = default_port (et_scheme e) then None else Some (et_port e)) = et_port e"
    using port(1) by (simp add: effective_port_def)
  have quoted: "quoted_path (quoted_path (su_path u)) = quoted_path (su_path u)" "quote query_safe (quote query_safe (su_query u)) = quote query_safe (su_query u)"
    by (rule quoted_path_stays, rule quote_stays [OF pct(2) safe_sets_visible(2)])
  have "e = \<lparr>et_url = et_url e, et_scheme = et_scheme e, et_hostname = h, et_port = et_port e, et_authority = et_authority e, et_request_target = et_request_target e\<rparr>"
    using f(2) by (cases e) simp
  then show "endpoint_of ports u' (if et_port e = default_port (et_scheme e) then None else Some (et_port e)) h = Inr e"
    unfolding u' endpoint_of_def split_url.simps Let_def lower eff quoted using esc f(3,5,6,7) by simp
qed

section \<open>Properties\<close>




definition sample_url :: string where "sample_url = ''HTTPS://Example.COM.:443/hook<1>?x=%7e''"

definition sample_target :: endpoint_target where
  "sample_target = \<lparr>et_url = ''https://example.com/hook%3C1%3E?x=%7e'', et_scheme = ''https'', et_hostname = ''example.com'', et_port = 443,
     et_authority = ''example.com'', et_request_target = ''/hook%3C1%3E?x=%7e''\<rparr>"

lemma sample_parsed: "parse_endpoint (\<lambda>_. None) True [443] sample_url = Inr sample_target"
proof -
  let ?u = "\<lparr>su_scheme = ''https'', su_netloc = ''Example.COM.:443'', su_path = ''/hook<1>'', su_query = ''x=%7e'', su_fragment = []\<rparr>"
  have "sample_url \<noteq> []" "length sample_url = 38" "\<not> list_ex control_or_space sample_url" "urlsplit sample_url = Inr ?u" by code_simp+
  moreover have "url_port ?u = Inr (Some 443)" "lower ''https'' = ''https''" "url_hostname ?u = Some ''example.com.''" by code_simp+
  moreover have "idna_encode (\<lambda>_. None) ''example.com.'' = Some ''example.com.''" "rstrip_dots (lower ''example.com.'') = ''example.com''" by code_simp+
  moreover have "endpoint_of [443] ?u (Some 443) ''example.com'' = Inr sample_target" by code_simp
  ultimately show ?thesis by (simp add: parse_endpoint_def)
qed


text \<open>
  C34. A request to a parsed endpoint is framed: whatever URL was given, the bytes of the request are lines without line breaks, an empty
  line and the body; the lines are the request line of the endpoint, exactly one host, one content length and one connection header, and
  otherwise exactly the given headers. Nothing in the URL or in a header value adds a line or a framing header. The IDNA codec is
  assumed to return no line break.
\<close>

theorem endpoint_request_framed:
  assumes "parse_endpoint idna production ports v = Inr e" and "\<forall>h x. idna h = Some x \<longrightarrow> line_safe x"
    and "request_bytes (et_request_target e) (et_authority e) body headers = Inr b"
  shows "\<exists>ls. b = concat (map (\<lambda>x. x @ crlf) ls) @ crlf @ body \<and> list_all line_safe ls \<and> [] \<notin> set ls \<and>
    hd ls = ''POST '' @ et_request_target e @ '' HTTP/1.1'' \<and>
    filter (\<lambda>x. line_key x \<in> set protected_headers) (tl ls) =
      [''Host: '' @ et_authority e, ''Content-Length: '' @ int_str (int (length body)), ''Connection: close''] \<and>
    filter (\<lambda>x. line_key x \<notin> set protected_headers) (tl ls) = map render_header (sort_key (\<lambda>p. lower (fst p)) headers)"
  using request_framing [OF assms(3)] parsed_lines_safe [OF assms(1,2)] by blast

theorem endpoint_request_framed_witness:
  "\<exists>b ls. request_bytes (et_request_target sample_target) (et_authority sample_target) ''{}'' [(''Webhook-Id'', ''m1'')] = Inr b \<and>
    b = concat (map (\<lambda>x. x @ crlf) ls) @ crlf @ ''{}'' \<and> [] \<notin> set ls"
proof -
  obtain b where b: "request_bytes (et_request_target sample_target) (et_authority sample_target) ''{}'' [(''Webhook-Id'', ''m1'')] = Inr b"
  proof -
    have "case request_bytes (et_request_target sample_target) (et_authority sample_target) ''{}'' [(''Webhook-Id'', ''m1'')] of Inr _ \<Rightarrow> True | Inl _ \<Rightarrow> False"
      by code_simp
    then show ?thesis using that by (auto split: sum.splits)
  qed
  from endpoint_request_framed [OF sample_parsed _ b] b show ?thesis by auto
qed

end
