(* ===== verification/Webhook_Transport.thy ===== *)
theory Webhook_Transport
  imports Webhook_Endpoints
begin

text \<open>
  \<^verbatim>\<open>webhooks/transport.py\<close> and the redirect loop of \<^verbatim>\<open>webhooks/sink.py\<close>: limits, the checked TLS context, resolving an endpoint, sending to
  one validated address, trying the addresses in turn and following redirects. The network is an argument: what the resolver answers,
  the TLS context as it stands at each use (it is mutable) and how each connection ends. Every lookup and every opened
  connection is recorded in a trace, whose length indexes the network's answers, so that an answer may change from call to call.
\<close>

section \<open>Limits and TLS\<close>

record transport_limits =
  tl_connect_timeout_seconds :: pyfloat
  tl_write_timeout_seconds :: pyfloat
  tl_total_timeout_seconds :: pyfloat
  tl_maximum_request_bytes :: int
  tl_maximum_addresses :: int
  tl_maximum_redirects :: int
  tl_response :: response_limits

definition timeout_ok :: "pyfloat \<Rightarrow> bool" where
  "timeout_ok v \<longleftrightarrow> is_finite v \<and> 0 < the_fin v \<and> the_fin v \<le> 300"

definition transport_limits_post_init :: "transport_limits \<Rightarrow> transport_limits result" where
  "transport_limits_post_init l =
     (if \<not> timeout_ok (tl_connect_timeout_seconds l) \<or> \<not> timeout_ok (tl_write_timeout_seconds l) \<or> \<not> timeout_ok (tl_total_timeout_seconds l)
      then Inl ValueError
      else if the_fin (tl_total_timeout_seconds l) < the_fin (tl_connect_timeout_seconds l) then Inl ValueError
      else if the_fin (tl_total_timeout_seconds l) < the_fin (tl_write_timeout_seconds l) then Inl ValueError
      else if tl_maximum_request_bytes l < 1 then Inl ValueError
      else if \<not> (1 \<le> tl_maximum_addresses l \<and> tl_maximum_addresses l \<le> 64) then Inl ValueError
      else if \<not> (0 \<le> tl_maximum_redirects l \<and> tl_maximum_redirects l \<le> 5) then Inl ValueError
      else Inr l)"

text \<open>The members of \<^verbatim>\<open>ssl.TLSVersion\<close> by their numbers.\<close>

definition tls_maximum_supported :: int where "tls_maximum_supported = -1"
definition tls_v1_2 :: int where "tls_v1_2 = 771"

record ssl_context =
  ctx_cert_required :: bool
  ctx_check_hostname :: bool
  ctx_minimum_version :: int
  ctx_maximum_version :: int

definition secure_ssl_context :: "ssl_context \<Rightarrow> ssl_context" where
  "secure_ssl_context created = created\<lparr>ctx_minimum_version := tls_v1_2, ctx_check_hostname := True, ctx_cert_required := True\<rparr>"

definition validate_ssl_context :: "ssl_context \<Rightarrow> unit result" where
  "validate_ssl_context c =
     (if \<not> ctx_cert_required c \<or> \<not> ctx_check_hostname c
      then config_error ''Production webhook TLS requires certificate and hostname verification.''
      else if ctx_minimum_version c < tls_v1_2 then config_error ''Production webhook TLS requires TLS 1.2 or newer.''
      else if ctx_maximum_version c \<noteq> tls_maximum_supported \<and> ctx_maximum_version c < tls_v1_2
      then config_error ''Production webhook TLS maximum excludes TLS 1.2.''
      else Inr ())"

section \<open>The network\<close>

text \<open>
  An opened connection with the request written to it. It ends before it is open, while the request is written, by the transport's
  own deadline, by the cancellation through the deadline of the whole attempt, or with the receiver's bytes.
\<close>

record net_connection =
  op_host :: string
  op_port :: int
  op_ssl :: "ssl_context option"
  op_server_hostname :: "string option"
  op_request :: bytes

datatype net_event = LookedUp string int | Opened net_connection

datatype connection_end = OpenFailed | WriteFailed | TotalTimeout | AttemptTimeout | Answered reader

record net_world =
  nw_resolve :: "nat \<Rightarrow> string \<Rightarrow> int \<Rightarrow> string list result"
  nw_context :: "nat \<Rightarrow> ssl_context"
  nw_connect :: "nat \<Rightarrow> net_connection \<Rightarrow> connection_end"

text \<open>\<^verbatim>\<open>SystemAddressResolver.resolve\<close> over the answers of \<^verbatim>\<open>getaddrinfo\<close>: the distinct addresses in the order of their first occurrence.\<close>

definition system_resolve :: "(string \<Rightarrow> int \<Rightarrow> string list result) \<Rightarrow> string \<Rightarrow> int \<Rightarrow> string list result" where
  "system_resolve getaddrinfo hostname port =
     (case getaddrinfo hostname port of
        Inl (OSFailure _) \<Rightarrow> Inl (retryable_failure ''webhook.dns_failed'' ''Webhook endpoint DNS resolution failed.'')
      | Inl e \<Rightarrow> Inl e
      | Inr answers \<Rightarrow> Inr (rev (remdups (rev answers))))"

section \<open>One connection\<close>

record transport_result =
  tr_connected_ip :: string
  tr_response :: response_metadata

definition transport_failed :: exn where
  "transport_failed = retryable_failure ''webhook.transport_failed'' ''Webhook TLS or network transport failed.''"

text \<open>
  The checks before the connection is opened. The cancellation of the attempt leaves as the \<^verbatim>\<open>TimeoutError\<close> that the attempt's timeout
  block makes of it.
\<close>

definition prepare_connection ::
  "transport_limits \<Rightarrow> bool \<Rightarrow> ssl_context \<Rightarrow> endpoint_target \<Rightarrow> string \<Rightarrow> bytes \<Rightarrow> (string \<times> string) list \<Rightarrow> net_connection result" where
  "prepare_connection l production context e connected_ip body headers =
     and_then (if production then validate_ssl_context context else Inr ()) (\<lambda>_.
     and_then (if production then and_then (validate_public_addresses [connected_ip]) (\<lambda>addresses. Inr (hd addresses)) else Inr connected_ip) (\<lambda>approved.
     and_then (request_bytes (et_request_target e) (et_authority e) body headers) (\<lambda>request.
       if tl_maximum_request_bytes l < int (length request)
       then Inl (permanent_failure ''webhook.request_oversized'' ''Webhook request exceeded its configured byte limit.'')
       else let use_tls = (et_scheme e = ''https'') in
         Inr \<lparr>op_host = approved, op_port = et_port e, op_ssl = (if use_tls then Some context else None),
              op_server_hostname = (if use_tls then Some (et_hostname e) else None), op_request = request\<rparr>)))"

definition send ::
  "transport_limits \<Rightarrow> bool \<Rightarrow> net_world \<Rightarrow> endpoint_target \<Rightarrow> bytes \<Rightarrow> (string \<times> string) list \<Rightarrow> string \<Rightarrow> net_event list \<Rightarrow>
   transport_result result \<times> net_event list" where
  "send l production nw e body headers connected_ip tr =
     (case prepare_connection l production (nw_context nw (length tr)) e connected_ip body headers of
        Inl x \<Rightarrow> (Inl x, tr)
      | Inr c \<Rightarrow>
          (case nw_connect nw (length tr) c of
             AttemptTimeout \<Rightarrow> Inl TimeoutError
           | Answered r \<Rightarrow>
               (case parse_response (tl_response l) r of
                  Inl x \<Rightarrow> Inl x
                | Inr (response, _) \<Rightarrow> Inr \<lparr>tr_connected_ip = op_host c, tr_response = response\<rparr>)
           | _ \<Rightarrow> Inl transport_failed,
           tr @ [Opened c]))"

section \<open>Resolving an endpoint\<close>

definition resolve_endpoint ::
  "(string \<Rightarrow> string option) \<Rightarrow> bool \<Rightarrow> int list \<Rightarrow> int \<Rightarrow> net_world \<Rightarrow> string \<Rightarrow> net_event list \<Rightarrow>
   (endpoint_target \<times> string list) result \<times> net_event list" where
  "resolve_endpoint idna production allowed_ports maximum_addresses nw v tr =
     (case parse_endpoint idna production allowed_ports v of
        Inl (ConfigurationError _) \<Rightarrow> (Inl (permanent_failure ''webhook.endpoint_invalid'' ''Webhook endpoint or redirect URL is invalid.''), tr)
      | Inl x \<Rightarrow> (Inl x, tr)
      | Inr e \<Rightarrow>
          (and_then (nw_resolve nw (length tr) (et_hostname e) (et_port e)) (\<lambda>answers.
             if \<not> (1 \<le> maximum_addresses \<and> maximum_addresses \<le> 64) then config_error ''Webhook address attempt limit is invalid.''
             else and_then
               (if production then validate_public_addresses answers
                else if answers = [] then config_error ''Webhook DNS resolver returned no addresses.'' else Inr answers)
               (\<lambda>addresses. Inr (e, take (nat maximum_addresses) addresses))),
           tr @ [LookedUp (et_hostname e) (et_port e)]))"

section \<open>Joining a redirect target\<close>

text \<open>
  \<^verbatim>\<open>urllib.parse.urljoin\<close> for a base URL with scheme http or https. Splitting first strips leading control characters and blanks and
  removes tabs and line breaks; parameters are cut from the last path segment.
\<close>

definition clean_url :: "string \<Rightarrow> string" where
  "clean_url url = filter (\<lambda>c. c \<notin> {CHR 9, CHR 10, CHR 13}) (dropWhile (\<lambda>c. code c \<le> 32) url)"

definition split_params :: "string \<Rightarrow> string \<times> string" where
  "split_params path =
     (let segment = rev (takeWhile (\<lambda>c. c \<noteq> CHR ''/'') (rev path));
          (name, _, params) = partition_at (CHR '';'') segment in
      (take (length path - length segment) path @ name, params))"

definition urlunparse :: "string \<Rightarrow> string \<Rightarrow> string \<Rightarrow> string \<Rightarrow> string \<Rightarrow> string \<Rightarrow> string" where
  "urlunparse scheme netloc path params query fragment =
     urlunsplit scheme netloc (path @ (if params = [] then [] else '';'' @ params)) query @ (if fragment = [] then [] else ''#'' @ fragment)"

fun resolve_dots :: "string list \<Rightarrow> string list \<Rightarrow> string list" where
  "resolve_dots resolved [] = resolved"
| "resolve_dots resolved (segment # segments) =
     resolve_dots (if segment = ''..'' then butlast resolved else if segment = ''.'' then resolved else resolved @ [segment]) segments"

definition drop_inner_empty :: "string list \<Rightarrow> string list" where
  "drop_inner_empty segments =
     (if length segments < 2 then segments else hd segments # filter (\<lambda>x. x \<noteq> []) (butlast (tl segments)) @ [last segments])"

definition join_paths :: "string \<Rightarrow> string \<Rightarrow> string" where
  "join_paths base_path path =
     (let parts = split_on (CHR ''/'') base_path;
          base_parts = (if last parts \<noteq> [] then butlast parts else parts);
          segments = (if take 1 path = ''/'' then split_on (CHR ''/'') path else drop_inner_empty (base_parts @ split_on (CHR ''/'') path));
          resolved = resolve_dots [] segments @ (if last segments \<in> {''.'', ''..''} then [[]] else []);
          joined = join ''/'' resolved in
      if joined = [] then ''/'' else joined)"

definition urljoin :: "string \<Rightarrow> string \<Rightarrow> string result" where
  "urljoin base url =
     (if base = [] then Inr url
      else if url = [] then Inr base
      else and_then (urlsplit (clean_url base)) (\<lambda>b.
           and_then (urlsplit (clean_url url)) (\<lambda>u.
             let scheme = (if su_scheme u = [] then su_scheme b else su_scheme u);
                 (path, params) = split_params (su_path u); (base_path, base_params) = split_params (su_path b) in
             if scheme \<noteq> su_scheme b then Inr url
             else if su_netloc u \<noteq> [] then Inr (urlunparse scheme (su_netloc u) path params (su_query u) (su_fragment u))
             else if path = [] \<and> params = []
             then Inr (urlunparse scheme (su_netloc b) base_path base_params (if su_query u = [] then su_query b else su_query u) (su_fragment u))
             else Inr (urlunparse scheme (su_netloc b) (join_paths base_path path) params (su_query u) (su_fragment u)))))"

section \<open>The delivery loop\<close>

text \<open>The loop over the addresses; the last retryable failure is raised when none answered.\<close>

fun try_addresses ::
  "transport_limits \<Rightarrow> bool \<Rightarrow> net_world \<Rightarrow> endpoint_target \<Rightarrow> bytes \<Rightarrow> (string \<times> string) list \<Rightarrow> exn option \<Rightarrow> string list \<Rightarrow>
   net_event list \<Rightarrow> transport_result result \<times> net_event list" where
  "try_addresses l production nw e body headers last_error [] tr =
     (Inl (case last_error of
             Some x \<Rightarrow> x
           | None \<Rightarrow> retryable_failure ''webhook.transport_failed'' ''Webhook endpoint had no connectable approved address.''), tr)"
| "try_addresses l production nw e body headers last_error (address # rest) tr =
     (case send l production nw e body headers address tr of
        (Inl (DeliveryFailure (RetryableDeliveryError c s d)), tr') \<Rightarrow>
          try_addresses l production nw e body headers (Some (DeliveryFailure (RetryableDeliveryError c s d))) rest tr'
      | answer \<Rightarrow> answer)"

text \<open>The loop over redirects. It ends because every round counts a redirect against the limit.\<close>

function redirect_loop ::
  "(string \<Rightarrow> string option) \<Rightarrow> bool \<Rightarrow> int list \<Rightarrow> transport_limits \<Rightarrow> net_world \<Rightarrow> bytes \<Rightarrow> (string \<times> string) list \<Rightarrow> string \<Rightarrow> int \<Rightarrow>
   net_event list \<Rightarrow> transport_result result \<times> net_event list" where
  "redirect_loop idna production ports l nw body headers url redirects tr =
     (case resolve_endpoint idna production ports (tl_maximum_addresses l) nw url tr of
        (Inl x, tr1) \<Rightarrow> (Inl x, tr1)
      | (Inr (e, addresses), tr1) \<Rightarrow>
          (case try_addresses l production nw e body headers None addresses tr1 of
             (Inl x, tr2) \<Rightarrow> (Inl x, tr2)
           | (Inr result, tr2) \<Rightarrow>
               let status = rm_status_code (tr_response result) in
               if \<not> (300 \<le> status \<and> status < 400) \<or> tl_maximum_redirects l = 0 then (Inr result, tr2)
               else if tl_maximum_redirects l \<le> redirects
               then (Inl (permanent_failure ''webhook.redirect_limit'' ''Webhook response exceeded its configured redirect limit.''), tr2)
               else (case map_of (rm_headers (tr_response result)) ''location'' of
                       None \<Rightarrow> (Inl (permanent_failure ''webhook.redirect_location'' ''Webhook redirect did not provide a usable Location header.''), tr2)
                     | Some location \<Rightarrow>
                         if strip location = []
                         then (Inl (permanent_failure ''webhook.redirect_location'' ''Webhook redirect did not provide a usable Location header.''), tr2)
                         else (case urljoin (et_url e) (strip location) of
                                 Inl x \<Rightarrow> (Inl x, tr2)
                               | Inr url' \<Rightarrow> redirect_loop idna production ports l nw body headers url' (redirects + 1) tr2))))"
  by pat_completeness auto
termination
  by (relation "measure (\<lambda>(idna, production, ports, l, nw, body, headers, url, redirects, tr). nat (tl_maximum_redirects l - redirects))") auto

declare redirect_loop.simps [simp del]

section \<open>What the trace shows\<close>

definition opened :: "net_event list \<Rightarrow> net_connection list" where
  "opened tr = concat (map (\<lambda>ev. case ev of Opened c \<Rightarrow> [c] | LookedUp _ _ \<Rightarrow> []) tr)"

definition lookups :: "net_event list \<Rightarrow> nat" where
  "lookups tr = length (filter (\<lambda>ev. case ev of Opened _ \<Rightarrow> False | LookedUp _ _ \<Rightarrow> True) tr)"

lemma trace_simps [simp]:
  "opened [] = []" "lookups [] = 0" "opened (tr @ [Opened c]) = opened tr @ [c]" "opened (tr @ [LookedUp h p]) = opened tr"
  "lookups (tr @ [Opened c]) = lookups tr" "lookups (tr @ [LookedUp h p]) = Suc (lookups tr)"
  by (simp_all add: opened_def lookups_def)

text \<open>A production connection goes to a policy-accepted address, over checked TLS for the endpoint's name, and carries a request to it.\<close>

definition guarded :: "(string \<Rightarrow> string option) \<Rightarrow> int list \<Rightarrow> bytes \<Rightarrow> (string \<times> string) list \<Rightarrow> net_connection \<Rightarrow> bool" where
  "guarded idna ports body headers c \<longleftrightarrow>
     (\<exists>v e a context. parse_endpoint idna True ports v = Inr e \<and> op_port c = et_port e \<and> op_server_hostname c = Some (et_hostname e) \<and>
        op_ssl c = Some context \<and> validate_ssl_context context = Inr () \<and> op_host c = compressed a \<and> acceptable_ip a \<and>
        request_bytes (et_request_target e) (et_authority e) body headers = Inr (op_request c))"

lemma parsed_https: "parse_endpoint idna True ports v = Inr e \<Longrightarrow> et_scheme e = ''https'' \<and> et_port e \<in> set ports"
  by (elim parse_endpoint_Inr) (auto dest: endpoint_of_Inr)

lemma validate_single:
  assumes "validate_public_addresses [ip] = Inr out"
  obtains a where "hd out = compressed a" "acceptable_ip a"
  using assms validate_returns_iff [of "[ip]"] by (auto simp: validate_public_addresses_def acceptable_ip_def split: option.splits if_splits)

lemma prepare_guarded:
  assumes "prepare_connection l True context e ip body headers = Inr c" "parse_endpoint idna True ports v = Inr e"
  shows "guarded idna ports body headers c"
proof -
  from assms(1) obtain out where out: "validate_ssl_context context = Inr ()" "validate_public_addresses [ip] = Inr out"
    and c: "op_host c = hd out" "op_port c = et_port e" "request_bytes (et_request_target e) (et_authority e) body headers = Inr (op_request c)"
      "op_ssl c = (if et_scheme e = ''https'' then Some context else None)"
      "op_server_hostname c = (if et_scheme e = ''https'' then Some (et_hostname e) else None)"
    by (auto simp: prepare_connection_def result_simps Let_def split: if_splits)
  obtain a where "hd out = compressed a" "acceptable_ip a" using validate_single [OF out(2)] .
  then show ?thesis using assms(2) out(1) c parsed_https [OF assms(2)] unfolding guarded_def by metis
qed

lemma send_trace:
  assumes "send l production nw e body headers ip tr = (r, tr')"
  obtains "tr' = tr" "\<And>x. r \<noteq> Inr x"
  | c where "tr' = tr @ [Opened c]" "prepare_connection l production (nw_context nw (length tr)) e ip body headers = Inr c"
      "\<And>x. r = Inr x \<Longrightarrow> \<exists>rd rest. nw_connect nw (length tr) c = Answered rd \<and> parse_response (tl_response l) rd = Inr (tr_response x, rest) \<and>
         tr_connected_ip x = op_host c"
  using assms by (auto simp: send_def split: sum.splits connection_end.splits)

lemma try_addresses_cases:
  assumes "try_addresses l production nw e body headers le (ip # ips) tr = (r, tr')"
  obtains "send l production nw e body headers ip tr = (r, tr')"
  | c s d tr1 where "send l production nw e body headers ip tr = (Inl (DeliveryFailure (RetryableDeliveryError c s d)), tr1)"
      "try_addresses l production nw e body headers (Some (DeliveryFailure (RetryableDeliveryError c s d))) ips tr1 = (r, tr')"
  using assms by (cases "send l production nw e body headers ip tr") (auto split: sum.splits exn.splits delivery_error.splits)

lemma send_steps:
  assumes "send l production nw e body headers ip tr = (r, tr')"
  shows "lookups tr' = lookups tr" "length (opened tr') \<le> Suc (length (opened tr))"
    "production \<Longrightarrow> parse_endpoint idna True ports v = Inr e \<Longrightarrow> list_all (guarded idna ports body headers) (opened tr) \<Longrightarrow>
       list_all (guarded idna ports body headers) (opened tr')"
  using assms by (auto elim!: send_trace dest: prepare_guarded)

lemma try_addresses_steps:
  assumes "try_addresses l production nw e body headers le ips tr = (r, tr')"
  shows "lookups tr' = lookups tr" "length (opened tr') \<le> length (opened tr) + length ips"
    "production \<Longrightarrow> parse_endpoint idna True ports v = Inr e \<Longrightarrow> list_all (guarded idna ports body headers) (opened tr) \<Longrightarrow>
       list_all (guarded idna ports body headers) (opened tr')"
proof -
  have "lookups tr' = lookups tr \<and> length (opened tr') \<le> length (opened tr) + length ips \<and>
      (production \<longrightarrow> parse_endpoint idna True ports v = Inr e \<longrightarrow> list_all (guarded idna ports body headers) (opened tr) \<longrightarrow>
       list_all (guarded idna ports body headers) (opened tr'))"
    using assms
  proof (induction ips arbitrary: le tr)
    case (Cons ip ips)
    from Cons.prems show ?case
    proof (cases rule: try_addresses_cases)
      case 1
      from send_steps [OF this] show ?thesis by auto
    next
      case (2 c s d tr1)
      from send_steps [OF 2(1)] Cons.IH [OF 2(2)] show ?thesis by fastforce
    qed
  qed auto
  then show "lookups tr' = lookups tr" "length (opened tr') \<le> length (opened tr) + length ips"
    "production \<Longrightarrow> parse_endpoint idna True ports v = Inr e \<Longrightarrow> list_all (guarded idna ports body headers) (opened tr) \<Longrightarrow>
       list_all (guarded idna ports body headers) (opened tr')" by auto
qed

lemma try_addresses_answer:
  assumes "try_addresses l production nw e body headers le ips tr = (Inr x, tr')"
  obtains tr0 ip c rd rest where "tr' = tr0 @ [Opened c]" "prepare_connection l production (nw_context nw (length tr0)) e ip body headers = Inr c"
    "nw_connect nw (length tr0) c = Answered rd" "parse_response (tl_response l) rd = Inr (tr_response x, rest)" "tr_connected_ip x = op_host c"
  using assms
proof (induction ips arbitrary: le tr thesis)
  case (Cons ip ips)
  from Cons.prems(2) show ?case
  proof (cases rule: try_addresses_cases)
    case 1
    then show ?thesis by (rule send_trace) (use Cons.prems(1) in blast)+
  next
    case (2 c s d tr1)
    then show ?thesis using Cons.IH Cons.prems(1) by blast
  qed
qed simp

lemma resolve_endpoint_cases:
  assumes "resolve_endpoint idna production ports m nw v tr = (r, tr')"
  obtains x where "r = Inl x" "tr' = tr"
  | e where "parse_endpoint idna production ports v = Inr e" "tr' = tr @ [LookedUp (et_hostname e) (et_port e)]"
      "\<And>e' as. r = Inr (e', as) \<Longrightarrow> e' = e \<and> length as \<le> nat m"
proof (cases "parse_endpoint idna production ports v")
  case (Inl x)
  then have "\<exists>y. r = Inl y \<and> tr' = tr" using assms by (auto simp: resolve_endpoint_def split: exn.splits)
  then show ?thesis using that(1) by blast
next
  case (Inr e)
  then have "tr' = tr @ [LookedUp (et_hostname e) (et_port e)]" "\<And>e' as. r = Inr (e', as) \<Longrightarrow> e' = e \<and> length as \<le> nat m"
    using assms by (auto simp: resolve_endpoint_def result_simps split: if_splits)
  then show ?thesis using that(2) [OF Inr] by blast
qed

text \<open>One round of the loop: it stops with an answer, or goes on with a redirect that still counts.\<close>

lemma redirect_round:
  assumes "redirect_loop idna production ports l nw body headers url n tr = (r, tr')"
  obtains x where "resolve_endpoint idna production ports (tl_maximum_addresses l) nw url tr = (Inl x, tr')" "r = Inl x"
  | e as tr1 q where "resolve_endpoint idna production ports (tl_maximum_addresses l) nw url tr = (Inr (e, as), tr1)"
      "try_addresses l production nw e body headers None as tr1 = (q, tr')" "\<And>x. r = Inr x \<Longrightarrow> q = Inr x"
  | e as tr1 q tr2 location url' where "resolve_endpoint idna production ports (tl_maximum_addresses l) nw url tr = (Inr (e, as), tr1)"
      "try_addresses l production nw e body headers None as tr1 = (Inr q, tr2)" "n < tl_maximum_redirects l"
      "urljoin (et_url e) (strip location) = Inr url'"
      "redirect_loop idna production ports l nw body headers url' (n + 1) tr2 = (r, tr')"
proof -
  obtain q1 tr1 where one: "resolve_endpoint idna production ports (tl_maximum_addresses l) nw url tr = (q1, tr1)" by fastforce
  show ?thesis
  proof (cases q1)
    case (Inl x)
    then show ?thesis using that(1) [of x] one assms by (simp add: redirect_loop.simps [of idna production ports l nw body headers url n])
  next
    case (Inr p)
    obtain e as where p: "p = (e, as)" by (cases p)
    obtain q tr2 where two: "try_addresses l production nw e body headers None as tr1 = (q, tr2)" by fastforce
    show ?thesis
    proof (cases q)
      case (Inl x)
      then show ?thesis using that(2) [of e as tr1 q] one two Inr p assms
        by (auto simp: redirect_loop.simps [of idna production ports l nw body headers url n] \<open>q1 = Inr p\<close>)
    next
      case q: (Inr x)
      note step = assms [unfolded redirect_loop.simps [of idna production ports l nw body headers url n] one \<open>q1 = Inr p\<close> p, simplified, unfolded two q, simplified]
      from step consider "tr' = tr2" "\<And>y. r = Inr y \<Longrightarrow> q = Inr y"
        | location url' where "n < tl_maximum_redirects l" "urljoin (et_url e) (strip location) = Inr url'"
            "redirect_loop idna production ports l nw body headers url' (n + 1) tr2 = (r, tr')"
        using q by (auto simp: Let_def split: if_splits option.splits sum.splits)
      then show ?thesis using that(2) [of e as tr1 q] that(3) [of e as tr1 x tr2] one two Inr p q by (cases; fastforce)
    qed
  qed
qed

lemma redirect_loop_bounded:
  assumes "redirect_loop idna production ports l nw body headers url n tr = (r, tr')"
  shows "lookups tr' \<le> lookups tr + Suc (nat (tl_maximum_redirects l - n)) \<and>
    length (opened tr') \<le> length (opened tr) + Suc (nat (tl_maximum_redirects l - n)) * nat (tl_maximum_addresses l)"
  using assms
proof (induction "nat (tl_maximum_redirects l - n)" arbitrary: url n tr rule: less_induct)
  case less
  let ?m = "nat (tl_maximum_addresses l)"
  from less.prems show ?case
  proof (cases rule: redirect_round)
    case (1 x)
    from 1(1) show ?thesis by (cases rule: resolve_endpoint_cases) auto
  next
    case (2 e as tr1 q)
    from 2(1) have "lookups tr1 \<le> Suc (lookups tr) \<and> opened tr1 = opened tr \<and> length as \<le> ?m" by (cases rule: resolve_endpoint_cases) auto
    with try_addresses_steps(1,2) [OF 2(2)] show ?thesis by auto
  next
    case (3 e as tr1 q tr2 location url')
    from 3(1) have "lookups tr1 \<le> Suc (lookups tr) \<and> opened tr1 = opened tr \<and> length as \<le> ?m" by (cases rule: resolve_endpoint_cases) auto
    with try_addresses_steps(1,2) [OF 3(2)] have one: "lookups tr2 \<le> Suc (lookups tr)" "length (opened tr2) \<le> length (opened tr) + ?m" by auto
    have k: "nat (tl_maximum_redirects l - n) = Suc (nat (tl_maximum_redirects l - (n + 1)))" using 3(3) by simp
    from less.hyps [OF _ 3(5)] k have "lookups tr' \<le> lookups tr2 + Suc (nat (tl_maximum_redirects l - (n + 1))) \<and>
      length (opened tr') \<le> length (opened tr2) + Suc (nat (tl_maximum_redirects l - (n + 1))) * ?m" by simp
    with one k show ?thesis by simp
  qed
qed

lemma redirect_loop_guarded:
  assumes "redirect_loop idna True ports l nw body headers url n tr = (r, tr')" and "list_all (guarded idna ports body headers) (opened tr)"
  shows "list_all (guarded idna ports body headers) (opened tr')"
  using assms
proof (induction "nat (tl_maximum_redirects l - n)" arbitrary: url n tr rule: less_induct)
  case less
  have parsed: "parse_endpoint idna True ports url = Inr e \<and> opened tr1 = opened tr"
    if "resolve_endpoint idna True ports (tl_maximum_addresses l) nw url tr = (Inr (e, as), tr1)" for e as tr1
    using that by (cases rule: resolve_endpoint_cases) auto
  from less.prems(1) show ?case
  proof (cases rule: redirect_round)
    case (1 x)
    from 1(1) show ?thesis using less.prems(2) by (cases rule: resolve_endpoint_cases) auto
  next
    case (2 e as tr1 q)
    then show ?thesis using try_addresses_steps(3) [OF 2(2)] parsed [OF 2(1)] less.prems(2) by auto
  next
    case (3 e as tr1 q tr2 location url')
    have "list_all (guarded idna ports body headers) (opened tr2)" using try_addresses_steps(3) [OF 3(2)] parsed [OF 3(1)] less.prems(2) by auto
    then show ?thesis using less.hyps [OF _ 3(5)] 3(3) by simp
  qed
qed

text \<open>An answer comes from the last connection, to which a request with exactly the given body and headers was written.\<close>

lemma redirect_loop_answer:
  assumes "redirect_loop idna production ports l nw body headers url n tr = (Inr x, tr')"
  shows "\<exists>v e tr0 c rd rest. tr' = tr0 @ [Opened c] \<and> parse_endpoint idna production ports v = Inr e \<and>
    request_bytes (et_request_target e) (et_authority e) body headers = Inr (op_request c) \<and>
    nw_connect nw (length tr0) c = Answered rd \<and> parse_response (tl_response l) rd = Inr (tr_response x, rest) \<and> tr_connected_ip x = op_host c"
  using assms
proof (induction "nat (tl_maximum_redirects l - n)" arbitrary: url n tr rule: less_induct)
  case less
  from less.prems show ?case
  proof (cases rule: redirect_round)
    case (2 e as tr1 q)
    have q: "try_addresses l production nw e body headers None as tr1 = (Inr x, tr')" using 2 by simp
    obtain tr0 ip c rd rest where c: "tr' = tr0 @ [Opened c]" "prepare_connection l production (nw_context nw (length tr0)) e ip body headers = Inr c"
      "nw_connect nw (length tr0) c = Answered rd" "parse_response (tl_response l) rd = Inr (tr_response x, rest)" "tr_connected_ip x = op_host c"
      using try_addresses_answer [OF q] .
    have "request_bytes (et_request_target e) (et_authority e) body headers = Inr (op_request c)"
      using c(2) by (auto simp: prepare_connection_def result_simps Let_def split: if_splits)
    moreover have "parse_endpoint idna production ports url = Inr e" using 2(1) by (cases rule: resolve_endpoint_cases) auto
    ultimately show ?thesis using c by blast
  next
    case (3 e as tr1 q tr2 location url')
    then show ?thesis using less.hyps [OF _ 3(5)] by simp
  qed simp
qed

text \<open>Events are only added, and the first one looks up the endpoint of the given URL.\<close>

lemma send_extends: "send l production nw e body headers ip tr = (r, tr') \<Longrightarrow> \<exists>ext. tr' = tr @ ext"
  by (auto elim!: send_trace)

lemma try_addresses_extends: "try_addresses l production nw e body headers le ips tr = (r, tr') \<Longrightarrow> \<exists>ext. tr' = tr @ ext"
proof (induction ips arbitrary: le tr)
  case (Cons ip ips)
  from Cons.prems show ?case
  proof (cases rule: try_addresses_cases)
    case 1
    then show ?thesis by (rule send_extends)
  next
    case (2 c s d tr1)
    from send_extends [OF 2(1)] Cons.IH [OF 2(2)] show ?thesis by fastforce
  qed
qed simp

lemma redirect_loop_extends: "redirect_loop idna production ports l nw body headers url n tr = (r, tr') \<Longrightarrow> \<exists>ext. tr' = tr @ ext"
proof (induction "nat (tl_maximum_redirects l - n)" arbitrary: url n tr rule: less_induct)
  case less
  have res: "\<exists>ext. tr1 = tr @ ext" if "resolve_endpoint idna production ports (tl_maximum_addresses l) nw url tr = (q, tr1)" for q tr1
    using that by (cases rule: resolve_endpoint_cases) auto
  from less.prems show ?case
  proof (cases rule: redirect_round)
    case (1 x)
    then show ?thesis using res by blast
  next
    case (2 e as tr1 q)
    from res [OF 2(1)] try_addresses_extends [OF 2(2)] show ?thesis by fastforce
  next
    case (3 e as tr1 q tr2 location url')
    have "\<exists>ext. tr' = tr2 @ ext" using less.hyps [OF _ 3(5)] 3(3) by simp
    with res [OF 3(1)] try_addresses_extends [OF 3(2)] show ?thesis by fastforce
  qed
qed

lemma redirect_loop_first:
  assumes "redirect_loop idna production ports l nw body headers url n [] = (r, tr')" "tr' \<noteq> []"
  shows "\<exists>e. parse_endpoint idna production ports url = Inr e \<and> hd tr' = LookedUp (et_hostname e) (et_port e)"
proof -
  have res: "tr1 = [] \<and> (\<exists>x. q = Inl x) \<or> (\<exists>e. parse_endpoint idna production ports url = Inr e \<and> tr1 = [LookedUp (et_hostname e) (et_port e)])"
    if "resolve_endpoint idna production ports (tl_maximum_addresses l) nw url [] = (q, tr1)" for q tr1
    using that by (cases rule: resolve_endpoint_cases) auto
  from assms(1) show ?thesis
  proof (cases rule: redirect_round)
    case (1 x)
    then show ?thesis using res [OF 1(1)] assms(2) by auto
  next
    case (2 e as tr1 q)
    from res [OF 2(1)] try_addresses_extends [OF 2(2)] show ?thesis by auto
  next
    case (3 e as tr1 q tr2 location url')
    obtain ext where "tr2 = tr1 @ ext" using try_addresses_extends [OF 3(2)] by blast
    moreover obtain ext' where "tr' = tr2 @ ext'" using redirect_loop_extends [OF 3(5)] by blast
    ultimately show ?thesis using res [OF 3(1)] by auto
  qed
qed

end
