(* ===== verification/Webhook_Secrets.thy ===== *)
theory Webhook_Secrets
  imports Webhook_Signing Tables
begin

text \<open>
  \<^verbatim>\<open>webhooks/secrets.py\<close> over the secret tables of \<^verbatim>\<open>webhooks/models.py\<close>: creating, rotating and revoking the encrypted signing
  secrets of a set, and opening the eligible ones. Each operation runs in the caller's transaction, so a raised exception leaves no
  change. AES-GCM, random bytes and fresh UUIDs are arguments; the master keys come from the static provider of the module.
\<close>

section \<open>Tables\<close>

datatype secret_state = ActiveSecret | RetiringSecret | RevokedSecret

record secret_set_row =
  ss_tenant_id :: uuid
  ss_secret_set_id :: uuid
  ss_revision :: int
  ss_created_by :: string
  ss_created_at :: int
  ss_updated_at :: int

record secret_version_row =
  sv_tenant_id :: uuid
  sv_secret_set_id :: uuid
  sv_secret_version :: int
  sv_key_id :: string
  sv_nonce :: bytes
  sv_ciphertext :: bytes
  sv_state :: secret_state
  sv_retiring_until :: "int option"
  sv_created_at :: int
  sv_revoked_at :: "int option"

record secret_db =
  secret_sets :: "secret_set_row list"
  secret_versions :: "secret_version_row list"

definition set_key :: "secret_set_row \<Rightarrow> uuid \<times> uuid" where
  "set_key r = (ss_tenant_id r, ss_secret_set_id r)"

definition version_key :: "secret_version_row \<Rightarrow> uuid \<times> uuid \<times> int" where
  "version_key r = (sv_tenant_id r, sv_secret_set_id r, sv_secret_version r)"

definition version_set :: "secret_version_row \<Rightarrow> uuid \<times> uuid" where
  "version_set r = (sv_tenant_id r, sv_secret_set_id r)"

definition secret_set_ok :: "secret_set_row \<Rightarrow> bool" where
  "secret_set_ok r \<longleftrightarrow> 0 < ss_revision r \<and> int4 (ss_revision r) \<and> varchar 512 (Some (ss_created_by r))"

definition secret_version_ok :: "secret_version_row \<Rightarrow> bool" where
  "secret_version_ok r \<longleftrightarrow>
     0 < sv_secret_version r \<and> int4 (sv_secret_version r) \<and> length (sv_nonce r) = 12 \<and> 16 \<le> length (sv_ciphertext r) \<and>
     (sv_state r = RetiringSecret) = (sv_retiring_until r \<noteq> None) \<and> varchar 128 (Some (sv_key_id r))"

definition insert_secret_set :: "secret_set_row \<Rightarrow> secret_db \<Rightarrow> secret_db result" where
  "insert_secret_set r db =
     (if \<not> secret_set_ok r then Inl check_violation
      else if set_key r \<in> set_key ` set (secret_sets db) then Inl unique_violation
      else Inr (db\<lparr>secret_sets := secret_sets db @ [r]\<rparr>))"

definition insert_secret_version :: "secret_version_row \<Rightarrow> secret_db \<Rightarrow> secret_db result" where
  "insert_secret_version r db =
     (if \<not> secret_version_ok r then Inl check_violation
      else if version_key r \<in> version_key ` set (secret_versions db) then Inl unique_violation
      else if version_set r \<notin> set_key ` set (secret_sets db) then Inl foreign_key_violation
      else Inr (db\<lparr>secret_versions := secret_versions db @ [r]\<rparr>))"

definition update_secret_set :: "secret_set_row \<Rightarrow> secret_db \<Rightarrow> secret_db result" where
  "update_secret_set r db =
     (if \<not> secret_set_ok r then Inl check_violation
      else Inr (db\<lparr>secret_sets := update_where (\<lambda>x. set_key x = set_key r) (\<lambda>_. r) (secret_sets db)\<rparr>))"

definition update_secret_version :: "secret_version_row \<Rightarrow> secret_db \<Rightarrow> secret_db result" where
  "update_secret_version r db =
     (if \<not> secret_version_ok r then Inl check_violation
      else Inr (db\<lparr>secret_versions := update_where (\<lambda>x. version_key x = version_key r) (\<lambda>_. r) (secret_versions db)\<rparr>))"

section \<open>Keys and encryption\<close>

record master_key =
  mk_key_id :: string
  mk_material :: bytes

definition master_key_post_init :: "master_key \<Rightarrow> master_key result" where
  "master_key_post_init k =
     (if mk_key_id k = [] \<or> 128 < length (mk_key_id k) then config_error ''Webhook master key identifier is invalid.''
      else if length (mk_material k) \<notin> {16, 24, 32} then config_error ''Webhook AES master key has an invalid size.''
      else Inr k)"

record master_keys =
  mks_keys :: "master_key list"
  mks_current_key_id :: string

definition key_for :: "master_keys \<Rightarrow> string \<Rightarrow> master_key result" where
  "key_for p i =
     (case find (\<lambda>k. mk_key_id k = i) (mks_keys p) of
        None \<Rightarrow> config_error ''Configured webhook master key is unavailable.'' | Some k \<Rightarrow> Inr k)"

definition current_key :: "master_keys \<Rightarrow> master_key result" where
  "current_key p = key_for p (mks_current_key_id p)"

text \<open>Big-endian bytes of an integer.\<close>

fun be_bytes :: "nat \<Rightarrow> int \<Rightarrow> bytes" where
  "be_bytes 0 n = []"
| "be_bytes (Suc k) n = be_bytes k (n div 256) @ [octet_char (n mod 256)]"

definition associated_data :: "uuid \<Rightarrow> uuid \<Rightarrow> int \<Rightarrow> bytes" where
  "associated_data tenant_id secret_set_id version =
     ''fastapi_effects:webhook-secret:v1'' @ [CHR 0x00] @ be_bytes 16 (uint tenant_id) @ be_bytes 16 (uint secret_set_id) @ be_bytes 8 version"

text \<open>AES-GCM: key, nonce, data and associated data.\<close>

record aead =
  aead_encrypt :: "bytes \<Rightarrow> bytes \<Rightarrow> bytes \<Rightarrow> bytes \<Rightarrow> bytes"
  aead_decrypt :: "bytes \<Rightarrow> bytes \<Rightarrow> bytes \<Rightarrow> bytes \<Rightarrow> bytes option"

definition encrypt_secret :: "aead \<Rightarrow> bytes \<Rightarrow> master_key \<Rightarrow> uuid \<Rightarrow> uuid \<Rightarrow> int \<Rightarrow> bytes \<Rightarrow> bytes \<times> bytes" where
  "encrypt_secret a nonce k tenant_id secret_set_id version material =
     (nonce, aead_encrypt a (mk_material k) nonce material (associated_data tenant_id secret_set_id version))"

definition decrypt_secret :: "aead \<Rightarrow> master_key \<Rightarrow> secret_version_row \<Rightarrow> bytes result" where
  "decrypt_secret a k r =
     (case aead_decrypt a (mk_material k) (sv_nonce r) (sv_ciphertext r)
             (associated_data (sv_tenant_id r) (sv_secret_set_id r) (sv_secret_version r)) of
        None \<Rightarrow> config_error ''Webhook encrypted secret could not be opened.'' | Some m \<Rightarrow> Inr m)"

definition encode_public :: "bytes \<Rightarrow> string" where
  "encode_public material = ''whsec_'' @ b64encode material"

definition decode_public_secret :: "string \<Rightarrow> bytes result" where
  "decode_public_secret v =
     (if take 6 v \<noteq> ''whsec_'' then config_error ''Webhook signing secret is invalid.''
      else (case b64decode (drop 6 v) of
              Inl _ \<Rightarrow> config_error ''Webhook signing secret is invalid.''
            | Inr decoded \<Rightarrow> if length decoded < 16 then config_error ''Webhook signing secret is invalid.'' else Inr decoded))"

section \<open>Operations\<close>

record created_secret =
  cs_secret_set_id :: uuid
  cs_version :: int
  cs_plaintext :: string

definition secret_time :: "py_datetime \<Rightarrow> unit result" where
  "secret_time now = ensure (is_aware now) (ConfigurationError ''Webhook secret time must be timezone-aware.'')"

definition new_version_row ::
  "aead \<Rightarrow> bytes \<Rightarrow> bytes \<Rightarrow> master_key \<Rightarrow> uuid \<Rightarrow> uuid \<Rightarrow> int \<Rightarrow> py_datetime \<Rightarrow> secret_version_row" where
  "new_version_row a nonce material k tenant_id secret_set_id version now =
     (let (n, c) = encrypt_secret a nonce k tenant_id secret_set_id version material in
      \<lparr>sv_tenant_id = tenant_id, sv_secret_set_id = secret_set_id, sv_secret_version = version, sv_key_id = mk_key_id k, sv_nonce = n,
       sv_ciphertext = c, sv_state = ActiveSecret, sv_retiring_until = None, sv_created_at = instant now, sv_revoked_at = None\<rparr>)"

definition create_secret ::
  "aead \<Rightarrow> master_keys \<Rightarrow> uuid \<Rightarrow> bytes \<Rightarrow> bytes \<Rightarrow> principal \<Rightarrow> py_datetime \<Rightarrow> secret_db \<Rightarrow> (created_secret \<times> secret_db) result" where
  "create_secret a keys fresh material nonce p now db =
     and_then (secret_time now) (\<lambda>_.
     and_then (current_key keys) (\<lambda>k.
     and_then (insert_secret_set
        \<lparr>ss_tenant_id = p_tenant_id p, ss_secret_set_id = fresh, ss_revision = 1, ss_created_by = subject_id p,
         ss_created_at = instant now, ss_updated_at = instant now\<rparr> db) (\<lambda>db1.
     and_then (insert_secret_version (new_version_row a nonce material k (p_tenant_id p) fresh 1 now) db1) (\<lambda>db2.
       Inr (\<lparr>cs_secret_set_id = fresh, cs_version = 1, cs_plaintext = encode_public material\<rparr>, db2)))))"

definition find_secret_set :: "uuid \<Rightarrow> uuid \<Rightarrow> secret_db \<Rightarrow> secret_set_row option" where
  "find_secret_set tenant_id secret_set_id db = find (\<lambda>r. set_key r = (tenant_id, secret_set_id)) (secret_sets db)"

definition find_active_secret :: "uuid \<Rightarrow> uuid \<Rightarrow> secret_db \<Rightarrow> secret_version_row option" where
  "find_active_secret tenant_id secret_set_id db =
     find (\<lambda>r. version_set r = (tenant_id, secret_set_id) \<and> sv_state r = ActiveSecret) (secret_versions db)"

definition touch_set :: "secret_set_row \<Rightarrow> int \<Rightarrow> secret_set_row" where
  "touch_set r now = r\<lparr>ss_revision := ss_revision r + 1, ss_updated_at := now\<rparr>"

definition rotate_secret ::
  "aead \<Rightarrow> master_keys \<Rightarrow> bytes \<Rightarrow> bytes \<Rightarrow> principal \<Rightarrow> uuid \<Rightarrow> int \<Rightarrow> int \<Rightarrow> py_datetime \<Rightarrow> secret_db \<Rightarrow> (created_secret \<times> secret_db) result" where
  "rotate_secret a keys material nonce p secret_set_id expected_revision overlap now db =
     and_then (secret_time now) (\<lambda>_.
     if overlap \<le> 0 \<or> 30 * day < overlap then config_error ''Webhook secret overlap must be in (0, 30 days].''
     else case find_secret_set (p_tenant_id p) secret_set_id db of
       None \<Rightarrow> config_error ''Webhook secret set does not exist.''
     | Some secret_set \<Rightarrow>
         if ss_revision secret_set \<noteq> expected_revision then Inl (OptimisticConflict ''webhook_secret_set'')
         else (case find_active_secret (p_tenant_id p) secret_set_id db of
                 None \<Rightarrow> config_error ''Webhook secret set has no active key.''
               | Some active \<Rightarrow>
                   and_then (dt_add (instant now) overlap) (\<lambda>until.
                   and_then (current_key keys) (\<lambda>k.
                   let version = sv_secret_version active + 1 in
                   and_then (update_secret_version (active\<lparr>sv_state := RetiringSecret, sv_retiring_until := Some until\<rparr>) db) (\<lambda>db1.
                   and_then (insert_secret_version (new_version_row a nonce material k (p_tenant_id p) secret_set_id version now) db1) (\<lambda>db2.
                   and_then (update_secret_set (touch_set secret_set (instant now)) db2) (\<lambda>db3.
                     Inr (\<lparr>cs_secret_set_id = secret_set_id, cs_version = version, cs_plaintext = encode_public material\<rparr>, db3))))))))"

definition find_version :: "uuid \<Rightarrow> uuid \<Rightarrow> int \<Rightarrow> secret_db \<Rightarrow> secret_version_row option" where
  "find_version tenant_id secret_set_id version db = find (\<lambda>r. version_key r = (tenant_id, secret_set_id, version)) (secret_versions db)"

text \<open>Revocation does not check that the time carries a zone; the model passes the instant.\<close>

definition revoke_secret :: "principal \<Rightarrow> uuid \<Rightarrow> int \<Rightarrow> int \<Rightarrow> int \<Rightarrow> secret_db \<Rightarrow> secret_db result" where
  "revoke_secret p secret_set_id version expected_revision now db =
     (case find_secret_set (p_tenant_id p) secret_set_id db of
        None \<Rightarrow> Inl (OptimisticConflict ''webhook_secret_set'')
      | Some secret_set \<Rightarrow>
          if ss_revision secret_set \<noteq> expected_revision then Inl (OptimisticConflict ''webhook_secret_set'')
          else (case find_version (p_tenant_id p) secret_set_id version db of
                  None \<Rightarrow> config_error ''Webhook secret version does not exist.''
                | Some row \<Rightarrow>
                    and_then (update_secret_version (row\<lparr>sv_state := RevokedSecret, sv_retiring_until := None, sv_revoked_at := Some now\<rparr>) db)
                      (update_secret_set (touch_set secret_set now))))"

record signing_secret =
  sg_version :: int
  sg_material :: bytes

datatype eligible_failure = NoEligibleSigningKey | SecretFailure exn

definition eligible_row :: "uuid \<Rightarrow> uuid \<Rightarrow> int \<Rightarrow> secret_version_row \<Rightarrow> bool" where
  "eligible_row tenant_id secret_set_id now r \<longleftrightarrow>
     version_set r = (tenant_id, secret_set_id) \<and>
     (sv_state r = ActiveSecret \<or> sv_state r = RetiringSecret \<and> (case sv_retiring_until r of None \<Rightarrow> False | Some u \<Rightarrow> now \<le> u))"

definition open_secret :: "aead \<Rightarrow> master_keys \<Rightarrow> secret_version_row \<Rightarrow> signing_secret result" where
  "open_secret a keys r =
     and_then (key_for keys (sv_key_id r)) (\<lambda>k.
     and_then (decrypt_secret a k r) (\<lambda>m. Inr \<lparr>sg_version = sv_secret_version r, sg_material = m\<rparr>))"

definition eligible_for_signing ::
  "aead \<Rightarrow> master_keys \<Rightarrow> uuid \<Rightarrow> uuid \<Rightarrow> int \<Rightarrow> secret_db \<Rightarrow> eligible_failure + signing_secret list" where
  "eligible_for_signing a keys tenant_id secret_set_id now db =
     (let rows = sort_key (\<lambda>r. - sv_secret_version r) (filter (eligible_row tenant_id secret_set_id now) (secret_versions db)) in
      if rows = [] then Inl NoEligibleSigningKey
      else (case traverse (open_secret a keys) rows of Inl e \<Rightarrow> Inl (SecretFailure e) | Inr xs \<Rightarrow> Inr xs))"

section \<open>The invariant of the secret tables\<close>

text \<open>
  Beside the schema's constraints: the active version of a set is its newest. The ghost map records the text each version was handed out
  with; under the documented behaviour of AES-GCM the rows open to the material of that text. A step is one committed operation; each may
  use another current key of the same keys.
\<close>

type_synonym issued = "uuid \<times> uuid \<times> int \<Rightarrow> string option"

definition aead_sound :: "aead \<Rightarrow> bool" where
  "aead_sound a \<longleftrightarrow> (\<forall>k n m d. aead_decrypt a k n (aead_encrypt a k n m d) d = Some m)"

definition newest :: "secret_version_row list \<Rightarrow> secret_version_row \<Rightarrow> bool" where
  "newest rows r \<longleftrightarrow> (\<forall>x\<in>set rows. version_set x = version_set r \<longrightarrow> sv_secret_version x \<le> sv_secret_version r)"

definition opens :: "aead \<Rightarrow> master_key list \<Rightarrow> issued \<Rightarrow> secret_version_row \<Rightarrow> bool" where
  "opens a ks g r \<longleftrightarrow> (\<exists>k m. find (\<lambda>k. mk_key_id k = sv_key_id r) ks = Some k \<and> g (version_key r) = Some (encode_public m) \<and>
     decrypt_secret a k r = Inr m)"

definition version_inv :: "aead \<Rightarrow> master_key list \<Rightarrow> secret_db \<Rightarrow> issued \<Rightarrow> secret_version_row \<Rightarrow> bool" where
  "version_inv a ks db g r \<longleftrightarrow> version_set r \<in> set_key ` set (secret_sets db) \<and>
     (sv_state r = ActiveSecret \<longrightarrow> newest (secret_versions db) r) \<and> opens a ks g r"

fun secrets_inv :: "aead \<Rightarrow> master_key list \<Rightarrow> secret_db \<times> issued \<Rightarrow> bool" where
  "secrets_inv a ks (db, g) \<longleftrightarrow>
     distinct (map version_key (secret_versions db)) \<and> list_all (version_inv a ks db g) (secret_versions db)"

definition empty_secrets :: "secret_db \<times> issued \<Rightarrow> bool" where
  "empty_secrets s \<longleftrightarrow> s = (\<lparr>secret_sets = [], secret_versions = []\<rparr>, \<lambda>_. None)"

inductive secret_step :: "aead \<Rightarrow> master_key list \<Rightarrow> secret_db \<times> issued \<Rightarrow> secret_db \<times> issued \<Rightarrow> bool" for a ks where
  create: "create_secret a \<lparr>mks_keys = ks, mks_current_key_id = i\<rparr> fresh material nonce p now db = Inr (c, db') \<Longrightarrow>
    secret_step a ks (db, g) (db', g((p_tenant_id p, cs_secret_set_id c, cs_version c) \<mapsto> cs_plaintext c))"
| rotate: "rotate_secret a \<lparr>mks_keys = ks, mks_current_key_id = i\<rparr> material nonce p set_id revision overlap now db = Inr (c, db') \<Longrightarrow>
    secret_step a ks (db, g) (db', g((p_tenant_id p, cs_secret_set_id c, cs_version c) \<mapsto> cs_plaintext c))"
| revoke: "revoke_secret p set_id version revision instant_now db = Inr db' \<Longrightarrow> secret_step a ks (db, g) (db', g)"

lemma new_version_row_fields [simp]:
  "sv_tenant_id (new_version_row a n m k t i v now) = t" "sv_secret_set_id (new_version_row a n m k t i v now) = i"
  "sv_secret_version (new_version_row a n m k t i v now) = v" "sv_state (new_version_row a n m k t i v now) = ActiveSecret"
  "sv_key_id (new_version_row a n m k t i v now) = mk_key_id k" "sv_retiring_until (new_version_row a n m k t i v now) = None"
  "version_key (new_version_row a n m k t i v now) = (t, i, v)" "version_set (new_version_row a n m k t i v now) = (t, i)"
  by (simp_all add: new_version_row_def encrypt_secret_def version_key_def version_set_def)

lemma new_version_opens:
  assumes "aead_sound a" and "current_key \<lparr>mks_keys = ks, mks_current_key_id = i\<rparr> = Inr k" and "g (t, s, v) = Some (encode_public m)"
  shows "opens a ks g (new_version_row a n m k t s v now)"
proof -
  have "find (\<lambda>x. mk_key_id x = i) ks = Some k" using assms(2) by (auto simp: current_key_def key_for_def split: option.splits)
  moreover from this have "mk_key_id k = i" by (auto dest: find_SomeD)
  ultimately show ?thesis
    using assms(1,3) by (simp add: opens_def) (simp add: new_version_row_def encrypt_secret_def decrypt_secret_def aead_sound_def)
qed

lemma opens_cong:
  assumes "opens a ks g r" "version_key x = version_key r" "sv_key_id x = sv_key_id r" "sv_nonce x = sv_nonce r" "sv_ciphertext x = sv_ciphertext r"
    "g' (version_key r) = g (version_key r)"
  shows "opens a ks g' x"
  using assms by (auto simp: opens_def decrypt_secret_def version_key_def)

lemma version_key_set: "version_key x = version_key r \<Longrightarrow> version_set x = version_set r \<and> sv_secret_version x = sv_secret_version r"
  by (simp add: version_key_def version_set_def)

lemma version_key_iff: "version_key r = (t, s, v) \<longleftrightarrow> version_set r = (t, s) \<and> sv_secret_version r = v"
  by (auto simp: version_key_def version_set_def)

lemma newest_cong: "map version_key rows' = map version_key rows \<Longrightarrow> version_key x = version_key r \<Longrightarrow> newest rows r \<Longrightarrow> newest rows' x"
proof -
  assume k: "map version_key rows' = map version_key rows" "version_key x = version_key r" and n: "newest rows r"
  have "version_key ` set rows' = version_key ` set rows" using k(1) by (metis list.set_map)
  then have "version_key y \<in> version_key ` set rows" if "y \<in> set rows'" for y using that by blast
  then have "\<exists>y0\<in>set rows. version_key y0 = version_key y" if "y \<in> set rows'" for y using that by fastforce
  then show "newest rows' x" using n k(2) unfolding newest_def by (metis version_key_set)
qed

text \<open>Writing a version row that keeps key, ciphertext and nonce and is not newly active, and touching its set, keeps the invariant.\<close>

lemma update_version_inv:
  assumes inv: "secrets_inv a ks (db, g)" and upd: "update_secret_version r' db = Inr db'" and r: "r \<in> set (secret_versions db)"
    and same: "version_key r' = version_key r" "sv_key_id r' = sv_key_id r" "sv_nonce r' = sv_nonce r" "sv_ciphertext r' = sv_ciphertext r"
    and st: "sv_state r' \<noteq> ActiveSecret"
  shows "secrets_inv a ks (db', g)" "secret_sets db' = secret_sets db"
    "secret_versions db' = update_where (\<lambda>x. version_key x = version_key r) (\<lambda>_. r') (secret_versions db)"
proof -
  show sets: "secret_sets db' = secret_sets db"
    and rows: "secret_versions db' = update_where (\<lambda>x. version_key x = version_key r) (\<lambda>_. r') (secret_versions db)"
    using upd same(1) by (auto simp: update_secret_version_def split: if_splits)
  have keys: "map version_key (secret_versions db') = map version_key (secret_versions db)"
    unfolding rows using same(1) by (intro map_update_where_key) simp
  have "version_inv a ks db' g x" if x: "x \<in> set (secret_versions db')" for x
  proof -
    from x obtain x0 where x0: "x0 \<in> set (secret_versions db)" "x = (if version_key x0 = version_key r then r' else x0)"
      unfolding rows by (auto simp: set_update_where)
    have i0: "version_inv a ks db g x0" "version_inv a ks db g r" using inv x0(1) r by (auto simp: list_all_iff)
    show ?thesis
    proof (cases "version_key x0 = version_key r")
      case True
      then show ?thesis using x0(2) i0(2) st same version_key_set [OF same(1)] by (auto simp: version_inv_def sets intro: opens_cong)
    next
      case False
      then show ?thesis using x0(2) i0(1) newest_cong [OF keys refl] by (simp add: version_inv_def sets)
    qed
  qed
  then show "secrets_inv a ks (db', g)" using inv keys by (simp add: list_all_iff)
qed

lemma touch_set_key [simp]: "set_key (touch_set r now) = set_key r"
  by (simp add: set_key_def touch_set_def)

lemma update_set_inv:
  assumes "secrets_inv a ks (db, g)" and "update_secret_set r db = Inr db'"
  shows "secrets_inv a ks (db', g)" "secret_versions db' = secret_versions db"
proof -
  have u: "secret_versions db' = secret_versions db" "secret_sets db' = update_where (\<lambda>x. set_key x = set_key r) (\<lambda>_. r) (secret_sets db)"
    using assms(2) by (auto simp: update_secret_set_def split: if_splits)
  have "map set_key (secret_sets db') = map set_key (secret_sets db)" unfolding u(2) by (intro map_update_where_key) simp
  then have k: "set_key ` set (secret_sets db') = set_key ` set (secret_sets db)" by (metis list.set_map)
  show "secret_versions db' = secret_versions db" by (rule u(1))
  show "secrets_inv a ks (db', g)" using assms(1) by (auto simp: u(1) list_all_iff version_inv_def k)
qed

lemma insert_version_inv:
  assumes inv: "secrets_inv a ks (db, g)" and ins: "insert_secret_version r db = Inr db'"
    and top: "\<forall>x\<in>set (secret_versions db). version_set x = version_set r \<longrightarrow> sv_secret_version x < sv_secret_version r \<and> sv_state x \<noteq> ActiveSecret"
    and op: "opens a ks (g(version_key r \<mapsto> m)) r"
  shows "secrets_inv a ks (db', g(version_key r \<mapsto> m))" "secret_versions db' = secret_versions db @ [r]"
proof -
  have i: "secret_versions db' = secret_versions db @ [r]" "secret_sets db' = secret_sets db" "version_set r \<in> set_key ` set (secret_sets db)"
    "version_key r \<notin> version_key ` set (secret_versions db)"
    using ins by (auto simp: insert_secret_version_def split: if_splits)
  have new: "version_inv a ks db' (g(version_key r \<mapsto> m)) r"
    using i top op by (auto simp: version_inv_def newest_def less_imp_le)
  have "version_inv a ks db' (g(version_key r \<mapsto> m)) x" if x: "x \<in> set (secret_versions db)" for x
  proof -
    have x0: "version_inv a ks db g x" using inv x by (simp add: list_all_iff)
    have "version_key x \<noteq> version_key r" using x i(4) by (metis imageI)
    then have "opens a ks (g(version_key r \<mapsto> m)) x" using x0 by (auto simp: version_inv_def intro: opens_cong)
    moreover have "newest (secret_versions db') x" if act: "sv_state x = ActiveSecret"
      using act x0 top x unfolding i(1) by (auto simp: version_inv_def newest_def)
    ultimately show ?thesis using x0 i(2) by (simp add: version_inv_def)
  qed
  then show "secrets_inv a ks (db', g(version_key r \<mapsto> m))" using inv new i(1,4) by (auto simp: list_all_iff)
  show "secret_versions db' = secret_versions db @ [r]" by (rule i(1))
qed

lemma create_secret_inv:
  assumes inv: "secrets_inv a ks (db, g)" and snd: "aead_sound a"
    and c: "create_secret a \<lparr>mks_keys = ks, mks_current_key_id = i\<rparr> fresh material nonce p now db = Inr (c, db')"
  shows "secrets_inv a ks (db', g((p_tenant_id p, cs_secret_set_id c, cs_version c) \<mapsto> cs_plaintext c))"
    "\<exists>r. secret_versions db' = secret_versions db @ [r] \<and> version_key r \<notin> version_key ` set (secret_versions db)"
proof -
  from c obtain k db1 where k: "current_key \<lparr>mks_keys = ks, mks_current_key_id = i\<rparr> = Inr k"
    and s: "insert_secret_set \<lparr>ss_tenant_id = p_tenant_id p, ss_secret_set_id = fresh, ss_revision = 1, ss_created_by = subject_id p,
         ss_created_at = instant now, ss_updated_at = instant now\<rparr> db = Inr db1"
    and v: "insert_secret_version (new_version_row a nonce material k (p_tenant_id p) fresh 1 now) db1 = Inr db'"
    and cs: "c = \<lparr>cs_secret_set_id = fresh, cs_version = 1, cs_plaintext = encode_public material\<rparr>"
    by (auto simp: create_secret_def and_then_Inr_iff)
  let ?r = "new_version_row a nonce material k (p_tenant_id p) fresh 1 now"
  have d: "secret_versions db1 = secret_versions db" "(p_tenant_id p, fresh) \<notin> set_key ` set (secret_sets db)"
    "set_key ` set (secret_sets db) \<subseteq> set_key ` set (secret_sets db1)"
    using s by (auto simp: insert_secret_set_def set_key_def split: if_splits)
  have inv1: "secrets_inv a ks (db1, g)" using inv d(1,3) by (auto simp: list_all_iff version_inv_def)
  have none: "version_set x \<noteq> version_set ?r" if "x \<in> set (secret_versions db1)" for x
  proof -
    have "version_set x \<in> set_key ` set (secret_sets db)" using inv d(1) that by (simp add: list_all_iff version_inv_def)
    then show ?thesis using d(2) by (metis new_version_row_fields(8))
  qed
  have op: "opens a ks (g(version_key ?r \<mapsto> encode_public material)) ?r" by (intro new_version_opens [OF snd k]) simp
  show "secrets_inv a ks (db', g((p_tenant_id p, cs_secret_set_id c, cs_version c) \<mapsto> cs_plaintext c))"
    using insert_version_inv(1) [OF inv1 v _ op] none cs by simp
  have "secret_versions db' = secret_versions db @ [?r]" using insert_version_inv(2) [OF inv1 v _ op] none d(1) by simp
  moreover have "version_key ?r \<notin> version_key ` set (secret_versions db)"
  proof
    assume "version_key ?r \<in> version_key ` set (secret_versions db)"
    then obtain x where "x \<in> set (secret_versions db1)" "version_key x = version_key ?r" unfolding d(1) by (metis imageE)
    then show False using none version_key_set [of x ?r] by blast
  qed
  ultimately show "\<exists>r. secret_versions db' = secret_versions db @ [r] \<and> version_key r \<notin> version_key ` set (secret_versions db)" by blast
qed

lemma rotate_secret_parts:
  assumes "rotate_secret a keys material nonce p set_id revision overlap now db = Inr (c, db')"
  obtains k active until row db1 db2 where "current_key keys = Inr k" "active \<in> set (secret_versions db)" "version_set active = (p_tenant_id p, set_id)"
    "sv_state active = ActiveSecret" "dt_add (instant now) overlap = Inr until"
    "update_secret_version (active\<lparr>sv_state := RetiringSecret, sv_retiring_until := Some until\<rparr>) db = Inr db1"
    "insert_secret_version (new_version_row a nonce material k (p_tenant_id p) set_id (sv_secret_version active + 1) now) db1 = Inr db2"
    "update_secret_set row db2 = Inr db'"
    "c = \<lparr>cs_secret_set_id = set_id, cs_version = sv_secret_version active + 1, cs_plaintext = encode_public material\<rparr>"
  using assms that
  by (auto simp: rotate_secret_def find_active_secret_def Let_def and_then_Inr_iff split: if_splits option.splits dest!: find_SomeD)

lemma rotate_secret_inv:
  assumes inv: "secrets_inv a ks (db, g)" and snd: "aead_sound a"
    and c: "rotate_secret a \<lparr>mks_keys = ks, mks_current_key_id = i\<rparr> material nonce p set_id revision overlap now db = Inr (c, db')"
  shows "secrets_inv a ks (db', g((p_tenant_id p, cs_secret_set_id c, cs_version c) \<mapsto> cs_plaintext c))"
    "\<exists>act retiring r. act \<in> set (secret_versions db) \<and> sv_state act = ActiveSecret \<and> sv_state retiring = RetiringSecret \<and> version_key retiring = version_key act \<and>
       secret_versions db' = update_where (\<lambda>x. version_key x = version_key act) (\<lambda>_. retiring) (secret_versions db) @ [r] \<and>
       version_key r \<notin> version_key ` set (secret_versions db)"
proof -
  from c obtain k active until row db1 db2 where k: "current_key \<lparr>mks_keys = ks, mks_current_key_id = i\<rparr> = Inr k"
    and act: "active \<in> set (secret_versions db)" "version_set active = (p_tenant_id p, set_id)" "sv_state active = ActiveSecret"
    and u1: "update_secret_version (active\<lparr>sv_state := RetiringSecret, sv_retiring_until := Some until\<rparr>) db = Inr db1"
    and v: "insert_secret_version (new_version_row a nonce material k (p_tenant_id p) set_id (sv_secret_version active + 1) now) db1 = Inr db2"
    and u2: "update_secret_set row db2 = Inr db'"
    and cs: "c = \<lparr>cs_secret_set_id = set_id, cs_version = sv_secret_version active + 1, cs_plaintext = encode_public material\<rparr>"
    by (elim rotate_secret_parts)
  let ?ret = "active\<lparr>sv_state := RetiringSecret, sv_retiring_until := Some until\<rparr>"
  let ?r = "new_version_row a nonce material k (p_tenant_id p) set_id (sv_secret_version active + 1) now"
  have kr: "version_key ?ret = version_key active" by (simp add: version_key_def)
  note up = update_version_inv [OF inv u1 act(1) kr]
  have inv1: "secrets_inv a ks (db1, g)" and rows1: "secret_versions db1 = update_where (\<lambda>x. version_key x = version_key active) (\<lambda>_. ?ret) (secret_versions db)"
    using up by simp_all
  have keys1: "map version_key (secret_versions db1) = map version_key (secret_versions db)"
    unfolding rows1 using kr by (intro map_update_where_key) simp
  have new: "newest (secret_versions db) active" using inv act(1,3) by (auto simp: list_all_iff version_inv_def)
  then have new1: "newest (secret_versions db1) active" by (rule newest_cong [OF keys1 refl])
  have top: "sv_secret_version x < sv_secret_version ?r \<and> sv_state x \<noteq> ActiveSecret"
    if x: "x \<in> set (secret_versions db1)" "version_set x = version_set ?r" for x
  proof -
    have le: "sv_secret_version x \<le> sv_secret_version active" using new1 x act(2) by (simp add: newest_def)
    have "sv_state x \<noteq> ActiveSecret"
    proof
      assume xa: "sv_state x = ActiveSecret"
      then have "newest (secret_versions db1) x" using inv1 x(1) by (auto simp: list_all_iff version_inv_def)
      moreover have "version_key active \<in> version_key ` set (secret_versions db1)" using act(1) keys1 by (metis image_eqI list.set_map)
      ultimately have "sv_secret_version active \<le> sv_secret_version x"
        using x(2) act(2) unfolding newest_def by (metis imageE new_version_row_fields(8) version_key_set)
      then have "version_key x = version_key active" using le x(2) act(2) by (metis antisym new_version_row_fields(8) surj_pair version_key_iff)
      moreover obtain x0 where "x = (if version_key x0 = version_key active then ?ret else x0)" using x(1) unfolding rows1 by (auto simp: set_update_where)
      ultimately show False using xa kr by (auto split: if_splits)
    qed
    with le show ?thesis by simp
  qed
  have op: "opens a ks (g(version_key ?r \<mapsto> encode_public material)) ?r" by (intro new_version_opens [OF snd k]) simp
  have ins: "secrets_inv a ks (db2, g(version_key ?r \<mapsto> encode_public material))" "secret_versions db2 = secret_versions db1 @ [?r]"
    using insert_version_inv [OF inv1 v _ op] top by blast+
  show "secrets_inv a ks (db', g((p_tenant_id p, cs_secret_set_id c, cs_version c) \<mapsto> cs_plaintext c))"
    using update_set_inv(1) [OF ins(1) u2] cs by simp
  have rows': "secret_versions db' = secret_versions db1 @ [?r]" using update_set_inv(2) [OF ins(1) u2] ins(2) by simp
  have "version_key x \<noteq> version_key ?r" if "x \<in> set (secret_versions db1)" for x
    using top [OF that] version_key_set [of x ?r] by fastforce
  then have "version_key ?r \<notin> version_key ` set (secret_versions db1)" by (metis imageE)
  then have "version_key ?r \<notin> version_key ` set (secret_versions db)" using keys1 by (metis list.set_map)
  then show "\<exists>act retiring r. act \<in> set (secret_versions db) \<and> sv_state act = ActiveSecret \<and> sv_state retiring = RetiringSecret \<and> version_key retiring = version_key act \<and>
       secret_versions db' = update_where (\<lambda>x. version_key x = version_key act) (\<lambda>_. retiring) (secret_versions db) @ [r] \<and>
       version_key r \<notin> version_key ` set (secret_versions db)"
    using act kr rows' rows1 by (intro exI [of _ active] exI [of _ ?ret] exI [of _ ?r]) simp
qed

lemma revoke_secret_inv:
  assumes inv: "secrets_inv a ks (db, g)" and c: "revoke_secret p set_id version revision now db = Inr db'"
  shows "secrets_inv a ks (db', g)"
    "\<exists>r' . sv_state r' = RevokedSecret \<and> version_key r' = (p_tenant_id p, set_id, version) \<and> version_key r' \<in> version_key ` set (secret_versions db) \<and>
       secret_versions db' = update_where (\<lambda>x. version_key x = version_key r') (\<lambda>_. r') (secret_versions db)"
proof -
  from c obtain row sr db1 where r: "row \<in> set (secret_versions db)" "version_key row = (p_tenant_id p, set_id, version)"
    and u1: "update_secret_version (row\<lparr>sv_state := RevokedSecret, sv_retiring_until := None, sv_revoked_at := Some now\<rparr>) db = Inr db1"
    and u2: "update_secret_set sr db1 = Inr db'"
    by (auto simp: revoke_secret_def find_version_def and_then_Inr_iff split: if_splits option.splits dest!: find_SomeD)
  let ?r' = "row\<lparr>sv_state := RevokedSecret, sv_retiring_until := None, sv_revoked_at := Some now\<rparr>"
  have kr: "version_key ?r' = version_key row" by (simp add: version_key_def)
  note up = update_version_inv [OF inv u1 r(1) kr]
  have i1: "secrets_inv a ks (db1, g)" "secret_versions db1 = update_where (\<lambda>x. version_key x = version_key row) (\<lambda>_. ?r') (secret_versions db)"
    using up by simp_all
  show "secrets_inv a ks (db', g)" by (rule update_set_inv(1) [OF i1(1) u2])
  have "secret_versions db' = secret_versions db1" by (rule update_set_inv(2) [OF i1(1) u2])
  then show "\<exists>r' . sv_state r' = RevokedSecret \<and> version_key r' = (p_tenant_id p, set_id, version) \<and> version_key r' \<in> version_key ` set (secret_versions db) \<and>
       secret_versions db' = update_where (\<lambda>x. version_key x = version_key r') (\<lambda>_. r') (secret_versions db)"
    using i1(2) kr r imageI [OF r(1), of version_key] by (intro exI [of _ ?r']) auto
qed

definition revoked_version :: "uuid \<times> uuid \<times> int \<Rightarrow> secret_db \<times> issued \<Rightarrow> bool" where
  "revoked_version key s \<longleftrightarrow> (\<exists>r\<in>set (secret_versions (fst s)). version_key r = key \<and> sv_state r = RevokedSecret)"

lemma secret_step_inv: "aead_sound a \<Longrightarrow> secrets_inv a ks s \<Longrightarrow> secret_step a ks s s' \<Longrightarrow> secrets_inv a ks s'"
  by (erule secret_step.cases) (auto simp del: secrets_inv.simps dest: create_secret_inv(1) rotate_secret_inv(1) revoke_secret_inv(1))

lemma update_keeps_revoked:
  assumes "r \<in> set rows" "version_key r = key" "sv_state r = RevokedSecret" "sv_state r' \<noteq> RevokedSecret \<longrightarrow> version_key r' \<noteq> key" "version_key r' = k"
  shows "\<exists>x\<in>set (update_where (\<lambda>x. version_key x = k) (\<lambda>_. r') rows). version_key x = key \<and> sv_state x = RevokedSecret"
proof (cases "version_key r' = key")
  case True
  then have "r' \<in> set (update_where (\<lambda>x. version_key x = k) (\<lambda>_. r') rows)" using assms by (force simp: set_update_where)
  then show ?thesis using True assms(4) by blast
next
  case False
  then have "r \<in> set (update_where (\<lambda>x. version_key x = k) (\<lambda>_. r') rows)" using assms by (force simp: set_update_where)
  then show ?thesis using assms(2,3) by blast
qed

lemma secret_step_revoked:
  assumes snd: "aead_sound a" and inv: "secrets_inv a ks s" and "secret_step a ks s s'" and rev: "revoked_version key s"
  shows "revoked_version key s'"
  using assms(3)
proof cases
  case (create i fresh material nonce p now db c db' g)
  then obtain r where "secret_versions db' = secret_versions db @ [r]" using create_secret_inv(2) [OF inv [unfolded create(1)] snd create(3)] by blast
  then show ?thesis using rev create(1,2) by (auto simp: revoked_version_def)
next
  case (rotate i material nonce p set_id revision overlap now db c db' g)
  from rotate_secret_inv(2) [OF inv [unfolded rotate(1)] snd rotate(3)] obtain act ret r
    where a: "act \<in> set (secret_versions db)" "sv_state act = ActiveSecret" "version_key ret = version_key act"
      "secret_versions db' = update_where (\<lambda>x. version_key x = version_key act) (\<lambda>_. ret) (secret_versions db) @ [r]" by blast
  from rev rotate(1) obtain x where x: "x \<in> set (secret_versions db)" "version_key x = key" "sv_state x = RevokedSecret" by (auto simp: revoked_version_def)
  have "distinct (map version_key (secret_versions db))" using inv rotate(1) by simp
  then have "version_key act \<noteq> key" using a(1,2) x by (metis distinct_map inj_onD secret_state.distinct(3))
  then show ?thesis using update_keeps_revoked [OF x, of ret] a(3,4) rotate(2) by (auto simp: revoked_version_def)
next
  case (revoke p set_id version revision now db db' g)
  from revoke_secret_inv(2) [OF inv [unfolded revoke(1)] revoke(3)] obtain r' where r': "sv_state r' = RevokedSecret"
    "secret_versions db' = update_where (\<lambda>x. version_key x = version_key r') (\<lambda>_. r') (secret_versions db)" by blast
  from rev revoke(1) obtain x where x: "x \<in> set (secret_versions db)" "version_key x = key" "sv_state x = RevokedSecret" by (auto simp: revoked_version_def)
  show ?thesis using update_keeps_revoked [OF x, of r'] r' revoke(2) by (auto simp: revoked_version_def)
qed

lemma empty_secrets_inv: "secrets_inv a ks (\<lparr>secret_sets = [], secret_versions = []\<rparr>, \<lambda>_. None)"
  by simp

text \<open>The secret tables as a machine whose revoked versions stay revoked; AES-GCM is assumed sound.\<close>

interpretation secrets_machine: stable_machine empty_secrets "\<lambda>s t. aead_sound a \<and> secret_step a ks s t" "secrets_inv a ks" "revoked_version key" for a ks key
  by unfold_locales (auto simp: empty_secrets_def simp del: secrets_inv.simps intro: secret_step_inv secret_step_revoked empty_secrets_inv)

lemma sound_steps: "aead_sound a \<Longrightarrow> (secret_step a ks)\<^sup>*\<^sup>* s t \<Longrightarrow> (\<lambda>s t. aead_sound a \<and> secret_step a ks s t)\<^sup>*\<^sup>* s t"
  by (erule rtranclp_mono [THEN predicate2D, rotated]) auto

lemma secrets_reachable:
  assumes "aead_sound a" and "empty_secrets s0" and "(secret_step a ks)\<^sup>*\<^sup>* s0 s"
  shows "secrets_inv a ks s"
  using secrets_machine.inv_reachable [OF assms(2) sound_steps [OF assms(1,3)]] .

section \<open>What is opened\<close>

definition eligible_versions :: "uuid \<Rightarrow> uuid \<Rightarrow> int \<Rightarrow> secret_db \<Rightarrow> int set" where
  "eligible_versions t s now db = sv_secret_version ` set (filter (eligible_row t s now) (secret_versions db))"

lemma opens_secret:
  assumes "opens a ks g r"
  obtains m where "open_secret a \<lparr>mks_keys = ks, mks_current_key_id = i\<rparr> r = Inr \<lparr>sg_version = sv_secret_version r, sg_material = m\<rparr>"
    "g (version_key r) = Some (encode_public m)"
  using assms by (auto simp: opens_def open_secret_def key_for_def)

lemma eligible_opened:
  assumes inv: "secrets_inv a ks (db, g)" and some: "filter (eligible_row t s now) (secret_versions db) \<noteq> []"
  obtains xs where "eligible_for_signing a \<lparr>mks_keys = ks, mks_current_key_id = i\<rparr> t s now db = Inr xs"
    "sg_version ` set xs = eligible_versions t s now db" "\<forall>x\<in>set xs. g (t, s, sg_version x) = Some (encode_public (sg_material x))"
    "sorted_wrt (>) (map sg_version xs)"
proof -
  let ?keys = "\<lparr>mks_keys = ks, mks_current_key_id = i\<rparr>" and ?el = "filter (eligible_row t s now) (secret_versions db)"
  let ?rows = "sort_key (\<lambda>r. - sv_secret_version r) ?el"
  have mem: "r \<in> set (secret_versions db)" "version_set r = (t, s)" if "r \<in> set ?rows" for r using that by (auto simp: eligible_row_def)
  have op: "opens a ks g r" if "r \<in> set ?rows" for r using inv mem(1) [OF that] by (auto simp: list_all_iff version_inv_def)
  have "\<exists>f. \<forall>r\<in>set ?rows. open_secret a ?keys r = Inr (f r) \<and> sg_version (f r) = sv_secret_version r \<and> g (version_key r) = Some (encode_public (sg_material (f r)))"
  proof (intro bchoice ballI)
    fix r assume "r \<in> set ?rows"
    then obtain m where "open_secret a ?keys r = Inr \<lparr>sg_version = sv_secret_version r, sg_material = m\<rparr>" "g (version_key r) = Some (encode_public m)"
      using op opens_secret by blast
    then show "\<exists>y. open_secret a ?keys r = Inr y \<and> sg_version y = sv_secret_version r \<and> g (version_key r) = Some (encode_public (sg_material y))" by force
  qed
  then obtain f where f: "\<And>r. r \<in> set ?rows \<Longrightarrow> open_secret a ?keys r = Inr (f r)" "\<And>r. r \<in> set ?rows \<Longrightarrow> sg_version (f r) = sv_secret_version r"
    "\<And>r. r \<in> set ?rows \<Longrightarrow> g (version_key r) = Some (encode_public (sg_material (f r)))" by blast
  have "traverse (open_secret a ?keys) ?rows = Inr (map f ?rows)" by (rule traverse_total) (rule f(1))
  moreover have "?rows \<noteq> []" using some by (metis set_empty2 set_sort)
  ultimately have e: "eligible_for_signing a ?keys t s now db = Inr (map f ?rows)" by (simp add: eligible_for_signing_def Let_def)
  have vs: "map sg_version (map f ?rows) = map sv_secret_version ?rows" using f(2) by simp
  have "distinct (map version_key ?el)" using inv by (simp add: distinct_map_filter)
  then have "distinct (map sv_secret_version ?el)"
    by (auto simp: distinct_map eligible_row_def inj_on_def version_key_def version_set_def)
  then have "distinct (map sv_secret_version ?rows)" by (simp add: distinct_map)
  moreover have "sorted (map (\<lambda>r. - sv_secret_version r) ?rows)" by simp
  ultimately have "sorted_wrt (>) (map sv_secret_version ?rows)"
    by (auto simp: sorted_wrt_map sorted_wrt_iff_nth_less distinct_conv_nth sorted_iff_nth_mono_less order_less_le)
  moreover have "sg_version ` set (map f ?rows) = eligible_versions t s now db"
    using arg_cong [OF vs, of set] by (simp add: eligible_versions_def image_image)
  moreover have "\<forall>x\<in>set (map f ?rows). g (t, s, sg_version x) = Some (encode_public (sg_material x))"
  proof
    fix x assume "x \<in> set (map f ?rows)"
    then obtain r where r: "r \<in> set ?rows" "x = f r" by auto
    then have "version_key r = (t, s, sg_version x)" using mem(2) [OF r(1)] f(2) [OF r(1)] by (simp add: version_key_iff)
    then show "g (t, s, sg_version x) = Some (encode_public (sg_material x))" using f(3) [OF r(1)] r(2) by simp
  qed
  ultimately show ?thesis using that e vs by metis
qed

lemma public_secret_roundtrip: "16 \<le> length m \<Longrightarrow> decode_public_secret (encode_public m) = Inr m"
  by (simp add: decode_public_secret_def encode_public_def b64_roundtrip)

section \<open>Properties\<close>

text \<open>
  C28. In every state reached by creating, rotating and revoking secrets, opening the eligible secrets of a set never fails while a version
  is eligible, and returns exactly the eligible versions, newest first and without repetition, each with the material whose text was handed
  out when that version was created; at most one of them is active, and the active one is the newest of its set. With no eligible
  version it reports that no signing key is eligible.
\<close>

theorem eligible_secrets_as_issued:
  assumes "aead_sound a" and "empty_secrets s0" and "(secret_step a ks)\<^sup>*\<^sup>* s0 (db, g)"
  shows "case eligible_for_signing a \<lparr>mks_keys = ks, mks_current_key_id = i\<rparr> t s now db of
      Inl e \<Rightarrow> e = NoEligibleSigningKey \<and> eligible_versions t s now db = {}
    | Inr xs \<Rightarrow> xs \<noteq> [] \<and> sorted_wrt (>) (map sg_version xs) \<and> sg_version ` set xs = eligible_versions t s now db \<and>
        (\<forall>x\<in>set xs. g (t, s, sg_version x) = Some (encode_public (sg_material x))) \<and>
        (\<forall>r\<in>set (secret_versions db). version_set r = (t, s) \<and> sv_state r = ActiveSecret \<longrightarrow> sg_version (hd xs) = sv_secret_version r)"
proof -
  have inv: "secrets_inv a ks (db, g)" by (rule secrets_reachable [OF assms])
  show ?thesis
  proof (cases "filter (eligible_row t s now) (secret_versions db) = []")
    case True
    then show ?thesis by (simp add: eligible_for_signing_def eligible_versions_def)
  next
    case False
    then obtain xs where xs: "eligible_for_signing a \<lparr>mks_keys = ks, mks_current_key_id = i\<rparr> t s now db = Inr xs"
      "sg_version ` set xs = eligible_versions t s now db" "\<forall>x\<in>set xs. g (t, s, sg_version x) = Some (encode_public (sg_material x))"
      "sorted_wrt (>) (map sg_version xs)" by (rule eligible_opened [OF inv])
    have ne: "xs \<noteq> []" using False xs(2) by (auto simp: eligible_versions_def)
    have "sg_version (hd xs) = sv_secret_version r" if r: "r \<in> set (secret_versions db)" "version_set r = (t, s)" "sv_state r = ActiveSecret" for r
    proof -
      have "newest (secret_versions db) r" using inv r by (auto simp: list_all_iff version_inv_def)
      then have top: "v \<le> sv_secret_version r" if "v \<in> eligible_versions t s now db" for v
        using that r(2) by (auto simp: eligible_versions_def newest_def eligible_row_def)
      have "sv_secret_version r \<in> sg_version ` set xs" using r unfolding xs(2) by (auto simp: eligible_versions_def eligible_row_def)
      then obtain x where x: "x \<in> set xs" "sg_version x = sv_secret_version r" by auto
      have "sg_version x \<le> sg_version (hd xs)" using xs(4) x(1) ne by (cases xs) auto
      moreover have "sg_version (hd xs) \<le> sv_secret_version r" using top xs(2) ne hd_in_set by blast
      ultimately show ?thesis using x(2) by simp
    qed
    then show ?thesis using xs ne by simp
  qed
qed

definition sample_aead :: aead where
  "sample_aead = \<lparr>aead_encrypt = (\<lambda>k n m d. replicate 16 (CHR ''t'') @ m), aead_decrypt = (\<lambda>k n c d. Some (drop 16 c))\<rparr>"

definition sample_master :: master_key where "sample_master = \<lparr>mk_key_id = ''k1'', mk_material = replicate 16 (CHR ''m'')\<rparr>"

definition sample_owner :: principal where
  "sample_owner = \<lparr>p_tenant_id = 1, subject_id = ''owner'', scopes = [], actor_id = None, client_id = None, issued_at = Aware 0,
     authentication_time = None, expires_at = None, credential_ref = None\<rparr>"

definition sample_version :: secret_version_row where
  "sample_version = new_version_row sample_aead (replicate 12 (CHR ''n'')) sample_secret sample_master 1 2 1 (Aware 5000000)"

definition sample_vault :: secret_db where
  "sample_vault = \<lparr>secret_sets = [\<lparr>ss_tenant_id = 1, ss_secret_set_id = 2, ss_revision = 1, ss_created_by = ''owner'', ss_created_at = 5000000,
     ss_updated_at = 5000000\<rparr>], secret_versions = [sample_version]\<rparr>"

definition sample_issued :: issued where "sample_issued = [(1, 2, 1) \<mapsto> encode_public sample_secret]"

lemma sample_aead_sound: "aead_sound sample_aead"
  by (simp add: aead_sound_def sample_aead_def)

lemma sample_created:
  "create_secret sample_aead \<lparr>mks_keys = [sample_master], mks_current_key_id = ''k1''\<rparr> 2 sample_secret (replicate 12 (CHR ''n'')) sample_owner
     (Aware 5000000) \<lparr>secret_sets = [], secret_versions = []\<rparr> =
   Inr (\<lparr>cs_secret_set_id = 2, cs_version = 1, cs_plaintext = encode_public sample_secret\<rparr>, sample_vault)"
proof -
  have k: "current_key \<lparr>mks_keys = [sample_master], mks_current_key_id = ''k1''\<rparr> = Inr sample_master"
    by (simp add: current_key_def key_for_def sample_master_def)
  have ok: "secret_version_ok sample_version" "list_all secret_set_ok (secret_sets sample_vault)" by code_simp+
  show ?thesis
    using k ok by (simp add: create_secret_def secret_time_def insert_secret_set_def insert_secret_version_def sample_owner_def set_key_def
        sample_version_def [symmetric] sample_vault_def ensure_def) (simp add: sample_version_def)
qed

lemma sample_reached: "(secret_step sample_aead [sample_master])\<^sup>*\<^sup>* (\<lparr>secret_sets = [], secret_versions = []\<rparr>, \<lambda>_. None) (sample_vault, sample_issued)"
  using secret_step.create [OF sample_created, of "\<lambda>_. None"] by (simp add: sample_owner_def sample_issued_def r_into_rtranclp)

lemma sample_empty: "empty_secrets (\<lparr>secret_sets = [], secret_versions = []\<rparr>, \<lambda>_. None)"
  by (simp add: empty_secrets_def)

lemma sample_eligible:
  "eligible_for_signing sample_aead \<lparr>mks_keys = [sample_master], mks_current_key_id = ''k1''\<rparr> 1 2 6000000 sample_vault =
    Inr [\<lparr>sg_version = 1, sg_material = sample_secret\<rparr>]" "eligible_versions 1 2 6000000 sample_vault = {1}"
proof -
  have e: "eligible_row 1 2 6000000 sample_version" by (simp add: eligible_row_def sample_version_def)
  have "open_secret sample_aead \<lparr>mks_keys = [sample_master], mks_current_key_id = ''k1''\<rparr> sample_version = Inr \<lparr>sg_version = 1, sg_material = sample_secret\<rparr>"
    by (simp add: open_secret_def key_for_def decrypt_secret_def sample_version_def new_version_row_def encrypt_secret_def sample_aead_def sample_master_def)
  with e show "eligible_for_signing sample_aead \<lparr>mks_keys = [sample_master], mks_current_key_id = ''k1''\<rparr> 1 2 6000000 sample_vault =
    Inr [\<lparr>sg_version = 1, sg_material = sample_secret\<rparr>]" by (simp add: eligible_for_signing_def sample_vault_def)
  from e show "eligible_versions 1 2 6000000 sample_vault = {1}" by (simp add: eligible_versions_def sample_vault_def) (simp add: sample_version_def)
qed

theorem eligible_secrets_as_issued_witness:
  "sample_issued (1, 2, 1) = Some (encode_public sample_secret) \<and> sorted_wrt (>) (map sg_version [\<lparr>sg_version = 1, sg_material = sample_secret\<rparr>])"
  using eligible_secrets_as_issued [OF sample_aead_sound sample_empty sample_reached, where i = "''k1''" and t = 1 and s = 2 and now = 6000000] sample_eligible(1) by simp

text \<open>
  C30. Revocation is final: after a committed revocation, no later sequence of creations, rotations and revocations makes the version
  eligible again, at any time.
\<close>

theorem revoked_secret_never_signs:
  assumes "aead_sound a" and "empty_secrets s0" and "(secret_step a ks)\<^sup>*\<^sup>* s0 (db, g)"
    and "revoke_secret p set_id version revision revoked_at db = Inr db1" and "(secret_step a ks)\<^sup>*\<^sup>* (db1, g) (db2, g2)"
  shows "version \<notin> eligible_versions (p_tenant_id p) set_id now db2"
proof -
  let ?key = "(p_tenant_id p, set_id, version)"
  have inv: "secrets_inv a ks (db, g)" by (rule secrets_reachable [OF assms(1-3)])
  have inv1: "secrets_inv a ks (db1, g)" by (rule revoke_secret_inv(1) [OF inv assms(4)])
  from revoke_secret_inv(2) [OF inv assms(4)] obtain r' where r': "sv_state r' = RevokedSecret" "version_key r' = ?key"
    "version_key r' \<in> version_key ` set (secret_versions db)"
    "secret_versions db1 = update_where (\<lambda>x. version_key x = version_key r') (\<lambda>_. r') (secret_versions db)" by blast
  then have "r' \<in> set (secret_versions db1)" by (force simp: set_update_where)
  then have "revoked_version ?key (db1, g)" using r' by (auto simp: revoked_version_def)
  then have late: "secrets_inv a ks (db2, g2) \<and> revoked_version ?key (db2, g2)"
    using secrets_machine.stable_steps [OF sound_steps [OF assms(1,5)] inv1] by blast
  then obtain r where r: "r \<in> set (secret_versions db2)" "version_key r = ?key" "sv_state r = RevokedSecret" by (auto simp: revoked_version_def)
  have "\<not> eligible_row (p_tenant_id p) set_id now x" if "x \<in> set (secret_versions db2)" "sv_secret_version x = version" for x
  proof
    assume e: "eligible_row (p_tenant_id p) set_id now x"
    then have "version_key x = ?key" using that(2) by (simp add: eligible_row_def version_key_iff)
    then have "x = r" using late r(1,2) that(1) by (metis distinct_map inj_onD secrets_inv.simps)
    then show False using e r(3) by (simp add: eligible_row_def)
  qed
  then show ?thesis by (auto simp: eligible_versions_def)
qed

lemma sample_revoked: "\<exists>db1. revoke_secret sample_owner 2 1 1 7000000 sample_vault = Inr db1"
proof -
  have "case revoke_secret sample_owner 2 1 1 7000000 sample_vault of Inr _ \<Rightarrow> True | Inl _ \<Rightarrow> False" by code_simp
  then show ?thesis by (auto split: sum.splits)
qed

theorem revoked_secret_never_signs_witness:
  "\<exists>db1. revoke_secret sample_owner 2 1 1 7000000 sample_vault = Inr db1 \<and> 1 \<notin> eligible_versions 1 2 8000000 db1"
proof -
  obtain db1 where r: "revoke_secret sample_owner 2 1 1 7000000 sample_vault = Inr db1" using sample_revoked by blast
  from revoked_secret_never_signs [OF sample_aead_sound sample_empty sample_reached r rtranclp.rtrancl_refl, of 8000000] r
  show ?thesis by (auto simp: sample_owner_def)
qed



end
