(* ===== verification/Webhook_Subscriptions.thy ===== *)
theory Webhook_Subscriptions
  imports Webhook_Address Webhook_Secrets Routing Repository Leasing
begin

text \<open>
  \<^verbatim>\<open>webhooks/subscriptions.py\<close> and \<^verbatim>\<open>webhooks/operations.py\<close>: versioned subscriptions over their tables (\<^verbatim>\<open>webhooks/models.py\<close>), the
  route provider that snapshots active versions, health accounting with its automatic pause, and the guarded management operations.
  Times are instants; fresh identifiers and the IDNA codec are arguments. The metric
  of a health record, which follows its commit, is part of \<open>Webhook_Sink\<close>.
\<close>

section \<open>Tables\<close>

datatype subscription_state = ActiveSubscription | PausedSubscription | DisabledSubscription

fun subscription_state_value :: "subscription_state \<Rightarrow> string" where
  "subscription_state_value ActiveSubscription = ''active''"
| "subscription_state_value PausedSubscription = ''paused''"
| "subscription_state_value DisabledSubscription = ''disabled''"

record subscription_row =
  sb_tenant_id :: uuid
  sb_subscription_id :: uuid
  sb_current_version :: int
  sb_revision :: int
  sb_state :: subscription_state
  sb_failure_streak :: int
  sb_auto_pause_threshold :: int
  sb_created_by :: string
  sb_updated_by :: string
  sb_created_at :: int
  sb_updated_at :: int

record subscription_version_row =
  sx_tenant_id :: uuid
  sx_subscription_id :: uuid
  sx_version :: int
  sx_exact_event_types :: "string list"
  sx_endpoint_url :: string
  sx_retry_policy :: "(string \<times> json) list"
  sx_secret_set_id :: uuid
  sx_created_by :: string
  sx_created_at :: int

record webhook_audit_row =
  wa_tenant_id :: uuid
  wa_audit_id :: uuid
  wa_subject_id :: string
  wa_action :: string
  wa_target_kind :: string
  wa_target_id :: uuid
  wa_details :: "(string \<times> json) list"
  wa_occurred_at :: int

record webhook_db =
  wh_secrets :: secret_db
  wh_subscriptions :: "subscription_row list"
  wh_versions :: "subscription_version_row list"
  wh_audit :: "webhook_audit_row list"

definition subscription_key :: "subscription_row \<Rightarrow> uuid \<times> uuid" where
  "subscription_key r = (sb_tenant_id r, sb_subscription_id r)"

definition sx_subscription :: "subscription_version_row \<Rightarrow> uuid \<times> uuid" where
  "sx_subscription v = (sx_tenant_id v, sx_subscription_id v)"

definition subscription_row_ok :: "subscription_row \<Rightarrow> bool" where
  "subscription_row_ok r \<longleftrightarrow>
     0 < sb_current_version r \<and> int4 (sb_current_version r) \<and> 0 < sb_revision r \<and> int4 (sb_revision r) \<and>
     0 \<le> sb_failure_streak r \<and> int4 (sb_failure_streak r) \<and> 0 < sb_auto_pause_threshold r \<and> int4 (sb_auto_pause_threshold r) \<and>
     varchar 512 (Some (sb_created_by r)) \<and> varchar 512 (Some (sb_updated_by r))"

definition subscription_version_ok :: "subscription_version_row \<Rightarrow> bool" where
  "subscription_version_ok v \<longleftrightarrow> 0 < sx_version v \<and> int4 (sx_version v) \<and> varchar 512 (Some (sx_created_by v))"

definition audit_ok :: "webhook_audit_row \<Rightarrow> bool" where
  "audit_ok r \<longleftrightarrow> varchar 512 (Some (wa_subject_id r)) \<and> varchar 128 (Some (wa_action r)) \<and> varchar 64 (Some (wa_target_kind r))"

definition insert_subscription :: "subscription_row \<Rightarrow> webhook_db \<Rightarrow> webhook_db result" where
  "insert_subscription r db =
     (if \<not> subscription_row_ok r then Inl check_violation
      else if subscription_key r \<in> subscription_key ` set (wh_subscriptions db) then Inl unique_violation
      else Inr (db\<lparr>wh_subscriptions := wh_subscriptions db @ [r]\<rparr>))"

definition update_subscription_row :: "subscription_row \<Rightarrow> webhook_db \<Rightarrow> webhook_db result" where
  "update_subscription_row r db =
     (if \<not> subscription_row_ok r then Inl check_violation
      else Inr (db\<lparr>wh_subscriptions := update_where (\<lambda>x. subscription_key x = subscription_key r) (\<lambda>_. r) (wh_subscriptions db)\<rparr>))"

definition insert_subscription_version :: "subscription_version_row \<Rightarrow> webhook_db \<Rightarrow> webhook_db result" where
  "insert_subscription_version v db =
     (if \<not> subscription_version_ok v then Inl check_violation
      else if (sx_subscription v, sx_version v) \<in> (\<lambda>x. (sx_subscription x, sx_version x)) ` set (wh_versions db) then Inl unique_violation
      else if sx_subscription v \<notin> subscription_key ` set (wh_subscriptions db) \<or>
              (sx_tenant_id v, sx_secret_set_id v) \<notin> set_key ` set (secret_sets (wh_secrets db)) then Inl foreign_key_violation
      else Inr (db\<lparr>wh_versions := wh_versions db @ [v]\<rparr>))"

definition insert_audit :: "webhook_audit_row \<Rightarrow> webhook_db \<Rightarrow> webhook_db result" where
  "insert_audit r db =
     (if \<not> audit_ok r then Inl check_violation
      else if (wa_tenant_id r, wa_audit_id r) \<in> (\<lambda>x. (wa_tenant_id x, wa_audit_id x)) ` set (wh_audit db) then Inl unique_violation
      else Inr (db\<lparr>wh_audit := wh_audit db @ [r]\<rparr>))"

section \<open>Subscriptions\<close>

record webhook_subscription =
  ws_tenant_id :: uuid
  ws_subscription_id :: uuid
  ws_version :: int
  ws_revision :: int
  ws_exact_event_types :: "string list"
  ws_endpoint_url :: string
  ws_state :: subscription_state
  ws_retry_policy :: retry_policy
  ws_secret_set_id :: uuid
  ws_failure_streak :: int
  ws_auto_pause_threshold :: int
  ws_created_at :: int
  ws_updated_at :: int

definition subscription_of :: "subscription_row \<Rightarrow> subscription_version_row \<Rightarrow> webhook_subscription result" where
  "subscription_of h v =
     and_then (policy_from_dict (sx_retry_policy v)) (\<lambda>policy.
       Inr \<lparr>ws_tenant_id = sb_tenant_id h, ws_subscription_id = sb_subscription_id h, ws_version = sx_version v, ws_revision = sb_revision h,
            ws_exact_event_types = sx_exact_event_types v, ws_endpoint_url = sx_endpoint_url v, ws_state = sb_state h, ws_retry_policy = policy,
            ws_secret_set_id = sx_secret_set_id v, ws_failure_streak = sb_failure_streak h, ws_auto_pause_threshold = sb_auto_pause_threshold h,
            ws_created_at = sb_created_at h, ws_updated_at = sb_updated_at h\<rparr>)"

definition normalize_event_types :: "string list \<Rightarrow> string list result" where
  "normalize_event_types values =
     (let result = frozenset values in
      if result = [] \<or> 64 < length result \<or> list_ex (\<lambda>x. \<not> stable_key x) result then config_error ''Webhook exact event types are invalid.''
      else Inr result)"

definition validate_threshold :: "int \<Rightarrow> unit result" where
  "validate_threshold v = ensure (1 \<le> v \<and> v \<le> 10000) (ConfigurationError ''Webhook auto-pause threshold is invalid.'')"

definition require_secret_set :: "uuid \<Rightarrow> uuid \<Rightarrow> webhook_db \<Rightarrow> unit result" where
  "require_secret_set tenant_id secret_set_id db =
     (case find_secret_set tenant_id secret_set_id (wh_secrets db) of
        None \<Rightarrow> config_error ''Webhook secret set does not exist.'' | Some _ \<Rightarrow> Inr ())"

definition subscription_audit :: "uuid \<Rightarrow> uuid \<Rightarrow> string \<Rightarrow> string \<Rightarrow> uuid \<Rightarrow> (string \<times> json) list \<Rightarrow> int \<Rightarrow> webhook_audit_row" where
  "subscription_audit audit_id tenant_id subject action target_id details now =
     \<lparr>wa_tenant_id = tenant_id, wa_audit_id = audit_id, wa_subject_id = subject, wa_action = action, wa_target_kind = ''subscription'',
      wa_target_id = target_id, wa_details = details, wa_occurred_at = now\<rparr>"

definition find_head :: "uuid \<Rightarrow> uuid \<Rightarrow> webhook_db \<Rightarrow> subscription_row option" where
  "find_head tenant_id subscription_id db = find (\<lambda>r. subscription_key r = (tenant_id, subscription_id)) (wh_subscriptions db)"

definition locked_head :: "uuid \<Rightarrow> uuid \<Rightarrow> webhook_db \<Rightarrow> subscription_row result" where
  "locked_head tenant_id subscription_id db =
     (case find_head tenant_id subscription_id db of None \<Rightarrow> config_error ''Webhook subscription does not exist.'' | Some h \<Rightarrow> Inr h)"

definition is_current :: "subscription_row \<Rightarrow> subscription_version_row \<Rightarrow> bool" where
  "is_current h v \<longleftrightarrow> sx_subscription v = subscription_key h \<and> sx_version v = sb_current_version h"

definition current_version :: "subscription_row \<Rightarrow> webhook_db \<Rightarrow> subscription_version_row result" where
  "current_version h db =
     (case find (is_current h) (wh_versions db) of None \<Rightarrow> config_error ''Webhook subscription version is missing.'' | Some v \<Rightarrow> Inr v)"

definition new_subscription_version ::
  "principal \<Rightarrow> uuid \<Rightarrow> int \<Rightarrow> string list \<Rightarrow> endpoint_target \<Rightarrow> retry_policy \<Rightarrow> uuid \<Rightarrow> int \<Rightarrow> subscription_version_row" where
  "new_subscription_version p subscription_id version event_types endpoint policy secret_set_id now =
     \<lparr>sx_tenant_id = p_tenant_id p, sx_subscription_id = subscription_id, sx_version = version, sx_exact_event_types = event_types,
      sx_endpoint_url = et_url endpoint, sx_retry_policy = policy_to_dict policy, sx_secret_set_id = secret_set_id,
      sx_created_by = subject_id p, sx_created_at = now\<rparr>"

definition create_subscription ::
  "(string \<Rightarrow> string option) \<Rightarrow> uuid \<Rightarrow> uuid \<Rightarrow> principal \<Rightarrow> string list \<Rightarrow> string \<Rightarrow> retry_policy \<Rightarrow> uuid \<Rightarrow> int \<Rightarrow> int \<Rightarrow> webhook_db \<Rightarrow>
   (webhook_subscription \<times> webhook_db) result" where
  "create_subscription idna fresh audit_id p exact_event_types endpoint_url policy secret_set_id now threshold db =
     and_then (normalize_event_types exact_event_types) (\<lambda>event_types.
     and_then (parse_endpoint idna True [443] endpoint_url) (\<lambda>endpoint.
     and_then (validate_threshold threshold) (\<lambda>_.
     and_then (require_secret_set (p_tenant_id p) secret_set_id db) (\<lambda>_.
     let head = \<lparr>sb_tenant_id = p_tenant_id p, sb_subscription_id = fresh, sb_current_version = 1, sb_revision = 1, sb_state = ActiveSubscription,
           sb_failure_streak = 0, sb_auto_pause_threshold = threshold, sb_created_by = subject_id p, sb_updated_by = subject_id p,
           sb_created_at = now, sb_updated_at = now\<rparr>;
         version = new_subscription_version p fresh 1 event_types endpoint policy secret_set_id now in
     and_then (insert_subscription head db) (\<lambda>db1.
     and_then (insert_subscription_version version db1) (\<lambda>db2.
     and_then (insert_audit (subscription_audit audit_id (p_tenant_id p) (subject_id p) ''subscription.created'' fresh [(''version'', JInt 1)] now) db2) (\<lambda>db3.
     and_then (subscription_of head version) (\<lambda>s. Inr (s, db3)))))))))"

definition update_subscription ::
  "(string \<Rightarrow> string option) \<Rightarrow> uuid \<Rightarrow> principal \<Rightarrow> uuid \<Rightarrow> int \<Rightarrow> string list \<Rightarrow> string \<Rightarrow> retry_policy \<Rightarrow> uuid \<Rightarrow> int \<Rightarrow> webhook_db \<Rightarrow>
   (webhook_subscription \<times> webhook_db) result" where
  "update_subscription idna audit_id p subscription_id expected_revision exact_event_types endpoint_url policy secret_set_id now db =
     and_then (locked_head (p_tenant_id p) subscription_id db) (\<lambda>head.
     if sb_revision head \<noteq> expected_revision then Inl (OptimisticConflict ''webhook_subscription'')
     else
     and_then (normalize_event_types exact_event_types) (\<lambda>event_types.
     and_then (parse_endpoint idna True [443] endpoint_url) (\<lambda>endpoint.
     and_then (require_secret_set (p_tenant_id p) secret_set_id db) (\<lambda>_.
     let next_version = sb_current_version head + 1;
         version = new_subscription_version p subscription_id next_version event_types endpoint policy secret_set_id now;
         head' = head\<lparr>sb_current_version := next_version, sb_revision := sb_revision head + 1, sb_updated_by := subject_id p, sb_updated_at := now\<rparr> in
     and_then (insert_subscription_version version db) (\<lambda>db1.
     and_then (update_subscription_row head' db1) (\<lambda>db2.
     and_then (insert_audit (subscription_audit audit_id (p_tenant_id p) (subject_id p) ''subscription.updated'' subscription_id
                 [(''version'', JInt next_version)] now) db2) (\<lambda>db3.
     and_then (subscription_of head' version) (\<lambda>s. Inr (s, db3)))))))))"

definition set_subscription_state ::
  "uuid \<Rightarrow> principal \<Rightarrow> uuid \<Rightarrow> int \<Rightarrow> subscription_state \<Rightarrow> int \<Rightarrow> string option \<Rightarrow> webhook_db \<Rightarrow> (webhook_subscription \<times> webhook_db) result" where
  "set_subscription_state audit_id p subscription_id expected_revision state now action db =
     and_then (locked_head (p_tenant_id p) subscription_id db) (\<lambda>head.
     if sb_revision head \<noteq> expected_revision then Inl (OptimisticConflict ''webhook_subscription'')
     else
     let head' = head\<lparr>sb_state := state, sb_revision := sb_revision head + 1, sb_updated_by := subject_id p, sb_updated_at := now\<rparr> in
     and_then (update_subscription_row head' db) (\<lambda>db1.
     and_then (current_version head' db1) (\<lambda>version.
     and_then (insert_audit (subscription_audit audit_id (p_tenant_id p) (subject_id p)
                 (case action of Some a \<Rightarrow> if a = [] then ''subscription.'' @ subscription_state_value state else a
                  | None \<Rightarrow> ''subscription.'' @ subscription_state_value state)
                 subscription_id [(''revision'', JInt (sb_revision head'))] now) db1) (\<lambda>db2.
     and_then (subscription_of head' version) (\<lambda>s. Inr (s, db2))))))"

definition get_subscription :: "uuid \<Rightarrow> uuid \<Rightarrow> webhook_db \<Rightarrow> webhook_subscription option result" where
  "get_subscription tenant_id subscription_id db =
     (case find_head tenant_id subscription_id db of
        None \<Rightarrow> Inr None
      | Some head \<Rightarrow> and_then (current_version head db) (\<lambda>v. and_then (subscription_of head v) (\<lambda>s. Inr (Some s))))"

section \<open>Routes\<close>

definition webhook_route :: "(rat \<Rightarrow> string) \<Rightarrow> string \<Rightarrow> subscription_row \<times> subscription_version_row \<Rightarrow> route_spec result" where
  "webhook_route frepr event_type hv =
     (let (head, version) = hv in
      and_then (policy_from_dict (sx_retry_policy version)) (\<lambda>policy.
      route_post_init frepr
        \<lparr>r_event_type = event_type, r_route_key = ''webhook.'' @ uuid_hex (sb_subscription_id head), r_version = sx_version version,
         r_destination_kind = ''webhook'', r_destination_key = uuid_hex (sb_subscription_id head), r_required_scopes = [],
         r_authorization = Snapshot, r_service_policy = None, r_service_capabilities = None,
         r_maximum_snapshot_age_seconds = Some 315360000, r_retry_policy = policy,
         r_destination_metadata = JObj
           [(''subscription_id'', JStr (uuid_str (sb_subscription_id head))), (''subscription_version'', JInt (sx_version version)),
            (''endpoint_url'', JStr (sx_endpoint_url version)), (''secret_set_id'', JStr (uuid_str (sx_secret_set_id version)))]\<rparr>))"

text \<open>The join of heads with their current versions, by subscription ID.\<close>

definition subscribed :: "uuid \<Rightarrow> string \<Rightarrow> subscription_row \<times> subscription_version_row \<Rightarrow> bool" where
  "subscribed tenant_id event_type hv \<longleftrightarrow>
     is_current (fst hv) (snd hv) \<and> sb_tenant_id (fst hv) = tenant_id \<and> sb_state (fst hv) = ActiveSubscription \<and>
     event_type \<in> set (sx_exact_event_types (snd hv))"

definition subscribed_rows :: "uuid \<Rightarrow> string \<Rightarrow> webhook_db \<Rightarrow> (subscription_row \<times> subscription_version_row) list" where
  "subscribed_rows tenant_id event_type db =
     sort_key (\<lambda>hv. sb_subscription_id (fst hv))
       (filter (subscribed tenant_id event_type) (List.product (wh_subscriptions db) (wh_versions db)))"

definition webhook_routes_for :: "(rat \<Rightarrow> string) \<Rightarrow> principal \<Rightarrow> string \<Rightarrow> webhook_db \<Rightarrow> route_spec list result" where
  "webhook_routes_for frepr p event_type db = traverse (webhook_route frepr event_type) (subscribed_rows (p_tenant_id p) event_type db)"

section \<open>Health\<close>

definition health_target :: "uuid \<Rightarrow> uuid \<Rightarrow> webhook_db \<Rightarrow> subscription_row result" where
  "health_target tenant_id subscription_id db =
     (case find_head tenant_id subscription_id db of None \<Rightarrow> config_error ''Webhook health target no longer exists.'' | Some h \<Rightarrow> Inr h)"

definition touch_health :: "int \<Rightarrow> int \<Rightarrow> subscription_row \<Rightarrow> subscription_row" where
  "touch_health streak now row =
     row\<lparr>sb_failure_streak := streak, sb_revision := sb_revision row + 1, sb_updated_by := ''relay:webhook'', sb_updated_at := now\<rparr>"

definition record_health_success :: "uuid \<Rightarrow> uuid \<Rightarrow> int \<Rightarrow> webhook_db \<Rightarrow> webhook_db result" where
  "record_health_success tenant_id subscription_id now db =
     and_then (health_target tenant_id subscription_id db) (\<lambda>row.
       if sb_failure_streak row \<noteq> 0 then update_subscription_row (touch_health 0 now row) db else Inr db)"

definition record_health_failure :: "uuid \<Rightarrow> uuid \<Rightarrow> uuid \<Rightarrow> int \<Rightarrow> webhook_db \<Rightarrow> webhook_db result" where
  "record_health_failure audit_id tenant_id subscription_id now db =
     and_then (health_target tenant_id subscription_id db) (\<lambda>row.
     let row' = touch_health (sb_failure_streak row + 1) now row in
     if sb_state row' = ActiveSubscription \<and> sb_auto_pause_threshold row' \<le> sb_failure_streak row'
     then and_then (update_subscription_row (row'\<lparr>sb_state := PausedSubscription\<rparr>) db)
            (insert_audit (subscription_audit audit_id tenant_id ''relay:webhook'' ''subscription.auto_paused'' subscription_id
               [(''failure_streak'', JInt (sb_failure_streak row'))] now))
     else update_subscription_row row' db)"

section \<open>Management operations\<close>

definition require_webhook_management :: "principal \<Rightarrow> unit result" where
  "require_webhook_management p =
     ensure (list_ex (\<lambda>s. s \<in> set (scopes p)) [''webhooks:manage'', ''fastapi_effects:operator'']) AuthorizationDenied"

definition pause_subscription :: "uuid \<Rightarrow> principal \<Rightarrow> uuid \<Rightarrow> int \<Rightarrow> int \<Rightarrow> webhook_db \<Rightarrow> (webhook_subscription \<times> webhook_db) result" where
  "pause_subscription audit_id p subscription_id expected_revision now db =
     and_then (require_webhook_management p) (\<lambda>_.
       set_subscription_state audit_id p subscription_id expected_revision PausedSubscription now None db)"

definition reactivate_subscription :: "uuid \<Rightarrow> principal \<Rightarrow> uuid \<Rightarrow> int \<Rightarrow> int \<Rightarrow> webhook_db \<Rightarrow> (webhook_subscription \<times> webhook_db) result" where
  "reactivate_subscription audit_id p subscription_id expected_revision now db =
     and_then (require_webhook_management p) (\<lambda>_.
       set_subscription_state audit_id p subscription_id expected_revision ActiveSubscription now None db)"

definition rotate_webhook_secret ::
  "aead \<Rightarrow> master_keys \<Rightarrow> bytes \<Rightarrow> bytes \<Rightarrow> principal \<Rightarrow> uuid \<Rightarrow> int \<Rightarrow> int \<Rightarrow> py_datetime \<Rightarrow> webhook_db \<Rightarrow> (created_secret \<times> webhook_db) result" where
  "rotate_webhook_secret a keys material nonce p secret_set_id expected_revision overlap now db =
     and_then (require_webhook_management p) (\<lambda>_.
     and_then (rotate_secret a keys material nonce p secret_set_id expected_revision overlap now (wh_secrets db)) (\<lambda>(c, secrets).
       Inr (c, db\<lparr>wh_secrets := secrets\<rparr>)))"

definition webhook_delivery :: "principal \<Rightarrow> uuid \<Rightarrow> 'x db_scheme \<Rightarrow> delivery_record option result" where
  "webhook_delivery p delivery_id db =
     and_then (require_webhook_management p) (\<lambda>_.
       case find (\<lambda>d. d_tenant_id d = p_tenant_id p \<and> d_delivery_id d = delivery_id \<and> d_destination_kind d = ''webhook'') (deliveries db) of
         None \<Rightarrow> Inr None | Some row \<Rightarrow> and_then (delivery_from_row row) (\<lambda>d. Inr (Some d)))"

definition webhook_replay :: "bool \<Rightarrow> principal \<Rightarrow> uuid \<Rightarrow> string \<Rightarrow> int \<Rightarrow> uuid \<Rightarrow> 'x db_scheme \<Rightarrow> ('x db_scheme \<times> delivery_record) result" where
  "webhook_replay busy p delivery_id reason now replay_id db =
     and_then (require_webhook_management p) (\<lambda>_.
       replay_in_transaction busy (p_tenant_id p) delivery_id (subject_id p) reason now (Some ''webhook'') replay_id db)"

section \<open>The invariant of the subscription tables\<close>

text \<open>
  Beside the schema's constraints: the versions of a subscription are numbered from one to its current version without a gap, its revision
  counts at least its versions, and every version holds normalised event types, a readable policy and the URL of a parsed endpoint.
\<close>

definition version_number :: "subscription_version_row \<Rightarrow> (uuid \<times> uuid) \<times> int" where
  "version_number v = (sx_subscription v, sx_version v)"

definition history_ok :: "webhook_db \<Rightarrow> subscription_row \<Rightarrow> bool" where
  "history_ok db h \<longleftrightarrow> sb_current_version h \<le> sb_revision h \<and>
     {n. (subscription_key h, n) \<in> version_number ` set (wh_versions db)} = {1..sb_current_version h}"

definition version_sound :: "(string \<Rightarrow> string option) \<Rightarrow> webhook_db \<Rightarrow> subscription_version_row \<Rightarrow> bool" where
  "version_sound idna db v \<longleftrightarrow>
     sx_subscription v \<in> subscription_key ` set (wh_subscriptions db) \<and> (sx_tenant_id v, sx_secret_set_id v) \<in> set_key ` set (secret_sets (wh_secrets db)) \<and>
     normalize_event_types (sx_exact_event_types v) = Inr (sx_exact_event_types v) \<and> (\<exists>policy. policy_from_dict (sx_retry_policy v) = Inr policy) \<and>
     (\<exists>url e. parse_endpoint idna True [443] url = Inr e \<and> sx_endpoint_url v = et_url e)"

definition subscriptions_inv :: "(string \<Rightarrow> string option) \<Rightarrow> webhook_db \<Rightarrow> bool" where
  "subscriptions_inv idna db \<longleftrightarrow>
     distinct (map subscription_key (wh_subscriptions db)) \<and> distinct (map version_number (wh_versions db)) \<and>
     list_all (\<lambda>h. subscription_row_ok h \<and> history_ok db h) (wh_subscriptions db) \<and> list_all (version_sound idna db) (wh_versions db)"

definition empty_webhooks :: "webhook_db \<Rightarrow> bool" where
  "empty_webhooks db \<longleftrightarrow> db = \<lparr>wh_secrets = \<lparr>secret_sets = [], secret_versions = []\<rparr>, wh_subscriptions = [], wh_versions = [], wh_audit = []\<rparr>"

inductive webhook_step :: "(string \<Rightarrow> string option) \<Rightarrow> webhook_db \<Rightarrow> webhook_db \<Rightarrow> bool" for idna where
  create: "create_subscription idna fresh audit_id p types url policy secret_set_id now threshold db = Inr (s, db') \<Longrightarrow> webhook_step idna db db'"
| update: "update_subscription idna audit_id p i revision types url policy secret_set_id now db = Inr (s, db') \<Longrightarrow> webhook_step idna db db'"
| set_state: "set_subscription_state audit_id p i revision state now action db = Inr (s, db') \<Longrightarrow> webhook_step idna db db'"
| succeed: "record_health_success t i now db = Inr db' \<Longrightarrow> webhook_step idna db db'"
| fail: "record_health_failure audit_id t i now db = Inr db' \<Longrightarrow> webhook_step idna db db'"
| secrets: "secret_step a ks (wh_secrets db, g) (secrets', g') \<Longrightarrow> webhook_step idna db (db\<lparr>wh_secrets := secrets'\<rparr>)"

text \<open>Every operation on an existing subscription writes one head row; an update also appends the next version.\<close>

definition head_written :: "subscription_row \<Rightarrow> subscription_row \<Rightarrow> webhook_db \<Rightarrow> webhook_db \<Rightarrow> bool" where
  "head_written h h' db db' \<longleftrightarrow>
     h \<in> set (wh_subscriptions db) \<and> subscription_key h' = subscription_key h \<and> subscription_row_ok h' \<and> sb_revision h' = sb_revision h + 1 \<and>
     wh_subscriptions db' = update_where (\<lambda>x. subscription_key x = subscription_key h) (\<lambda>_. h') (wh_subscriptions db) \<and> wh_secrets db' = wh_secrets db"

lemma insert_audit_Inr: "insert_audit r db = Inr db' \<longleftrightarrow> db' = db\<lparr>wh_audit := wh_audit db @ [r]\<rparr> \<and> audit_ok r \<and>
    (wa_tenant_id r, wa_audit_id r) \<notin> (\<lambda>x. (wa_tenant_id x, wa_audit_id x)) ` set (wh_audit db)"
  by (auto simp: insert_audit_def)

lemma update_subscription_row_Inr: "update_subscription_row r db = Inr db' \<longleftrightarrow> subscription_row_ok r \<and>
    db' = db\<lparr>wh_subscriptions := update_where (\<lambda>x. subscription_key x = subscription_key r) (\<lambda>_. r) (wh_subscriptions db)\<rparr>"
  by (auto simp: update_subscription_row_def)

lemma insert_subscription_version_Inr: "insert_subscription_version v db = Inr db' \<longleftrightarrow> subscription_version_ok v \<and>
    version_number v \<notin> version_number ` set (wh_versions db) \<and> sx_subscription v \<in> subscription_key ` set (wh_subscriptions db) \<and>
    (sx_tenant_id v, sx_secret_set_id v) \<in> set_key ` set (secret_sets (wh_secrets db)) \<and> db' = db\<lparr>wh_versions := wh_versions db @ [v]\<rparr>"
  by (auto simp: insert_subscription_version_def version_number_def)

lemma find_head_Some: "find_head t i db = Some h \<Longrightarrow> h \<in> set (wh_subscriptions db) \<and> subscription_key h = (t, i)"
  by (auto simp: find_head_def dest: find_SomeD)

lemma locked_head_Inr: "locked_head t i db = Inr h \<Longrightarrow> find_head t i db = Some h"
  by (auto simp: locked_head_def split: option.splits)

lemma health_target_Inr: "health_target t i db = Inr h \<Longrightarrow> find_head t i db = Some h"
  by (auto simp: health_target_def split: option.splits)

lemma normalize_event_types_idem: "normalize_event_types values = Inr types \<Longrightarrow> normalize_event_types types = Inr types"
  by (auto simp: normalize_event_types_def Let_def frozenset_def remdups_id_iff_distinct [THEN iffD2] sorted_sort_id split: if_splits)

lemma update_subscription_parts:
  assumes "update_subscription idna audit_id p i revision types url policy secret_set_id now db = Inr (s, db')"
  obtains h h' v where "find_head (p_tenant_id p) i db = Some h" "sb_revision h = revision" "head_written h h' db db'"
    "sb_current_version h' = sb_current_version h + 1" "wh_versions db' = wh_versions db @ [v]" "is_current h' v" "version_sound idna db v"
    "version_number v \<notin> version_number ` set (wh_versions db)" "subscription_of h' v = Inr s" "sb_state h' = sb_state h"
    "sb_failure_streak h' = sb_failure_streak h" "sb_auto_pause_threshold h' = sb_auto_pause_threshold h"
proof -
  from assms obtain h where h: "locked_head (p_tenant_id p) i db = Inr h" "sb_revision h = revision"
    by (cases "locked_head (p_tenant_id p) i db") (auto simp: update_subscription_def split: if_splits)
  note head = find_head_Some [OF locked_head_Inr [OF h(1)]]
  from assms h obtain types' e db1 db2 where parts: "normalize_event_types types = Inr types'" "parse_endpoint idna True [443] url = Inr e"
    and v: "insert_subscription_version (new_subscription_version p i (sb_current_version h + 1) types' e policy secret_set_id now) db = Inr db1"
    and u: "update_subscription_row (h\<lparr>sb_current_version := sb_current_version h + 1, sb_revision := sb_revision h + 1, sb_updated_by := subject_id p, sb_updated_at := now\<rparr>) db1 = Inr db2"
    and a: "wh_subscriptions db' = wh_subscriptions db2" "wh_versions db' = wh_versions db2" "wh_secrets db' = wh_secrets db2"
    and s: "subscription_of (h\<lparr>sb_current_version := sb_current_version h + 1, sb_revision := sb_revision h + 1, sb_updated_by := subject_id p, sb_updated_at := now\<rparr>)
       (new_subscription_version p i (sb_current_version h + 1) types' e policy secret_set_id now) = Inr s"
    by (simp add: update_subscription_def Let_def and_then_Inr_iff insert_audit_Inr) (elim exE conjE, drule sym [of _ db'], simp)
  let ?h = "h\<lparr>sb_current_version := sb_current_version h + 1, sb_revision := sb_revision h + 1, sb_updated_by := subject_id p, sb_updated_at := now\<rparr>"
  let ?v = "new_subscription_version p i (sb_current_version h + 1) types' e policy secret_set_id now"
  have "head_written h ?h db db'" using head u v a by (auto simp: head_written_def subscription_key_def update_subscription_row_Inr insert_subscription_version_Inr)
  moreover have "is_current ?h ?v" using head by (simp add: is_current_def sx_subscription_def subscription_key_def new_subscription_version_def)
  moreover have "version_sound idna db ?v"
    using parts s v normalize_event_types_idem [OF parts(1)]
    by (auto simp: version_sound_def insert_subscription_version_Inr subscription_of_def and_then_Inr_iff) (auto simp: new_subscription_version_def)
  ultimately show ?thesis
    using that [of h ?h ?v] locked_head_Inr [OF h(1)] h(2) s u v a by (auto simp: update_subscription_row_Inr insert_subscription_version_Inr)
qed

lemma set_state_parts:
  assumes "set_subscription_state audit_id p i revision state now action db = Inr (s, db')"
  obtains h h' v where "find_head (p_tenant_id p) i db = Some h" "sb_revision h = revision" "head_written h h' db db'"
    "sb_current_version h' = sb_current_version h" "wh_versions db' = wh_versions db" "sb_state h' = state" "sb_failure_streak h' = sb_failure_streak h"
    "v \<in> set (wh_versions db)" "is_current h' v" "subscription_of h' v = Inr s"
proof -
  from assms obtain h where h: "locked_head (p_tenant_id p) i db = Inr h" "sb_revision h = revision"
    by (cases "locked_head (p_tenant_id p) i db") (auto simp: set_subscription_state_def split: if_splits)
  let ?h = "h\<lparr>sb_state := state, sb_revision := sb_revision h + 1, sb_updated_by := subject_id p, sb_updated_at := now\<rparr>"
  note head = find_head_Some [OF locked_head_Inr [OF h(1)]]
  from assms h obtain db1 v where u: "update_subscription_row ?h db = Inr db1" and v: "current_version ?h db1 = Inr v"
    and a: "wh_subscriptions db' = wh_subscriptions db1" "wh_versions db' = wh_versions db1" "wh_secrets db' = wh_secrets db1"
    and s: "subscription_of ?h v = Inr s"
    by (simp add: set_subscription_state_def Let_def and_then_Inr_iff insert_audit_Inr) (elim exE conjE, drule sym [of _ db'], simp)
  have "head_written h ?h db db'" using head u a by (auto simp: head_written_def subscription_key_def update_subscription_row_Inr)
  moreover have "v \<in> set (wh_versions db)" "is_current ?h v"
    using v u by (auto simp: current_version_def update_subscription_row_Inr split: option.splits dest: find_SomeD)
  ultimately show ?thesis using that [of h ?h v] locked_head_Inr [OF h(1)] h(2) s u a by (auto simp: update_subscription_row_Inr)
qed

lemma health_failure_parts:
  assumes "record_health_failure audit_id t i now db = Inr db'"
  obtains h h' where "find_head t i db = Some h" "head_written h h' db db'" "sb_current_version h' = sb_current_version h" "wh_versions db' = wh_versions db"
    "sb_failure_streak h' = sb_failure_streak h + 1" "sb_auto_pause_threshold h' = sb_auto_pause_threshold h"
    "sb_state h' = (if sb_state h = ActiveSubscription \<and> sb_auto_pause_threshold h \<le> sb_failure_streak h + 1 then PausedSubscription else sb_state h)"
    "wh_audit db' = wh_audit db @ (if sb_state h = ActiveSubscription \<and> sb_auto_pause_threshold h \<le> sb_failure_streak h + 1
       then [subscription_audit audit_id t ''relay:webhook'' ''subscription.auto_paused'' i [(''failure_streak'', JInt (sb_failure_streak h + 1))] now] else [])"
proof -
  from assms obtain h where h: "health_target t i db = Inr h"
    by (cases "health_target t i db") (auto simp: record_health_failure_def)
  note head = find_head_Some [OF health_target_Inr [OF h]]
  let ?h = "touch_health (sb_failure_streak h + 1) now h"
  let ?pause = "sb_state h = ActiveSubscription \<and> sb_auto_pause_threshold h \<le> sb_failure_streak h + 1"
  let ?h' = "if ?pause then ?h\<lparr>sb_state := PausedSubscription\<rparr> else ?h"
  have k: "subscription_key ?h' = subscription_key h" by (simp add: subscription_key_def touch_health_def)
  have "head_written h ?h' db db'" using assms h head k
    by (cases ?pause) (auto simp: head_written_def record_health_failure_def and_then_Inr_iff update_subscription_row_Inr insert_audit_Inr touch_health_def Let_def)
  moreover have "wh_versions db' = wh_versions db" using assms h
    by (cases ?pause) (auto simp: record_health_failure_def and_then_Inr_iff update_subscription_row_Inr insert_audit_Inr touch_health_def Let_def)
  moreover have "wh_audit db' = wh_audit db @ (if ?pause
       then [subscription_audit audit_id t ''relay:webhook'' ''subscription.auto_paused'' i [(''failure_streak'', JInt (sb_failure_streak h + 1))] now] else [])"
    using assms h by (cases ?pause) (auto simp: record_health_failure_def and_then_Inr_iff update_subscription_row_Inr insert_audit_Inr touch_health_def Let_def)
  ultimately show ?thesis using that [of h ?h'] health_target_Inr [OF h] by (auto simp: touch_health_def)
qed

lemma health_success_parts:
  assumes "record_health_success t i now db = Inr db'"
  obtains h where "find_head t i db = Some h" "sb_failure_streak h = 0" "db' = db"
  | h h' where "find_head t i db = Some h" "head_written h h' db db'" "sb_current_version h' = sb_current_version h" "wh_versions db' = wh_versions db"
      "sb_failure_streak h' = 0" "sb_auto_pause_threshold h' = sb_auto_pause_threshold h" "sb_state h' = sb_state h"
proof -
  from assms obtain h where h: "health_target t i db = Inr h" by (cases "health_target t i db") (auto simp: record_health_success_def)
  note head = find_head_Some [OF health_target_Inr [OF h]]
  show ?thesis
  proof (cases "sb_failure_streak h = 0")
    case True
    then show ?thesis using that(1) assms h health_target_Inr [OF h] by (simp add: record_health_success_def)
  next
    case False
    have k: "subscription_key (touch_health 0 now h) = subscription_key h" by (simp add: subscription_key_def touch_health_def)
    have "head_written h (touch_health 0 now h) db db'" "wh_versions db' = wh_versions db" using assms h head False k
      by (auto simp: head_written_def record_health_success_def update_subscription_row_Inr touch_health_def)
    then show ?thesis using that(2) [of h "touch_health 0 now h"] health_target_Inr [OF h] by (simp add: touch_health_def)
  qed
qed

lemma create_subscription_parts:
  assumes "create_subscription idna fresh audit_id p types url policy secret_set_id now threshold db = Inr (s, db')"
  obtains h v where "subscription_key h = (p_tenant_id p, fresh)" "subscription_key h \<notin> subscription_key ` set (wh_subscriptions db)"
    "wh_subscriptions db' = wh_subscriptions db @ [h]" "wh_versions db' = wh_versions db @ [v]" "wh_secrets db' = wh_secrets db"
    "subscription_row_ok h" "sb_current_version h = 1" "sb_revision h = 1" "is_current h v" "version_sound idna db' v"
    "version_number v \<notin> version_number ` set (wh_versions db)" "sb_state h = ActiveSubscription" "sb_failure_streak h = 0" "sb_auto_pause_threshold h = threshold"
proof -
  let ?h = "\<lparr>sb_tenant_id = p_tenant_id p, sb_subscription_id = fresh, sb_current_version = 1, sb_revision = 1, sb_state = ActiveSubscription,
           sb_failure_streak = 0, sb_auto_pause_threshold = threshold, sb_created_by = subject_id p, sb_updated_by = subject_id p,
           sb_created_at = now, sb_updated_at = now\<rparr>"
  from assms obtain types' e db1 db2 where parts: "normalize_event_types types = Inr types'" "parse_endpoint idna True [443] url = Inr e"
    and h: "insert_subscription ?h db = Inr db1"
    and v: "insert_subscription_version (new_subscription_version p fresh 1 types' e policy secret_set_id now) db1 = Inr db2"
    and a: "wh_subscriptions db' = wh_subscriptions db2" "wh_versions db' = wh_versions db2" "wh_secrets db' = wh_secrets db2"
    and s: "subscription_of ?h (new_subscription_version p fresh 1 types' e policy secret_set_id now) = Inr s"
    by (simp add: create_subscription_def Let_def and_then_Inr_iff insert_audit_Inr) (elim exE conjE, drule sym [of _ db'], simp)
  let ?v = "new_subscription_version p fresh 1 types' e policy secret_set_id now"
  have h1: "subscription_row_ok ?h" "subscription_key ?h \<notin> subscription_key ` set (wh_subscriptions db)" "db1 = db\<lparr>wh_subscriptions := wh_subscriptions db @ [?h]\<rparr>"
    using h by (auto simp: insert_subscription_def split: if_splits)
  have "version_sound idna db' ?v"
    using parts s v a normalize_event_types_idem [OF parts(1)]
    by (auto simp: version_sound_def insert_subscription_version_Inr subscription_of_def and_then_Inr_iff) (auto simp: new_subscription_version_def)
  moreover have "is_current ?h ?v" by (simp add: is_current_def sx_subscription_def subscription_key_def new_subscription_version_def)
  moreover have "subscription_key ?h = (p_tenant_id p, fresh)" by (simp add: subscription_key_def)
  ultimately show ?thesis using that [of ?h ?v] h1 v a by (simp add: insert_subscription_version_Inr)
qed

section \<open>Preservation\<close>

lemma written_keys: "head_written h h' db db' \<Longrightarrow> map subscription_key (wh_subscriptions db') = map subscription_key (wh_subscriptions db)"
  by (auto simp: head_written_def intro: map_update_where_key)

lemma written_heads:
  assumes "head_written h h' db db'" "distinct (map subscription_key (wh_subscriptions db))"
  shows "x \<in> set (wh_subscriptions db') \<longleftrightarrow> x = h' \<or> x \<in> set (wh_subscriptions db) \<and> subscription_key x \<noteq> subscription_key h"
  using assms distinct_map_inj_on [OF assms(2)] by (auto simp: head_written_def set_update_where)

lemma version_sound_cong:
  assumes "version_sound idna db v" "subscription_key ` set (wh_subscriptions db) \<subseteq> subscription_key ` set (wh_subscriptions db')"
    "set_key ` set (secret_sets (wh_secrets db)) \<subseteq> set_key ` set (secret_sets (wh_secrets db'))"
  shows "version_sound idna db' v"
  using assms unfolding version_sound_def by blast

lemma written_sound: "head_written h h' db db' \<Longrightarrow> version_sound idna db v \<Longrightarrow> version_sound idna db' v"
  by (erule version_sound_cong) (metis list.set_map order_refl written_keys, simp add: head_written_def)

lemma written_inv:
  assumes inv: "subscriptions_inv idna db" and w: "head_written h h' db db'" and same: "sb_current_version h' = sb_current_version h" "wh_versions db' = wh_versions db"
  shows "subscriptions_inv idna db'"
proof -
  have d: "distinct (map subscription_key (wh_subscriptions db))" using inv by (simp add: subscriptions_inv_def)
  have h: "history_ok db h" "h \<in> set (wh_subscriptions db)" using inv w by (auto simp: subscriptions_inv_def head_written_def list_all_iff)
  have "subscription_row_ok x \<and> history_ok db' x" if x: "x \<in> set (wh_subscriptions db')" for x
  proof (cases "x = h'")
    case True
    then show ?thesis using h(1) w same by (auto simp: history_ok_def head_written_def)
  next
    case False
    then have "x \<in> set (wh_subscriptions db)" using x written_heads [OF w d] by blast
    then show ?thesis using inv same by (auto simp: subscriptions_inv_def list_all_iff history_ok_def)
  qed
  then show ?thesis using inv written_keys [OF w] written_sound [OF w] same by (auto simp: subscriptions_inv_def list_all_iff)
qed

lemma update_inv:
  assumes inv: "subscriptions_inv idna db" and w: "head_written h h' db db'" and cur: "sb_current_version h' = sb_current_version h + 1"
    and vs: "wh_versions db' = wh_versions db @ [v]" and v: "is_current h' v" "version_sound idna db v" "version_number v \<notin> version_number ` set (wh_versions db)"
  shows "subscriptions_inv idna db'"
proof -
  have d: "distinct (map subscription_key (wh_subscriptions db))" using inv by (simp add: subscriptions_inv_def)
  have h: "history_ok db h" "subscription_row_ok h" "subscription_key h' = subscription_key h"
    using inv w by (auto simp: subscriptions_inv_def head_written_def list_all_iff)
  have num: "version_number v = (subscription_key h, sb_current_version h + 1)" using v(1) h(3) cur by (simp add: is_current_def version_number_def)
  have "subscription_row_ok x \<and> history_ok db' x" if x: "x \<in> set (wh_subscriptions db')" for x
  proof (cases "x = h'")
    case True
    have "{n. (subscription_key h, n) \<in> version_number ` set (wh_versions db')} = insert (sb_current_version h + 1) {1..sb_current_version h}"
      using h(1) num unfolding vs history_ok_def by auto
    also have "\<dots> = {1..sb_current_version h + 1}" using h(2) by (auto simp: subscription_row_ok_def)
    finally show ?thesis using True h w cur by (auto simp: history_ok_def head_written_def)
  next
    case False
    then have x: "x \<in> set (wh_subscriptions db)" "subscription_key x \<noteq> subscription_key h" using x written_heads [OF w d] by blast+
    have "{n. (subscription_key x, n) \<in> version_number ` set (wh_versions db')} = {n. (subscription_key x, n) \<in> version_number ` set (wh_versions db)}"
      using x(2) num unfolding vs by auto
    then show ?thesis using x(1) inv by (auto simp: subscriptions_inv_def list_all_iff history_ok_def)
  qed
  moreover have "list_all (version_sound idna db') (wh_versions db')"
    using inv v(2) vs written_sound [OF w] by (auto simp: subscriptions_inv_def list_all_iff)
  moreover have "distinct (map version_number (wh_versions db'))" using inv v(3) vs by (auto simp: subscriptions_inv_def)
  ultimately show ?thesis using d written_keys [OF w] by (auto simp: subscriptions_inv_def list_all_iff)
qed

lemma create_inv:
  assumes inv: "subscriptions_inv idna db" and new: "subscription_key h \<notin> subscription_key ` set (wh_subscriptions db)"
    and db': "wh_subscriptions db' = wh_subscriptions db @ [h]" "wh_versions db' = wh_versions db @ [v]" "wh_secrets db' = wh_secrets db"
    and h: "subscription_row_ok h" "sb_current_version h = 1" "sb_revision h = 1"
    and v: "is_current h v" "version_sound idna db' v" "version_number v \<notin> version_number ` set (wh_versions db)"
  shows "subscriptions_inv idna db'"
proof -
  have num: "version_number v = (subscription_key h, 1)" using v(1) h(2) by (simp add: is_current_def version_number_def)
  have "sx_subscription x \<noteq> subscription_key h" if "x \<in> set (wh_versions db)" for x
  proof -
    have "sx_subscription x \<in> subscription_key ` set (wh_subscriptions db)" using that inv by (auto simp: subscriptions_inv_def version_sound_def list_all_iff)
    then show ?thesis using new by metis
  qed
  then have none: "(subscription_key h, n) \<notin> version_number ` set (wh_versions db)" for n by (force simp: version_number_def)
  have "{n. (subscription_key h, n) \<in> version_number ` set (wh_versions db')} = {1}" using none num unfolding db' by auto
  then have hh: "history_ok db' h" using h by (simp add: history_ok_def)
  have "history_ok db' x" if x: "x \<in> set (wh_subscriptions db)" for x
  proof -
    have "subscription_key x \<noteq> subscription_key h" using x new by (metis imageI)
    then have "{n. (subscription_key x, n) \<in> version_number ` set (wh_versions db')} = {n. (subscription_key x, n) \<in> version_number ` set (wh_versions db)}"
      using num unfolding db' by auto
    then show ?thesis using x inv by (auto simp: subscriptions_inv_def list_all_iff history_ok_def)
  qed
  moreover have "version_sound idna db' x" if x: "x \<in> set (wh_versions db)" for x
  proof -
    have "version_sound idna db x" using x inv by (simp add: subscriptions_inv_def list_all_iff)
    then show ?thesis by (rule version_sound_cong) (simp_all add: db' subset_insertI)
  qed
  moreover have "distinct (map subscription_key (wh_subscriptions db'))" "distinct (map version_number (wh_versions db'))"
    using inv new v(3) unfolding db' by (simp_all add: subscriptions_inv_def)
  moreover have "\<forall>x\<in>set (wh_subscriptions db). subscription_row_ok x" using inv by (simp add: subscriptions_inv_def list_all_iff)
  ultimately show ?thesis using hh h(1) v(2) unfolding subscriptions_inv_def db' list_all_iff by simp
qed

lemma secret_step_sets:
  assumes "secret_step a ks (db, g) (db', g')"
  shows "set_key ` set (secret_sets db) \<subseteq> set_key ` set (secret_sets db')"
proof -
  have keep: "set_key ` set (secret_sets y) = set_key ` set (secret_sets x)" if "update_secret_set r x = Inr y" for r x y
  proof -
    have y: "secret_sets y = update_where (\<lambda>z. set_key z = set_key r) (\<lambda>_. r) (secret_sets x)" using that by (auto simp: update_secret_set_def split: if_splits)
    have "map set_key (secret_sets y) = map set_key (secret_sets x)" unfolding y by (intro map_update_where_key) simp
    then show ?thesis by (metis list.set_map)
  qed
  from assms show ?thesis
  proof cases
    case (create i fresh material nonce p now c)
    then show ?thesis by (auto simp: create_secret_def and_then_Inr_iff insert_secret_set_def insert_secret_version_def split: if_splits)
  next
    case (rotate i material nonce p set_id revision overlap now c)
    from rotate(2) obtain x r where x: "update_secret_set r x = Inr db'" "secret_sets x = secret_sets db"
      by (elim rotate_secret_parts) (auto simp: update_secret_version_def insert_secret_version_def split: if_splits)
    show ?thesis using keep [OF x(1)] x(2) by simp
  next
    case (revoke p set_id version revision now)
    from revoke(2) obtain x r where x: "update_secret_set r x = Inr db'" "secret_sets x = secret_sets db"
      by (auto simp: revoke_secret_def update_secret_version_def and_then_Inr_iff split: if_splits option.splits)
    show ?thesis using keep [OF x(1)] x(2) by simp
  qed
qed

lemma secrets_inv_kept:
  assumes "subscriptions_inv idna db" "set_key ` set (secret_sets (wh_secrets db)) \<subseteq> set_key ` set (secret_sets x)"
  shows "subscriptions_inv idna (db\<lparr>wh_secrets := x\<rparr>)"
proof -
  have "version_sound idna (db\<lparr>wh_secrets := x\<rparr>) v" if "version_sound idna db v" for v using that assms(2) by (intro version_sound_cong [OF that]) auto
  then show ?thesis using assms(1) by (auto simp: subscriptions_inv_def list_all_iff history_ok_def)
qed

text \<open>A revision that was passed stays passed.\<close>

definition revision_passed :: "uuid \<times> uuid \<Rightarrow> int \<Rightarrow> webhook_db \<Rightarrow> bool" where
  "revision_passed key n db \<longleftrightarrow> (\<exists>h\<in>set (wh_subscriptions db). subscription_key h = key \<and> n < sb_revision h)"

lemma written_passed:
  assumes "subscriptions_inv idna db" "head_written h h' db db'" "revision_passed key n db"
  shows "revision_passed key n db'"
proof -
  have d: "distinct (map subscription_key (wh_subscriptions db))" using assms(1) by (simp add: subscriptions_inv_def)
  from assms(3) obtain x where x: "x \<in> set (wh_subscriptions db)" "subscription_key x = key" "n < sb_revision x" by (auto simp: revision_passed_def)
  show ?thesis
  proof (cases "subscription_key x = subscription_key h")
    case True
    then have "x = h" using x(1) assms(2) distinct_map_inj_on [OF d] by (auto simp: head_written_def)
    then show ?thesis using x assms(2) written_heads [OF assms(2) d] by (auto simp: revision_passed_def head_written_def)
  next
    case False
    then show ?thesis using x written_heads [OF assms(2) d] by (auto simp: revision_passed_def)
  qed
qed

lemma webhook_step_kept:
  assumes inv: "subscriptions_inv idna db" and step: "webhook_step idna db db'"
  shows "subscriptions_inv idna db'" "revision_passed key n db \<Longrightarrow> revision_passed key n db'"
proof -
  have "subscriptions_inv idna db' \<and> (revision_passed key n db \<longrightarrow> revision_passed key n db')"
    using step
  proof cases
    case (create fresh audit_id p types url policy secret_set_id now threshold s)
    then show ?thesis proof (rule create_subscription_parts)
      fix h v
      assume c: "subscription_key h = (p_tenant_id p, fresh)" "subscription_key h \<notin> subscription_key ` set (wh_subscriptions db)"
        "wh_subscriptions db' = wh_subscriptions db @ [h]" "wh_versions db' = wh_versions db @ [v]" "wh_secrets db' = wh_secrets db"
        "subscription_row_ok h" "sb_current_version h = 1" "sb_revision h = 1" "is_current h v" "version_sound idna db' v"
        "version_number v \<notin> version_number ` set (wh_versions db)"
      show ?thesis using create_inv [OF inv c(2-11)] c(3) by (auto simp: revision_passed_def)
    qed
  next
    case (update audit_id p i revision types url policy secret_set_id now s)
    then show ?thesis by (rule update_subscription_parts) (use update_inv [OF inv] written_passed [OF inv] in blast)
  next
    case (set_state audit_id p i revision state now action s)
    then show ?thesis by (rule set_state_parts) (use written_inv [OF inv] written_passed [OF inv] in blast)
  next
    case (succeed t i now)
    then show ?thesis by (rule health_success_parts) (use inv written_inv [OF inv] written_passed [OF inv] in blast)+
  next
    case (fail audit_id t i now)
    then show ?thesis by (rule health_failure_parts) (use written_inv [OF inv] written_passed [OF inv] in blast)
  next
    case (secrets a ks g secrets' g')
    show ?thesis using secrets secrets_inv_kept [OF inv secret_step_sets [OF secrets(2)]] by (simp add: revision_passed_def)
  qed
  then show "subscriptions_inv idna db'" "revision_passed key n db \<Longrightarrow> revision_passed key n db'" by auto
qed

lemma empty_webhooks_inv: "empty_webhooks db \<Longrightarrow> subscriptions_inv idna db"
  by (simp add: empty_webhooks_def subscriptions_inv_def)

interpretation webhooks: stable_machine empty_webhooks "webhook_step idna" "subscriptions_inv idna" "revision_passed key n" for idna key n
  by unfold_locales (blast intro: empty_webhooks_inv webhook_step_kept)+

end
