(* ===== verification/Webhook_Routes.thy ===== *)
theory Webhook_Routes
  imports Webhook_Subscriptions Webhook_Endpoints
begin

text \<open>
  What the subscription tables guarantee: the route provider snapshots exactly the active current versions, no change based on a passed
  revision is lost or repeated, and consecutive failures pause a subscription exactly once, at its threshold.
\<close>

section \<open>Routes of matching subscriptions\<close>

lemma low_hex_key: "low_hex c \<Longrightarrow> key_head c \<and> key_tail c"
proof -
  have "list_all (\<lambda>c. key_head c \<and> key_tail c) ''0123456789abcdef''" by code_simp
  then show "low_hex c \<Longrightarrow> ?thesis" by (auto simp: low_hex_def list_all_iff)
qed

lemma uuid_hex_key: "stable_key (uuid_hex u)" "stable_key (''webhook.'' @ uuid_hex u)"
proof -
  have h: "list_all low_hex (uuid_hex u)" "length (uuid_hex u) = 32" by (simp_all add: uuid_hex_def hex_digits_low_hex)
  then obtain c cs where c: "uuid_hex u = c # cs" by (cases "uuid_hex u") auto
  have t: "list_all key_tail (uuid_hex u)" using h(1) low_hex_key by (auto simp: list_all_iff)
  show "stable_key (uuid_hex u)" using h t c low_hex_key by (auto simp: stable_key_def head_tail_match_def)
  have w: "key_head (CHR ''w'')" "list_all key_tail ''ebhook.''" by code_simp+
  have tail: "list_all key_tail (''ebhook.'' @ uuid_hex u)" "length (''ebhook.'' @ uuid_hex u) = 39" using t w(2) h(2) by auto
  have "head_tail_match key_head key_tail 127 (CHR ''w'' # (''ebhook.'' @ uuid_hex u))"
    using w(1) tail unfolding head_tail_match_def list.case by auto
  then show "stable_key (''webhook.'' @ uuid_hex u)" by (simp add: stable_key_def)
qed

text \<open>The metadata of a route, and its members as the snapshot carries them.\<close>

definition route_metadata :: "subscription_row \<Rightarrow> subscription_version_row \<Rightarrow> json" where
  "route_metadata h v = JObj
     [(''subscription_id'', JStr (uuid_str (sb_subscription_id h))), (''subscription_version'', JInt (sx_version v)),
      (''endpoint_url'', JStr (sx_endpoint_url v)), (''secret_set_id'', JStr (uuid_str (sx_secret_set_id v)))]"

lemma route_metadata_reload:
  "json_reload (route_metadata h v) = JObj
     [(''endpoint_url'', JStr (sx_endpoint_url v)), (''secret_set_id'', JStr (uuid_str (sx_secret_set_id v))),
      (''subscription_id'', JStr (uuid_str (sb_subscription_id h))), (''subscription_version'', JInt (sx_version v))]"
proof -
  have "sort_key fst [(''subscription_id'', a), (''subscription_version'', b), (''endpoint_url'', c), (''secret_set_id'', d)] =
    [(''endpoint_url'', c), (''secret_set_id'', d), (''subscription_id'', a), (''subscription_version'', b)]" for a b c d :: json
    by (simp add: sort_key_def)
  then show ?thesis by (simp add: route_metadata_def)
qed

definition snapshot_route :: "string \<Rightarrow> subscription_row \<Rightarrow> subscription_version_row \<Rightarrow> retry_policy \<Rightarrow> route_spec" where
  "snapshot_route event_type h v policy =
     \<lparr>r_event_type = event_type, r_route_key = ''webhook.'' @ uuid_hex (sb_subscription_id h), r_version = sx_version v,
      r_destination_kind = ''webhook'', r_destination_key = uuid_hex (sb_subscription_id h), r_required_scopes = [],
      r_authorization = Snapshot, r_service_policy = None, r_service_capabilities = None,
      r_maximum_snapshot_age_seconds = Some 315360000, r_retry_policy = policy,
      r_destination_metadata = json_reload (route_metadata h v)\<rparr>"

lemma webhook_route_value:
  assumes "stable_key event_type" "0 < sx_version v" "policy_from_dict (sx_retry_policy v) = Inr policy"
  shows "webhook_route frepr event_type (h, v) =
    and_then (canonical_json_bytes frepr 16384 (route_metadata h v)) (\<lambda>_. Inr (snapshot_route event_type h v policy))"
proof -
  have webhook: "stable_key ''webhook''" by code_simp
  have load: "load_metadata frepr (route_metadata h v) = and_then (canonical_json_bytes frepr 16384 (route_metadata h v)) (\<lambda>_. Inr (json_reload (route_metadata h v)))"
    unfolding load_metadata_def route_metadata_reload by (cases "canonical_json_bytes frepr 16384 (route_metadata h v)") simp_all
  show ?thesis
    unfolding webhook_route_def prod.case Let_def assms(3) and_then.simps route_metadata_def [symmetric]
    using assms(1,2) webhook uuid_hex_key
    by (simp add: route_post_init_def validate_route_declaration_def validate_event_type_def validate_key_def ensure_def normalize_scopes_def frozenset_def Let_def load)
       (cases "canonical_json_bytes frepr 16384 (route_metadata h v)"; simp add: snapshot_route_def)
qed

lemma subscribed_rows_set:
  "hv \<in> set (subscribed_rows t ty db) \<longleftrightarrow> fst hv \<in> set (wh_subscriptions db) \<and> snd hv \<in> set (wh_versions db) \<and> subscribed t ty hv"
  by (cases hv) (auto simp: subscribed_rows_def)

lemma current_versions_unique:
  assumes "subscriptions_inv idna db" "hv \<in> set (subscribed_rows t ty db)" "hv' \<in> set (subscribed_rows t ty db)"
    "sb_subscription_id (fst hv) = sb_subscription_id (fst hv')"
  shows "hv = hv'"
proof -
  have d: "distinct (map subscription_key (wh_subscriptions db))" "distinct (map version_number (wh_versions db))" using assms(1) by (auto simp: subscriptions_inv_def)
  have m: "fst hv \<in> set (wh_subscriptions db)" "fst hv' \<in> set (wh_subscriptions db)" "snd hv \<in> set (wh_versions db)" "snd hv' \<in> set (wh_versions db)"
    "subscribed t ty hv" "subscribed t ty hv'" using assms(2,3) by (auto simp: subscribed_rows_set)
  have "subscription_key (fst hv) = subscription_key (fst hv')" using m(5,6) assms(4) by (simp add: subscription_key_def subscribed_def)
  then have "fst hv = fst hv'" using distinct_map_inj_on [OF d(1) m(1,2)] by simp
  then have "version_number (snd hv) = version_number (snd hv')" using m(5,6) by (simp add: subscribed_def is_current_def version_number_def)
  then have "snd hv = snd hv'" using distinct_map_inj_on [OF d(2) m(3,4)] by simp
  with \<open>fst hv = fst hv'\<close> show ?thesis by (rule prod_eqI)
qed

lemma subscribed_rows_distinct:
  assumes "subscriptions_inv idna db"
  shows "sorted_wrt (<) (map (\<lambda>hv. sb_subscription_id (fst hv)) (subscribed_rows t ty db))"
proof -
  let ?rows = "subscribed_rows t ty db"
  have "distinct (wh_subscriptions db)" "distinct (wh_versions db)" using assms by (auto simp: subscriptions_inv_def distinct_map)
  then have "distinct ?rows" by (simp add: subscribed_rows_def distinct_product)
  then have "distinct (map (\<lambda>hv. sb_subscription_id (fst hv)) ?rows)"
    using current_versions_unique [OF assms] by (auto simp: distinct_map inj_on_def)
  moreover have "sorted (map (\<lambda>hv. sb_subscription_id (fst hv)) ?rows)" by (simp add: subscribed_rows_def)
  ultimately show ?thesis by (simp add: strict_sorted_iff)
qed

lemma matching_version:
  assumes inv: "subscriptions_inv idna db" and hv: "hv \<in> set (subscribed_rows t ty db)"
  obtains policy where "policy_from_dict (sx_retry_policy (snd hv)) = Inr policy" "stable_key ty" "0 < sx_version (snd hv)"
proof -
  have m: "fst hv \<in> set (wh_subscriptions db)" "snd hv \<in> set (wh_versions db)" "subscribed t ty hv" using hv by (auto simp: subscribed_rows_set)
  have sound: "version_sound idna db (snd hv)" and row: "subscription_row_ok (fst hv)" using inv m by (auto simp: subscriptions_inv_def list_all_iff)
  then have "list_all stable_key (sx_exact_event_types (snd hv))"
    by (auto simp: version_sound_def normalize_event_types_def Let_def frozenset_def list_ex_iff list_all_iff split: if_splits)
  then show ?thesis using that sound row m(3) by (auto simp: version_sound_def subscribed_def is_current_def subscription_row_ok_def list_all_iff)
qed

text \<open>The first failure of a traversal.\<close>

lemma traverse_Inl: "traverse f xs = Inl e \<Longrightarrow> \<exists>x\<in>set xs. f x = Inl e"
proof (induction xs)
  case (Cons x xs)
  then show ?case by (cases "f x"; cases "traverse f xs") auto
qed simp

lemma routes_in_order:
  assumes "subscriptions_inv idna db" "webhook_routes_for frepr p ty db = Inr rs"
  shows "list_all2 (\<lambda>hv r. \<exists>policy. policy_from_dict (sx_retry_policy (snd hv)) = Inr policy \<and> r = snapshot_route ty (fst hv) (snd hv) policy)
    (subscribed_rows (p_tenant_id p) ty db) rs"
proof -
  have "list_all2 (\<lambda>hv r. webhook_route frepr ty hv = Inr r) (subscribed_rows (p_tenant_id p) ty db) rs"
    using assms(2) by (simp add: webhook_routes_for_def traverse_Inr_iff)
  then show ?thesis
  proof (rule list.rel_mono_strong)
    fix hv r assume hv: "hv \<in> set (subscribed_rows (p_tenant_id p) ty db)" and r: "webhook_route frepr ty hv = Inr r"
    from matching_version [OF assms(1) hv] obtain policy where pol: "policy_from_dict (sx_retry_policy (snd hv)) = Inr policy" "stable_key ty" "0 < sx_version (snd hv)" .
    have "r = snapshot_route ty (fst hv) (snd hv) policy"
      using r webhook_route_value [OF pol(2,3,1), of frepr "fst hv"] by (cases "canonical_json_bytes frepr 16384 (route_metadata (fst hv) (snd hv))") auto
    with pol(1) show "\<exists>policy. policy_from_dict (sx_retry_policy (snd hv)) = Inr policy \<and> r = snapshot_route ty (fst hv) (snd hv) policy" by blast
  qed
qed

lemma routes_fail:
  assumes "subscriptions_inv idna db" "webhook_routes_for frepr p ty db = Inl e"
  shows "\<exists>hv\<in>set (subscribed_rows (p_tenant_id p) ty db). canonical_json_bytes frepr 16384 (route_metadata (fst hv) (snd hv)) = Inl e"
proof -
  obtain hv where hv: "hv \<in> set (subscribed_rows (p_tenant_id p) ty db)" "webhook_route frepr ty hv = Inl e"
    using traverse_Inl assms(2) by (metis webhook_routes_for_def)
  from matching_version [OF assms(1) hv(1)] obtain policy where pol: "policy_from_dict (sx_retry_policy (snd hv)) = Inr policy" "stable_key ty" "0 < sx_version (snd hv)" .
  have "canonical_json_bytes frepr 16384 (route_metadata (fst hv) (snd hv)) = Inl e"
    using hv(2) webhook_route_value [OF pol(2,3,1), of frepr "fst hv"] by (cases "canonical_json_bytes frepr 16384 (route_metadata (fst hv) (snd hv))") auto
  with hv(1) show ?thesis by blast
qed

section \<open>Consecutive failures\<close>

fun record_failures :: "uuid \<Rightarrow> uuid \<Rightarrow> (uuid \<times> int) list \<Rightarrow> webhook_db \<Rightarrow> webhook_db result" where
  "record_failures t i [] db = Inr db"
| "record_failures t i ((audit_id, now) # rest) db = and_then (record_health_failure audit_id t i now db) (record_failures t i rest)"

definition auto_pauses :: "uuid \<Rightarrow> uuid \<Rightarrow> webhook_db \<Rightarrow> nat" where
  "auto_pauses t i db = length (filter (\<lambda>r. wa_tenant_id r = t \<and> wa_target_id r = i \<and> wa_action r = ''subscription.auto_paused'') (wh_audit db))"

lemma find_head_written: "find_head t i db = Some h \<Longrightarrow> head_written h h' db db' \<Longrightarrow> find_head t i db' = Some h'"
proof -
  assume f: "find_head t i db = Some h" and w: "head_written h h' db db'"
  have k: "subscription_key h = (t, i)" "subscription_key h' = (t, i)" using find_head_Some [OF f] w by (auto simp: head_written_def)
  have "find (\<lambda>r. subscription_key r = (t, i)) (update_where (\<lambda>x. subscription_key x = (t, i)) (\<lambda>_. h') rows) =
      map_option (\<lambda>_. h') (find (\<lambda>r. subscription_key r = (t, i)) rows)" for rows
    by (induction rows) (auto simp: k(2))
  then show ?thesis using f w k by (simp add: find_head_def head_written_def)
qed

lemma failure_counted:
  assumes f: "find_head t i db = Some h" and r: "record_health_failure audit_id t i now db = Inr db'"
    and pause: "pause = (sb_state h = ActiveSubscription \<and> sb_auto_pause_threshold h \<le> sb_failure_streak h + 1)"
  obtains h' where "find_head t i db' = Some h'" "sb_failure_streak h' = sb_failure_streak h + 1" "sb_auto_pause_threshold h' = sb_auto_pause_threshold h"
    "sb_state h' = (if pause then PausedSubscription else sb_state h)" "auto_pauses t i db' = auto_pauses t i db + (if pause then 1 else 0)"
proof (rule health_failure_parts [OF r])
  fix g g' assume g: "find_head t i db = Some g" "head_written g g' db db'" "sb_failure_streak g' = sb_failure_streak g + 1" "sb_auto_pause_threshold g' = sb_auto_pause_threshold g"
    "sb_state g' = (if sb_state g = ActiveSubscription \<and> sb_auto_pause_threshold g \<le> sb_failure_streak g + 1 then PausedSubscription else sb_state g)"
    "wh_audit db' = wh_audit db @ (if sb_state g = ActiveSubscription \<and> sb_auto_pause_threshold g \<le> sb_failure_streak g + 1
       then [subscription_audit audit_id t ''relay:webhook'' ''subscription.auto_paused'' i [(''failure_streak'', JInt (sb_failure_streak g + 1))] now] else [])"
  have "g = h" using f g(1) by simp
  moreover have "auto_pauses t i db' = auto_pauses t i db + (if pause then 1 else 0)"
    using g(6) \<open>g = h\<close> unfolding pause auto_pauses_def by (auto simp: subscription_audit_def)
  ultimately show thesis using that [of g'] find_head_written [OF g(1,2)] g(3-5) pause by simp
qed

lemma inactive_failures:
  assumes "find_head t i db = Some h" "sb_state h \<noteq> ActiveSubscription" "record_failures t i fs db = Inr db'"
  shows "\<exists>h'. find_head t i db' = Some h' \<and> sb_state h' = sb_state h \<and> sb_failure_streak h' = sb_failure_streak h + int (length fs) \<and>
    auto_pauses t i db' = auto_pauses t i db"
  using assms
proof (induction fs arbitrary: db h)
  case (Cons f fs)
  obtain a now where f: "f = (a, now)" by (cases f)
  from Cons.prems(3) f obtain db1 where d: "record_health_failure a t i now db = Inr db1" "record_failures t i fs db1 = Inr db'" by (auto simp: and_then_Inr_iff)
  obtain h1 where h1: "find_head t i db1 = Some h1" "sb_failure_streak h1 = sb_failure_streak h + 1" "sb_state h1 = sb_state h" "auto_pauses t i db1 = auto_pauses t i db"
    using failure_counted [OF Cons.prems(1) d(1) refl] Cons.prems(2) by (auto split: if_splits)
  from Cons.IH [OF h1(1) _ d(2)] h1 Cons.prems(2) show ?case by auto
qed simp

lemma active_failures:
  assumes "find_head t i db = Some h" "sb_state h = ActiveSubscription" "sb_failure_streak h < sb_auto_pause_threshold h" "record_failures t i fs db = Inr db'"
  shows "\<exists>h'. find_head t i db' = Some h' \<and> sb_failure_streak h' = sb_failure_streak h + int (length fs) \<and>
    (if sb_auto_pause_threshold h \<le> sb_failure_streak h + int (length fs)
     then sb_state h' = PausedSubscription \<and> auto_pauses t i db' = Suc (auto_pauses t i db)
     else sb_state h' = ActiveSubscription \<and> auto_pauses t i db' = auto_pauses t i db)"
  using assms
proof (induction fs arbitrary: db h)
  case (Cons f fs)
  obtain a now where f: "f = (a, now)" by (cases f)
  from Cons.prems(4) f obtain db1 where d: "record_health_failure a t i now db = Inr db1" "record_failures t i fs db1 = Inr db'" by (auto simp: and_then_Inr_iff)
  show ?case
  proof (cases "sb_auto_pause_threshold h \<le> sb_failure_streak h + 1")
    case True
    then obtain h1 where h1: "find_head t i db1 = Some h1" "sb_failure_streak h1 = sb_failure_streak h + 1" "sb_state h1 = PausedSubscription"
      "auto_pauses t i db1 = Suc (auto_pauses t i db)" using failure_counted [OF Cons.prems(1) d(1) refl] Cons.prems(2) by auto
    have "sb_state h1 \<noteq> ActiveSubscription" using h1(3) by simp
    from inactive_failures [OF h1(1) this d(2)] h1 True show ?thesis by auto
  next
    case False
    then obtain h1 where h1: "find_head t i db1 = Some h1" "sb_failure_streak h1 = sb_failure_streak h + 1" "sb_state h1 = ActiveSubscription"
      "sb_auto_pause_threshold h1 = sb_auto_pause_threshold h" "auto_pauses t i db1 = auto_pauses t i db"
      using failure_counted [OF Cons.prems(1) d(1) refl] Cons.prems(2) by auto
    from Cons.IH [OF h1(1,3) _ d(2)] h1 False show ?thesis by (auto simp: add.assoc)
  qed
qed simp

lemma paused_not_subscribed:
  assumes "subscriptions_inv idna db" "find_head t i db = Some h" "sb_state h \<noteq> ActiveSubscription" "hv \<in> set (subscribed_rows t ty db)"
  shows "sb_subscription_id (fst hv) \<noteq> i"
proof
  assume i: "sb_subscription_id (fst hv) = i"
  have m: "fst hv \<in> set (wh_subscriptions db)" "subscribed t ty hv" using assms(4) by (auto simp: subscribed_rows_set)
  have "subscription_key (fst hv) = subscription_key h" using m(2) i find_head_Some [OF assms(2)] by (simp add: subscription_key_def subscribed_def)
  moreover have d: "distinct (map subscription_key (wh_subscriptions db))" using assms(1) by (simp add: subscriptions_inv_def)
  ultimately have "fst hv = h" using distinct_map_inj_on [OF d m(1)] find_head_Some [OF assms(2)] by simp
  then show False using m(2) assms(3) by (simp add: subscribed_def)
qed

lemma failures_steps: "record_failures t i fs db = Inr db' \<Longrightarrow> (webhook_step idna)\<^sup>*\<^sup>* db db'"
proof (induction fs arbitrary: db)
  case (Cons f fs)
  then obtain db1 where "record_health_failure (fst f) t i (snd f) db = Inr db1" "record_failures t i fs db1 = Inr db'" by (cases f) (auto simp: and_then_Inr_iff)
  then show ?case using Cons.IH webhook_step.fail by (metis converse_rtranclp_into_rtranclp)
qed simp

section \<open>Passed revisions\<close>

lemma passed_conflict:
  assumes inv: "subscriptions_inv idna db" and passed: "revision_passed (p_tenant_id p, i) n db"
  shows "update_subscription idna' audit_id p i n types url policy secret_set_id now db = Inl (OptimisticConflict ''webhook_subscription'')"
    "set_subscription_state audit_id p i n state now action db = Inl (OptimisticConflict ''webhook_subscription'')"
proof -
  from passed obtain h where h: "h \<in> set (wh_subscriptions db)" "subscription_key h = (p_tenant_id p, i)" "n < sb_revision h" by (auto simp: revision_passed_def)
  then obtain g where g: "find_head (p_tenant_id p) i db = Some g"
    by (cases "find_head (p_tenant_id p) i db") (auto simp: find_head_def find_None_iff)
  have d: "distinct (map subscription_key (wh_subscriptions db))" using inv by (simp add: subscriptions_inv_def)
  have "g = h" using find_head_Some [OF g] distinct_map_inj_on [OF d _ h(1)] h(2) by simp
  then have "locked_head (p_tenant_id p) i db = Inr h" using g by (simp add: locked_head_def)
  with h(3) show "update_subscription idna' audit_id p i n types url policy secret_set_id now db = Inl (OptimisticConflict ''webhook_subscription'')"
    "set_subscription_state audit_id p i n state now action db = Inl (OptimisticConflict ''webhook_subscription'')"
    by (simp_all add: update_subscription_def set_subscription_state_def)
qed

lemma subscription_of_revision: "subscription_of h v = Inr s \<Longrightarrow> ws_revision s = sb_revision h \<and> ws_version s = sx_version v \<and> ws_state s = sb_state h"
  by (auto simp: subscription_of_def and_then_Inr_iff)

lemma written_passes: "head_written h h' db db' \<Longrightarrow> revision_passed (subscription_key h) (sb_revision h) db'"
  by (force simp: head_written_def revision_passed_def set_update_where)

section \<open>A sample history\<close>

definition sample_hook_db :: webhook_db where
  "sample_hook_db = \<lparr>wh_secrets = sample_vault, wh_subscriptions = [], wh_versions = [], wh_audit = []\<rparr>"

definition sample_head :: subscription_row where
  "sample_head = \<lparr>sb_tenant_id = 1, sb_subscription_id = 3, sb_current_version = 1, sb_revision = 1, sb_state = ActiveSubscription,
     sb_failure_streak = 0, sb_auto_pause_threshold = 2, sb_created_by = ''owner'', sb_updated_by = ''owner'', sb_created_at = 6000000, sb_updated_at = 6000000\<rparr>"

definition sample_sx :: subscription_version_row where
  "sample_sx = new_subscription_version sample_owner 3 1 [''invoice.paid''] sample_target (default_policy ''webhook.default'') 2 6000000"

definition sample_hooks :: webhook_db where
  "sample_hooks = \<lparr>wh_secrets = sample_vault, wh_subscriptions = [sample_head], wh_versions = [sample_sx],
     wh_audit = [subscription_audit 4 1 ''owner'' ''subscription.created'' 3 [(''version'', JInt 1)] 6000000]\<rparr>"

lemma sample_policy_read: "policy_from_dict (sx_retry_policy sample_sx) = Inr (default_policy ''webhook.default'')"
proof -
  have "stable_key ''webhook.default''" by code_simp
  then show ?thesis using policy_snapshot_roundtrip [OF default_policy_valid] by (simp add: sample_sx_def new_subscription_version_def)
qed

lemma sample_subscribed:
  "\<exists>s. create_subscription (\<lambda>_. None) 3 4 sample_owner [''invoice.paid''] sample_url (default_policy ''webhook.default'') 2 6000000 2 sample_hook_db = Inr (s, sample_hooks)"
proof -
  have n: "normalize_event_types [''invoice.paid''] = Inr [''invoice.paid'']" by code_simp
  have ok: "subscription_row_ok sample_head" "subscription_version_ok sample_sx" "list_all audit_ok (wh_audit sample_hooks)" by code_simp+
  obtain s where s: "subscription_of sample_head sample_sx = Inr s" using sample_policy_read by (simp add: subscription_of_def)
  have h: "sample_head = \<lparr>sb_tenant_id = p_tenant_id sample_owner, sb_subscription_id = 3, sb_current_version = 1, sb_revision = 1, sb_state = ActiveSubscription,
     sb_failure_streak = 0, sb_auto_pause_threshold = 2, sb_created_by = subject_id sample_owner, sb_updated_by = subject_id sample_owner, sb_created_at = 6000000, sb_updated_at = 6000000\<rparr>"
    by (simp add: sample_head_def sample_owner_def)
  have "insert_subscription sample_head sample_hook_db = Inr (sample_hook_db\<lparr>wh_subscriptions := [sample_head]\<rparr>)"
    using ok(1) by (simp add: insert_subscription_def sample_hook_db_def)
  moreover have "insert_subscription_version sample_sx (sample_hook_db\<lparr>wh_subscriptions := [sample_head]\<rparr>) = Inr (sample_hook_db\<lparr>wh_subscriptions := [sample_head], wh_versions := [sample_sx]\<rparr>)"
    using ok(2) by (simp add: insert_subscription_version_def sample_hook_db_def)
      (simp add: sample_sx_def sample_head_def sample_vault_def sample_owner_def new_subscription_version_def sx_subscription_def subscription_key_def set_key_def)
  moreover have "insert_audit (subscription_audit 4 (p_tenant_id sample_owner) (subject_id sample_owner) ''subscription.created'' 3 [(''version'', JInt 1)] 6000000)
      (sample_hook_db\<lparr>wh_subscriptions := [sample_head], wh_versions := [sample_sx]\<rparr>) = Inr sample_hooks"
    using ok(3) by (simp add: insert_audit_def sample_hook_db_def sample_hooks_def) (simp add: sample_owner_def)
  moreover have "require_secret_set (p_tenant_id sample_owner) 2 sample_hook_db = Inr ()"
    by (simp add: require_secret_set_def find_secret_set_def sample_hook_db_def sample_vault_def set_key_def sample_owner_def)
  ultimately show ?thesis
    using n sample_parsed s by (simp add: create_subscription_def validate_threshold_def ensure_def h [symmetric] sample_sx_def [symmetric])
qed

lemma sample_hooks_empty:
  "empty_webhooks \<lparr>wh_secrets = \<lparr>secret_sets = [], secret_versions = []\<rparr>, wh_subscriptions = [], wh_versions = [], wh_audit = []\<rparr>"
  by (simp add: empty_webhooks_def)

lemma sample_hooks_reached:
  "(webhook_step (\<lambda>_. None))\<^sup>*\<^sup>* \<lparr>wh_secrets = \<lparr>secret_sets = [], secret_versions = []\<rparr>, wh_subscriptions = [], wh_versions = [], wh_audit = []\<rparr> sample_hooks"
proof -
  let ?db = "\<lparr>wh_secrets = \<lparr>secret_sets = [], secret_versions = []\<rparr>, wh_subscriptions = [], wh_versions = [], wh_audit = []\<rparr>"
  have "webhook_step (\<lambda>_. None) ?db (?db\<lparr>wh_secrets := sample_vault\<rparr>)"
    by (rule webhook_step.secrets) (simp, rule secret_step.create [OF sample_created, of "\<lambda>_. None"])
  moreover have "?db\<lparr>wh_secrets := sample_vault\<rparr> = sample_hook_db" by (simp add: sample_hook_db_def)
  ultimately have "webhook_step (\<lambda>_. None) ?db sample_hook_db" by simp
  moreover have "webhook_step (\<lambda>_. None) sample_hook_db sample_hooks" using sample_subscribed webhook_step.create by blast
  ultimately show ?thesis by (rule converse_rtranclp_into_rtranclp [OF _ r_into_rtranclp])
qed

section \<open>Properties\<close>



text \<open>
  C38. No update is lost: after a subscription was changed by an update or a change of state based on revision n, whatever operations
  follow, every later update and change of state based on n or an earlier revision is refused with a conflict. The change itself
  returned revision n + 1.
\<close>

theorem subscription_no_lost_update:
  assumes "empty_webhooks db0" and "(webhook_step idna)\<^sup>*\<^sup>* db0 db"
    and "update_subscription idna audit_id p i n types url policy secret_set_id now db = Inr (s, db1) \<or>
      set_subscription_state audit_id p i n state now action db = Inr (s, db1)"
    and "(webhook_step idna)\<^sup>*\<^sup>* db1 db2" and "p_tenant_id q = p_tenant_id p" and "m \<le> n"
  shows "ws_revision s = n + 1 \<and>
    update_subscription idna audit_id' q i m types' url' policy' secret_set_id' now' db2 = Inl (OptimisticConflict ''webhook_subscription'') \<and>
    set_subscription_state audit_id' q i m state' now' action' db2 = Inl (OptimisticConflict ''webhook_subscription'')"
proof -
  have inv: "subscriptions_inv idna db" using webhooks.inv_reachable [OF assms(1,2)] .
  obtain h h' v where w: "find_head (p_tenant_id p) i db = Some h" "sb_revision h = n" "head_written h h' db db1" "subscription_of h' v = Inr s"
    using assms(3) by (elim disjE update_subscription_parts set_state_parts) blast+
  have step: "webhook_step idna db db1" using assms(3) by (elim disjE) (erule webhook_step.update, erule webhook_step.set_state)
  have inv1: "subscriptions_inv idna db1" by (rule webhook_step_kept(1) [OF inv step])
  have "revision_passed (p_tenant_id p, i) n db1" using written_passes [OF w(3)] find_head_Some [OF w(1)] w(2) by simp
  then have passed: "revision_passed (p_tenant_id p, i) m db1" using assms(6) by (auto simp: revision_passed_def)
  have "subscriptions_inv idna db2 \<and> revision_passed (p_tenant_id p, i) m db2" using webhooks.stable_steps [OF assms(4) inv1 passed] .
  then show ?thesis using passed_conflict [of idna db2 q i m] assms(5) subscription_of_revision [OF w(4)] w(2,3) by (auto simp: head_written_def)
qed

lemma sample_paused: "\<exists>s db1. set_subscription_state 5 sample_owner 3 1 PausedSubscription 7000000 None sample_hooks = Inr (s, db1)"
proof -
  have "case set_subscription_state 5 sample_owner 3 1 PausedSubscription 7000000 None sample_hooks of Inr _ \<Rightarrow> True | Inl _ \<Rightarrow> False" by code_simp
  then show ?thesis by (auto split: sum.splits)
qed

theorem subscription_no_lost_update_witness:
  "\<exists>s db1. set_subscription_state 5 sample_owner 3 1 PausedSubscription 7000000 None sample_hooks = Inr (s, db1) \<and> ws_revision s = 2 \<and>
     set_subscription_state 6 sample_owner 3 1 ActiveSubscription 8000000 None db1 = Inl (OptimisticConflict ''webhook_subscription'')"
proof -
  obtain s db1 where s: "set_subscription_state 5 sample_owner 3 1 PausedSubscription 7000000 None sample_hooks = Inr (s, db1)" using sample_paused by blast
  from subscription_no_lost_update [OF sample_hooks_empty sample_hooks_reached disjI2 [OF s] rtranclp.rtrancl_refl refl order_refl] s show ?thesis by auto
qed



end
