(* ===== verification/Webhook_Sink.thy ===== *)
theory Webhook_Sink
  imports Webhook_Transport Webhook_Routes Command_Request
begin

text \<open>
  \<^verbatim>\<open>webhooks/sink.py\<close>: one attempt of a webhook delivery, from the leased claim over deadline, signing secrets, envelope, signature and the
  redirect loop of \<open>Webhook_Transport\<close> to the classified answer, and the health record after it. The configuration holds the
  collaborators that are not under \<^verbatim>\<open>src/\<close> (HMAC, SHA-256, AES-GCM, text of times, date parser, IDNA) as functions; the inputs hold the
  clock samples, the network and a fault of the session that reads the secrets. A cancellation through the attempt's deadline is
  the fault \<open>TimeoutError\<close> of the call it interrupts.
\<close>

section \<open>Configuration and inputs\<close>

record sink_config =
  sk_keys :: master_keys
  sk_aead :: aead
  sk_limits :: transport_limits
  sk_production :: bool
  sk_allowed_ports :: "int list"
  sk_health :: bool
  sk_hmac :: "bytes \<Rightarrow> bytes \<Rightarrow> bytes"
  sk_sha256 :: "bytes \<Rightarrow> bytes"
  sk_idna :: "string \<Rightarrow> string option"
  sk_isoformat :: "py_datetime \<Rightarrow> string"
  sk_parsedate :: "string \<Rightarrow> py_datetime result"
  sk_frepr :: "rat \<Rightarrow> string"
  sk_fparse :: "string \<Rightarrow> pyfloat"
  sk_stack :: nat

record sink_inputs =
  si_started :: py_datetime
  si_now :: py_datetime
  si_received :: py_datetime
  si_recorded :: int
  si_session_fault :: "exn option"
  si_network :: net_world
  si_metric_fault :: "exn option"
  si_audit_id :: uuid

record webhook_attempt_result =
  wr_message_id :: string
  wr_request_body_digest :: string
  wr_signed_body_digest :: string
  wr_signature_count :: int
  wr_connected_ip :: string
  wr_status_code :: int
  wr_response_body_persisted :: bool

section \<open>The destination snapshot\<close>

definition webhook_destination :: "(string \<times> json) list \<Rightarrow> (string \<times> json) list result" where
  "webhook_destination snapshot =
     (case map_of snapshot ''destination'' of Some (JObj d) \<Rightarrow> Inr d | _ \<Rightarrow> config_error ''Webhook destination snapshot is invalid.'')"

definition required_string :: "(string \<times> json) list \<Rightarrow> string \<Rightarrow> string result" where
  "required_string d k =
     (case map_of d k of
        Some (JStr s) \<Rightarrow> if s = [] then config_error ''Webhook destination snapshot is invalid.'' else Inr s
      | _ \<Rightarrow> config_error ''Webhook destination snapshot is invalid.'')"

definition required_uuid :: "(string \<times> json) list \<Rightarrow> string \<Rightarrow> uuid result" where
  "required_uuid d k =
     and_then (required_string d k) (\<lambda>s.
       case uuid_of_text s of Inl ValueError \<Rightarrow> config_error ''Webhook destination snapshot is invalid.'' | r \<Rightarrow> r)"

section \<open>Before the network\<close>

definition signing_secrets :: "sink_config \<Rightarrow> sink_inputs \<Rightarrow> uuid \<Rightarrow> uuid \<Rightarrow> secret_db \<Rightarrow> signing_secret list result" where
  "signing_secrets k inp tenant_id secret_set_id db =
     (case si_session_fault inp of
        Some x \<Rightarrow> Inl x
      | None \<Rightarrow>
          (case eligible_for_signing (sk_aead k) (sk_keys k) tenant_id secret_set_id (instant (si_now inp)) db of
             Inl NoEligibleSigningKey \<Rightarrow>
               Inl (permanent_failure ''webhook.no_eligible_signing_key'' ''Webhook delivery has no eligible signing key.'')
           | Inl (SecretFailure x) \<Rightarrow> Inl x
           | Inr xs \<Rightarrow> Inr xs))"

text \<open>The endpoint URL, the body and the signature headers of an attempt.\<close>

definition prepare_attempt :: "sink_config \<Rightarrow> sink_inputs \<Rightarrow> claimed \<Rightarrow> secret_db \<Rightarrow> (string \<times> bytes \<times> signed_headers) result" where
  "prepare_attempt k inp c db =
     (if dr_destination_kind (c_delivery c) \<noteq> ''webhook''
      then Inl (permanent_failure ''webhook.destination_mismatch'' ''Webhook sink received another destination kind.'')
      else
      and_then (webhook_destination (c_route_snapshot c)) (\<lambda>destination.
      and_then (required_string destination ''endpoint_url'') (\<lambda>endpoint_url.
      and_then (required_uuid destination ''secret_set_id'') (\<lambda>secret_set_id.
      and_then (signing_secrets k inp (dr_tenant_id (c_delivery c)) secret_set_id db) (\<lambda>secrets.
      and_then (serialize_webhook_envelope (sk_frepr k) (sk_fparse k) (sk_stack k) (sk_isoformat k) (dr_delivery_id (c_delivery c)) (c_event c)) (\<lambda>body.
      and_then (sign_webhook (sk_hmac k) (webhook_message_id (dr_delivery_id (c_delivery c))) (si_now inp) body (map sg_material secrets)) (\<lambda>sig.
        Inr (endpoint_url, body, sig))))))))"

section \<open>After the answer\<close>

definition raise_delivery :: "delivery_error result \<Rightarrow> 'a result" where
  "raise_delivery r = (case r of Inl x \<Rightarrow> Inl x | Inr d \<Rightarrow> Inl (DeliveryFailure d))"

definition conclude_attempt ::
  "sink_config \<Rightarrow> sink_inputs \<Rightarrow> claimed \<Rightarrow> retry_policy \<Rightarrow> bytes \<Rightarrow> signed_headers \<Rightarrow> transport_result \<Rightarrow> webhook_attempt_result result" where
  "conclude_attempt k inp c policy body sig result =
     and_then (timedelta_float (the_fin (maximum_delay_seconds policy))) (\<lambda>maximum_retry_after.
     and_then (timedelta_int (maximum_elapsed_seconds policy)) (\<lambda>elapsed.
     and_then (dt_add (instant (dr_created_at (c_delivery c))) elapsed) (\<lambda>deadline.
     and_then (classify_response (sk_parsedate k) (rm_status_code (tr_response result)) (rm_headers (tr_response result)) (si_received inp)
                 maximum_retry_after (Some (Aware deadline))) (\<lambda>classification.
       case rc_disposition classification of
         RetryableResponse \<Rightarrow>
           raise_delivery (new_retryable (rc_code classification) ''Webhook receiver requested or requires a retry.'' (rc_retry_after classification))
       | PermanentResponse \<Rightarrow> raise_delivery (new_permanent (rc_code classification) ''Webhook receiver returned a terminal response.'')
       | SuccessResponse \<Rightarrow>
           let digest = hexdigest (sk_sha256 k body) in
           Inr \<lparr>wr_message_id = webhook_message_id (dr_delivery_id (c_delivery c)), wr_request_body_digest = digest, wr_signed_body_digest = digest,
                wr_signature_count = sh_signature_count sig, wr_connected_ip = tr_connected_ip result,
                wr_status_code = rm_status_code (tr_response result), wr_response_body_persisted = False\<rparr>))))"

section \<open>The attempt\<close>

definition deliver_within :: "sink_config \<Rightarrow> sink_inputs \<Rightarrow> claimed \<Rightarrow> retry_policy \<Rightarrow> secret_db \<Rightarrow> webhook_attempt_result result \<times> net_event list" where
  "deliver_within k inp c policy db =
     (case prepare_attempt k inp c db of
        Inl x \<Rightarrow> (Inl x, [])
      | Inr (endpoint_url, body, sig) \<Rightarrow>
          (case redirect_loop (sk_idna k) (sk_production k) (sk_allowed_ports k) (sk_limits k) (si_network inp) body (sh_values sig) endpoint_url 0 [] of
             (Inl x, tr) \<Rightarrow> (Inl x, tr)
           | (Inr result, tr) \<Rightarrow> (conclude_attempt k inp c policy body sig result, tr)))"

definition attempt_timeout :: "string \<Rightarrow> exn" where
  "attempt_timeout s = retryable_failure ''webhook.attempt_timeout'' s"

definition attempt_seconds :: "sink_config \<Rightarrow> sink_inputs \<Rightarrow> claimed \<Rightarrow> (retry_policy \<times> rat) result" where
  "attempt_seconds k inp c =
     (case (map_of (c_route_snapshot c) ''retry'', dr_lease_expires_at (c_delivery c)) of
        (Some (JObj retry), Some lease_expires_at) \<Rightarrow>
          and_then (policy_from_dict retry) (\<lambda>policy.
          and_then (remaining_attempt_seconds policy (dr_created_at (c_delivery c)) (ar_started_at (c_attempt c)) lease_expires_at (si_started inp)
                      (Some (tl_total_timeout_seconds (sk_limits k)))) (\<lambda>seconds. Inr (policy, seconds)))
      | _ \<Rightarrow> config_error ''Webhook attempt deadline is invalid.'')"

definition deliver_attempt :: "sink_config \<Rightarrow> sink_inputs \<Rightarrow> claimed \<Rightarrow> secret_db \<Rightarrow> webhook_attempt_result result \<times> net_event list" where
  "deliver_attempt k inp c db =
     (case attempt_seconds k inp c of
        Inl x \<Rightarrow> (Inl x, [])
      | Inr (policy, timeout_seconds) \<Rightarrow>
          if timeout_seconds \<le> 0 then (Inl (attempt_timeout ''Webhook attempt exceeded its aggregate deadline before execution.''), [])
          else (case deliver_within k inp c policy db of
                  (Inl TimeoutError, tr) \<Rightarrow> (Inl (attempt_timeout ''Webhook attempt exceeded its aggregate deadline.''), tr)
                | outcome \<Rightarrow> outcome))"

text \<open>
  \<^verbatim>\<open>execute\<close>: the attempt with its health record; a failing health record replaces the outcome. After its commit the health repository calls
  the telemetry sink without a guard, so what that raises replaces the outcome, too, and the committed record stays.
\<close>

definition after_metric :: "sink_inputs \<Rightarrow> unit result \<Rightarrow> unit result" where
  "after_metric inp outcome = (case si_metric_fault inp of Some x \<Rightarrow> Inl x | None \<Rightarrow> outcome)"

definition execute_webhook :: "sink_config \<Rightarrow> sink_inputs \<Rightarrow> claimed \<Rightarrow> webhook_db \<Rightarrow> unit result \<times> net_event list \<times> webhook_db" where
  "execute_webhook k inp c db =
     (case and_then (webhook_destination (c_route_snapshot c)) (\<lambda>d. required_uuid d ''subscription_id'') of
        Inl x \<Rightarrow> (Inl x, [], db)
      | Inr subscription_id \<Rightarrow>
          let t = dr_tenant_id (c_delivery c); (outcome, tr) = deliver_attempt k inp c (wh_secrets db) in
          (case outcome of
             Inl (DeliveryFailure d) \<Rightarrow>
               if sk_health k
               then (case record_health_failure (si_audit_id inp) t subscription_id (si_recorded inp) db of
                       Inl x \<Rightarrow> (Inl x, tr, db) | Inr db' \<Rightarrow> (after_metric inp (Inl (DeliveryFailure d)), tr, db'))
               else (Inl (DeliveryFailure d), tr, db)
           | Inl x \<Rightarrow> (Inl x, tr, db)
           | Inr _ \<Rightarrow>
               if sk_health k
               then (case record_health_success t subscription_id (si_recorded inp) db of
                       Inl x \<Rightarrow> (Inl x, tr, db) | Inr db' \<Rightarrow> (after_metric inp (Inr ()), tr, db'))
               else (Inr (), tr, db)))"

section \<open>Where the events of an attempt come from\<close>

lemma deliver_attempt_parts:
  assumes "deliver_attempt k inp c db = (r, tr)"
  obtains "tr = []" "\<And>x. r \<noteq> Inr x"
  | url body sig q where "prepare_attempt k inp c db = Inr (url, body, sig)"
      "redirect_loop (sk_idna k) (sk_production k) (sk_allowed_ports k) (sk_limits k) (si_network inp) body (sh_values sig) url 0 [] = (q, tr)"
      "\<And>x. r = Inr x \<Longrightarrow> \<exists>result policy. q = Inr result \<and> conclude_attempt k inp c policy body sig result = Inr x"
proof (cases "attempt_seconds k inp c")
  case (Inl x)
  then show ?thesis using that(1) assms by (auto simp: deliver_attempt_def)
next
  case (Inr ps)
  obtain policy seconds where ps: "ps = (policy, seconds)" by (cases ps)
  show ?thesis
  proof (cases "seconds \<le> 0")
    case True
    then show ?thesis using that(1) assms Inr ps by (auto simp: deliver_attempt_def)
  next
    case False
    obtain o' tr' where w: "deliver_within k inp c policy db = (o', tr')" by fastforce
    have r: "tr = tr'" "\<And>x. r = Inr x \<Longrightarrow> o' = Inr x"
      using assms Inr ps False w by (auto simp: deliver_attempt_def split: sum.splits exn.splits)
    show ?thesis
    proof (cases "prepare_attempt k inp c db")
      case (Inl x)
      then show ?thesis using that(1) w r by (auto simp: deliver_within_def)
    next
      case (Inr p)
      obtain url body sig where p: "p = (url, body, sig)" by (cases p)
      obtain q tr2 where q: "redirect_loop (sk_idna k) (sk_production k) (sk_allowed_ports k) (sk_limits k) (si_network inp) body (sh_values sig) url 0 [] = (q, tr2)"
        by fastforce
      have "tr2 = tr'" "\<And>x. o' = Inr x \<Longrightarrow> \<exists>result. q = Inr result \<and> conclude_attempt k inp c policy body sig result = Inr x"
        using w Inr p q by (auto simp: deliver_within_def split: sum.splits)
      then show ?thesis using that(2) [of url body sig q] Inr p q r by blast
    qed
  qed
qed

lemma execute_webhook_trace:
  assumes "execute_webhook k inp c db = (r, tr, db')"
  obtains x where "tr = []" "r = Inl x" "db' = db"
    "and_then (webhook_destination (c_route_snapshot c)) (\<lambda>d. required_uuid d ''subscription_id'') = Inl x"
  | i q where "and_then (webhook_destination (c_route_snapshot c)) (\<lambda>d. required_uuid d ''subscription_id'') = Inr i"
      "deliver_attempt k inp c (wh_secrets db) = (q, tr)" "r = Inr () \<Longrightarrow> \<exists>x. q = Inr x"
proof (cases "and_then (webhook_destination (c_route_snapshot c)) (\<lambda>d. required_uuid d ''subscription_id'')")
  case (Inl x)
  then show ?thesis using that(1) [of x] assms by (auto simp: execute_webhook_def)
next
  case (Inr i)
  obtain q tr' where q: "deliver_attempt k inp c (wh_secrets db) = (q, tr')" by fastforce
  have "tr' = tr" "r = Inr () \<Longrightarrow> \<exists>x. q = Inr x"
    using assms Inr q by (auto simp: execute_webhook_def after_metric_def Let_def split: sum.splits exn.splits if_splits option.splits)
  then show ?thesis using that(2) [OF Inr] q by blast
qed

lemma execute_network:
  assumes run: "execute_webhook k inp c db = (r, tr, db')" and net: "tr \<noteq> [] \<or> r = Inr ()"
  obtains url body sig q where "prepare_attempt k inp c (wh_secrets db) = Inr (url, body, sig)"
    "redirect_loop (sk_idna k) (sk_production k) (sk_allowed_ports k) (sk_limits k) (si_network inp) body (sh_values sig) url 0 [] = (q, tr)"
    "r = Inr () \<Longrightarrow> \<exists>result policy x. q = Inr result \<and> conclude_attempt k inp c policy body sig result = Inr x"
  using run
proof (cases rule: execute_webhook_trace)
  case (1 x)
  then show ?thesis using net by simp
next
  case (2 i o')
  from 2(2) show ?thesis
  proof (cases rule: deliver_attempt_parts)
    case 1
    then show ?thesis using net 2(3) by blast
  next
    case (2 url body sig q)
    show ?thesis by (rule that [OF 2(1,2)]) (use 2(3) \<open>r = Inr () \<Longrightarrow> \<exists>x. o' = Inr x\<close> in blast)
  qed
qed

lemma prepare_attempt_parts:
  assumes "prepare_attempt k inp c db = Inr (url, body, sig)"
  obtains destination secret_set_id secrets where "webhook_destination (c_route_snapshot c) = Inr destination" "required_string destination ''endpoint_url'' = Inr url"
    "required_uuid destination ''secret_set_id'' = Inr secret_set_id"
    "eligible_for_signing (sk_aead k) (sk_keys k) (dr_tenant_id (c_delivery c)) secret_set_id (instant (si_now inp)) db = Inr secrets"
    "serialize_webhook_envelope (sk_frepr k) (sk_fparse k) (sk_stack k) (sk_isoformat k) (dr_delivery_id (c_delivery c)) (c_event c) = Inr body"
    "sign_webhook (sk_hmac k) (webhook_message_id (dr_delivery_id (c_delivery c))) (si_now inp) body (map sg_material secrets) = Inr sig"
  using assms that
  by (auto simp: prepare_attempt_def signing_secrets_def and_then_Inr_iff split: if_splits option.splits sum.splits eligible_failure.splits)

lemma raise_delivery_raises [simp]: "raise_delivery r \<noteq> Inr x"
  by (simp add: raise_delivery_def split: sum.split)

lemma conclude_success:
  assumes "conclude_attempt k inp c policy body sig result = Inr x"
  shows "200 \<le> rm_status_code (tr_response result)" "rm_status_code (tr_response result) < 300" "wr_connected_ip x = tr_connected_ip result"
    "wr_signature_count x = sh_signature_count sig" "wr_status_code x = rm_status_code (tr_response result)"
proof -
  from assms obtain m d cl where cl: "classify_response (sk_parsedate k) (rm_status_code (tr_response result)) (rm_headers (tr_response result)) (si_received inp) m d = Inr cl"
    and r: "(case rc_disposition cl of
         RetryableResponse \<Rightarrow> raise_delivery (new_retryable (rc_code cl) ''Webhook receiver requested or requires a retry.'' (rc_retry_after cl))
       | PermanentResponse \<Rightarrow> raise_delivery (new_permanent (rc_code cl) ''Webhook receiver returned a terminal response.'')
       | SuccessResponse \<Rightarrow>
           let digest = hexdigest (sk_sha256 k body) in
           Inr \<lparr>wr_message_id = webhook_message_id (dr_delivery_id (c_delivery c)), wr_request_body_digest = digest, wr_signed_body_digest = digest,
                wr_signature_count = sh_signature_count sig, wr_connected_ip = tr_connected_ip result,
                wr_status_code = rm_status_code (tr_response result), wr_response_body_persisted = False\<rparr>) = Inr x"
    unfolding conclude_attempt_def and_then_Inr_iff by blast
  have ok: "rc_disposition cl = SuccessResponse" using r by (cases "rc_disposition cl") simp_all
  from cl ok show "200 \<le> rm_status_code (tr_response result)" "rm_status_code (tr_response result) < 300"
    by (auto simp: classify_response_def and_then_Inr_iff split: if_splits)
  show "wr_connected_ip x = tr_connected_ip result" "wr_signature_count x = sh_signature_count sig" "wr_status_code x = rm_status_code (tr_response result)"
    using r ok by (auto simp: Let_def)
qed

lemma validated_context:
  "validate_ssl_context context = Inr () \<longleftrightarrow> ctx_cert_required context \<and> ctx_check_hostname context \<and> tls_v1_2 \<le> ctx_minimum_version context \<and>
     (ctx_maximum_version context = tls_maximum_supported \<or> tls_v1_2 \<le> ctx_maximum_version context)"
  by (auto simp: validate_ssl_context_def not_less)

text \<open>What the sink reads back from the snapshot of a webhook route.\<close>

lemma uuid_str_nonempty [simp]: "uuid_str u \<noteq> []"
  by (simp add: uuid_str_def Let_def)

lemma webhook_snapshot_destination:
  "webhook_destination (to_snapshot (snapshot_route ty h v policy)) = Inr
     [(''kind'', JStr ''webhook''), (''key'', JStr (uuid_hex (sb_subscription_id h))), (''endpoint_url'', JStr (sx_endpoint_url v)),
      (''secret_set_id'', JStr (uuid_str (sx_secret_set_id v))), (''subscription_id'', JStr (uuid_str (sb_subscription_id h))),
      (''subscription_version'', JInt (sx_version v))]"
  by (simp add: webhook_destination_def to_snapshot_def metadata_members_def snapshot_route_def route_metadata_reload dict_merge_def)

lemma webhook_snapshot_read:
  assumes "webhook_destination (to_snapshot (snapshot_route ty h v policy)) = Inr d" "sx_endpoint_url v \<noteq> []"
  shows "required_string d ''endpoint_url'' = Inr (sx_endpoint_url v)" "required_uuid d ''secret_set_id'' = Inr (sx_secret_set_id v)"
    "required_uuid d ''subscription_id'' = Inr (sb_subscription_id h)"
  using assms by (auto simp: webhook_snapshot_destination required_string_def required_uuid_def uuid_text_roundtrip)

section \<open>Health after the attempt\<close>

lemma row_ok_errors: "update_subscription_row r db = Inl e \<Longrightarrow> e = check_violation"
  by (auto simp: update_subscription_row_def split: if_splits)

lemma health_errors:
  "record_health_failure a t i now db = Inl e \<Longrightarrow> (\<forall>d. e \<noteq> DeliveryFailure d)"
  "record_health_success t i now db = Inl e \<Longrightarrow> (\<forall>d. e \<noteq> DeliveryFailure d)"
proof -
  have v: "check_violation \<noteq> DeliveryFailure d" "unique_violation \<noteq> DeliveryFailure d" for d by (simp_all add: integrity_error_def)
  show "record_health_failure a t i now db = Inl e \<Longrightarrow> (\<forall>d. e \<noteq> DeliveryFailure d)"
    using v by (cases "health_target t i db")
      (auto simp: record_health_failure_def health_target_def update_subscription_row_def insert_audit_def Let_def split: if_splits option.splits)
  show "record_health_success t i now db = Inl e \<Longrightarrow> (\<forall>d. e \<noteq> DeliveryFailure d)"
    using v by (cases "health_target t i db") (auto simp: record_health_success_def health_target_def update_subscription_row_def split: if_splits option.splits)
qed

lemma execute_health:
  assumes "execute_webhook k inp c db = (r, tr, db')" and "sk_health k" and "si_metric_fault inp = None"
    and "and_then (webhook_destination (c_route_snapshot c)) (\<lambda>d. required_uuid d ''subscription_id'') = Inr i"
  shows "case r of
      Inr _ \<Rightarrow> record_health_success (dr_tenant_id (c_delivery c)) i (si_recorded inp) db = Inr db'
    | Inl x \<Rightarrow> (if \<exists>d. x = DeliveryFailure d then record_health_failure (si_audit_id inp) (dr_tenant_id (c_delivery c)) i (si_recorded inp) db = Inr db' else db' = db)"
proof -
  obtain q tr' where q: "deliver_attempt k inp c (wh_secrets db) = (q, tr')" by fastforce
  show ?thesis
  proof (cases q)
    case (Inr x)
    then show ?thesis using assms q by (auto simp: execute_webhook_def after_metric_def split: sum.splits dest!: health_errors(2))
  next
    case (Inl x)
    show ?thesis
    proof (cases "\<exists>d. x = DeliveryFailure d")
      case True
      then show ?thesis using assms q Inl by (auto simp: execute_webhook_def after_metric_def split: sum.splits dest!: health_errors(1))
    next
      case False
      then have "execute_webhook k inp c db = (Inl x, tr', db)" using assms(2-4) q Inl by (cases x) (auto simp: execute_webhook_def after_metric_def)
      then show ?thesis using assms(1) False by auto
    qed
  qed
qed

section \<open>A sample attempt\<close>

definition sample_sink :: sink_config where
  "sample_sink = \<lparr>sk_keys = \<lparr>mks_keys = [sample_master], mks_current_key_id = ''k1''\<rparr>, sk_aead = sample_aead,
     sk_limits = \<lparr>tl_connect_timeout_seconds = Fin 5, tl_write_timeout_seconds = Fin 10, tl_total_timeout_seconds = Fin 30,
       tl_maximum_request_bytes = 524288, tl_maximum_addresses = 8, tl_maximum_redirects = 0, tl_response = default_limits\<rparr>,
     sk_production = True, sk_allowed_ports = [443], sk_health = True, sk_hmac = sample_mac, sk_sha256 = (\<lambda>b. take 32 b), sk_idna = (\<lambda>_. None),
     sk_isoformat = (\<lambda>_. ''1970-01-01T00:00:05+00:00''), sk_parsedate = (\<lambda>_. Inl ValueError), sk_frepr = (\<lambda>_. ''0.0''), sk_fparse = (\<lambda>_. NotANumber),
     sk_stack = 100\<rparr>"

definition sample_network :: net_world where
  "sample_network = \<lparr>nw_resolve = (\<lambda>_ _ _. Inr [''8.8.8.8'']),
     nw_context = (\<lambda>_. \<lparr>ctx_cert_required = True, ctx_check_hostname = True, ctx_minimum_version = tls_v1_2, ctx_maximum_version = tls_maximum_supported\<rparr>),
     nw_connect = (\<lambda>_ _. Answered \<lparr>rd_data = render_answer 200 [] [], rd_ending = Closed\<rparr>)\<rparr>"

definition sample_sink_inputs :: sink_inputs where
  "sample_sink_inputs = \<lparr>si_started = Aware 6000000, si_now = Aware 6000000, si_received = Aware 6500000, si_recorded = 7000000,
     si_session_fault = None, si_network = sample_network, si_metric_fault = None, si_audit_id = 5\<rparr>"

definition sample_claim :: claimed where
  "sample_claim = \<lparr>
     c_event = \<lparr>er_event_id = 20, er_tenant_id = 1, er_event_type = ''invoice.paid'', er_event_version = 1, er_canonical_version = 1,
       er_payload_canonical = canonical_prefix @ ''{}'', er_payload_sha256 = [], er_principal = \<lparr>en_tenant_id = 1, en_subject_id = ''owner'', en_scopes = [], en_actor_id = None, en_client_id = None,
         en_issued_at = Aware 0, en_authentication_time = None, en_expires_at = None, en_credential_ref = None\<rparr>,
       er_occurred_at = Aware 5000000, er_created_at = Aware 5000000, er_correlation_id = None, er_causation_id = None,
       er_traceparent = None, er_tracestate = None, er_dedupe_namespace = None, er_dedupe_key = None\<rparr>,
     c_delivery = \<lparr>dr_delivery_id = 9, dr_tenant_id = 1, dr_event_id = 20, dr_route_key = ''webhook.3'', dr_route_version = 1,
       dr_destination_kind = ''webhook'', dr_destination_key = ''3'', dr_route_snapshot = [], dr_state = Leased, dr_attempts_started = 1,
       dr_created_at = Aware 5000000, dr_updated_at = Aware 5000000, dr_next_attempt_at = Aware 5000000, dr_lease_token = Some 30,
       dr_lease_expires_at = Some (Aware 125000000), dr_replay_of = None, dr_replay_actor = None, dr_replay_reason = None\<rparr>,
     c_attempt = \<lparr>ar_attempt_id = 31, ar_tenant_id = 1, ar_delivery_id = 9, ar_attempt_number = 1, ar_lease_token = 30, ar_outcome = Started,
       ar_started_at = Aware 5500000, ar_finished_at = None, ar_failure_code = None, ar_failure_summary = None\<rparr>,
     c_route_snapshot = to_snapshot (snapshot_route ''invoice.paid'' sample_head sample_sx (default_policy ''webhook.default''))\<rparr>"

definition sample_wire :: bytes where
  "sample_wire = (case serialize_webhook_envelope (sk_frepr sample_sink) (sk_fparse sample_sink) (sk_stack sample_sink) (sk_isoformat sample_sink) 9 (c_event sample_claim) of
     Inr b \<Rightarrow> b | Inl _ \<Rightarrow> [])"

definition sample_sig :: signed_headers where
  "sample_sig = (case sign_webhook sample_mac (webhook_message_id 9) (Aware 6000000) sample_wire [sample_secret] of
     Inr h \<Rightarrow> h | Inl _ \<Rightarrow> \<lparr>sh_values = [], sh_signature_count = 0\<rparr>)"

lemma sample_wire_sent:
  "serialize_webhook_envelope (sk_frepr sample_sink) (sk_fparse sample_sink) (sk_stack sample_sink) (sk_isoformat sample_sink) 9 (c_event sample_claim) = Inr sample_wire"
proof -
  have "case serialize_webhook_envelope (sk_frepr sample_sink) (sk_fparse sample_sink) (sk_stack sample_sink) (sk_isoformat sample_sink) 9 (c_event sample_claim) of
     Inr _ \<Rightarrow> True | Inl _ \<Rightarrow> False" by code_simp
  then show ?thesis by (auto simp: sample_wire_def split: sum.splits)
qed

lemma sample_sig_made: "sign_webhook sample_mac (webhook_message_id 9) (Aware 6000000) sample_wire [sample_secret] = Inr sample_sig"
proof -
  have "case sign_webhook sample_mac (webhook_message_id 9) (Aware 6000000) sample_wire [sample_secret] of Inr _ \<Rightarrow> True | Inl _ \<Rightarrow> False" by code_simp
  then show ?thesis by (auto simp: sample_sig_def split: sum.splits)
qed

lemma sample_request: "case request_bytes (et_request_target sample_target) (et_authority sample_target) sample_wire (sh_values sample_sig) of
    Inr b \<Rightarrow> int (length b) \<le> 524288 | Inl _ \<Rightarrow> False"
  by code_simp

lemma sample_parsed_again: "parse_endpoint (\<lambda>_. None) True [443] (et_url sample_target) = Inr sample_target"
proof -
  let ?v = "et_url sample_target"
  let ?u = "\<lparr>su_scheme = ''https'', su_netloc = ''example.com'', su_path = ''/hook%3C1%3E'', su_query = ''x=%7e'', su_fragment = []\<rparr>"
  have "?v \<noteq> []" "length ?v = 37" "\<not> list_ex control_or_space ?v" "urlsplit ?v = Inr ?u" by code_simp+
  moreover have "url_port ?u = Inr None" "lower ''https'' = ''https''" "url_hostname ?u = Some ''example.com''" by code_simp+
  moreover have "idna_encode (\<lambda>_. None) ''example.com'' = Some ''example.com''" "rstrip_dots (lower ''example.com'') = ''example.com''" by code_simp+
  moreover have "endpoint_of [443] ?u None ''example.com'' = Inr sample_target" by code_simp
  ultimately show ?thesis by (simp add: parse_endpoint_def)
qed

lemma sample_fields:
  "dr_destination_kind (c_delivery sample_claim) = ''webhook''" "dr_tenant_id (c_delivery sample_claim) = 1" "dr_delivery_id (c_delivery sample_claim) = 9"
  "c_route_snapshot sample_claim = to_snapshot (snapshot_route ''invoice.paid'' sample_head sample_sx (default_policy ''webhook.default''))"
  "sx_endpoint_url sample_sx = et_url sample_target" "sx_secret_set_id sample_sx = 2" "sb_subscription_id sample_head = 3" "et_url sample_target \<noteq> []"
  by (simp_all add: sample_claim_def sample_sx_def new_subscription_version_def sample_head_def sample_target_def)

lemma sample_sink_fields:
  "sk_aead sample_sink = sample_aead" "sk_keys sample_sink = \<lparr>mks_keys = [sample_master], mks_current_key_id = ''k1''\<rparr>" "sk_hmac sample_sink = sample_mac"
  "sk_idna sample_sink = (\<lambda>_. None)" "sk_production sample_sink" "sk_allowed_ports sample_sink = [443]" "sk_health sample_sink"
  "tl_maximum_addresses (sk_limits sample_sink) = 8" "tl_maximum_redirects (sk_limits sample_sink) = 0" "tl_maximum_request_bytes (sk_limits sample_sink) = 524288"
  "tl_response (sk_limits sample_sink) = default_limits" "si_session_fault sample_sink_inputs = None" "si_now sample_sink_inputs = Aware 6000000"
  "si_network sample_sink_inputs = sample_network" "si_metric_fault sample_sink_inputs = None"
  by (simp_all add: sample_sink_def sample_sink_inputs_def)

lemma sample_hook_prepared: "prepare_attempt sample_sink sample_sink_inputs sample_claim sample_vault = Inr (et_url sample_target, sample_wire, sample_sig)"
proof -
  have "webhook_destination (c_route_snapshot sample_claim) = Inr d \<Longrightarrow> required_string d ''endpoint_url'' = Inr (et_url sample_target) \<and> required_uuid d ''secret_set_id'' = Inr 2" for d
    using webhook_snapshot_read [of "''invoice.paid''" sample_head sample_sx "default_policy ''webhook.default''" d] unfolding sample_fields using sample_fields(8) by simp
  moreover obtain d where "webhook_destination (c_route_snapshot sample_claim) = Inr d" unfolding sample_fields(4) webhook_snapshot_destination by simp
  ultimately show ?thesis
    using sample_wire_sent sample_sig_made sample_eligible(1) by (simp add: prepare_attempt_def signing_secrets_def sample_fields(1-3) sample_sink_fields)
qed

lemma sample_answer:
  "parse_response default_limits \<lparr>rd_data = render_answer 200 [] [], rd_ending = Closed\<rparr> =
     Inr (\<lparr>rm_status_code = 200, rm_headers = [(''content-length'', ''0'')], rm_discarded_body_bytes = 0\<rparr>, \<lparr>rd_data = [], rd_ending = Closed\<rparr>)"
proof -
  have "length (render_answer 200 [] []) = 35" "int_str 0 = ''0''" by code_simp+
  then show ?thesis using answer_read_back [where status = 200 and hs = "[]" and body = "[]" and l = default_limits and r = "\<lparr>rd_data = [], rd_ending = Closed\<rparr>" and rest = "[]"]
    by (simp add: default_limits_def)
qed

lemma sample_hook_delivered:
  obtains c where "redirect_loop (\<lambda>_. None) True [443] (sk_limits sample_sink) sample_network sample_wire (sh_values sample_sig) (et_url sample_target) 0 [] =
    (Inr \<lparr>tr_connected_ip = ''8.8.8.8'', tr_response = \<lparr>rm_status_code = 200, rm_headers = [(''content-length'', ''0'')], rm_discarded_body_bytes = 0\<rparr>\<rparr>,
     [LookedUp ''example.com'' 443, Opened c])"
proof -
  have v: "validate_public_addresses [''8.8.8.8''] = Inr [''8.8.8.8'']" by code_simp
  obtain b where b: "request_bytes (et_request_target sample_target) (et_authority sample_target) sample_wire (sh_values sample_sig) = Inr b" "int (length b) \<le> 524288"
    using sample_request by (auto split: sum.splits)
  have t: "et_hostname sample_target = ''example.com''" "et_port sample_target = 443" by (simp_all add: sample_target_def)
  let ?ctx = "\<lparr>ctx_cert_required = True, ctx_check_hostname = True, ctx_minimum_version = tls_v1_2, ctx_maximum_version = tls_maximum_supported\<rparr>"
  have ctx: "validate_ssl_context ?ctx = Inr ()" by (simp add: validated_context)
  have net: "nw_resolve sample_network = (\<lambda>_ _ _. Inr [''8.8.8.8''])" "nw_context sample_network = (\<lambda>_. ?ctx)"
    "nw_connect sample_network = (\<lambda>_ _. Answered \<lparr>rd_data = render_answer 200 [] [], rd_ending = Closed\<rparr>)" by (simp_all add: sample_network_def)
  obtain c where c: "prepare_connection (sk_limits sample_sink) True ?ctx sample_target ''8.8.8.8'' sample_wire (sh_values sample_sig) = Inr c" "op_host c = ''8.8.8.8''"
    using ctx v b by (simp add: prepare_connection_def sample_sink_fields Let_def)
  have "resolve_endpoint (\<lambda>_. None) True [443] 8 sample_network (et_url sample_target) [] = (Inr (sample_target, [''8.8.8.8'']), [LookedUp ''example.com'' 443])"
    using v by (simp add: resolve_endpoint_def sample_parsed_again t net)
  moreover have "try_addresses (sk_limits sample_sink) True sample_network sample_target sample_wire (sh_values sample_sig) None [''8.8.8.8''] [LookedUp ''example.com'' 443] =
    (Inr \<lparr>tr_connected_ip = ''8.8.8.8'', tr_response = \<lparr>rm_status_code = 200, rm_headers = [(''content-length'', ''0'')], rm_discarded_body_bytes = 0\<rparr>\<rparr>,
     [LookedUp ''example.com'' 443, Opened c])"
    using c sample_answer by (simp add: send_def net sample_sink_fields)
  ultimately show ?thesis using that by (simp add: redirect_loop.simps [of "\<lambda>_. None" True "[443]" "sk_limits sample_sink"] sample_sink_fields)
qed

lemma sample_seconds: "\<exists>q. attempt_seconds sample_sink sample_sink_inputs sample_claim = Inr (default_policy ''webhook.default'', q) \<and> 0 < q"
proof -
  have "case attempt_seconds sample_sink sample_sink_inputs sample_claim of Inr (p, q) \<Rightarrow> p = default_policy ''webhook.default'' \<and> 0 < q | Inl _ \<Rightarrow> False" by code_simp
  then show ?thesis by (auto split: sum.splits)
qed

lemma sample_executed: "\<exists>c. execute_webhook sample_sink sample_sink_inputs sample_claim sample_hooks = (Inr (), [LookedUp ''example.com'' 443, Opened c], sample_hooks)"
proof -
  obtain c where run: "redirect_loop (\<lambda>_. None) True [443] (sk_limits sample_sink) sample_network sample_wire (sh_values sample_sig) (et_url sample_target) 0 [] =
    (Inr \<lparr>tr_connected_ip = ''8.8.8.8'', tr_response = \<lparr>rm_status_code = 200, rm_headers = [(''content-length'', ''0'')], rm_discarded_body_bytes = 0\<rparr>\<rparr>,
     [LookedUp ''example.com'' 443, Opened c])" by (rule sample_hook_delivered)
  obtain q where q: "attempt_seconds sample_sink sample_sink_inputs sample_claim = Inr (default_policy ''webhook.default'', q)" "0 < q" using sample_seconds by blast
  have "case conclude_attempt sample_sink sample_sink_inputs sample_claim (default_policy ''webhook.default'') sample_wire sample_sig
      \<lparr>tr_connected_ip = ''8.8.8.8'', tr_response = \<lparr>rm_status_code = 200, rm_headers = [(''content-length'', ''0'')], rm_discarded_body_bytes = 0\<rparr>\<rparr> of
      Inr _ \<Rightarrow> True | Inl _ \<Rightarrow> False" by code_simp
  then obtain x where x: "conclude_attempt sample_sink sample_sink_inputs sample_claim (default_policy ''webhook.default'') sample_wire sample_sig
      \<lparr>tr_connected_ip = ''8.8.8.8'', tr_response = \<lparr>rm_status_code = 200, rm_headers = [(''content-length'', ''0'')], rm_discarded_body_bytes = 0\<rparr>\<rparr> = Inr x"
    by (auto split: sum.splits)
  have "wh_secrets sample_hooks = sample_vault" by (simp add: sample_hooks_def)
  then have d: "deliver_attempt sample_sink sample_sink_inputs sample_claim (wh_secrets sample_hooks) = (Inr x, [LookedUp ''example.com'' 443, Opened c])"
    using q x run by (simp add: deliver_attempt_def deliver_within_def sample_hook_prepared sample_sink_fields)
  have i: "and_then (webhook_destination (c_route_snapshot sample_claim)) (\<lambda>d. required_uuid d ''subscription_id'') = Inr 3"
    unfolding sample_fields(4) webhook_snapshot_destination by (simp add: required_uuid_def required_string_def uuid_text_roundtrip sample_fields)
  have h: "record_health_success 1 3 (si_recorded sample_sink_inputs) sample_hooks = Inr sample_hooks"
    by (simp add: record_health_success_def health_target_def find_head_def sample_hooks_def sample_head_def subscription_key_def)
  show ?thesis using d i h by (intro exI [of _ c]) (simp add: execute_webhook_def after_metric_def sample_fields sample_sink_fields)
qed

section \<open>Properties\<close>



text \<open>
  C37. An attempt ends: whatever the resolver answers and however receivers redirect, it looks up at most one more name than the redirect
  limit and opens at most that many times the address limit of connections. With the largest limits that are accepted, 5
  redirects and 64 addresses, these are 6 lookups and 384 connections.
\<close>

theorem webhook_attempt_bounded:
  "case execute_webhook k inp c db of (r, tr, db') \<Rightarrow>
     lookups tr \<le> Suc (nat (tl_maximum_redirects (sk_limits k))) \<and>
     length (opened tr) \<le> Suc (nat (tl_maximum_redirects (sk_limits k))) * nat (tl_maximum_addresses (sk_limits k))"
proof -
  obtain r tr db' where run: "execute_webhook k inp c db = (r, tr, db')" by (cases "execute_webhook k inp c db") auto
  let ?m = "Suc (nat (tl_maximum_redirects (sk_limits k)))" let ?a = "nat (tl_maximum_addresses (sk_limits k))"
  have "lookups tr \<le> ?m \<and> length (opened tr) \<le> ?m * ?a"
  proof (cases "tr = []")
    case False
    from run disjI1 [OF False] obtain url body and sig :: signed_headers and q
      where "redirect_loop (sk_idna k) (sk_production k) (sk_allowed_ports k) (sk_limits k) (si_network inp) body (sh_values sig) url 0 [] = (q, tr)"
      by (rule execute_network)
    from redirect_loop_bounded [OF this] show ?thesis by simp
  qed simp
  with run show ?thesis by simp
qed

text \<open>
  C11. Success is truthful: when the sink returns, the last connection it opened was answered by a complete response with a status of the
  200 class, the request written to it carried the canonical envelope of the event as body and the signatures of it under exactly the
  secrets of the snapshot's secret set that are eligible at the signing time. Any other answer, redirects included, is raised.
\<close>

theorem webhook_success_truthful:
  assumes "execute_webhook k inp c db = (Inr (), tr, db')"
  shows "\<exists>destination secret_set_id secrets body sig v e tr0 conn rd rest response.
    webhook_destination (c_route_snapshot c) = Inr destination \<and> required_uuid destination ''secret_set_id'' = Inr secret_set_id \<and>
    eligible_for_signing (sk_aead k) (sk_keys k) (dr_tenant_id (c_delivery c)) secret_set_id (instant (si_now inp)) (wh_secrets db) = Inr secrets \<and>
    serialize_webhook_envelope (sk_frepr k) (sk_fparse k) (sk_stack k) (sk_isoformat k) (dr_delivery_id (c_delivery c)) (c_event c) = Inr body \<and>
    sign_webhook (sk_hmac k) (webhook_message_id (dr_delivery_id (c_delivery c))) (si_now inp) body (map sg_material secrets) = Inr sig \<and>
    tr = tr0 @ [Opened conn] \<and> parse_endpoint (sk_idna k) (sk_production k) (sk_allowed_ports k) v = Inr e \<and>
    request_bytes (et_request_target e) (et_authority e) body (sh_values sig) = Inr (op_request conn) \<and>
    nw_connect (si_network inp) (length tr0) conn = Answered rd \<and> parse_response (tl_response (sk_limits k)) rd = Inr (response, rest) \<and>
    200 \<le> rm_status_code response \<and> rm_status_code response < 300"
proof -
  from assms disjI2 [OF refl] obtain url body sig q where p: "prepare_attempt k inp c (wh_secrets db) = Inr (url, body, sig)"
    and lq: "redirect_loop (sk_idna k) (sk_production k) (sk_allowed_ports k) (sk_limits k) (si_network inp) body (sh_values sig) url 0 [] = (q, tr)"
    and "\<exists>result policy x. q = Inr result \<and> conclude_attempt k inp c policy body sig result = Inr x"
    by (rule execute_network) simp
  then obtain result policy x where q: "q = Inr result" and x: "conclude_attempt k inp c policy body sig result = Inr x" by blast
  note l = lq [unfolded q]
  from p obtain destination secret_set_id secrets where s: "webhook_destination (c_route_snapshot c) = Inr destination"
    "required_uuid destination ''secret_set_id'' = Inr secret_set_id"
    "eligible_for_signing (sk_aead k) (sk_keys k) (dr_tenant_id (c_delivery c)) secret_set_id (instant (si_now inp)) (wh_secrets db) = Inr secrets"
    "serialize_webhook_envelope (sk_frepr k) (sk_fparse k) (sk_stack k) (sk_isoformat k) (dr_delivery_id (c_delivery c)) (c_event c) = Inr body"
    "sign_webhook (sk_hmac k) (webhook_message_id (dr_delivery_id (c_delivery c))) (si_now inp) body (map sg_material secrets) = Inr sig"
    by (rule prepare_attempt_parts)
  from redirect_loop_answer [OF l] obtain v e tr0 conn rd rest where a: "tr = tr0 @ [Opened conn]"
    "parse_endpoint (sk_idna k) (sk_production k) (sk_allowed_ports k) v = Inr e"
    "request_bytes (et_request_target e) (et_authority e) body (sh_values sig) = Inr (op_request conn)"
    "nw_connect (si_network inp) (length tr0) conn = Answered rd" "parse_response (tl_response (sk_limits k)) rd = Inr (tr_response result, rest)"
    by blast
  show ?thesis using s a conclude_success(1,2) [OF x] by blast
qed

theorem webhook_success_truthful_witness:
  "\<exists>conn. execute_webhook sample_sink sample_sink_inputs sample_claim sample_hooks = (Inr (), [LookedUp ''example.com'' 443, Opened conn], sample_hooks) \<and>
     (\<exists>body (sig :: signed_headers) (e :: endpoint_target). request_bytes (et_request_target e) (et_authority e) body (sh_values sig) = Inr (op_request conn))"
proof -
  obtain conn where run: "execute_webhook sample_sink sample_sink_inputs sample_claim sample_hooks = (Inr (), [LookedUp ''example.com'' 443, Opened conn], sample_hooks)"
    using sample_executed by blast
  from webhook_success_truthful [OF run] obtain tr0 conn' body and sig :: signed_headers and e :: endpoint_target where "[LookedUp ''example.com'' 443, Opened conn] = tr0 @ [Opened conn']"
    "request_bytes (et_request_target e) (et_authority e) body (sh_values sig) = Inr (op_request conn')" by blast
  moreover from this(1) have "conn' = conn" by (cases tr0) auto
  ultimately show ?thesis using run by blast
qed



end
