(* ===== verification/Spec2Isabelle.thy ===== *)
theory Spec2Isabelle
  imports Lease_Recovery Unit_Of_Work Handler_Executor Relay Command_Context Taskiq_Worker Delegation_Chain Webhook_Sink
begin

text \<open>
  A verification library for \<^verbatim>\<open>fastapi_effects\<close> (paths below are relative to \<^verbatim>\<open>src/src/fastapi_effects/\<close>).

  \<^bold>\<open>The program.\<close> The library stores the effects of a business transaction (events) in the same database transaction, fans
  each event out to deliveries, one per route, and lets workers lease deliveries, run the registered handler under an attenuated
  principal, and finalise the attempt as succeeded, to be retried, or dead. Around this core stand an idempotent
  command ledger, which makes HTTP commands exactly-once within their expiry, and executors that hand the leased work to a broker,
  signed webhooks to tenant-managed endpoints, and short-lived delegation credentials between services.
  The parts interact through the database: the unit of work and the command context own a transaction and publish into
  it; the relay claims, executes and finalises; reconciliation and recovery repair what crashed workers left. Webhook subscriptions
  become routes at publication; their deliveries are executed by the webhook sink from the snapshot of the route.

  \<^bold>\<open>Theories and sources.\<close>
  \<^item> \<open>Prelude\<close>: tables as lists of rows, results, traversals, dictionaries, and two locales, \<open>invariant_machine\<close> and
    \<open>stable_machine\<close>, through which every stateful component is verified (interpreted as \<open>reg\<close>, \<open>lease\<close>, \<open>effects\<close>,
    \<open>completed_row\<close>, \<open>handoff\<close>, \<open>taskiq\<close>, on key rings, \<open>secrets_machine\<close> and \<open>webhooks\<close>). \<open>Python_Base\<close>, \<open>Python_Time\<close>: what the code uses of the language (text, UUIDs, floats,
    datetimes with their overflow, JSON values).
  \<^item> \<open>Errors\<close> (\<^verbatim>\<open>errors.py\<close>, \<^verbatim>\<open>postgres/errors.py\<close>): exceptions are values of \<open>exn\<close>, fallible code returns \<open>'a result\<close>.
  \<^item> \<open>Retry\<close> (\<^verbatim>\<open>core/retry.py\<close>), \<open>Principal\<close> (\<^verbatim>\<open>core/principal.py\<close>, \<^verbatim>\<open>context.py\<close>, \<^verbatim>\<open>identity.py\<close>, \<^verbatim>\<open>policy.py\<close>), \<open>Records\<close>
    (\<^verbatim>\<open>core/event.py\<close>, \<^verbatim>\<open>delivery.py\<close>), \<open>Routing\<close> (\<^verbatim>\<open>core/routing.py\<close>): the validated data types and the registry.
  \<^item> \<open>Canonical\<close>, \<open>Json_Parse\<close> (\<^verbatim>\<open>sqlalchemy/canonical.py\<close>): the canonical encoder and the strict decoder, with their round trip.
  \<^item> \<open>Tables\<close> (\<^verbatim>\<open>sqlalchemy/models.py\<close>), \<open>Repository\<close> (\<^verbatim>\<open>sqlalchemy/repository.py\<close>, \<^verbatim>\<open>postgres/store.py\<close>): rows with CHECK, UNIQUE
    and FOREIGN KEY constraints, and publishing.
  \<^item> \<open>Leasing\<close> (\<^verbatim>\<open>postgres/leasing.py\<close>, \<^verbatim>\<open>postgres/time.py\<close>): claim, succeed, fail, reconcile, replay as transactions.
    \<open>Lease_Safety\<close> gives the abstract lease machine with its invariant, \<open>Lease_Machine\<close> the refinement of every operation to it,
    \<open>Lease_Properties\<close> and \<open>Lease_Recovery\<close> the properties of the protocol.
  \<^item> \<open>Unit_Of_Work\<close> (\<^verbatim>\<open>sqlalchemy/uow.py\<close>), \<open>Handler_Executor\<close> (\<^verbatim>\<open>handlers/executor.py\<close>), \<open>Observability\<close>
    (\<^verbatim>\<open>observability/\<close>), \<open>Relay\<close> (\<^verbatim>\<open>postgres/relay.py\<close>).
  \<^item> \<open>Command_Request\<close> (\<^verbatim>\<open>idempotency/models.py\<close>, \<^verbatim>\<open>fingerprint.py\<close>, \<^verbatim>\<open>responses.py\<close>, \<^verbatim>\<open>request.py\<close>, \<^verbatim>\<open>api.py\<close>),
    \<open>Command_Store\<close> (\<^verbatim>\<open>idempotency/store.py\<close>, \<^verbatim>\<open>postgres/command_schema.py\<close>), \<open>Command_Ledger\<close> (its abstract ledger and the
    refinement), \<open>Command_Context\<close> (\<^verbatim>\<open>idempotency/command.py\<close>).
  \<^item> \<open>Taskiq_Store\<close> (\<^verbatim>\<open>executors/taskiq/store.py\<close>, \<^verbatim>\<open>models.py\<close>), \<open>Taskiq_Safety\<close> (the handoff machine over the
    lease machine), \<open>Taskiq_Worker\<close> (\<^verbatim>\<open>executors/taskiq/envelope.py\<close>, \<^verbatim>\<open>adapter.py\<close>, \<^verbatim>\<open>worker.py\<close>, \<^verbatim>\<open>recovery.py\<close>), with \<open>Python_Uuid\<close> for
    the text form of UUIDs.
  \<^item> \<open>Delegation_Claims\<close>, \<open>Delegation_Keys\<close>, \<open>Delegation_Signing\<close> (\<^verbatim>\<open>delegation/\<close>): targets, claims and tokens, the key ring, and issuing,
    verifying, the bridge and the dependency; \<open>Delegation_Properties\<close> and \<open>Delegation_Chain\<close> their guarantees, over \<open>Python_Base64\<close>.
  \<^item> \<open>Webhook_Signing\<close> (\<^verbatim>\<open>webhooks/serializer.py\<close>, \<^verbatim>\<open>signing.py\<close>, \<^verbatim>\<open>classification.py\<close>), \<open>Webhook_Http\<close> and \<open>Webhook_Answers\<close>
    (\<^verbatim>\<open>http11.py\<close>, the request bytes of \<^verbatim>\<open>transport.py\<close>), \<open>Webhook_Secrets\<close> (\<^verbatim>\<open>secrets.py\<close>), \<open>Python_Ip\<close>, \<open>Webhook_Address\<close> and
    \<open>Webhook_Endpoints\<close> (\<^verbatim>\<open>address_policy.py\<close> over the parts of \<^verbatim>\<open>ipaddress\<close> and \<^verbatim>\<open>urllib.parse\<close> it uses), \<open>Webhook_Subscriptions\<close> and
    \<open>Webhook_Routes\<close> (\<^verbatim>\<open>subscriptions.py\<close>, \<^verbatim>\<open>operations.py\<close>, \<^verbatim>\<open>models.py\<close>), \<open>Webhook_Transport\<close> (\<^verbatim>\<open>transport.py\<close> and the redirect loop) and
    \<open>Webhook_Sink\<close> (\<^verbatim>\<open>sink.py\<close>).

  \<^bold>\<open>State.\<close> The database is a record of tables (\<open>db\<close>), extended by the command table (\<open>cdb\<close>) and the handoff table (\<open>tdb\<close>); the
  lease operations are polymorphic in the extension. A transaction that raises leaves the database unchanged. Sessions, context
  variables and context managers are explicit records. Webhook secrets, subscriptions and audit rows are a database of their own
  (\<open>secret_db\<close>, \<open>webhook_db\<close>). What a webhook attempt does on the network is a trace of lookups and opened connections. Telemetry that cannot change a result is left out, except where the
  relay's reports are the property.

  \<^bold>\<open>What the lemmas show.\<close> Lease protocol: one running attempt per leased delivery, finalisation at most once, terminal rows final, bounded
  and fair claims, recovery of every expired lease, retries within policy. Publishing: atomic fan-out, idempotent under a dedupe key. Unit of
  work and command context: all or nothing, nothing left behind. Command ledger: refinement of one entry per identity, permanence of recorded
  responses, fingerprints that separate requests. Handoffs: refinement of the lease machine, fenced execution, admitted messages, harmless redelivery. Authority
  never expands between emission and execution; the payload that reaches a handler is the published one. Relay: a cycle refines
  the lease machine, lost leases are reported and not raised. Delegation: accepted credentials are signed, fresh and within the request's
  authority, minted ones are accepted, authority shrinks along every chain of hops. Webhooks: what is signed verifies with the secret handed out,
  revoked secrets never sign again, answers are read exactly and within bounds, only public addresses are contacted over verified TLS
  (redirects included), attempts end, success means a 2xx answer, routes are exactly those of active subscriptions, changes are not
  lost, failing subscriptions are paused once. Findings that are theorems are proved about the code as written.

  \<^bold>\<open>Parameters.\<close> Clock readings (\<open>sample\<close>, \<open>clock\<close>), fresh UUIDs, the jitter source \<open>uniform\<close>, row locks of concurrent transactions
  (\<open>locked\<close>), faults of the database, route providers, the authorization resolver, the sink, the handler, SHA-256,
  HMAC-SHA-256, AES-GCM (\<open>aead\<close>), the
  IDNA codec for names beyond ASCII, ISO and HTTP date texts, DNS answers and what receivers send (\<open>net_world\<close>), audit and telemetry sinks,
  \<open>repr\<close> and parsing of floats (\<open>frepr\<close>, \<open>fparse\<close>) and the interpreter's recursion limit (\<open>stack\<close>). What a theorem relies on is a
  hypothesis: tokens not used before, no SHA-256 collision on the hashed inputs, floats that read back,
  decryption that inverts encryption, digests of 32 bytes.

  \<^bold>\<open>Bounds.\<close> Text is Latin-1, where NFC normalisation is the identity. The JSON decoder runs on fuel \<open>Suc (2 * length)\<close>; \<open>loads_fuel\<close>
  shows that it never runs out. The readers of HTTP answers end because every step
  consumes bytes, the redirect loop because every round counts against the limit. All other loops are structural recursions over finite selections.

  \<^bold>\<open>Not modelled.\<close> Schema installation, migrations, roles and row-level security (DDL text), the command line, readiness probes and
  diagnostics (queries printed for operators), the telemetry backends, the conformance and testing drivers, repository scripts: text for
  other systems, or glue around the modelled operations. Of the webhooks, the FastAPI router (field validation by Pydantic, then the modelled
  operations) and the pruning of history, which is a database function of the migrations.
\<close>

section \<open>From publication to the handler\<close>

text \<open>
  Events are never changed once stored, a claim carries the stored event, and the record of a stored event is the one its
  publication returned.
\<close>

lemma moves_keep_events: "lease_move\<^sup>*\<^sup>* db db' \<Longrightarrow> set (events db) \<subseteq> set (events db')"
proof (induction rule: rtranclp_induct)
  case (step db1 db2)
  from step(2) have "set (events db1) \<subseteq> set (events db2)"
    by (cases rule: lease_move.cases) (auto simp: result_simps)
  with step(3) show ?case by blast
qed simp

definition claims_stored :: "'x db_scheme \<Rightarrow> claimed list \<Rightarrow> bool" where
  "claims_stored db cs \<longleftrightarrow> (\<forall>c\<in>set cs. \<exists>e\<in>set (events db). event_from_row e = Inr (c_event c))"

lemma claims_stored_same: "events db1 = events db2 \<Longrightarrow> claims_stored db1 cs \<longleftrightarrow> claims_stored db2 cs"
  by (simp add: claims_stored_def)

lemma claims_stored_append: "claims_stored db (cs @ ds) \<longleftrightarrow> claims_stored db cs \<and> claims_stored db ds"
  by (auto simp: claims_stored_def)

lemma claim_one_stored:
  assumes "claim_one now token i policy d db = Inr (db', c)"
  shows "events db' = events db \<and> claims_stored db [c]"
proof -
  from assms obtain expires db1 e where up: "update_delivery (leased_row now expires token d) db = Inr db1"
      "insert_attempt (started_attempt now token i d) db1 = Inr db'"
    and e: "find_event (d_tenant_id d) (d_event_id d) db' = Some e" "event_from_row e = Inr (c_event c)"
    by (auto simp: claim_one_def and_then_Inr_iff Let_def split: option.splits)
  from up have "events db' = events db" by (auto simp: update_delivery_Inr insert_attempt_Inr)
  with find_event_Some [OF e(1)] e(2) show ?thesis by (auto simp: claims_stored_def)
qed

lemma claim_loop_stored:
  assumes "claim_loop now batch per fresh ds n counts cs db = Inr (db', cs')" and "claims_stored db cs"
  shows "claims_stored db cs'"
  using assms
proof (induction ds arbitrary: n counts cs db)
  case (Cons d ds)
  have keep: "claims_stored db cs'"
    if "claim_loop now batch per fresh ds m counts1 cs db1 = Inr (db', cs')" "events db1 = events db" for m counts1 db1
    using Cons.IH [OF that(1)] Cons.prems(2) unfolding claims_stored_same [OF that(2)] by blast
  have one: "claims_stored db cs'"
    if "claim_one now (fresh n) (fresh (Suc n)) policy d db = Inr (db1, c)"
      "claim_loop now batch per fresh ds m counts1 (cs @ [c]) db1 = Inr (db', cs')" for policy db1 c m counts1
  proof -
    have ev: "events db1 = events db" and c: "claims_stored db [c]" using claim_one_stored [OF that(1)] by blast+
    have "claims_stored db1 (cs @ [c])" unfolding claims_stored_same [OF ev] claims_stored_append using Cons.prems(2) c by blast
    from Cons.IH [OF that(2) this] show ?thesis unfolding claims_stored_same [OF ev] .
  qed
  consider (stop) "batch \<le> int (length cs)"
    | (skip) "\<not> batch \<le> int (length cs)" "per \<le> int (count_list counts (d_tenant_id d))"
    | (work) "\<not> batch \<le> int (length cs)" "\<not> per \<le> int (count_list counts (d_tenant_id d))"
    by blast
  then show ?case
  proof cases
    case stop
    then show ?thesis using Cons.prems by simp
  next
    case skip
    then have "claim_loop now batch per fresh ds n counts cs db = Inr (db', cs')" using Cons.prems(1) by simp
    then show ?thesis by (rule keep) simp
  next
    case work
    then obtain policy deadline where pd: "snapshot_policy (d_route_snapshot d) = Inr policy"
      "delivery_deadline policy (Aware (d_created_at d)) = Inr deadline"
      using Cons.prems(1) by (auto simp: and_then_Inr_iff)
    show ?thesis
    proof (cases "deadline \<le> now")
      case True
      then obtain db1 where "update_delivery (expired_row now d) db = Inr db1"
        "claim_loop now batch per fresh ds n counts cs db1 = Inr (db', cs')"
        using Cons.prems(1) work pd by (auto simp: and_then_Inr_iff)
      then show ?thesis using keep [of n counts db1] by (auto simp: update_delivery_Inr)
    next
      case False
      then obtain db1 c where "claim_one now (fresh n) (fresh (Suc n)) policy d db = Inr (db1, c)"
        "claim_loop now batch per fresh ds (Suc (Suc n)) (d_tenant_id d # counts) (cs @ [c]) db1 = Inr (db', cs')"
        using Cons.prems(1) work pd by (auto simp: and_then_Inr_iff)
      then show ?thesis by (rule one)
    qed
  qed
qed (auto simp: claims_stored_def)

lemma claim_stored:
  assumes "claim busy batch per now clock fresh locked db = (db', Inr cs)"
  shows "claims_stored db cs"
proof -
  from assms obtain t ds where "claim_loop t batch per fresh ds 0 [] [] db = Inr (db', cs)"
    by (auto simp: claim_def transaction_cases claim_body_def and_then_Inr_iff)
  then show ?thesis by (rule claim_loop_stored) (simp add: claims_stored_def)
qed

lemma event_from_row_key: "event_from_row r = Inr x \<Longrightarrow> event_key r = (er_tenant_id x, er_event_id x)"
  by (auto simp: event_from_row_def and_then_Inr_iff event_record_post_init_Inr event_key_def)

lemma insert_deliveries_events: "insert_deliveries rs db = Inr db' \<Longrightarrow> events db' = events db"
  by (induction rs arbitrary: db) (auto simp: and_then_Inr_iff insert_delivery_Inr)

lemma published_record:
  assumes "publish frepr sha256 p e routes now fresh d db = Inr (db', rec)" and "events db' \<noteq> events db"
  obtains b row where "canonical_json_bytes frepr (default_max_payload_bytes - int (length canonical_prefix)) (ev_data e) = Inr b"
    "er_payload_canonical rec = canonical_prefix @ b" "er_event_type rec = ev_type e" "er_event_version rec = ev_version e"
    "en_tenant_id (er_principal rec) = p_tenant_id p" "row \<in> set (events db')" "event_from_row row = Inr rec"
  using assms(1)
proof (cases rule: publish_cases)
  case (fresh_event row rows)
  have "events db' = events db @ [row]" using insert_deliveries_events [OF fresh_event(4)] by simp
  then have "row \<in> set (events db')" by simp
  moreover obtain b where "canonical_json_bytes frepr (default_max_payload_bytes - int (length canonical_prefix)) (ev_data e) = Inr b"
    "e_payload_canonical row = canonical_prefix @ b" "e_event_type row = ev_type e" "e_event_version row = ev_version e"
    "en_tenant_id (e_principal row) = p_tenant_id p"
    using fresh_event(1)
    by (auto simp: event_values_def and_then_Inr_iff versioned_canonical_bytes_Inr to_envelope_def envelope_post_init_def)
  moreover have "er_payload_canonical rec = e_payload_canonical row" "er_event_type rec = e_event_type row"
    "er_event_version rec = e_event_version row" "en_tenant_id (er_principal rec) = en_tenant_id (e_principal row)"
    using fresh_event(5) by (auto simp: event_from_row_def and_then_Inr_iff envelope_post_init_def event_record_post_init_Inr)
  ultimately show thesis using that [of b row] fresh_event(5) by simp
qed (use assms(2) in simp)

lemma prepared_event:
  assumes "prepare_execution g resolver fparse stack now c = Inr (h, x, limit)"
  shows "strict_json_loads fparse stack default_max_payload_bytes
      (drop (length canonical_prefix) (er_payload_canonical (c_event c))) = Inr (ev_data (x_event x)) \<and>
    ev_type (x_event x) = er_event_type (c_event c) \<and> ev_version (x_event x) = er_event_version (c_event c) \<and>
    p_tenant_id (x_principal x) = en_tenant_id (er_principal (c_event c))"
proof -
  from assms obtain origin authority payload where
      o: "from_envelope (er_principal (c_event c)) = Inr origin"
    and e: "effective_principal resolver now origin authority = Inr (x_principal x)"
    and l: "strict_json_loads fparse stack default_max_payload_bytes
      (drop (length canonical_prefix) (er_payload_canonical (c_event c))) = Inr payload"
    and x: "event_post_init (event_of_record (c_event c)\<lparr>ev_data := payload\<rparr>) = Inr (x_event x)"
    unfolding prepare_execution_def Let_def effect_context_post_init_def
    by (auto simp: and_then_Inr_iff split: if_splits)
  from x have "x_event x = event_of_record (c_event c)\<lparr>ev_data := payload\<rparr>" by (simp add: event_post_init_Inr)
  with o l effective_authority_tenant [OF e] show ?thesis
    by (auto simp: from_envelope_def principal_post_init_Inr principal_of_envelope_def event_of_record_def)
qed

text \<open>
  C13. A handler receives what was published: when an event was stored by a publication, then after any sequence of
  operations, every claim of that event that is prepared for execution gives the handler the emitted value up to member
  order, the emitted event type and version, and a principal of the publisher's tenant.
\<close>

theorem published_payload_reaches_handler:
  assumes "lease_inv db" and "publish frepr sha256 p e routes now fresh d db = Inr (db1, rec)" and "events db1 \<noteq> events db"
    and "(effect_step frepr sha256)\<^sup>*\<^sup>* db1 db2"
    and "claim busy batch per later clock tokens locked db2 = (db3, Inr cs)" and "c \<in> set cs"
    and "er_tenant_id (c_event c) = er_tenant_id rec" and "er_event_id (c_event c) = er_event_id rec"
    and "floats_read_back frepr fparse (ev_data e)" and "65 \<le> stack"
    and "prepare_execution g resolver fparse stack start c = Inr (h, x, limit)"
  shows "json_same (ev_data e) (ev_data (x_event x)) \<and> ev_type (x_event x) = ev_type e \<and>
    ev_version (x_event x) = ev_version e \<and> p_tenant_id (x_principal x) = p_tenant_id p"
proof -
  from published_record [OF assms(2,3)] obtain b row where
      b: "canonical_json_bytes frepr (default_max_payload_bytes - int (length canonical_prefix)) (ev_data e) = Inr b"
      "er_payload_canonical rec = canonical_prefix @ b" "er_event_type rec = ev_type e" "er_event_version rec = ev_version e"
      "en_tenant_id (er_principal rec) = p_tenant_id p"
    and row: "row \<in> set (events db1)" "event_from_row row = Inr rec" .
  have inv1: "lease_inv db1" using effect_step_inv [OF assms(1) published [OF assms(2)]] .
  have inv2: "lease_inv db2" using effects.inv_steps [OF assms(4) inv1] .
  have row2: "row \<in> set (events db2)" using moves_keep_events [OF effect_steps_moves [OF assms(4) inv1]] row(1) by blast
  obtain row' where row': "row' \<in> set (events db2)" "event_from_row row' = Inr (c_event c)"
    using claim_stored [OF assms(5)] assms(6) by (auto simp: claims_stored_def)
  have "row' = row"
    using unique_row [of event_key "events db2" row row'] row2 row' event_from_row_key [OF row(2)] event_from_row_key [OF row'(2)]
      lease_inv_schema [OF inv2] assms(7,8) by (simp add: schema_ok_def)
  then have c: "c_event c = rec" using row(2) row'(2) by simp
  have "int (length b) \<le> default_max_payload_bytes" using b(1) by (auto simp: canonical_json_bytes_Inr)
  from canonical_reads_back [OF b(1) assms(9,10) this] prepared_event [OF assms(11)] b(2-5) c
  show ?thesis by auto
qed

definition sample_dispatch :: registry where
  "sample_dispatch = new_registry\<lparr>reg_handlers := [((''email'', 1), Handler 7 True)], reg_frozen := True\<rparr>"

abbreviation "sample_prepared \<equiv>
  prepare_execution sample_dispatch (Some (\<lambda>_ _ _. Inr [])) (\<lambda>_. Fin 1) 65 (Aware 21) sample_claimed"

theorem published_payload_reaches_handler_witness:
  "\<exists>h x limit. sample_prepared = Inr (h, x, limit) \<and> json_same (ev_data sample_event) (ev_data (x_event x)) \<and>
     p_tenant_id (x_principal x) = 9"
proof -
  have "returns sample_prepared" by code_simp
  then obtain h x limit where x: "sample_prepared = Inr (h, x, limit)" by (auto simp: returns_iff)
  have inv: "lease_inv empty_db" by (simp add: lease_inv_empty)
  have new: "events sample_db1 \<noteq> events empty_db" by (simp add: sample_db1_def empty_db_def)
  have c: "c_event sample_claimed = projr (event_from_row sample_event_row)" by (simp add: sample_claimed_def)
  have "floats_read_back (\<lambda>_. ''1.0'') (\<lambda>_. Fin 1) (ev_data sample_event)" by (simp add: sample_event_def)
  then show ?thesis
    using published_payload_reaches_handler [OF inv sample_published [unfolded sample_publish_def] new _ sample_claims _ _ _ _ _ x] x c
    by (auto simp: sample_principal_def)
qed

end
